(* ===== verification/Prelude.thy ===== *)
theory Prelude
  imports Main "HOL-Library.Monad_Syntax"
begin

text \<open>
  Shared ground of the development: the type synonyms every component uses, the fact
  collections that carry the component proofs, Go's string helpers (\<open>strings.TrimSpace\<close>,
  \<open>strings.Join\<close>, \<open>strings.Split\<close>) over byte strings, and generic lemmas on lists.

  A Go \<open>string\<close>, \<open>[]byte\<close> or \<open>json.RawMessage\<close> is a list of bytes, here \<open>string\<close>
  (\<open>char list\<close>, one \<open>char\<close> per byte), so \<open>len(s)\<close> is \<open>length s\<close>. A Go \<open>error\<close>
  result is \<open>'e option\<close> (\<open>None\<close> is \<open>nil\<close>); a pair \<open>(T, error)\<close> whose value is not used
  on error is \<open>'e + 'a\<close>. A \<open>time.Time\<close> is its distance in nanoseconds from Go's zero
  time, so \<open>IsZero\<close> is \<open>t = 0\<close>.
\<close>

named_theorems frame \<open>which fields an operation leaves unchanged\<close>
named_theorems inv_intros \<open>an operation keeps an invariant\<close>
named_theorems step_simps \<open>evaluation of one operation on its branches\<close>

type_synonym bytes = string
type_synonym time = int

definition zero_time :: time where
  "zero_time = 0"

text \<open>\<open>time.Time.UnixMilli\<close>: milliseconds since 1970; year 1 is 62135596800 seconds earlier.\<close>

definition unix_milli :: "time \<Rightarrow> int" where
  "unix_milli t = t div 1000000 - 62135596800000"

subsection \<open>Byte strings\<close>

text \<open>The UTF-8 encodings of the code points that \<open>unicode.IsSpace\<close> accepts.\<close>

definition byte :: "nat \<Rightarrow> char" where
  "byte n = char_of n"

definition space_codes :: "string list" where
  "space_codes =
     [[byte 9], [byte 10], [byte 11], [byte 12], [byte 13], [byte 32],
      [byte 194, byte 133], [byte 194, byte 160], [byte 225, byte 154, byte 128]] @
     map (\<lambda>k. [byte 226, byte 128, byte k]) ([128..<139] @ [168, 169, 175]) @
     [[byte 226, byte 129, byte 159], [byte 227, byte 128, byte 128]]"

fun strip_prefix :: "string \<Rightarrow> string \<Rightarrow> string option" where
  "strip_prefix [] s = Some s"
| "strip_prefix (p # ps) [] = None"
| "strip_prefix (p # ps) (c # cs) = (if p = c then strip_prefix ps cs else None)"

fun strip_one :: "string list \<Rightarrow> string \<Rightarrow> string option" where
  "strip_one [] s = None"
| "strip_one (p # ps) s =
     (case strip_prefix p s of Some r \<Rightarrow> Some r | None \<Rightarrow> strip_one ps s)"

fun trim_left_fuel :: "string list \<Rightarrow> nat \<Rightarrow> string \<Rightarrow> string" where
  "trim_left_fuel ps 0 s = s"
| "trim_left_fuel ps (Suc n) s =
     (case strip_one ps s of None \<Rightarrow> s | Some r \<Rightarrow> trim_left_fuel ps n r)"

text \<open>
  \<open>strings.TrimSpace\<close>. Every space code is a whole UTF-8 sequence, so removing one from an end
  of the string is removing its bytes there; the number of removals is at most the length.
\<close>

definition trim_left :: "string list \<Rightarrow> string \<Rightarrow> string" where
  "trim_left ps s = trim_left_fuel ps (length s) s"

definition trim_space :: "string \<Rightarrow> string" where
  "trim_space s = rev (trim_left (map rev space_codes) (rev (trim_left space_codes s)))"

fun join :: "string \<Rightarrow> string list \<Rightarrow> string" where
  "join sep [] = []"
| "join sep [x] = x"
| "join sep (x # y # ys) = x @ sep @ join sep (y # ys)"

text \<open>\<open>strings.Split(s, c)\<close> for a one-byte separator: always at least one piece.\<close>

fun split_on :: "char \<Rightarrow> string \<Rightarrow> string list" where
  "split_on c [] = [[]]"
| "split_on c (x # xs) =
     (if x = c then [] # split_on c xs
      else (case split_on c xs of [] \<Rightarrow> [[x]] | y # ys \<Rightarrow> (x # y) # ys))"

lemma strip_prefix_Some_iff: "strip_prefix p s = Some r \<longleftrightarrow> s = p @ r"
  by (induction p s rule: strip_prefix.induct) auto

lemma strip_one_Some: "strip_one ps s = Some r \<Longrightarrow> \<exists>p \<in> set ps. s = p @ r"
  by (induction ps) (auto simp: strip_prefix_Some_iff split: option.splits)

lemma strip_one_None: "strip_one ps s = None \<longleftrightarrow> (\<forall>p \<in> set ps. \<forall>r. s \<noteq> p @ r)"
  by (induction ps)
    (auto simp: strip_prefix_Some_iff split: option.splits,
     metis not_Some_eq strip_prefix_Some_iff)

lemma trim_left_fuel_suffix: "\<exists>p. s = p @ trim_left_fuel ps n s"
proof (induction n arbitrary: s)
  case 0
  then show ?case by simp
next
  case (Suc n)
  show ?case
  proof (cases "strip_one ps s")
    case None
    then show ?thesis by simp
  next
    case (Some r)
    then obtain p where "s = p @ r" by (auto dest: strip_one_Some)
    moreover obtain q where "r = q @ trim_left_fuel ps n r" using Suc by blast
    ultimately have "s = (p @ q) @ trim_left_fuel ps n r" by simp
    with Some show ?thesis by (metis option.simps(5) trim_left_fuel.simps(2))
  qed
qed

lemma trim_left_fuel_done:
  "[] \<notin> set ps \<Longrightarrow> length s \<le> n \<Longrightarrow> strip_one ps (trim_left_fuel ps n s) = None"
proof (induction n arbitrary: s)
  case 0
  then show ?case by (auto simp: strip_one_None)
next
  case (Suc n)
  show ?case
  proof (cases "strip_one ps s")
    case None
    then show ?thesis by simp
  next
    case (Some r)
    then obtain p where "p \<in> set ps" "s = p @ r" by (auto dest: strip_one_Some)
    with Suc.prems have "length r \<le> n" by (cases p) auto
    with Suc.IH Suc.prems Some show ?thesis by simp
  qed
qed

lemma space_codes_nonempty: "[] \<notin> set space_codes"
  by (auto simp: space_codes_def)

lemma trim_left_done: "[] \<notin> set ps \<Longrightarrow> strip_one ps (trim_left ps s) = None"
  by (simp add: trim_left_def trim_left_fuel_done)

lemma split_on_nonempty [simp]: "split_on c s \<noteq> []"
  by (induction s) (auto split: list.splits)

lemma join_split_on: "join [c] (split_on c s) = s"
proof (induction s)
  case Nil
  then show ?case by simp
next
  case (Cons x xs)
  obtain y ys where eq: "split_on c xs = y # ys"
    by (metis split_on_nonempty neq_Nil_conv)
  with Cons show ?case by (cases ys) auto
qed

lemma length_join:
  "xs \<noteq> [] \<Longrightarrow> length (join sep xs) = sum_list (map length xs) + length sep * (length xs - 1)"
  by (induction sep xs rule: join.induct) (auto simp: algebra_simps)

lemma join_append:
  "xs \<noteq> [] \<Longrightarrow> ys \<noteq> [] \<Longrightarrow> join sep (xs @ ys) = join sep xs @ sep @ join sep ys"
proof (induction sep xs rule: join.induct)
  case (2 sep x)
  then show ?case by (cases ys) auto
qed auto

subsection \<open>Lists\<close>

text \<open>The position of the last element that satisfies a predicate, as the code's downward loops find it.\<close>

fun last_index :: "('a \<Rightarrow> bool) \<Rightarrow> 'a list \<Rightarrow> nat option" where
  "last_index p [] = None"
| "last_index p (x # xs) =
     (case last_index p xs of
        Some i \<Rightarrow> Some (Suc i)
      | None \<Rightarrow> if p x then Some 0 else None)"

fun first_index :: "('a \<Rightarrow> bool) \<Rightarrow> 'a list \<Rightarrow> nat option" where
  "first_index p [] = None"
| "first_index p (x # xs) = (if p x then Some 0 else map_option Suc (first_index p xs))"

lemma last_index_None: "last_index p xs = None \<longleftrightarrow> (\<forall>x \<in> set xs. \<not> p x)"
  by (induction xs) (auto split: option.splits)

lemma last_index_Some:
  "last_index p xs = Some i \<Longrightarrow>
     i < length xs \<and> p (xs ! i) \<and> (\<forall>j. i < j \<longrightarrow> j < length xs \<longrightarrow> \<not> p (xs ! j))"
proof (induction xs arbitrary: i)
  case Nil
  then show ?case by simp
next
  case (Cons x xs)
  show ?case
  proof (cases "last_index p xs")
    case None
    with Cons.prems have i: "i = 0" "p x" by (auto split: if_splits)
    from None have "\<forall>y \<in> set xs. \<not> p y" by (simp add: last_index_None)
    with i show ?thesis by (auto simp: nth_Cons split: nat.splits)
  next
    case (Some k)
    with Cons.prems have i: "i = Suc k" by simp
    from Cons.IH [OF Some] i show ?thesis by (auto simp: nth_Cons split: nat.splits)
  qed
qed

lemma first_index_None: "first_index p xs = None \<longleftrightarrow> (\<forall>x \<in> set xs. \<not> p x)"
  by (induction xs) auto

lemma first_index_Some:
  "first_index p xs = Some i \<Longrightarrow>
     i < length xs \<and> p (xs ! i) \<and> (\<forall>j < i. \<not> p (xs ! j))"
proof (induction xs arbitrary: i)
  case Nil
  then show ?case by simp
next
  case (Cons x xs)
  then show ?case
    by (auto simp: nth_Cons split: if_splits nat.splits)
qed

lemma last_index_append:
  "last_index p (xs @ ys) =
     (case last_index p ys of
        Some i \<Rightarrow> Some (length xs + i) | None \<Rightarrow> last_index p xs)"
  by (induction xs) (auto split: option.splits)

lemma distinct_rotate_front: "distinct (xs @ [x]) \<Longrightarrow> distinct (x # xs)"
  by auto

lemma takeWhile_shorter: "\<exists>x \<in> set xs. \<not> P x \<Longrightarrow> length (takeWhile P xs) < length xs"
  by (induction xs) auto


definition remove_nth :: "nat \<Rightarrow> 'a list \<Rightarrow> 'a list" where
  "remove_nth n xs = take n xs @ drop (Suc n) xs"

lemma set_remove_nth: "x \<in> set (remove_nth n xs) \<Longrightarrow> x \<in> set xs"
  by (auto simp: remove_nth_def dest: in_set_takeD in_set_dropD)

lemma remove_nth_split: "n < length xs \<Longrightarrow> xs = take n xs @ xs ! n # drop (Suc n) xs"
  by (simp add: id_take_nth_drop)

lemma count_remove_nth:
  "n < length xs \<Longrightarrow> count_list xs y = count_list (remove_nth n xs) y + (if xs ! n = y then 1 else 0)"
  by (subst (1) remove_nth_split [of n xs]) (simp_all add: remove_nth_def)

end
