(* ===== verification/JsonScan.thy ===== *)
theory JsonScan
  imports Prelude
begin

text \<open>
  What the code uses of \<open>encoding/json\<close> on raw bytes: \<open>json.Valid\<close> and the test that a raw
  value is a non-null object (\<open>aiutils.IsJSONObject\<close>). Go's validity check is one pass of a
  byte-driven scanner with a stack of open containers, at most 10000 deep; the scanner is
  modelled state by state, so validity is a fold over the bytes and needs no fuel.
\<close>

datatype container = ObjectKey | ObjectValue | ArrayValue

datatype scan_state =
    BeginValue | BeginValueOrEmpty | BeginStringOrEmpty | BeginString
  | EndValue | EndTop
  | InString | InStringEsc | InStringEscU nat
  | NumNeg | NumZero | NumInt | NumDot | NumFrac | NumE | NumESign | NumExp
  | InLiteral string
  | ScanError

type_synonym scanner = "scan_state \<times> container list"

definition max_nesting_depth :: nat where
  "max_nesting_depth = 10000"

definition is_json_space :: "char \<Rightarrow> bool" where
  "is_json_space c \<longleftrightarrow> c = byte 32 \<or> c = byte 9 \<or> c = byte 13 \<or> c = byte 10"

definition is_digit :: "char \<Rightarrow> bool" where
  "is_digit c \<longleftrightarrow> 48 \<le> (of_char c :: nat) \<and> (of_char c :: nat) \<le> 57"

definition is_hex :: "char \<Rightarrow> bool" where
  "is_hex c \<longleftrightarrow> is_digit c \<or> c \<in> set ''abcdefABCDEF''"

definition scan_fail :: "scanner \<Rightarrow> scanner" where
  "scan_fail s = (ScanError, snd s)"

definition push_state :: "scan_state \<Rightarrow> container \<Rightarrow> container list \<Rightarrow> scanner" where
  "push_state next k stack =
     (if Suc (length stack) \<le> max_nesting_depth then (next, k # stack) else (ScanError, k # stack))"

definition pop_state :: "container list \<Rightarrow> scanner" where
  "pop_state stack = (if tl stack = [] then (EndTop, []) else (EndValue, tl stack))"

definition end_value :: "char \<Rightarrow> container list \<Rightarrow> scanner" where
  "end_value c stack =
     (case stack of
        [] \<Rightarrow> if is_json_space c then (EndTop, []) else (ScanError, [])
      | k # rest \<Rightarrow>
          if is_json_space c then (EndValue, stack)
          else (case k of
                  ObjectKey \<Rightarrow>
                    if c = CHR '':'' then (BeginValue, ObjectValue # rest) else (ScanError, stack)
                | ObjectValue \<Rightarrow>
                    if c = CHR '','' then (BeginString, ObjectKey # rest)
                    else if c = CHR ''}'' then pop_state stack else (ScanError, stack)
                | ArrayValue \<Rightarrow>
                    if c = CHR '','' then (BeginValue, stack)
                    else if c = CHR '']'' then pop_state stack else (ScanError, stack)))"

definition begin_value :: "char \<Rightarrow> container list \<Rightarrow> scanner" where
  "begin_value c stack =
     (if is_json_space c then (BeginValue, stack)
      else if c = CHR ''{'' then push_state BeginStringOrEmpty ObjectKey stack
      else if c = CHR ''['' then push_state BeginValueOrEmpty ArrayValue stack
      else if c = byte 34 then (InString, stack)
      else if c = CHR ''-'' then (NumNeg, stack)
      else if c = CHR ''0'' then (NumZero, stack)
      else if is_digit c then (NumInt, stack)
      else if c = CHR ''t'' then (InLiteral ''rue'', stack)
      else if c = CHR ''f'' then (InLiteral ''alse'', stack)
      else if c = CHR ''n'' then (InLiteral ''ull'', stack)
      else (ScanError, stack))"

definition begin_string :: "char \<Rightarrow> container list \<Rightarrow> scanner" where
  "begin_string c stack =
     (if is_json_space c then (BeginString, stack)
      else if c = byte 34 then (InString, stack) else (ScanError, stack))"

definition after_int :: "char \<Rightarrow> container list \<Rightarrow> scanner" where
  "after_int c stack =
     (if c = CHR ''.'' then (NumDot, stack)
      else if c = CHR ''e'' \<or> c = CHR ''E'' then (NumE, stack)
      else end_value c stack)"

fun scan_step :: "scanner \<Rightarrow> char \<Rightarrow> scanner" where
  "scan_step (BeginValue, st) c = begin_value c st"
| "scan_step (BeginValueOrEmpty, st) c =
     (if is_json_space c then (BeginValueOrEmpty, st)
      else if c = CHR '']'' then end_value c st else begin_value c st)"
| "scan_step (BeginStringOrEmpty, st) c =
     (if is_json_space c then (BeginStringOrEmpty, st)
      else if c = CHR ''}'' then end_value c (ObjectValue # tl st) else begin_string c st)"
| "scan_step (BeginString, st) c = begin_string c st"
| "scan_step (EndValue, st) c = end_value c st"
| "scan_step (EndTop, st) c = (if is_json_space c then (EndTop, st) else (ScanError, st))"
| "scan_step (InString, st) c =
     (if c = byte 34 then (EndValue, st)
      else if c = byte 92 then (InStringEsc, st)
      else if (of_char c :: nat) < 32 then (ScanError, st) else (InString, st))"
| "scan_step (InStringEsc, st) c =
     (if c \<in> set ''bfnrt/'' \<or> c = byte 92 \<or> c = byte 34 then (InString, st)
      else if c = CHR ''u'' then (InStringEscU 4, st) else (ScanError, st))"
| "scan_step (InStringEscU k, st) c =
     (if is_hex c then (if k \<le> 1 then (InString, st) else (InStringEscU (k - 1), st))
      else (ScanError, st))"
| "scan_step (NumNeg, st) c =
     (if c = CHR ''0'' then (NumZero, st)
      else if is_digit c then (NumInt, st) else (ScanError, st))"
| "scan_step (NumInt, st) c = (if is_digit c then (NumInt, st) else after_int c st)"
| "scan_step (NumZero, st) c = after_int c st"
| "scan_step (NumDot, st) c = (if is_digit c then (NumFrac, st) else (ScanError, st))"
| "scan_step (NumFrac, st) c =
     (if is_digit c then (NumFrac, st)
      else if c = CHR ''e'' \<or> c = CHR ''E'' then (NumE, st) else end_value c st)"
| "scan_step (NumE, st) c =
     (if c = CHR ''+'' \<or> c = CHR ''-'' then (NumESign, st)
      else if is_digit c then (NumExp, st) else (ScanError, st))"
| "scan_step (NumESign, st) c = (if is_digit c then (NumExp, st) else (ScanError, st))"
| "scan_step (NumExp, st) c = (if is_digit c then (NumExp, st) else end_value c st)"
| "scan_step (InLiteral ls, st) c =
     (case ls of
        [] \<Rightarrow> (ScanError, st)
      | l # rest \<Rightarrow>
          if c = l then (if rest = [] then (EndValue, st) else (InLiteral rest, st))
          else (ScanError, st))"
| "scan_step (ScanError, st) c = (ScanError, st)"

definition scan_bytes :: "scanner \<Rightarrow> bytes \<Rightarrow> scanner" where
  "scan_bytes = foldl scan_step"

text \<open>
  The scanner's \<open>eof\<close>: the value is complete if the scanner is past the top-level value, or one
  more space takes it there.
\<close>

definition json_valid :: "bytes \<Rightarrow> bool" where
  "json_valid bs = (fst (scan_step (scan_bytes (BeginValue, []) bs) (byte 32)) = EndTop)"

definition first_nonspace :: "bytes \<Rightarrow> char option" where
  "first_nonspace bs = (case dropWhile is_json_space bs of [] \<Rightarrow> None | c # _ \<Rightarrow> Some c)"

definition is_json_object :: "bytes \<Rightarrow> bool" where
  "is_json_object bs \<longleftrightarrow> json_valid bs \<and> first_nonspace bs = Some (CHR ''{'')"

lemma scan_bytes_simps [simp]:
  "scan_bytes s [] = s"
  "scan_bytes s (c # cs) = scan_bytes (scan_step s c) cs"
  by (simp_all add: scan_bytes_def)

lemma scan_bytes_append: "scan_bytes s (xs @ ys) = scan_bytes (scan_bytes s xs) ys"
  by (simp add: scan_bytes_def)

lemma scan_error_absorbs: "fst s = ScanError \<Longrightarrow> fst (scan_bytes s bs) = ScanError"
proof (induction bs arbitrary: s)
  case (Cons b bs)
  then show ?case by (cases s) simp
qed simp

lemma json_valid_nonempty: "json_valid bs \<Longrightarrow> bs \<noteq> []"
  by (auto simp: json_valid_def begin_value_def is_json_space_def byte_def)

lemma is_json_object_nonempty: "is_json_object bs \<Longrightarrow> bs \<noteq> []"
  by (simp add: is_json_object_def json_valid_nonempty)

lemma json_valid_trailing_space: "json_valid bs \<Longrightarrow> json_valid (bs @ [byte 32])"
  by (cases "scan_step (scan_bytes (BeginValue, []) bs) (byte 32)")
    (simp add: json_valid_def scan_bytes_append is_json_space_def)

end
