(* ===== verification/Protocol.thy ===== *)
theory Protocol
  imports JsonScan "HOL-Library.Word"
begin

text \<open>
  The agent model protocol of \<open>internal/agent/ai\<close>: content blocks, messages, tools, usage,
  assistant and agent events (\<open>types.go\<close>), their validation (\<open>content.go\<close>, \<open>message.go\<close>,
  \<open>event.go\<close>), the accessors the other packages use, and the token estimates of
  \<open>estimate.go\<close>. A Go interface value is a datatype with one constructor per dynamic type and
  one for the nil interface; a value held by pointer is modelled by the value it points to, since
  the code treats both forms alike. Values are immutable here, so the \<open>Clone*\<close> functions of
  \<open>clone.go\<close> are the identity and do not appear. An \<open>any\<close> that carries details is its JSON
  encoding; a \<open>float64\<close> is kept as its 64 bits, since nothing computes with it.
\<close>

subsection \<open>Content\<close>

record text_content =
  tcType :: string
  tcText :: string
  tcTextSignature :: string

record thinking_content =
  thType :: string
  thThinking :: string
  thThinkingSignature :: string
  thRedacted :: bool

record image_content =
  icType :: string
  icData :: string
  icMIMEType :: string
  icURL :: string
  icDetail :: string

record tool_call_content =
  ccType :: string
  ccID :: string
  ccName :: string
  ccArguments :: bytes
  ccThoughtSignature :: string

datatype content =
    NilContent
  | TextContent text_content
  | ThinkingContent thinking_content
  | ImageContent image_content
  | ToolCallContent tool_call_content

type_synonym content_list = "content list"

subsection \<open>Messages\<close>

datatype message_role = RoleUser | RoleAssistant | RoleToolResult

datatype stop_reason =
    StopReasonStop | StopReasonLength | StopReasonToolUse | StopReasonError | StopReasonAborted
  | StopReasonOther string

record usage_cost =
  coInput :: "64 word"
  coOutput :: "64 word"
  coCacheRead :: "64 word"
  coCacheWrite :: "64 word"
  coTotal :: "64 word"

record usage =
  usInput :: int
  usOutput :: int
  usCacheRead :: int
  usCacheWrite :: int
  usCacheWrite1h :: "int option"
  usReasoning :: "int option"
  usTotalTokens :: int
  usCost :: "usage_cost option"

record user_message =
  umRole :: string
  umContent :: content_list
  umTimestamp :: int

record assistant_message =
  amRole :: string
  amContent :: content_list
  amProvider :: string
  amModel :: string
  amResponseModel :: string
  amResponseID :: string
  amUsage :: usage
  amStopReason :: stop_reason
  amErrorMessage :: string
  amTimestamp :: int

record tool_result_message =
  rmRole :: string
  rmToolCallID :: string
  rmToolName :: string
  rmContent :: content_list
  rmDetails :: "bytes option"
  rmIsError :: bool
  rmTimestamp :: int

datatype agent_message =
    NilMessage
  | UserMessage user_message
  | AssistantMessage assistant_message
  | ToolResultMessage tool_result_message

type_synonym message_list = "agent_message list"

record tool_definition =
  tdName :: string
  tdDescription :: string
  tdParameters :: bytes

record tool_result =
  trContent :: content_list
  trDetails :: "bytes option"
  trTerminate :: bool

definition zero_usage :: usage where
  "zero_usage = \<lparr>usInput = 0, usOutput = 0, usCacheRead = 0, usCacheWrite = 0,
     usCacheWrite1h = None, usReasoning = None, usTotalTokens = 0, usCost = None\<rparr>"

subsection \<open>Validation errors\<close>

datatype validate_error =
    ErrTextContentType string
  | ErrThinkingContentType string
  | ErrImageContentType string
  | ErrImageRequiresDataOrURL
  | ErrToolCallContentType string
  | ErrToolCallRequiresID
  | ErrToolCallRequiresName
  | ErrToolCallRequiresArguments
  | ErrToolCallArgumentsInvalid
  | ErrToolCallArgumentsNotObject
  | ErrNilContent
  | ErrUserRole string
  | ErrAssistantRole string
  | ErrUnknownStopReason stop_reason
  | ErrToolResultRole string
  | ErrToolResultRequiresCallID
  | ErrToolResultRequiresName
  | ErrEventRequiresContentIndex
  | ErrEventRequiresDelta
  | ErrEventRequiresContent
  | ErrEventRequiresToolCall
  | ErrEventRequiresPartial
  | ErrDoneRequiresMessage
  | ErrDoneReason stop_reason
  | ErrErrorRequiresMessage
  | ErrErrorReason stop_reason
  | ErrUnknownAssistantEvent string
  | ErrUpdateRequiresMessage
  | ErrUpdateRequiresAssistantEvent
  | ErrToolStartRequiresCallID
  | ErrToolStartRequiresName
  | ErrToolStartRequiresArgs
  | ErrToolStartArgsNotObject

text \<open>
  Sequential checks: the first error wins, as in a chain of early returns.
\<close>

definition or_else :: "'e option \<Rightarrow> 'e option \<Rightarrow> 'e option" where
  "or_else a b = (case a of None \<Rightarrow> b | Some e \<Rightarrow> Some e)"

lemma or_else_None [simp]: "or_else a b = None \<longleftrightarrow> a = None \<and> b = None"
  by (auto simp: or_else_def split: option.splits)

lemma or_else_simps [simp]: "or_else None b = b" "or_else (Some e) b = Some e"
  by (simp_all add: or_else_def)

fun validate_text :: "text_content \<Rightarrow> validate_error option" where
  "validate_text c =
     (if tcType c \<noteq> '''' \<and> tcType c \<noteq> ''text'' then Some (ErrTextContentType (tcType c)) else None)"

fun validate_thinking :: "thinking_content \<Rightarrow> validate_error option" where
  "validate_thinking c =
     (if thType c \<noteq> '''' \<and> thType c \<noteq> ''thinking'' then Some (ErrThinkingContentType (thType c))
      else None)"

fun validate_image :: "image_content \<Rightarrow> validate_error option" where
  "validate_image c =
     (if icType c \<noteq> '''' \<and> icType c \<noteq> ''image'' then Some (ErrImageContentType (icType c))
      else if icData c = '''' \<and> icURL c = '''' then Some ErrImageRequiresDataOrURL
      else None)"

fun validate_tool_call :: "tool_call_content \<Rightarrow> validate_error option" where
  "validate_tool_call c =
     (if ccType c \<noteq> '''' \<and> ccType c \<noteq> ''toolCall'' then Some (ErrToolCallContentType (ccType c))
      else if ccID c = '''' then Some ErrToolCallRequiresID
      else if ccName c = '''' then Some ErrToolCallRequiresName
      else if length (ccArguments c) = 0 then Some ErrToolCallRequiresArguments
      else if \<not> json_valid (ccArguments c) then Some ErrToolCallArgumentsInvalid
      else if \<not> is_json_object (ccArguments c) then Some ErrToolCallArgumentsNotObject
      else None)"

fun validate_content :: "content \<Rightarrow> validate_error option" where
  "validate_content NilContent = Some ErrNilContent"
| "validate_content (TextContent c) = validate_text c"
| "validate_content (ThinkingContent c) = validate_thinking c"
| "validate_content (ImageContent c) = validate_image c"
| "validate_content (ToolCallContent c) = validate_tool_call c"

fun validate_content_list :: "content_list \<Rightarrow> validate_error option" where
  "validate_content_list [] = None"
| "validate_content_list (c # cs) =
     (case validate_content c of Some e \<Rightarrow> Some e | None \<Rightarrow> validate_content_list cs)"

definition is_stop_reason :: "stop_reason \<Rightarrow> bool" where
  "is_stop_reason r =
     (case r of
        StopReasonStop \<Rightarrow> True | StopReasonLength \<Rightarrow> True | StopReasonToolUse \<Rightarrow> True
      | StopReasonError \<Rightarrow> True | StopReasonAborted \<Rightarrow> True | StopReasonOther _ \<Rightarrow> False)"

definition validate_user :: "user_message \<Rightarrow> validate_error option" where
  "validate_user m =
     (if umRole m \<noteq> '''' \<and> umRole m \<noteq> ''user'' then Some (ErrUserRole (umRole m))
      else validate_content_list (umContent m))"

definition validate_assistant :: "assistant_message \<Rightarrow> validate_error option" where
  "validate_assistant m =
     (if amRole m \<noteq> '''' \<and> amRole m \<noteq> ''assistant'' then Some (ErrAssistantRole (amRole m))
      else if \<not> is_stop_reason (amStopReason m) then Some (ErrUnknownStopReason (amStopReason m))
      else validate_content_list (amContent m))"

definition validate_tool_result :: "tool_result_message \<Rightarrow> validate_error option" where
  "validate_tool_result m =
     (if rmRole m \<noteq> '''' \<and> rmRole m \<noteq> ''toolResult'' then Some (ErrToolResultRole (rmRole m))
      else if rmToolCallID m = '''' then Some ErrToolResultRequiresCallID
      else if rmToolName m = '''' then Some ErrToolResultRequiresName
      else validate_content_list (rmContent m))"

text \<open>
  \<open>Validate\<close> through the interface. The callers test for nil first, so the nil interface (a panic
  on a method call) is given no error here and is checked where the code checks it.
\<close>

fun validate_message :: "agent_message \<Rightarrow> validate_error option" where
  "validate_message NilMessage = None"
| "validate_message (UserMessage m) = validate_user m"
| "validate_message (AssistantMessage m) = validate_assistant m"
| "validate_message (ToolResultMessage m) = validate_tool_result m"

fun message_role_of :: "agent_message \<Rightarrow> message_role option" where
  "message_role_of NilMessage = None"
| "message_role_of (UserMessage m) = Some RoleUser"
| "message_role_of (AssistantMessage m) = Some RoleAssistant"
| "message_role_of (ToolResultMessage m) = Some RoleToolResult"

fun as_user_message :: "agent_message \<Rightarrow> user_message option" where
  "as_user_message (UserMessage m) = Some m"
| "as_user_message _ = None"

fun as_assistant_message :: "agent_message \<Rightarrow> assistant_message option" where
  "as_assistant_message (AssistantMessage m) = Some m"
| "as_assistant_message _ = None"

fun as_tool_result_message :: "agent_message \<Rightarrow> tool_result_message option" where
  "as_tool_result_message (ToolResultMessage m) = Some m"
| "as_tool_result_message _ = None"

definition new_text_content :: "string \<Rightarrow> content" where
  "new_text_content text = TextContent \<lparr>tcType = ''text'', tcText = text, tcTextSignature = ''''\<rparr>"

fun text_from_content :: "content_list \<Rightarrow> string" where
  "text_from_content [] = ''''"
| "text_from_content (TextContent c # cs) = tcText c @ text_from_content cs"
| "text_from_content (_ # cs) = text_from_content cs"

fun tool_calls_of_content :: "content_list \<Rightarrow> tool_call_content list" where
  "tool_calls_of_content [] = []"
| "tool_calls_of_content (ToolCallContent c # cs) = c # tool_calls_of_content cs"
| "tool_calls_of_content (_ # cs) = tool_calls_of_content cs"

definition tool_calls_from_assistant :: "assistant_message \<Rightarrow> tool_call_content list" where
  "tool_calls_from_assistant m = tool_calls_of_content (amContent m)"

subsection \<open>Token estimates\<close>

definition chars_per_token :: int where "chars_per_token = 4"
definition estimated_image_chars :: int where "estimated_image_chars = 4800"

definition estimate_tokens_for_chars :: "int \<Rightarrow> int" where
  "estimate_tokens_for_chars chars =
     (if chars \<le> 0 then 0 else (chars + chars_per_token - 1) div chars_per_token)"

definition estimate_text_tokens :: "string \<Rightarrow> int" where
  "estimate_text_tokens s = estimate_tokens_for_chars (int (length s))"

fun content_chars :: "content \<Rightarrow> int" where
  "content_chars NilContent = 0"
| "content_chars (TextContent c) = int (length (tcText c))"
| "content_chars (ThinkingContent c) = int (length (thThinking c))"
| "content_chars (ImageContent c) = estimated_image_chars"
| "content_chars (ToolCallContent c) = int (length (ccName c)) + int (length (ccArguments c))"

fun sum_content_chars :: "int \<Rightarrow> content_list \<Rightarrow> int" where
  "sum_content_chars chars [] = chars"
| "sum_content_chars chars (c # cs) = sum_content_chars (chars + content_chars c) cs"

definition estimate_content_tokens :: "content_list \<Rightarrow> int" where
  "estimate_content_tokens cs = estimate_tokens_for_chars (sum_content_chars 0 cs)"

fun estimate_message_tokens :: "agent_message \<Rightarrow> int" where
  "estimate_message_tokens NilMessage = 0"
| "estimate_message_tokens (UserMessage m) = estimate_content_tokens (umContent m)"
| "estimate_message_tokens (AssistantMessage m) = estimate_content_tokens (amContent m)"
| "estimate_message_tokens (ToolResultMessage m) = estimate_content_tokens (rmContent m)"

definition usage_context_tokens :: "usage \<Rightarrow> int" where
  "usage_context_tokens u =
     (if usTotalTokens u > 0 then usTotalTokens u
      else usInput u + usOutput u + usCacheRead u + usCacheWrite u)"

definition message_usage_tokens :: "agent_message \<Rightarrow> int" where
  "message_usage_tokens m =
     (case as_assistant_message m of
        None \<Rightarrow> 0
      | Some a \<Rightarrow>
          if amStopReason a = StopReasonError \<or> amStopReason a = StopReasonAborted then 0
          else usage_context_tokens (amUsage a))"

text \<open>\<open>latestAssistantUsage\<close>: the last message with a positive usage; its index and tokens.\<close>

definition latest_assistant_usage :: "message_list \<Rightarrow> (nat \<times> int) option" where
  "latest_assistant_usage ms =
     (case last_index (\<lambda>m. message_usage_tokens m > 0) ms of
        None \<Rightarrow> None
      | Some i \<Rightarrow> Some (i, message_usage_tokens (ms ! i)))"

fun sum_message_tokens :: "int \<Rightarrow> message_list \<Rightarrow> int" where
  "sum_message_tokens tokens [] = tokens"
| "sum_message_tokens tokens (m # ms) = sum_message_tokens (tokens + estimate_message_tokens m) ms"

fun sum_tool_tokens :: "int \<Rightarrow> tool_definition list \<Rightarrow> int" where
  "sum_tool_tokens tokens [] = tokens"
| "sum_tool_tokens tokens (t # ts) =
     sum_tool_tokens (tokens + estimate_text_tokens (tdName t) + estimate_text_tokens (tdDescription t)
        + estimate_text_tokens (tdParameters t)) ts"

record llm_context =
  lcSystemPrompt :: string
  lcMessages :: message_list
  lcTools :: "tool_definition list"

definition estimate_context_tokens :: "llm_context \<Rightarrow> int" where
  "estimate_context_tokens ctx =
     (case latest_assistant_usage (lcMessages ctx) of
        Some (i, tokens) \<Rightarrow> sum_message_tokens tokens (drop (Suc i) (lcMessages ctx))
      | None \<Rightarrow>
          sum_tool_tokens
            (sum_message_tokens (estimate_text_tokens (lcSystemPrompt ctx)) (lcMessages ctx))
            (lcTools ctx))"

lemma estimate_tokens_nonneg [simp]: "0 \<le> estimate_tokens_for_chars n"
  by (simp add: estimate_tokens_for_chars_def chars_per_token_def) linarith

lemma estimate_tokens_bounds:
  "0 \<le> n \<Longrightarrow> n \<le> 4 * estimate_tokens_for_chars n \<and> 4 * estimate_tokens_for_chars n \<le> n + 3"
  by (simp add: estimate_tokens_for_chars_def chars_per_token_def) linarith

lemma sum_content_chars_eq:
  "sum_content_chars n cs = n + sum_list (map content_chars cs)"
  by (induction cs arbitrary: n) simp_all

lemma content_chars_nonneg [simp]: "0 \<le> content_chars c"
  by (cases c) (simp_all add: estimated_image_chars_def)

lemma sum_content_chars_nonneg [simp]: "0 \<le> sum_content_chars 0 cs"
  by (simp add: sum_content_chars_eq, rule sum_list_nonneg, auto)

lemma estimate_message_tokens_nonneg [simp]: "0 \<le> estimate_message_tokens m"
  by (cases m) (simp_all add: estimate_content_tokens_def)

lemma sum_message_tokens_eq:
  "sum_message_tokens n ms = n + sum_list (map estimate_message_tokens ms)"
  by (induction ms arbitrary: n) simp_all

lemma validate_content_list_None:
  "validate_content_list cs = None \<longleftrightarrow> (\<forall>c \<in> set cs. validate_content c = None)"
  by (induction cs) (auto split: option.splits)

lemma set_tool_calls_of_content:
  "set (tool_calls_of_content cs) = {c. ToolCallContent c \<in> set cs}"
  by (induction cs rule: tool_calls_of_content.induct) auto

lemma as_user_message_iff: "as_user_message m = Some u \<longleftrightarrow> m = UserMessage u"
  by (cases m) auto

lemma as_assistant_message_iff: "as_assistant_message m = Some a \<longleftrightarrow> m = AssistantMessage a"
  by (cases m) auto

lemma as_tool_result_message_iff: "as_tool_result_message m = Some r \<longleftrightarrow> m = ToolResultMessage r"
  by (cases m) auto

end
