(* ===== verification/MessageSequence.thy ===== *)
theory MessageSequence
  imports Protocol
begin

text \<open>
  Analysis of a message history, \<open>internal/agent/runtime/session/message_sequence.go\<close>: every
  assistant message with tool calls must be followed at once by exactly one result per call id.
  The loop over the items is \<open>analyze_items\<close>, its inner loop over the results \<open>collect_results\<close>.
  \<open>complete_items\<close> states declaratively which histories are complete; the lemmas show that the
  analysis decides it, and that the prefix before a pending assistant message is complete.
\<close>

datatype sequence_error =
    ErrResultWithoutCall string
  | ErrResultUnmatched string
  | ErrResultDuplicate string
  | ErrResultsMissing nat nat

datatype message_sequence_status = SeqComplete | SeqIncomplete | SeqInvalid

record message_sequence_analysis =
  msaStatus :: message_sequence_status
  msaPending :: "nat option"
  msaErr :: "sequence_error option"

type_synonym sequence_item = "nat \<times> agent_message"

definition include_message_in_sequence :: "agent_message \<Rightarrow> bool" where
  "include_message_in_sequence m =
     (case as_assistant_message m of
        None \<Rightarrow> True
      | Some a \<Rightarrow> amStopReason a \<noteq> StopReasonError \<and> amStopReason a \<noteq> StopReasonAborted)"

fun visible_content :: "content \<Rightarrow> bool" where
  "visible_content (TextContent _) = True"
| "visible_content (ImageContent _) = True"
| "visible_content (ToolCallContent _) = True"
| "visible_content _ = False"

definition empty_assistant_message :: "agent_message \<Rightarrow> bool" where
  "empty_assistant_message m =
     (case as_assistant_message m of
        None \<Rightarrow> False
      | Some a \<Rightarrow> \<not> list_ex visible_content (amContent a))"

definition message_sequence_items :: "message_list \<Rightarrow> sequence_item list" where
  "message_sequence_items ms =
     filter (\<lambda>(i, m). include_message_in_sequence m \<and> \<not> empty_assistant_message m) (enumerate 0 ms)"

text \<open>The key set of a Go map, in the order of first insertion.\<close>

definition tool_call_id_set :: "content_list \<Rightarrow> string list" where
  "tool_call_id_set cs = remdups (map ccID (tool_calls_of_content cs))"

definition complete_message_sequence :: message_sequence_analysis where
  "complete_message_sequence = \<lparr>msaStatus = SeqComplete, msaPending = None, msaErr = None\<rparr>"

definition invalid_message_sequence :: "sequence_error \<Rightarrow> message_sequence_analysis" where
  "invalid_message_sequence e = \<lparr>msaStatus = SeqInvalid, msaPending = None, msaErr = Some e\<rparr>"

definition incomplete_message_sequence :: "nat \<Rightarrow> sequence_error \<Rightarrow> message_sequence_analysis" where
  "incomplete_message_sequence i e =
     \<lparr>msaStatus = SeqIncomplete, msaPending = Some i, msaErr = Some e\<rparr>"

fun collect_results ::
  "string list \<Rightarrow> string list \<Rightarrow> sequence_item list
     \<Rightarrow> sequence_error + (string list \<times> sequence_item list)" where
  "collect_results expected seen [] = Inr (seen, [])"
| "collect_results expected seen ((j, m) # rest) =
     (case as_tool_result_message m of
        None \<Rightarrow> Inr (seen, (j, m) # rest)
      | Some r \<Rightarrow>
          if rmToolCallID r \<notin> set expected then Inl (ErrResultUnmatched (rmToolCallID r))
          else if rmToolCallID r \<in> set seen then Inl (ErrResultDuplicate (rmToolCallID r))
          else collect_results expected (rmToolCallID r # seen) rest)"

lemma collect_results_length:
  "collect_results expected seen xs = Inr (seen', rest) \<Longrightarrow> length rest \<le> length xs"
  by (induction expected seen xs rule: collect_results.induct)
    (auto split: option.splits if_splits)

function analyze_items :: "sequence_item list \<Rightarrow> message_sequence_analysis" where
  "analyze_items [] = complete_message_sequence"
| "analyze_items ((i, m) # rest) =
     (case as_tool_result_message m of
        Some r \<Rightarrow> invalid_message_sequence (ErrResultWithoutCall (rmToolCallID r))
      | None \<Rightarrow>
          (case as_assistant_message m of
             None \<Rightarrow> analyze_items rest
           | Some a \<Rightarrow>
               (let expected = tool_call_id_set (amContent a) in
                if length expected = 0 then analyze_items rest
                else (case collect_results expected [] rest of
                        Inl e \<Rightarrow> invalid_message_sequence e
                      | Inr (seen, rest') \<Rightarrow>
                          if length seen \<noteq> length expected then
                            (if rest' = [] then
                               incomplete_message_sequence i
                                 (ErrResultsMissing (length expected) (length seen))
                             else invalid_message_sequence
                                 (ErrResultsMissing (length expected) (length seen)))
                          else analyze_items rest'))))"
  by pat_completeness auto
termination
  by (relation "measure length") (auto dest!: collect_results_length)

definition analyze_message_sequence :: "message_list \<Rightarrow> message_sequence_analysis" where
  "analyze_message_sequence ms = analyze_items (message_sequence_items ms)"

definition validate_message_sequence :: "message_list \<Rightarrow> sequence_error option" where
  "validate_message_sequence ms =
     (let analysis = analyze_message_sequence ms in
      if msaStatus analysis = SeqInvalid \<or> msaStatus analysis = SeqIncomplete
      then msaErr analysis else None)"

subsection \<open>What the analysis decides\<close>

text \<open>An item that starts no tool unit and is no tool result.\<close>

definition plain_item :: "agent_message \<Rightarrow> bool" where
  "plain_item m \<longleftrightarrow> as_tool_result_message m = None \<and>
     (\<forall>a. as_assistant_message m = Some a \<longrightarrow> tool_call_id_set (amContent a) = [])"

definition starts_with_result :: "sequence_item list \<Rightarrow> bool" where
  "starts_with_result xs =
     (case xs of [] \<Rightarrow> False | (j, m) # _ \<Rightarrow> as_tool_result_message m \<noteq> None)"

definition result_ids :: "sequence_item list \<Rightarrow> string list option" where
  "result_ids rs =
     (if list_all (\<lambda>(j, m). as_tool_result_message m \<noteq> None) rs
      then Some (map (\<lambda>(j, m). rmToolCallID (the (as_tool_result_message m))) rs) else None)"

inductive complete_items :: "sequence_item list \<Rightarrow> bool" where
  complete_Nil: "complete_items []"
| complete_plain: "plain_item m \<Longrightarrow> complete_items rest \<Longrightarrow> complete_items ((i, m) # rest)"
| complete_unit:
    "as_assistant_message m = Some a \<Longrightarrow> expected = tool_call_id_set (amContent a) \<Longrightarrow>
     expected \<noteq> [] \<Longrightarrow> result_ids rs = Some ids \<Longrightarrow> distinct ids \<Longrightarrow> set ids = set expected \<Longrightarrow>
     \<not> starts_with_result rest \<Longrightarrow> complete_items rest \<Longrightarrow>
     complete_items ((i, m) # rs @ rest)"

lemma distinct_tool_call_id_set [simp]: "distinct (tool_call_id_set cs)"
  by (simp add: tool_call_id_set_def)

lemma result_ids_Nil [simp]: "result_ids [] = Some []"
  by (simp add: result_ids_def)

lemma result_ids_Cons:
  "result_ids ((j, m) # rs) =
     (case as_tool_result_message m of
        None \<Rightarrow> None
      | Some r \<Rightarrow> map_option (Cons (rmToolCallID r)) (result_ids rs))"
  by (auto simp: result_ids_def split: option.splits)

lemma starts_with_result_simps [simp]:
  "\<not> starts_with_result []"
  "starts_with_result ((j, m) # xs) \<longleftrightarrow> as_tool_result_message m \<noteq> None"
  by (simp_all add: starts_with_result_def)

text \<open>The inner loop takes the longest run of results, provided they match and do not repeat.\<close>

lemma collect_results_iff:
  "collect_results expected seen xs = Inr (seen', rest) \<longleftrightarrow>
     (\<exists>rs ids. xs = rs @ rest \<and> result_ids rs = Some ids \<and> seen' = rev ids @ seen \<and>
        set ids \<subseteq> set expected \<and> distinct ids \<and> set ids \<inter> set seen = {} \<and>
        \<not> starts_with_result rest)"
proof (induction expected seen xs rule: collect_results.induct)
  case (1 expected seen)
  then show ?case by auto
next
  case (2 expected seen j m more)
  show ?case
  proof (cases "as_tool_result_message m")
    case None
    then have "rs = []" if "(j, m) # more = rs @ rest" "result_ids rs = Some ids" for rs ids
      using that by (cases rs) (auto simp: result_ids_Cons)
    with None show ?thesis by auto force
  next
    case (Some r)
    let ?id = "rmToolCallID r"
    have split: "(\<exists>rs ids. (j, m) # more = rs @ rest \<and> result_ids rs = Some ids \<and>
        P ids \<and> \<not> starts_with_result rest) \<longleftrightarrow>
      (\<exists>rs ids. more = rs @ rest \<and> result_ids rs = Some ids \<and> P (?id # ids) \<and>
        \<not> starts_with_result rest)" (is "?L \<longleftrightarrow> ?R") for P
    proof
      assume ?L
      then obtain rs ids where h: "(j, m) # more = rs @ rest" "result_ids rs = Some ids" "P ids"
        "\<not> starts_with_result rest" by blast
      with Some obtain rs' where "rs = (j, m) # rs'" by (cases rs) auto
      with h Some show ?R by (auto simp: result_ids_Cons)
    next
      assume ?R
      then obtain rs ids where h: "more = rs @ rest" "result_ids rs = Some ids" "P (?id # ids)"
        "\<not> starts_with_result rest" by blast
      with Some have "result_ids ((j, m) # rs) = Some (?id # ids)" by (simp add: result_ids_Cons)
      with h show ?L by (metis append_Cons)
    qed
    show ?thesis
    proof (cases "?id \<in> set expected \<and> ?id \<notin> set seen")
      case True
      with 2 Some have "collect_results expected (?id # seen) more = Inr (seen', rest) \<longleftrightarrow>
        (\<exists>rs ids. more = rs @ rest \<and> result_ids rs = Some ids \<and> seen' = rev ids @ ?id # seen \<and>
          set ids \<subseteq> set expected \<and> distinct ids \<and> set ids \<inter> set (?id # seen) = {} \<and>
          \<not> starts_with_result rest)" by simp
      with Some True split [of "\<lambda>ids. seen' = rev ids @ seen \<and> set ids \<subseteq> set expected \<and>
          distinct ids \<and> set ids \<inter> set seen = {}"]
      show ?thesis by (simp add: conj_assoc) blast
    next
      case False
      with Some split [of "\<lambda>ids. seen' = rev ids @ seen \<and> set ids \<subseteq> set expected \<and>
          distinct ids \<and> set ids \<inter> set seen = {}"]
      show ?thesis by (auto simp: conj_assoc)
    qed
  qed
qed

lemma ids_fill_expected:
  assumes "distinct ids" "set ids \<subseteq> set expected" "distinct expected"
  shows "length ids = length expected \<longleftrightarrow> set ids = set expected"
  using assms by (metis List.finite_set card_subset_eq distinct_card)

lemma complete_items_result: "complete_items ((j, m) # xs) \<Longrightarrow> as_tool_result_message m = None"
  by (cases rule: complete_items.cases)
    (auto simp: plain_item_def as_assistant_message_iff)

text \<open>A tool unit at the head of a complete history is unique: the results are those collected.\<close>

lemma complete_items_unit:
  assumes "as_assistant_message m = Some a" "tool_call_id_set (amContent a) \<noteq> []"
  shows "complete_items ((i, m) # xs) \<longleftrightarrow>
    (\<exists>seen rest. collect_results (tool_call_id_set (amContent a)) [] xs = Inr (seen, rest) \<and>
       length seen = length (tool_call_id_set (amContent a)) \<and> complete_items rest)"
proof
  assume "complete_items ((i, m) # xs)"
  then obtain rs ids rest where h: "xs = rs @ rest" "result_ids rs = Some ids" "distinct ids"
    "set ids = set (tool_call_id_set (amContent a))" "\<not> starts_with_result rest" "complete_items rest"
    by (cases rule: complete_items.cases) (use assms in \<open>auto simp: plain_item_def\<close>)
  then have "collect_results (tool_call_id_set (amContent a)) [] xs = Inr (rev ids, rest)"
    by (subst collect_results_iff) auto
  moreover have "length (rev ids) = length (tool_call_id_set (amContent a))"
    using ids_fill_expected [OF h(3), of "tool_call_id_set (amContent a)"] h(4) by simp
  ultimately show "\<exists>seen rest. collect_results (tool_call_id_set (amContent a)) [] xs
      = Inr (seen, rest) \<and> length seen = length (tool_call_id_set (amContent a)) \<and>
      complete_items rest"
    using h(6) by blast
next
  assume "\<exists>seen rest. collect_results (tool_call_id_set (amContent a)) [] xs = Inr (seen, rest) \<and>
       length seen = length (tool_call_id_set (amContent a)) \<and> complete_items rest"
  then obtain rs ids rest where h: "xs = rs @ rest" "result_ids rs = Some ids"
    "set ids \<subseteq> set (tool_call_id_set (amContent a))" "distinct ids" "\<not> starts_with_result rest"
    "length (rev ids) = length (tool_call_id_set (amContent a))" "complete_items rest"
    by (auto simp: collect_results_iff)
  then have "set ids = set (tool_call_id_set (amContent a))"
    using ids_fill_expected [OF h(4,3) distinct_tool_call_id_set] by simp
  with h assms show "complete_items ((i, m) # xs)"
    by (auto intro: complete_unit)
qed

lemma analysis_selectors [simp]:
  "msaStatus complete_message_sequence = SeqComplete"
  "msaPending complete_message_sequence = None"
  "msaErr complete_message_sequence = None"
  "msaStatus (invalid_message_sequence e) = SeqInvalid"
  "msaErr (invalid_message_sequence e) = Some e"
  "msaPending (invalid_message_sequence e) = None"
  "msaStatus (incomplete_message_sequence i e) = SeqIncomplete"
  "msaErr (incomplete_message_sequence i e) = Some e"
  "msaPending (incomplete_message_sequence i e) = Some i"
  by (simp_all add: complete_message_sequence_def invalid_message_sequence_def
      incomplete_message_sequence_def)

lemma plain_item_None:
  "as_tool_result_message m = None \<Longrightarrow> as_assistant_message m = None \<Longrightarrow> plain_item m"
  "as_tool_result_message m = None \<Longrightarrow> as_assistant_message m = Some a \<Longrightarrow>
     tool_call_id_set (amContent a) = [] \<Longrightarrow> plain_item m"
  by (simp_all add: plain_item_def)

inductive_cases complete_itemsE: "complete_items ((i, m) # xs)"

lemma complete_items_plain:
  "plain_item m \<Longrightarrow> complete_items ((i, m) # xs) \<longleftrightarrow> complete_items xs"
  by (auto elim: complete_itemsE intro: complete_plain simp: plain_item_def)

text \<open>The analysis answers complete exactly on the complete histories.\<close>

lemma analyze_items_complete:
  "msaStatus (analyze_items xs) = SeqComplete \<longleftrightarrow> complete_items xs"
proof (induction xs rule: analyze_items.induct)
  case 1
  then show ?case by (simp add: complete_Nil)
next
  case (2 i m rest)
  show ?case
  proof (cases "plain_item m")
    case True
    then have "analyze_items ((i, m) # rest) = analyze_items rest"
      by (auto simp: plain_item_def split: option.splits)
    moreover have "msaStatus (analyze_items rest) = SeqComplete \<longleftrightarrow> complete_items rest"
      using True 2 by (cases "as_assistant_message m") (auto simp: plain_item_def)
    ultimately show ?thesis using True by (simp add: complete_items_plain)
  next
    case False
    show ?thesis
    proof (cases "as_tool_result_message m")
      case (Some r)
      then show ?thesis by (auto dest: complete_items_result)
    next
      case None
      with False obtain a where a: "as_assistant_message m = Some a"
        "tool_call_id_set (amContent a) \<noteq> []"
        by (auto simp: plain_item_def)
      note unit = complete_items_unit [OF a, of i rest]
      show ?thesis
      proof (cases "collect_results (tool_call_id_set (amContent a)) [] rest")
        case (Inl e)
        with None a show ?thesis by (simp add: unit)
      next
        case (Inr q)
        obtain seen rest' where q: "q = (seen, rest')" by (cases q)
        show ?thesis
        proof (cases "length seen = length (tool_call_id_set (amContent a))")
          case True
          with 2(3) [OF None a(1) refl _ Inr q [symmetric]] a
          have "msaStatus (analyze_items rest') = SeqComplete \<longleftrightarrow> complete_items rest'" by simp
          with True None a Inr q show ?thesis by (simp add: unit)
        next
          case False
          with None a Inr q show ?thesis by (simp add: unit Let_def)
        qed
      qed
    qed
  qed
qed

text \<open>
  An incomplete history is a complete one followed by an assistant message some of whose calls
  have no result yet, and the results that did arrive; the pending index is that message's.
\<close>

lemma starts_with_result_append [simp]:
  "starts_with_result (xs @ ys) \<longleftrightarrow> (if xs = [] then starts_with_result ys else starts_with_result xs)"
  by (cases xs) auto

definition pending_split ::
  "sequence_item list \<Rightarrow> nat \<Rightarrow> sequence_item list \<Rightarrow> assistant_message \<Rightarrow> sequence_item list \<Rightarrow> bool" where
  "pending_split xs i pre a rs \<longleftrightarrow>
     xs = pre @ (i, AssistantMessage a) # rs \<and> complete_items pre \<and>
     (\<exists>ids. result_ids rs = Some ids \<and> distinct ids \<and> set ids \<subset> set (tool_call_id_set (amContent a)))"

lemma pending_split_head:
  "pending_split xs i pre a rs \<Longrightarrow> starts_with_result pre \<Longrightarrow> starts_with_result xs"
  by (auto simp: pending_split_def split: if_splits)

lemma analyze_items_incomplete:
  "msaStatus (analyze_items xs) = SeqIncomplete \<Longrightarrow>
     \<exists>i pre a rs. msaPending (analyze_items xs) = Some i \<and> pending_split xs i pre a rs"
proof (induction xs rule: analyze_items.induct)
  case 1
  then show ?case by simp
next
  case (2 i m rest)
  show ?case
  proof (cases "plain_item m")
    case True
    then have eq: "analyze_items ((i, m) # rest) = analyze_items rest"
      by (auto simp: plain_item_def split: option.splits)
    have "msaStatus (analyze_items rest) = SeqIncomplete \<Longrightarrow> \<exists>k pre a rs.
        msaPending (analyze_items rest) = Some k \<and> pending_split rest k pre a rs"
      using True 2(1,2) by (cases "as_assistant_message m") (auto simp: plain_item_def)
    with 2(4) eq obtain k pre a rs
      where "msaPending (analyze_items rest) = Some k" "pending_split rest k pre a rs" by auto
    with True eq have "msaPending (analyze_items ((i, m) # rest)) = Some k"
      "pending_split ((i, m) # rest) k ((i, m) # pre) a rs"
      by (auto simp: pending_split_def intro: complete_plain)
    then show ?thesis by blast
  next
    case False
    with 2(4) obtain a where a: "as_tool_result_message m = None" "as_assistant_message m = Some a"
      "tool_call_id_set (amContent a) \<noteq> []"
      by (auto simp: plain_item_def split: option.splits)
    let ?ids = "tool_call_id_set (amContent a)"
    from 2(4) a obtain seen rest' where q: "collect_results ?ids [] rest = Inr (seen, rest')"
      by (cases "collect_results ?ids [] rest") auto
    from q obtain rs ids where h: "rest = rs @ rest'" "result_ids rs = Some ids" "seen = rev ids"
      "set ids \<subseteq> set ?ids" "distinct ids" "\<not> starts_with_result rest'"
      by (auto simp: collect_results_iff)
    note fill = ids_fill_expected [OF h(5,4) distinct_tool_call_id_set]
    show ?thesis
    proof (cases "length seen = length ?ids")
      case True
      with a q have eq: "analyze_items ((i, m) # rest) = analyze_items rest'" by simp
      with 2(3) [OF a(1,2) refl _ q refl] 2(4) a True obtain k pre b ss
        where k: "msaPending (analyze_items rest') = Some k" "pending_split rest' k pre b ss" by auto
      then have pre: "\<not> starts_with_result pre" using h(6) pending_split_head by blast
      have ids: "set ids = set ?ids" using fill True h(3) by simp
      from k(2) have "complete_items pre" by (simp add: pending_split_def)
      from complete_unit [OF a(2) refl a(3) h(2,5) ids pre this]
      have "complete_items ((i, m) # rs @ pre)" .
      with k h have "pending_split ((i, m) # rest) k ((i, m) # rs @ pre) b ss"
        by (simp add: pending_split_def)
      with k eq show ?thesis by auto
    next
      case False
      with 2(4) a q have "rest' = []" by (auto simp: Let_def split: if_splits)
      with a h False fill have "pending_split ((i, m) # rest) i [] a rs"
        by (auto simp: pending_split_def as_assistant_message_iff complete_Nil)
      moreover have "msaPending (analyze_items ((i, m) # rest)) = Some i"
        using a q False \<open>rest' = []\<close> by (simp add: Let_def)
      ultimately show ?thesis by blast
    qed
  qed
qed

text \<open>The history itself: items are a sublist with indices, so a prefix of the items is the
  item list of a prefix of the messages.\<close>

lemma items_sorted:
  "sorted_wrt (\<lambda>x y. fst x < fst y) (message_sequence_items ms)"
  unfolding message_sequence_items_def
  by (rule sorted_wrt_filter) (simp add: sorted_wrt_iff_nth_less nth_enumerate_eq)

lemma items_index:
  "(i, m) \<in> set (message_sequence_items ms) \<Longrightarrow> i < length ms \<and> ms ! i = m"
  by (auto simp: message_sequence_items_def in_set_enumerate_eq)

lemma items_append:
  "message_sequence_items (xs @ ys) = message_sequence_items xs @
     map (\<lambda>(i, m). (i + length xs, m)) (message_sequence_items ys)"
proof -
  have "enumerate (length xs) ys = map (\<lambda>(i, m). (i + length xs, m)) (enumerate 0 ys)"
    by (rule nth_equalityI) (simp_all add: nth_enumerate_eq)
  then show ?thesis
    by (simp add: message_sequence_items_def enumerate_append_eq filter_map comp_def case_prod_unfold)
qed

lemma complete_items_shift:
  "complete_items xs \<Longrightarrow> complete_items (map (\<lambda>(i, m). (i + k, m)) xs)"
proof (induction rule: complete_items.induct)
  case (complete_unit m a expected rs ids rest i)
  have rs: "result_ids (map (\<lambda>(i, m). (i + k, m)) rs) = Some ids"
    using complete_unit.hyps(4)
    by (auto simp: result_ids_def list_all_iff comp_def case_prod_beta split: if_splits)
  have rest: "\<not> starts_with_result (map (\<lambda>(i, m). (i + k, m)) rest)"
    using complete_unit.hyps(7) by (cases rest) auto
  from complete_items.complete_unit [OF complete_unit.hyps(1-3) rs complete_unit.hyps(5,6) rest
      complete_unit.IH, of "i + k"]
  show ?case by simp
qed (auto intro: complete_items.intros)

lemma items_take:
  assumes "message_sequence_items ms = pre @ (i, m) # rest"
  shows "message_sequence_items (take i ms) = pre"
proof -
  have "(i, m) \<in> set (message_sequence_items ms)" by (simp add: assms)
  then have i: "i < length ms" "ms ! i = m" by (auto dest: items_index)
  have sorted: "sorted_wrt (\<lambda>x y. fst x < fst y) (pre @ (i, m) # rest)"
    using items_sorted [of ms] assms by simp
  have "message_sequence_items ms = message_sequence_items (take i ms) @
      map (\<lambda>(k, m). (k + i, m)) (message_sequence_items (drop i ms))"
    using items_append [of "take i ms" "drop i ms"] i by simp
  then have eq: "message_sequence_items (take i ms) @
      map (\<lambda>(k, m). (k + i, m)) (message_sequence_items (drop i ms)) = pre @ (i, m) # rest"
    using assms by simp
  have low: "\<forall>x \<in> set (message_sequence_items (take i ms)). fst x < i"
    using items_index [of _ _ "take i ms"] i by fastforce
  have high: "\<forall>x \<in> set (map (\<lambda>(k, m). (k + i, m)) (message_sequence_items (drop i ms))). \<not> fst x < i"
    by auto
  have pre_low: "\<forall>x \<in> set pre. fst x < i" and rest_high: "\<forall>x \<in> set ((i, m) # rest). \<not> fst x < i"
    using sorted by (auto simp: sorted_wrt_append)
  from low high have "takeWhile (\<lambda>x. fst x < i) (message_sequence_items (take i ms) @
      map (\<lambda>(k, m). (k + i, m)) (message_sequence_items (drop i ms))) = message_sequence_items (take i ms)"
    by (cases "map (\<lambda>(k, m). (k + i, m)) (message_sequence_items (drop i ms))")
      (auto simp: takeWhile_append)
  moreover from pre_low rest_high have "takeWhile (\<lambda>x. fst x < i) (pre @ (i, m) # rest) = pre"
    by (auto simp: takeWhile_append)
  ultimately show ?thesis using eq by simp
qed

lemma analyze_complete_iff:
  "msaStatus (analyze_message_sequence ms) = SeqComplete \<longleftrightarrow> complete_items (message_sequence_items ms)"
  by (simp add: analyze_message_sequence_def analyze_items_complete)

lemma analyze_incomplete_prefix:
  assumes "msaStatus (analyze_message_sequence ms) = SeqIncomplete"
  shows "\<exists>i a. msaPending (analyze_message_sequence ms) = Some i \<and> i < length ms \<and>
     ms ! i = AssistantMessage a \<and> tool_call_id_set (amContent a) \<noteq> [] \<and>
     msaStatus (analyze_message_sequence (take i ms)) = SeqComplete"
proof -
  from assms analyze_items_incomplete obtain i pre a rs
    where h: "msaPending (analyze_message_sequence ms) = Some i"
      "pending_split (message_sequence_items ms) i pre a rs"
    unfolding analyze_message_sequence_def by blast
  then have split: "message_sequence_items ms = pre @ (i, AssistantMessage a) # rs"
    and pre: "complete_items pre" and ne: "tool_call_id_set (amContent a) \<noteq> []"
    by (auto simp: pending_split_def)
  have "(i, AssistantMessage a) \<in> set (message_sequence_items ms)" by (simp add: split)
  then have "i < length ms" "ms ! i = AssistantMessage a" by (auto dest: items_index)
  moreover from items_take [OF split] pre
  have "msaStatus (analyze_message_sequence (take i ms)) = SeqComplete"
    by (simp add: analyze_complete_iff)
  ultimately show ?thesis using h(1) ne by blast
qed

lemma validate_message_sequence_None:
  "validate_message_sequence ms = None \<longleftrightarrow>
     msaStatus (analyze_message_sequence ms) = SeqComplete"
proof -
  have "msaStatus (analyze_items xs) \<noteq> SeqComplete \<Longrightarrow> msaErr (analyze_items xs) \<noteq> None" for xs
    by (induction xs rule: analyze_items.induct)
      (auto simp: Let_def split: option.splits sum.splits)
  then show ?thesis
    by (cases "msaStatus (analyze_message_sequence ms)")
      (auto simp: validate_message_sequence_def analyze_message_sequence_def Let_def)
qed

lemma analyze_Nil [simp]: "msaStatus (analyze_message_sequence []) = SeqComplete"
  by (simp add: analyze_message_sequence_def message_sequence_items_def)

end
