(* ===== verification/SessionTypes.thy ===== *)
theory SessionTypes
  imports MessageSequence "HOL-Library.Finite_Map"
begin

text \<open>
  Session entries, \<open>internal/agent/runtime/session/types.go\<close>, their validation, the summary
  messages of \<open>messages.go\<close> and the per-entry helpers of \<open>summary.go\<close>, \<open>navigation.go\<close> and
  \<open>session.go\<close>. An entry is one line of a session's JSONL file; all entry kinds share one struct,
  so they share one record here. A raw JSON field that is absent is the empty byte string.
\<close>

definition format_version :: int where
  "format_version = 1"

datatype entry_type =
    EntrySessionInfo | EntryMessage | EntryModelChange | EntryThinkingLevelChange
  | EntryActiveToolsChange | EntryCompaction | EntryBranchSummary | EntryCustom
  | EntryCustomMessage | EntryLabel | EntryLeaf
  | EntryTypeOther string

definition no_entry_type :: entry_type where
  "no_entry_type = EntryTypeOther ''''"

record entry =
  enType :: entry_type
  enVersion :: int
  enID :: string
  enParentID :: string
  enTimestamp :: time
  enCWD :: string
  enProjectID :: string
  enMessage :: agent_message
  enModel :: string
  enProvider :: string
  enReasoning :: string
  enToolNames :: "string list"
  enSummary :: string
  enFirstKeptEntryID :: string
  enTokensBefore :: int
  enDetails :: bytes
  enCustomType :: string
  enPayload :: bytes
  enTargetID :: string
  enLabel :: string
  enName :: string
  enTitle :: string
  enLeafID :: string

text \<open>The zero \<open>Entry\<close> value, from which the code builds entries by naming fields.\<close>

definition zero_entry :: entry where
  "zero_entry = \<lparr>enType = no_entry_type, enVersion = 0, enID = '''', enParentID = '''',
     enTimestamp = zero_time, enCWD = '''', enProjectID = '''', enMessage = NilMessage,
     enModel = '''', enProvider = '''', enReasoning = '''', enToolNames = [], enSummary = '''',
     enFirstKeptEntryID = '''', enTokensBefore = 0, enDetails = [], enCustomType = '''',
     enPayload = [], enTargetID = '''', enLabel = '''', enName = '''', enTitle = '''',
     enLeafID = ''''\<rparr>"

datatype entry_error =
    ErrEntryRequiresType
  | ErrUnknownEntryType string
  | ErrEntryVersion int
  | ErrEntryRequiresID
  | ErrEntryRequiresTimestamp
  | ErrEntryMessageInvalid validate_error
  | ErrMessageEntryRequiresMessage
  | ErrCustomMessageRequiresMessage
  | ErrCompactionRequiresSummary
  | ErrCompactionRequiresFirstKept
  | ErrBranchSummaryRequiresSummary
  | ErrLabelRequiresTarget
  | ErrLabelTargetNotInSession string
  | ErrFirstKeptNotInSession string
  | ErrFirstKeptNotOnParentPath string
  | ErrUnknownLeaf string
  | ErrDuplicateEntryID string
  | ErrUnknownParent string string
  | ErrLeafUnknownEntry string string
  | ErrForkTargetNotFound string
  | ErrForkTargetNotUser string
  | ErrForkPosition string
  | ErrHistoryInvalid "sequence_error option"
  | ErrTargetNotInSession
  | ErrFirstKeptNotOnPath

definition validate_entry_type :: "entry_type \<Rightarrow> entry_error option" where
  "validate_entry_type t =
     (case t of
        EntryTypeOther s \<Rightarrow> if s = '''' then Some ErrEntryRequiresType else Some (ErrUnknownEntryType s)
      | _ \<Rightarrow> None)"

definition validate_entry :: "entry \<Rightarrow> entry_error option" where
  "validate_entry e =
     (case validate_entry_type (enType e) of
        Some err \<Rightarrow> Some err
      | None \<Rightarrow>
          if enVersion e \<noteq> format_version then Some (ErrEntryVersion (enVersion e))
          else if enID e = '''' then Some ErrEntryRequiresID
          else if enTimestamp e = zero_time then Some ErrEntryRequiresTimestamp
          else (case (if enMessage e = NilMessage then None else validate_message (enMessage e)) of
              Some err \<Rightarrow> Some (ErrEntryMessageInvalid err)
            | None \<Rightarrow>
                if enType e = EntryMessage \<and> enMessage e = NilMessage
                then Some ErrMessageEntryRequiresMessage
                else if enType e = EntryCustomMessage \<and> enMessage e = NilMessage
                then Some ErrCustomMessageRequiresMessage
                else if enType e = EntryCompaction \<and> enSummary e = ''''
                then Some ErrCompactionRequiresSummary
                else if enType e = EntryCompaction \<and> enFirstKeptEntryID e = ''''
                then Some ErrCompactionRequiresFirstKept
                else if enType e = EntryBranchSummary \<and> enSummary e = ''''
                then Some ErrBranchSummaryRequiresSummary
                else if enType e = EntryLabel \<and> enTargetID e = ''''
                then Some ErrLabelRequiresTarget
                else None))"

subsection \<open>Messages made from entries\<close>

definition compaction_summary_prefix :: string where
  "compaction_summary_prefix =
     ''The conversation history before this point was compacted into the following summary:'' @
     [byte 10, byte 10] @ ''<summary>'' @ [byte 10]"

definition compaction_summary_suffix :: string where
  "compaction_summary_suffix = [byte 10] @ ''</summary>''"

definition branch_summary_prefix :: string where
  "branch_summary_prefix =
     ''The following is a summary of a branch that this conversation came back from:'' @
     [byte 10, byte 10] @ ''<summary>'' @ [byte 10]"

definition branch_summary_suffix :: string where
  "branch_summary_suffix = ''</summary>''"

definition compaction_summary_message :: "string \<Rightarrow> time \<Rightarrow> user_message" where
  "compaction_summary_message summary timestamp =
     \<lparr>umRole = '''',
      umContent = [new_text_content (compaction_summary_prefix @ summary @ compaction_summary_suffix)],
      umTimestamp = unix_milli timestamp\<rparr>"

definition branch_summary_message :: "string \<Rightarrow> time \<Rightarrow> user_message" where
  "branch_summary_message summary timestamp =
     \<lparr>umRole = '''',
      umContent = [new_text_content (branch_summary_prefix @ summary @ branch_summary_suffix)],
      umTimestamp = unix_milli timestamp\<rparr>"

text \<open>The message an entry contributes to the model context, if any.\<close>

definition entry_context_message :: "entry \<Rightarrow> agent_message option" where
  "entry_context_message e =
     (case enType e of
        EntryMessage \<Rightarrow> if enMessage e = NilMessage then None else Some (enMessage e)
      | EntryCustomMessage \<Rightarrow> if enMessage e = NilMessage then None else Some (enMessage e)
      | EntryBranchSummary \<Rightarrow>
          Some (UserMessage (branch_summary_message (enSummary e) (enTimestamp e)))
      | _ \<Rightarrow> None)"

definition content_text :: "agent_message \<Rightarrow> string list" where
  "content_text m =
     (let cs = (case m of
                  UserMessage u \<Rightarrow> umContent u
                | AssistantMessage a \<Rightarrow> amContent a
                | ToolResultMessage r \<Rightarrow> rmContent r
                | NilMessage \<Rightarrow> [])
      in concat (map (\<lambda>c. case c of
                  TextContent t \<Rightarrow> if tcText t \<noteq> '''' then [tcText t] else []
                | _ \<Rightarrow> []) cs))"

subsection \<open>Tool calls and results of an entry\<close>

definition tool_result_call_id :: "entry \<Rightarrow> string option" where
  "tool_result_call_id e =
     (case as_tool_result_message (enMessage e) of
        None \<Rightarrow> None
      | Some r \<Rightarrow> if rmToolCallID r \<noteq> '''' then Some (rmToolCallID r) else None)"

definition assistant_has_tool_call :: "entry \<Rightarrow> string \<Rightarrow> bool" where
  "assistant_has_tool_call e call_id =
     (case as_assistant_message (enMessage e) of
        None \<Rightarrow> False
      | Some a \<Rightarrow> list_ex (\<lambda>c. ccID c = call_id) (tool_calls_of_content (amContent a)))"

definition assistant_tool_call_ids :: "entry \<Rightarrow> string list" where
  "assistant_tool_call_ids e =
     (case as_assistant_message (enMessage e) of
        None \<Rightarrow> [] | Some a \<Rightarrow> tool_call_id_set (amContent a))"

definition estimate_entry_tokens :: "entry \<Rightarrow> int" where
  "estimate_entry_tokens e =
     (case enType e of
        EntryMessage \<Rightarrow> estimate_message_tokens (enMessage e)
      | EntryCustomMessage \<Rightarrow> estimate_message_tokens (enMessage e)
      | EntryCompaction \<Rightarrow> estimate_text_tokens (enSummary e)
      | EntryBranchSummary \<Rightarrow> estimate_text_tokens (enSummary e)
      | _ \<Rightarrow> 0)"

definition index_entry :: "entry list \<Rightarrow> string \<Rightarrow> nat option" where
  "index_entry es k = first_index (\<lambda>e. enID e = k) es"

lemma validate_entry_None:
  "validate_entry e = None \<Longrightarrow> enVersion e = format_version \<and> enID e \<noteq> '''' \<and>
     enTimestamp e \<noteq> zero_time \<and> validate_entry_type (enType e) = None"
  by (auto simp: validate_entry_def split: option.splits if_splits)

lemma validate_entry_compaction:
  "validate_entry e = None \<Longrightarrow> enType e = EntryCompaction \<Longrightarrow> enFirstKeptEntryID e \<noteq> ''''"
  by (auto simp: validate_entry_def split: option.splits if_splits)

lemma estimate_entry_tokens_nonneg [simp]: "0 \<le> estimate_entry_tokens e"
  by (simp add: estimate_entry_tokens_def estimate_text_tokens_def split: entry_type.splits)

lemma index_entry_None: "index_entry es k = None \<longleftrightarrow> k \<notin> enID ` set es"
  by (auto simp: index_entry_def first_index_None)

lemma index_entry_Some:
  "index_entry es k = Some i \<Longrightarrow> i < length es \<and> enID (es ! i) = k \<and> (\<forall>j < i. enID (es ! j) \<noteq> k)"
  by (auto simp: index_entry_def dest: first_index_Some)

lemma summary_messages_not_special [simp]:
  "as_tool_result_message (UserMessage u) = None"
  "as_assistant_message (UserMessage u) = None"
  by simp_all

end
