(* ===== verification/SessionTree.thy ===== *)
theory SessionTree
  imports SessionTypes
begin

text \<open>
  The session, \<open>internal/agent/runtime/session/session.go\<close>: a tree of entries under parent ids,
  kept in a map with the order of insertion, a current leaf, labels and metadata. The mutexes make
  each method atomic, so each is one function from state to state. Ids come from the third-party
  \<open>uuid\<close> package: \<open>gen n\<close> is the text of its n-th answer during the call. The clock is an argument.
\<close>

type_synonym entry_map = "(string, entry) fmap"

record session =
  ssID :: string
  ssCWD :: string
  ssProjectID :: string
  ssName :: string
  ssTitle :: string
  ssEntries :: entry_map
  ssOrder :: "string list"
  ssLabels :: "(string, string) fmap"
  ssLeafID :: string
  ssCreatedAt :: time
  ssUpdatedAt :: time

definition empty_session :: "string \<Rightarrow> session" where
  "empty_session sid = \<lparr>ssID = sid, ssCWD = '''', ssProjectID = '''', ssName = '''', ssTitle = '''',
     ssEntries = fmempty, ssOrder = [], ssLabels = fmempty, ssLeafID = '''',
     ssCreatedAt = zero_time, ssUpdatedAt = zero_time\<rparr>"

definition new_session :: "string \<Rightarrow> string \<Rightarrow> time \<Rightarrow> session" where
  "new_session sid fresh now =
     (empty_session (if sid = '''' then fresh else sid))\<lparr>ssCreatedAt := now, ssUpdatedAt := now\<rparr>"

text \<open>\<open>Session.Entries\<close>: the entries in insertion order.\<close>

definition session_entries :: "session \<Rightarrow> entry list" where
  "session_entries s = map (\<lambda>k. the (fmlookup (ssEntries s) k)) (ssOrder s)"

subsection \<open>The path to a leaf\<close>

function walk_up :: "entry_map \<Rightarrow> string list \<Rightarrow> string \<Rightarrow> entry list \<Rightarrow> entry list" where
  "walk_up m seen cur path =
     (if cur = '''' then path
      else if cur \<in> set seen then path
      else (case fmlookup m cur of
              None \<Rightarrow> path
            | Some e \<Rightarrow> walk_up m (cur # seen) (enParentID e) (e # path)))"
  by pat_completeness auto
termination
proof (relation "measure (\<lambda>(m, seen, cur, path). card (fmdom' m - set seen))")
  fix m :: entry_map and seen :: "string list" and cur path e
  assume "cur \<notin> set seen" "fmlookup m cur = Some e"
  then have "cur \<in> fmdom' m - set seen" by (blast intro: fmdom'I)
  then have "fmdom' m - set (cur # seen) \<subset> fmdom' m - set seen" by auto
  moreover have "finite (fmdom' m - set seen)" by simp
  ultimately have "card (fmdom' m - set (cur # seen)) < card (fmdom' m - set seen)"
    by (intro psubset_card_mono)
  then show "((m, cur # seen, enParentID e, e # path), m, seen, cur, path)
      \<in> measure (\<lambda>(m, seen, cur, path). card (fmdom' m - set seen))"
    by simp
qed simp

declare walk_up.simps [simp del]

definition path_to_leaf :: "entry_map \<Rightarrow> string \<Rightarrow> entry list" where
  "path_to_leaf m leaf = (if leaf = '''' then [] else walk_up m [] leaf [])"

definition session_path :: "session \<Rightarrow> string \<Rightarrow> entry list" where
  "session_path s leaf = path_to_leaf (ssEntries s) leaf"

subsection \<open>Building the context of a leaf\<close>

record session_context =
  scMessages :: message_list
  scModel :: string
  scProvider :: string
  scReasoning :: string
  scToolNames :: "string list"
  scToolNamesSet :: bool
  scLeafID :: string

definition last_compaction_index :: "entry list \<Rightarrow> nat option" where
  "last_compaction_index path = last_index (\<lambda>e. enType e = EntryCompaction) path"

fun kept_before :: "string \<Rightarrow> bool \<Rightarrow> entry list \<Rightarrow> entry list" where
  "kept_before k found [] = []"
| "kept_before k found (e # es) =
     (let found' = (found \<or> enID e = k) in
      if found' then e # kept_before k found' es else kept_before k found' es)"

definition entries_after_compaction :: "entry list \<Rightarrow> nat \<Rightarrow> string \<Rightarrow> entry list" where
  "entries_after_compaction path i k =
     kept_before k (k = '''') (take i path) @ drop (Suc i) path"

definition apply_state_entry :: "session_context \<Rightarrow> entry \<Rightarrow> session_context" where
  "apply_state_entry ctx e =
     (case enType e of
        EntryMessage \<Rightarrow>
          (case as_assistant_message (enMessage e) of
             None \<Rightarrow> ctx
           | Some a \<Rightarrow>
               (let ctx' = (if amModel a \<noteq> '''' then ctx\<lparr>scModel := amModel a\<rparr> else ctx)
                in if amProvider a \<noteq> '''' then ctx'\<lparr>scProvider := amProvider a\<rparr> else ctx'))
      | EntryModelChange \<Rightarrow> ctx\<lparr>scModel := enModel e, scProvider := enProvider e\<rparr>
      | EntryThinkingLevelChange \<Rightarrow> ctx\<lparr>scReasoning := enReasoning e\<rparr>
      | EntryActiveToolsChange \<Rightarrow> ctx\<lparr>scToolNames := enToolNames e, scToolNamesSet := True\<rparr>
      | _ \<Rightarrow> ctx)"

definition append_context_message :: "session_context \<Rightarrow> entry \<Rightarrow> session_context" where
  "append_context_message ctx e =
     (case entry_context_message e of
        None \<Rightarrow> ctx
      | Some m \<Rightarrow> ctx\<lparr>scMessages := scMessages ctx @ [m]\<rparr>)"

definition empty_context :: "string \<Rightarrow> session_context" where
  "empty_context leaf = \<lparr>scMessages = [], scModel = '''', scProvider = '''', scReasoning = '''',
     scToolNames = [], scToolNamesSet = False, scLeafID = leaf\<rparr>"

definition build_context_of_path :: "string \<Rightarrow> entry list \<Rightarrow> session_context" where
  "build_context_of_path leaf path =
     (let ctx = foldl apply_state_entry (empty_context leaf) path in
      case last_compaction_index path of
        Some i \<Rightarrow>
          (let c = path ! i;
               ctx' = ctx\<lparr>scMessages := scMessages ctx @
                 [UserMessage (compaction_summary_message (enSummary c) (enTimestamp c))]\<rparr>
           in foldl append_context_message ctx' (entries_after_compaction path i (enFirstKeptEntryID c)))
      | None \<Rightarrow> foldl append_context_message ctx path)"

definition build_context_for_leaf :: "session \<Rightarrow> string \<Rightarrow> session_context" where
  "build_context_for_leaf s leaf = build_context_of_path leaf (session_path s leaf)"

text \<open>
  \<open>contextMessagesForLeafLocked\<close>: the messages of the context with the entry each came from. The
  compaction summary is credited to its compaction entry.
\<close>

definition entry_messages :: "entry \<Rightarrow> (string \<times> agent_message) list" where
  "entry_messages e =
     (case entry_context_message e of None \<Rightarrow> [] | Some m \<Rightarrow> [(enID e, m)])"

definition context_messages_of_path :: "entry list \<Rightarrow> (string \<times> agent_message) list" where
  "context_messages_of_path path =
     (case last_compaction_index path of
        Some i \<Rightarrow>
          (let c = path ! i in
           (enID c, UserMessage (compaction_summary_message (enSummary c) (enTimestamp c)))
             # concat (map entry_messages (entries_after_compaction path i (enFirstKeptEntryID c))))
      | None \<Rightarrow> concat (map entry_messages path))"

definition context_messages_for_leaf :: "session \<Rightarrow> string \<Rightarrow> (string \<times> agent_message) list" where
  "context_messages_for_leaf s leaf = context_messages_of_path (session_path s leaf)"

definition analyze_leaf :: "session \<Rightarrow> string \<Rightarrow> message_sequence_analysis" where
  "analyze_leaf s leaf = analyze_message_sequence (map snd (context_messages_for_leaf s leaf))"

subsection \<open>The executable leaf\<close>

text \<open>
  \<open>safeBoundaryLocked\<close> climbs until the context is valid. The loop has no guard against a cycle,
  so it may not return on an arbitrary map of entries; \<open>None\<close> is "does not return".
\<close>

partial_function (option) safe_boundary :: "session \<Rightarrow> string \<Rightarrow> string option" where
  "safe_boundary s leaf =
     (if validate_message_sequence (scMessages (build_context_for_leaf s leaf)) = None then Some leaf
      else if leaf = '''' then Some ''''
      else (case fmlookup (ssEntries s) leaf of
              None \<Rightarrow> Some ''''
            | Some e \<Rightarrow> safe_boundary s (enParentID e)))"

declare safe_boundary.simps [code]

definition executable_leaf :: "session \<Rightarrow> string \<Rightarrow> string option" where
  "executable_leaf s leaf =
     (let analysis = analyze_leaf s leaf; ids = map fst (context_messages_for_leaf s leaf) in
      if msaStatus analysis \<noteq> SeqIncomplete then Some leaf
      else (case msaPending analysis of
              None \<Rightarrow> safe_boundary s leaf
            | Some i \<Rightarrow>
                if i \<ge> length ids then safe_boundary s leaf
                else (case fmlookup (ssEntries s) (ids ! i) of
                        None \<Rightarrow> safe_boundary s leaf
                      | Some a \<Rightarrow> Some (enParentID a))))"

definition build_context :: "session \<Rightarrow> session_context option" where
  "build_context s = map_option (build_context_for_leaf s) (executable_leaf s (ssLeafID s))"

definition validate_context :: "session \<Rightarrow> sequence_error option option" where
  "validate_context s = map_option (\<lambda>ctx. validate_message_sequence (scMessages ctx)) (build_context s)"

subsection \<open>Appending entries\<close>

fun generate_entry_id :: "nat \<Rightarrow> nat \<Rightarrow> entry_map \<Rightarrow> (nat \<Rightarrow> string) \<Rightarrow> string" where
  "generate_entry_id 0 i m gen = gen i"
| "generate_entry_id (Suc n) i m gen =
     (let k = take 8 (gen i) in
      if fmlookup m k = None then k else generate_entry_id n (Suc i) m gen)"

definition new_entry_id :: "entry_map \<Rightarrow> (nat \<Rightarrow> string) \<Rightarrow> string" where
  "new_entry_id m gen = generate_entry_id 100 0 m gen"

definition validate_compaction_reference :: "entry_map \<Rightarrow> entry \<Rightarrow> entry_error option" where
  "validate_compaction_reference m e =
     (if enType e \<noteq> EntryCompaction then None
      else if fmlookup m (enFirstKeptEntryID e) = None
      then Some (ErrFirstKeptNotInSession (enFirstKeptEntryID e))
      else if index_entry (path_to_leaf m (enParentID e)) (enFirstKeptEntryID e) = None
      then Some (ErrFirstKeptNotOnParentPath (enFirstKeptEntryID e))
      else None)"

definition fill_entry :: "session \<Rightarrow> (nat \<Rightarrow> string) \<Rightarrow> time \<Rightarrow> entry \<Rightarrow> entry" where
  "fill_entry s gen now e0 =
     (let e1 = (if enID e0 = '''' then e0\<lparr>enID := new_entry_id (ssEntries s) gen\<rparr> else e0);
          e2 = (if enVersion e1 = 0 then e1\<lparr>enVersion := format_version\<rparr> else e1);
          e3 = (if enTimestamp e2 = zero_time then e2\<lparr>enTimestamp := now\<rparr> else e2)
      in if enType e3 \<noteq> EntrySessionInfo \<and> enType e3 \<noteq> EntryLeaf \<and> enParentID e3 = ''''
         then e3\<lparr>enParentID := ssLeafID s\<rparr> else e3)"

definition prepare_entry ::
  "session \<Rightarrow> (nat \<Rightarrow> string) \<Rightarrow> time \<Rightarrow> entry \<Rightarrow> entry_error + entry" where
  "prepare_entry s gen now e0 =
     (if enType e0 = no_entry_type then Inl ErrEntryRequiresType
      else (let e = fill_entry s gen now e0 in
        case validate_entry e of
          Some err \<Rightarrow> Inl err
        | None \<Rightarrow>
            if enType e = EntryLabel \<and> fmlookup (ssEntries s) (enTargetID e) = None
            then Inl (ErrLabelTargetNotInSession (enTargetID e))
            else (case validate_compaction_reference (ssEntries s) e of
                    Some err \<Rightarrow> Inl err
                  | None \<Rightarrow> Inr e)))"

definition store_labels :: "(string, string) fmap \<Rightarrow> entry \<Rightarrow> (string, string) fmap" where
  "store_labels ls e =
     (if enType e = EntryLabel then
        (let label = trim_space (enLabel e) in
         if label \<noteq> '''' then fmupd (enTargetID e) label ls else fmdrop (enTargetID e) ls)
      else ls)"

definition store_metadata :: "session \<Rightarrow> entry \<Rightarrow> session" where
  "store_metadata s e =
     (if enType e = EntrySessionInfo then
        s\<lparr>ssCWD := (if enCWD e \<noteq> '''' then enCWD e else ssCWD s),
          ssProjectID := (if enProjectID e \<noteq> '''' then enProjectID e else ssProjectID s),
          ssName := (if enName e \<noteq> '''' then enName e else ssName s),
          ssTitle := (if enTitle e \<noteq> '''' then enTitle e else ssTitle s)\<rparr>
      else if enType e = EntryLeaf then s\<lparr>ssLeafID := enLeafID e\<rparr>
      else s\<lparr>ssLeafID := enID e\<rparr>)"

definition store_times :: "session \<Rightarrow> entry \<Rightarrow> session" where
  "store_times s e =
     (let s' = (if ssCreatedAt s = zero_time \<or> enTimestamp e < ssCreatedAt s
                then s\<lparr>ssCreatedAt := enTimestamp e\<rparr> else s)
      in if ssUpdatedAt s' = zero_time \<or> ssUpdatedAt s' < enTimestamp e
         then s'\<lparr>ssUpdatedAt := enTimestamp e\<rparr> else s')"

definition store_entry :: "session \<Rightarrow> entry \<Rightarrow> session" where
  "store_entry s e =
     (let s1 = s\<lparr>ssOrder := (if fmlookup (ssEntries s) (enID e) = None then ssOrder s @ [enID e]
                             else ssOrder s),
                 ssEntries := fmupd (enID e) e (ssEntries s),
                 ssLabels := store_labels (ssLabels s) e\<rparr>
      in store_times (store_metadata s1 e) e)"

definition append_entry ::
  "session \<Rightarrow> (nat \<Rightarrow> string) \<Rightarrow> time \<Rightarrow> entry \<Rightarrow> entry_error + (session \<times> entry)" where
  "append_entry s gen now e0 =
     (case prepare_entry s gen now e0 of
        Inl err \<Rightarrow> Inl err
      | Inr e \<Rightarrow> Inr (store_entry s e, e))"

definition append_leaf ::
  "session \<Rightarrow> (nat \<Rightarrow> string) \<Rightarrow> time \<Rightarrow> string \<Rightarrow> entry_error + (session \<times> entry)" where
  "append_leaf s gen now leaf =
     (if leaf \<noteq> '''' \<and> fmlookup (ssEntries s) leaf = None then Inl (ErrUnknownLeaf leaf)
      else append_entry s gen now (zero_entry\<lparr>enType := EntryLeaf, enLeafID := leaf\<rparr>))"

definition move_to :: "session \<Rightarrow> time \<Rightarrow> string \<Rightarrow> entry_error + session" where
  "move_to s now leaf =
     (if leaf \<noteq> '''' \<and> fmlookup (ssEntries s) leaf = None then Inl (ErrUnknownLeaf leaf)
      else Inr (s\<lparr>ssLeafID := leaf, ssUpdatedAt := now\<rparr>))"

text \<open>The public append methods, each one entry built by naming fields.\<close>

type_synonym append_result = "entry_error + (session \<times> entry)"

definition append_session_info_with_project ::
  "session \<Rightarrow> (nat \<Rightarrow> string) \<Rightarrow> time \<Rightarrow> string \<Rightarrow> string \<Rightarrow> string \<Rightarrow> append_result" where
  "append_session_info_with_project s gen now cwd name projectID =
     append_entry s gen now (zero_entry\<lparr>enType := EntrySessionInfo, enCWD := cwd, enName := name,
       enProjectID := projectID\<rparr>)"

definition append_message ::
  "session \<Rightarrow> (nat \<Rightarrow> string) \<Rightarrow> time \<Rightarrow> agent_message \<Rightarrow> append_result" where
  "append_message s gen now m =
     append_entry s gen now (zero_entry\<lparr>enType := EntryMessage, enMessage := m\<rparr>)"

definition append_model_change ::
  "session \<Rightarrow> (nat \<Rightarrow> string) \<Rightarrow> time \<Rightarrow> string \<Rightarrow> string \<Rightarrow> append_result" where
  "append_model_change s gen now provider model =
     append_entry s gen now (zero_entry\<lparr>enType := EntryModelChange, enProvider := provider,
       enModel := model\<rparr>)"

definition append_thinking_level_change ::
  "session \<Rightarrow> (nat \<Rightarrow> string) \<Rightarrow> time \<Rightarrow> string \<Rightarrow> append_result" where
  "append_thinking_level_change s gen now reasoning =
     append_entry s gen now (zero_entry\<lparr>enType := EntryThinkingLevelChange, enReasoning := reasoning\<rparr>)"

definition append_active_tools_change ::
  "session \<Rightarrow> (nat \<Rightarrow> string) \<Rightarrow> time \<Rightarrow> string list \<Rightarrow> append_result" where
  "append_active_tools_change s gen now names =
     append_entry s gen now (zero_entry\<lparr>enType := EntryActiveToolsChange, enToolNames := names\<rparr>)"

definition append_compaction ::
  "session \<Rightarrow> (nat \<Rightarrow> string) \<Rightarrow> time \<Rightarrow> string \<Rightarrow> string \<Rightarrow> int \<Rightarrow> bytes \<Rightarrow> append_result" where
  "append_compaction s gen now summary firstKept tokens details =
     append_entry s gen now (zero_entry\<lparr>enType := EntryCompaction, enSummary := summary,
       enFirstKeptEntryID := firstKept, enTokensBefore := tokens, enDetails := details\<rparr>)"

definition append_branch_summary ::
  "session \<Rightarrow> (nat \<Rightarrow> string) \<Rightarrow> time \<Rightarrow> string \<Rightarrow> bytes \<Rightarrow> append_result" where
  "append_branch_summary s gen now summary details =
     append_entry s gen now (zero_entry\<lparr>enType := EntryBranchSummary, enSummary := summary,
       enDetails := details\<rparr>)"

definition append_custom_entry ::
  "session \<Rightarrow> (nat \<Rightarrow> string) \<Rightarrow> time \<Rightarrow> string \<Rightarrow> bytes \<Rightarrow> append_result" where
  "append_custom_entry s gen now customType payload =
     append_entry s gen now (zero_entry\<lparr>enType := EntryCustom, enCustomType := customType,
       enPayload := payload\<rparr>)"

definition append_label ::
  "session \<Rightarrow> (nat \<Rightarrow> string) \<Rightarrow> time \<Rightarrow> string \<Rightarrow> string \<Rightarrow> append_result" where
  "append_label s gen now target label =
     append_entry s gen now (zero_entry\<lparr>enType := EntryLabel, enTargetID := target, enLabel := label\<rparr>)"

definition append_session_name ::
  "session \<Rightarrow> (nat \<Rightarrow> string) \<Rightarrow> time \<Rightarrow> string \<Rightarrow> append_result" where
  "append_session_name s gen now name =
     append_entry s gen now (zero_entry\<lparr>enType := EntrySessionInfo, enName := name\<rparr>)"

definition append_session_title ::
  "session \<Rightarrow> (nat \<Rightarrow> string) \<Rightarrow> time \<Rightarrow> string \<Rightarrow> append_result" where
  "append_session_title s gen now title =
     append_entry s gen now (zero_entry\<lparr>enType := EntrySessionInfo, enTitle := title\<rparr>)"

definition session_label :: "session \<Rightarrow> string \<Rightarrow> string option" where
  "session_label s target = fmlookup (ssLabels s) target"

definition session_children :: "session \<Rightarrow> string \<Rightarrow> entry list" where
  "session_children s parent = filter (\<lambda>e. enParentID e = parent) (session_entries s)"

subsection \<open>Loading a persisted history\<close>

definition load_entry :: "session \<Rightarrow> entry \<Rightarrow> entry_error + session" where
  "load_entry s e =
     (case validate_entry e of
        Some err \<Rightarrow> Inl err
      | None \<Rightarrow>
          if fmlookup (ssEntries s) (enID e) \<noteq> None then Inl (ErrDuplicateEntryID (enID e))
          else if enParentID e \<noteq> '''' \<and> fmlookup (ssEntries s) (enParentID e) = None
          then Inl (ErrUnknownParent (enID e) (enParentID e))
          else if enType e = EntryLeaf \<and> enLeafID e \<noteq> '''' \<and>
                  fmlookup (ssEntries s) (enLeafID e) = None
          then Inl (ErrLeafUnknownEntry (enID e) (enLeafID e))
          else (case validate_compaction_reference (ssEntries s) e of
                  Some err \<Rightarrow> Inl err
                | None \<Rightarrow> Inr (store_entry s e)))"

fun load_entries :: "session \<Rightarrow> entry list \<Rightarrow> entry_error + session" where
  "load_entries s [] = Inr s"
| "load_entries s (e # es) =
     (case load_entry s e of Inl err \<Rightarrow> Inl err | Inr s' \<Rightarrow> load_entries s' es)"

text \<open>
  The leaves whose histories a load checks: every target of a leaf entry and every entry without
  children. Go walks the set in no fixed order; here it is the order of insertion.
\<close>

definition history_targets :: "session \<Rightarrow> string list" where
  "history_targets s =
     map enLeafID (filter (\<lambda>e. enType e = EntryLeaf \<and> enLeafID e \<noteq> '''') (session_entries s)) @
     filter (\<lambda>k. \<not> list_ex (\<lambda>e. enParentID e = k \<and> enParentID e \<noteq> '''') (session_entries s)) (ssOrder s)"

definition validate_loaded_history :: "session \<Rightarrow> entry_error option" where
  "validate_loaded_history s =
     (case find (\<lambda>k. msaStatus (analyze_leaf s k) = SeqInvalid) (history_targets s) of
        None \<Rightarrow> None
      | Some k \<Rightarrow> Some (ErrHistoryInvalid (msaErr (analyze_leaf s k))))"

definition publish :: "session \<Rightarrow> session \<Rightarrow> session" where
  "publish s candidate = candidate\<lparr>ssID := ssID s\<rparr>"

definition load_session :: "session \<Rightarrow> entry list \<Rightarrow> (entry_error + session) option" where
  "load_session s es =
     (case load_entries (empty_session (ssID s)) es of
        Inl err \<Rightarrow> Some (Inl err)
      | Inr candidate \<Rightarrow>
          (case validate_loaded_history candidate of
             Some err \<Rightarrow> Some (Inl err)
           | None \<Rightarrow>
               (case executable_leaf candidate (ssLeafID candidate) of
                  None \<Rightarrow> None
                | Some leaf \<Rightarrow> Some (Inr (publish s (candidate\<lparr>ssLeafID := leaf\<rparr>))))))"

subsection \<open>Forking\<close>

datatype fork_position = ForkDefault | ForkBefore | ForkAt | ForkOther string

record fork_options =
  foID :: string
  foEntryID :: string
  foPosition :: fork_position

definition fork_target :: "session \<Rightarrow> fork_options \<Rightarrow> entry_error + (string \<times> entry option)" where
  "fork_target s opts =
     (if foEntryID opts = '''' then Inr (ssLeafID s, None)
      else (case fmlookup (ssEntries s) (foEntryID opts) of
              None \<Rightarrow> Inl (ErrForkTargetNotFound (foEntryID opts))
            | Some target \<Rightarrow>
                (let position = (if foPosition opts = ForkDefault then ForkBefore else foPosition opts) in
                 case position of
                   ForkAt \<Rightarrow>
                     if enType target = EntryLeaf
                     then Inr (enLeafID target, Some (target\<lparr>enParentID := enLeafID target\<rparr>))
                     else Inr (enID target, None)
                 | ForkBefore \<Rightarrow>
                     if enType target \<noteq> EntryMessage \<or> message_role_of (enMessage target) \<noteq> Some RoleUser
                     then Inl (ErrForkTargetNotUser (foEntryID opts))
                     else Inr (enParentID target, None)
                 | ForkOther p \<Rightarrow> Inl (ErrForkPosition p)
                 | ForkDefault \<Rightarrow> Inl (ErrForkPosition ''''))))"

definition fork_metadata :: "session \<Rightarrow> (nat \<Rightarrow> string) \<Rightarrow> time \<Rightarrow> entry_error + session" where
  "fork_metadata fork gen now =
     (if ssCWD fork \<noteq> '''' \<or> ssProjectID fork \<noteq> '''' \<or> ssName fork \<noteq> '''' \<or> ssTitle fork \<noteq> '''' then
        (case prepare_entry fork gen now (zero_entry\<lparr>enType := EntrySessionInfo, enCWD := ssCWD fork,
                enProjectID := ssProjectID fork, enName := ssName fork, enTitle := ssTitle fork\<rparr>) of
           Inl err \<Rightarrow> Inl err
         | Inr metadata \<Rightarrow>
             (let fork' = store_entry fork metadata
              in Inr (fork'\<lparr>ssOrder := enID metadata # butlast (ssOrder fork')\<rparr>)))
      else Inr fork)"

definition fork_session ::
  "session \<Rightarrow> string \<Rightarrow> (nat \<Rightarrow> string) \<Rightarrow> time \<Rightarrow> fork_options \<Rightarrow> entry_error + session" where
  "fork_session s fresh gen now opts =
     (case fork_target s opts of
        Inl err \<Rightarrow> Inl err
      | Inr (leaf, fork_at_leaf) \<Rightarrow>
          (let fork0 = (new_session (foID opts) fresh now)\<lparr>ssCWD := ssCWD s,
                  ssProjectID := ssProjectID s, ssName := ssName s, ssTitle := ssTitle s\<rparr>;
               fork1 = foldl store_entry fork0 (session_path s leaf);
               fork2 = (case fork_at_leaf of None \<Rightarrow> fork1 | Some e \<Rightarrow> store_entry fork1 e)
           in fork_metadata fork2 gen now))"

end

