(* ===== verification/Forest.thy ===== *)
theory Forest
  imports Prelude
begin

text \<open>
  The contract between a store of nodes with parent keys and the code that walks from a node to
  its root: the provider keeps an invariant under which parents exist and come earlier, and
  \<open>walk\<close> lists the ancestors of a key, root first. The client's facts about such walks (every
  element is stored, no repetition, every prefix is itself a walk, adding nodes elsewhere changes
  nothing) are proved once here; the session tree interprets the locale.
\<close>

locale ancestor_walk =
  fixes inv :: "'s \<Rightarrow> bool"
    and node :: "'s \<Rightarrow> 'k \<Rightarrow> 'n option"
    and key :: "'n \<Rightarrow> 'k"
    and parent :: "'n \<Rightarrow> 'k"
    and root :: 'k
    and rank :: "'s \<Rightarrow> 'k \<Rightarrow> nat"
    and walk :: "'s \<Rightarrow> 'k \<Rightarrow> 'n list"
  assumes node_key: "inv s \<Longrightarrow> node s k = Some n \<Longrightarrow> key n = k"
    and node_root: "inv s \<Longrightarrow> node s root = None"
    and parent_closed: "inv s \<Longrightarrow> node s k = Some n \<Longrightarrow> parent n \<noteq> root \<Longrightarrow> node s (parent n) \<noteq> None"
    and parent_rank: "inv s \<Longrightarrow> node s k = Some n \<Longrightarrow> parent n \<noteq> root \<Longrightarrow> rank s (parent n) < rank s k"
    and walk_None: "inv s \<Longrightarrow> node s k = None \<Longrightarrow> walk s k = []"
    and walk_Some: "inv s \<Longrightarrow> node s k = Some n \<Longrightarrow> walk s k = walk s (parent n) @ [n]"
begin

lemma walk_root: "inv s \<Longrightarrow> walk s root = []"
  by (simp add: walk_None node_root)

lemma walk_induct [consumes 1, case_names none some]:
  assumes "inv s"
    and none: "\<And>k. node s k = None \<Longrightarrow> P k"
    and some: "\<And>k n. node s k = Some n \<Longrightarrow> P (parent n) \<Longrightarrow> P k"
  shows "P k"
proof (induction "rank s k" arbitrary: k rule: less_induct)
  case less
  show ?case
  proof (cases "node s k")
    case None
    then show ?thesis by (rule none)
  next
    case (Some n)
    have "P (parent n)"
    proof (cases "parent n = root")
      case True
      then show ?thesis using assms(1) by (simp add: none node_root)
    next
      case False
      with Some assms(1) show ?thesis by (intro less parent_rank)
    qed
    with Some show ?thesis by (rule some)
  qed
qed

lemma walk_nonempty: "inv s \<Longrightarrow> walk s k \<noteq> [] \<longleftrightarrow> node s k \<noteq> None"
  by (cases "node s k") (auto simp: walk_None walk_Some)

lemma walk_last: "inv s \<Longrightarrow> node s k = Some n \<Longrightarrow> last (walk s k) = n"
  by (simp add: walk_Some)

lemma walk_nodes:
  assumes inv: "inv s"
  shows "n \<in> set (walk s k) \<Longrightarrow> node s (key n) = Some n"
  using inv
proof (induction k rule: walk_induct)
  case (some k m)
  with inv node_key [OF inv some.hyps] show ?case by (auto simp: walk_Some)
qed (simp add: inv walk_None)

lemma walk_rank:
  assumes inv: "inv s"
  shows "n \<in> set (walk s k) \<Longrightarrow> rank s (key n) \<le> rank s k"
  using inv
proof (induction k rule: walk_induct)
  case (some k m)
  show ?case
  proof (cases "n = m")
    case True
    with some inv show ?thesis by (simp add: node_key)
  next
    case False
    with some inv have n: "n \<in> set (walk s (parent m))" by (simp add: walk_Some)
    with some have le: "rank s (key n) \<le> rank s (parent m)" by simp
    from n inv have "parent m \<noteq> root" by (metis empty_iff empty_set walk_root)
    with some inv le show ?thesis by (meson le_trans less_imp_le parent_rank)
  qed
qed (auto simp: inv walk_None)

lemma walk_distinct:
  assumes inv: "inv s"
  shows "distinct (map key (walk s k))"
  using inv
proof (induction k rule: walk_induct)
  case (some k m)
  have "k \<notin> key ` set (walk s (parent m))"
  proof
    assume "k \<in> key ` set (walk s (parent m))"
    then obtain n where n: "n \<in> set (walk s (parent m))" "key n = k" by auto
    with inv have "rank s k \<le> rank s (parent m)" using walk_rank by fastforce
    moreover from n inv have "parent m \<noteq> root" by (metis empty_iff empty_set walk_root)
    ultimately show False using some inv parent_rank by fastforce
  qed
  with some inv show ?case by (simp add: walk_Some node_key)
qed (simp add: inv walk_None)

lemma walk_prefix:
  assumes inv: "inv s"
  shows "walk s k = xs @ n # ys \<Longrightarrow> xs = walk s (parent n)"
  using inv
proof (induction k arbitrary: ys rule: walk_induct)
  case (some k m)
  from some inv have eq: "walk s (parent m) @ [m] = xs @ n # ys" by (simp add: walk_Some)
  show ?case
  proof (cases ys rule: rev_cases)
    case Nil
    with eq show ?thesis by auto
  next
    case (snoc zs z)
    with eq have "walk s (parent m) = xs @ n # zs" by auto
    then show ?thesis by (rule some.IH)
  qed
qed (simp add: inv walk_None)

lemma walk_prefix_key:
  assumes "inv s" "walk s k = xs @ n # ys"
  shows "walk s (key n) = xs @ [n]"
proof -
  have "node s (key n) = Some n" using assms by (intro walk_nodes [of s n k]) auto
  with assms walk_prefix show ?thesis by (simp add: walk_Some)
qed

lemma walk_hd:
  assumes "inv s" "walk s k = n # ns"
  shows "parent n = root"
proof (rule ccontr)
  assume "parent n \<noteq> root"
  moreover have "node s (key n) = Some n" using assms by (intro walk_nodes [of s n k]) auto
  ultimately have "node s (parent n) \<noteq> None" using assms parent_closed by blast
  moreover have "walk s (parent n) = []" using assms walk_prefix [of s k "[]" n ns] by simp
  ultimately show False using assms walk_nonempty by blast
qed

lemma walk_links:
  assumes "inv s" "walk s k = xs @ a # b # ys"
  shows "parent b = key a"
proof -
  have "walk s (parent b) = xs @ [a]"
    using walk_prefix [OF assms(1), of k "xs @ [a]" b ys] assms(2) by simp
  moreover have "node s (parent b) \<noteq> None"
    using calculation assms(1) walk_nonempty by fastforce
  ultimately show ?thesis using assms(1) walk_last node_key by (metis last_snoc option.exhaust)
qed

text \<open>A store that holds the same nodes along a walk walks the same way.\<close>

lemma walk_agree:
  assumes "inv s" "inv t" "\<forall>n \<in> set (walk s k). node t (key n) = Some n" "node s k = None \<Longrightarrow> node t k = None"
  shows "walk t k = walk s k"
  using assms(1,3,4)
proof (induction k rule: walk_induct)
  case (none k)
  then show ?case using assms by (simp add: walk_None)
next
  case (some k m)
  then have t: "node t k = Some m" using assms(1) by (simp add: walk_Some node_key)
  have "walk t (parent m) = walk s (parent m)"
  proof (rule some.IH)
    show "\<forall>n \<in> set (walk s (parent m)). node t (key n) = Some n"
      using some assms(1) by (simp add: walk_Some)
    assume "node s (parent m) = None"
    then have "parent m = root" using some assms(1) parent_closed by blast
    then show "node t (parent m) = None" using assms(2) by (simp add: node_root)
  qed
  with some t assms show ?case by (simp add: walk_Some)
qed

end

end
