(* ===== verification/SessionInvariant.thy ===== *)
theory SessionInvariant
  imports SessionTree Forest
begin

text \<open>
  The invariant of a session's tree and what it gives: entries are stored under their own ids, the
  order lists exactly the stored ids without repetition, every parent is stored and was inserted
  earlier, and the leaf is stored or empty. The tree interprets \<open>ancestor_walk\<close>, so the path
  to a leaf is a chain from a root with no repetition; every operation keeps the invariant.
\<close>

definition before :: "'a list \<Rightarrow> 'a \<Rightarrow> 'a \<Rightarrow> bool" where
  "before order p k \<longleftrightarrow> (\<exists>xs ys. order = xs @ k # ys \<and> p \<in> set xs)"

definition position :: "'a list \<Rightarrow> 'a \<Rightarrow> nat" where
  "position order k = length (takeWhile (\<lambda>x. x \<noteq> k) order)"

definition tree_inv :: "entry_map \<Rightarrow> string list \<Rightarrow> bool" where
  "tree_inv m order \<longleftrightarrow> distinct order \<and> set order = fmdom' m \<and> '''' \<notin> set order \<and>
     (\<forall>k \<in> set order. enID (the (fmlookup m k)) = k \<and>
        (enParentID (the (fmlookup m k)) = '''' \<or> before order (enParentID (the (fmlookup m k))) k))"

definition session_inv :: "session \<Rightarrow> bool" where
  "session_inv s \<longleftrightarrow> tree_inv (ssEntries s) (ssOrder s) \<and>
     (ssLeafID s = '''' \<or> ssLeafID s \<in> fmdom' (ssEntries s))"

lemma session_inv_tree: "session_inv s \<Longrightarrow> tree_inv (ssEntries s) (ssOrder s)"
  by (simp add: session_inv_def)

lemma before_in: "before order p k \<Longrightarrow> p \<in> set order \<and> k \<in> set order"
  by (auto simp: before_def)

lemma before_position:
  assumes "distinct order" "before order p k"
  shows "position order p < position order k"
proof -
  from assms obtain xs ys where order: "order = xs @ k # ys" "p \<in> set xs" "k \<notin> set xs"
    by (auto simp: before_def)
  then have "takeWhile (\<lambda>x. x \<noteq> k) order = xs" by (auto simp: takeWhile_append)
  moreover have "length (takeWhile (\<lambda>x. x \<noteq> p) order) < length xs"
    using order(1,2) by (simp add: takeWhile_append takeWhile_shorter)
  ultimately show ?thesis by (simp add: position_def)
qed

lemma before_append: "before order p k \<Longrightarrow> before (order @ xs) p k"
  unfolding before_def by (metis append.assoc append_Cons)

lemma before_snoc: "p \<in> set order \<Longrightarrow> before (order @ [k]) p k"
  by (auto simp: before_def)

lemma before_Cons: "before order p k \<Longrightarrow> before (x # order) p k"
  unfolding before_def by (metis append_Cons list.set_intros(2))

lemma fmdom'_lookup: "k \<in> fmdom' m \<longleftrightarrow> fmlookup m k \<noteq> None"
  by (metis fmdom'I fmdom'_notI not_None_eq)

lemma tree_invD:
  assumes "tree_inv m order" "fmlookup m k = Some e"
  shows "enID e = k" "k \<noteq> ''''" "enParentID e = '''' \<or> before order (enParentID e) k"
    "k \<in> set order"
proof -
  have k: "k \<in> set order" using assms by (simp add: tree_inv_def fmdom'I)
  then show "k \<in> set order" .
  have e: "the (fmlookup m k) = e" using assms(2) by simp
  have "enID (the (fmlookup m k)) = k \<and>
      (enParentID (the (fmlookup m k)) = '''' \<or> before order (enParentID (the (fmlookup m k))) k)"
    using assms(1) k unfolding tree_inv_def by blast
  then show "enID e = k" "enParentID e = '''' \<or> before order (enParentID e) k"
    unfolding e by blast+
  show "k \<noteq> ''''" using assms(1) k by (auto simp: tree_inv_def)
qed

text \<open>On a tree the guard against repetition never fires: the walk is the plain recursion.\<close>

lemma walk_up_acc:
  assumes "tree_inv m order" "\<forall>x \<in> set seen. cur \<noteq> '''' \<longrightarrow> position order cur < position order x"
  shows "walk_up m seen cur path = walk_up m [] cur [] @ path"
  using assms(2)
proof (induction "if cur = '''' then 0 else Suc (position order cur)" arbitrary: cur seen path
    rule: less_induct)
  case less
  show ?case
  proof (cases "cur = '''' \<or> fmlookup m cur = None")
    case True
    then show ?thesis
      by (subst (1 2) walk_up.simps) (auto split: option.splits)
  next
    case False
    then obtain e where e: "cur \<noteq> ''''" "fmlookup m cur = Some e" by auto
    have fresh: "cur \<notin> set seen" using less.prems e by fastforce
    have lt: "enParentID e \<noteq> '''' \<Longrightarrow> position order (enParentID e) < position order cur"
      using tree_invD(3) [OF assms(1) e(2)] before_position assms(1) by (auto simp: tree_inv_def)
    have smaller: "(if enParentID e = '''' then 0 else Suc (position order (enParentID e)))
        < (if cur = '''' then 0 else Suc (position order cur))"
      using e lt by auto
    have ih: "walk_up m sn (enParentID e) p = walk_up m [] (enParentID e) [] @ p"
      if "\<forall>x \<in> set sn. enParentID e \<noteq> '''' \<longrightarrow> position order (enParentID e) < position order x" for sn p
      by (rule less.hyps [OF smaller that])
    have "walk_up m seen cur path = walk_up m (cur # seen) (enParentID e) (e # path)"
      using e fresh by (subst walk_up.simps) simp
    also have "\<dots> = walk_up m [] (enParentID e) [] @ e # path"
      using lt less.prems e by (intro ih) fastforce
    also have "\<dots> = walk_up m [cur] (enParentID e) [e] @ path"
      using lt by (subst ih [of "[cur]"]) auto
    also have "walk_up m [cur] (enParentID e) [e] = walk_up m [] cur []"
      using e by (subst (2) walk_up.simps) simp
    finally show ?thesis .
  qed
qed

lemma path_to_leaf_None: "fmlookup m leaf = None \<Longrightarrow> path_to_leaf m leaf = []"
  by (subst path_to_leaf_def, subst walk_up.simps) simp

lemma path_to_leaf_Some:
  assumes "tree_inv m order" "fmlookup m leaf = Some e"
  shows "path_to_leaf m leaf = path_to_leaf m (enParentID e) @ [e]"
proof -
  have leaf: "leaf \<noteq> ''''" by (rule tree_invD(2) [OF assms])
  then have "path_to_leaf m leaf = walk_up m [leaf] (enParentID e) [e]"
    using assms(2) by (simp add: path_to_leaf_def walk_up.simps [of m "[]" leaf])
  also have "\<dots> = walk_up m [] (enParentID e) [] @ [e]"
    using tree_invD(3) [OF assms] before_position assms(1)
    by (intro walk_up_acc [OF assms(1)]) (auto simp: tree_inv_def)
  also have "walk_up m [] (enParentID e) [] = path_to_leaf m (enParentID e)"
    by (subst path_to_leaf_def) (simp add: walk_up.simps)
  finally show ?thesis .
qed

definition forest_inv :: "entry_map \<times> string list \<Rightarrow> bool" where
  "forest_inv f = tree_inv (fst f) (snd f)"

interpretation tree: ancestor_walk forest_inv "\<lambda>f k. fmlookup (fst f) k" enID enParentID "''''"
  "\<lambda>f k. position (snd f) k" "\<lambda>f k. path_to_leaf (fst f) k"
proof
  fix f :: "entry_map \<times> string list" and k n
  assume inv: "forest_inv f"
  then have t: "tree_inv (fst f) (snd f)" by (simp add: forest_inv_def)
  show "fmlookup (fst f) k = Some n \<Longrightarrow> enID n = k" by (rule tree_invD(1) [OF t])
  show "fmlookup (fst f) '''' = None" using tree_invD(2) [OF t] by fastforce
  show "fmlookup (fst f) k = Some n \<Longrightarrow> enParentID n \<noteq> '''' \<Longrightarrow>
      fmlookup (fst f) (enParentID n) \<noteq> None"
    using tree_invD(3) [OF t] before_in t by (metis fmdom'_lookup tree_inv_def)
  show "fmlookup (fst f) k = Some n \<Longrightarrow> enParentID n \<noteq> '''' \<Longrightarrow>
      position (snd f) (enParentID n) < position (snd f) k"
    using tree_invD(3) [OF t] before_position t by (metis tree_inv_def)
  show "fmlookup (fst f) k = None \<Longrightarrow> path_to_leaf (fst f) k = []" by (rule path_to_leaf_None)
  show "fmlookup (fst f) k = Some n \<Longrightarrow>
      path_to_leaf (fst f) k = path_to_leaf (fst f) (enParentID n) @ [n]"
    by (rule path_to_leaf_Some [OF t])
qed

subsection \<open>What storing an entry changes\<close>

lemma store_times_frame [frame]:
  "ssID (store_times s e) = ssID s" "ssCWD (store_times s e) = ssCWD s"
  "ssProjectID (store_times s e) = ssProjectID s" "ssName (store_times s e) = ssName s"
  "ssTitle (store_times s e) = ssTitle s" "ssEntries (store_times s e) = ssEntries s"
  "ssOrder (store_times s e) = ssOrder s" "ssLabels (store_times s e) = ssLabels s"
  "ssLeafID (store_times s e) = ssLeafID s"
  by (simp_all add: store_times_def Let_def)

lemma store_metadata_frame [frame]:
  "ssID (store_metadata s e) = ssID s" "ssEntries (store_metadata s e) = ssEntries s"
  "ssOrder (store_metadata s e) = ssOrder s" "ssLabels (store_metadata s e) = ssLabels s"
  "ssLeafID (store_metadata s e) =
     (if enType e = EntrySessionInfo then ssLeafID s
      else if enType e = EntryLeaf then enLeafID e else enID e)"
  by (simp_all add: store_metadata_def)

lemma store_entry_simps [simp]:
  "ssID (store_entry s e) = ssID s"
  "ssEntries (store_entry s e) = fmupd (enID e) e (ssEntries s)"
  "ssOrder (store_entry s e) =
     (if fmlookup (ssEntries s) (enID e) = None then ssOrder s @ [enID e] else ssOrder s)"
  "ssLabels (store_entry s e) = store_labels (ssLabels s) e"
  "ssLeafID (store_entry s e) =
     (if enType e = EntrySessionInfo then ssLeafID s
      else if enType e = EntryLeaf then enLeafID e else enID e)"
  by (simp_all add: store_entry_def Let_def frame)

lemma tree_inv_empty: "tree_inv fmempty []"
  by (simp add: tree_inv_def)

text \<open>A new entry is placed after everything stored, under a stored parent or at a root.\<close>

definition attachable :: "entry_map \<Rightarrow> entry \<Rightarrow> bool" where
  "attachable m e \<longleftrightarrow> enID e \<noteq> '''' \<and> enID e \<notin> fmdom' m \<and>
     (enParentID e = '''' \<or> enParentID e \<in> fmdom' m)"

lemma tree_inv_store [inv_intros]:
  assumes inv: "tree_inv m order" and e: "attachable m e"
  shows "tree_inv (fmupd (enID e) e m) (order @ [enID e])"
  unfolding tree_inv_def
proof (intro conjI ballI)
  from inv have order: "distinct order" "set order = fmdom' m" "'''' \<notin> set order"
    unfolding tree_inv_def by blast+
  from e have fresh: "enID e \<notin> set order" by (simp add: attachable_def order)
  with order show "distinct (order @ [enID e])" by simp
  show "set (order @ [enID e]) = fmdom' (fmupd (enID e) e m)" by (auto simp: order)
  have "enID e \<noteq> ''''" using e by (simp add: attachable_def)
  then show "'''' \<notin> set (order @ [enID e])" using order(3) by (simp add: not_sym)
  fix k
  assume "k \<in> set (order @ [enID e])"
  then consider "k = enID e" | "k \<in> set order" "k \<noteq> enID e" by auto
  then show "enID (the (fmlookup (fmupd (enID e) e m) k)) = k"
    using inv by cases (auto simp: tree_inv_def)
  show "enParentID (the (fmlookup (fmupd (enID e) e m) k)) = '''' \<or>
      before (order @ [enID e]) (enParentID (the (fmlookup (fmupd (enID e) e m) k))) k"
    using \<open>k \<in> set (order @ [enID e])\<close>
  proof (cases "k = enID e")
    case True
    have "enParentID e \<noteq> '''' \<Longrightarrow> enParentID e \<in> set order"
      using e order by (simp add: attachable_def)
    with True show ?thesis by (auto intro: before_snoc)
  next
    case False
    with \<open>k \<in> set (order @ [enID e])\<close> inv show ?thesis
      by (auto simp: tree_inv_def intro: before_append)
  qed
qed

definition leaf_known :: "entry_map \<Rightarrow> entry \<Rightarrow> bool" where
  "leaf_known m e \<longleftrightarrow> (enType e = EntryLeaf \<longrightarrow> enLeafID e = '''' \<or> enLeafID e \<in> fmdom' m)"

lemma session_inv_store [inv_intros]:
  assumes "session_inv s" "attachable (ssEntries s) e" "leaf_known (ssEntries s) e"
  shows "session_inv (store_entry s e)"
proof -
  have "fmlookup (ssEntries s) (enID e) = None"
    using assms(2) by (simp add: attachable_def fmdom'_lookup)
  then show ?thesis using assms tree_inv_store [of "ssEntries s" "ssOrder s" e]
    by (auto simp: session_inv_def leaf_known_def)
qed

lemma session_entries_store:
  assumes "tree_inv (ssEntries s) (ssOrder s)" "fmlookup (ssEntries s) (enID e) = None"
  shows "session_entries (store_entry s e) = session_entries s @ [e]"
proof -
  have "enID e \<notin> set (ssOrder s)" using assms by (simp add: tree_inv_def fmdom'_lookup)
  then have "\<forall>k \<in> set (ssOrder s). fmlookup (fmupd (enID e) e (ssEntries s)) k = fmlookup (ssEntries s) k"
    by auto
  with assms(2) show ?thesis by (simp add: session_entries_def)
qed

text \<open>Storing an entry leaves every path to an older entry as it was, and extends its parent's.\<close>

lemma path_store_old:
  assumes "tree_inv m order" "attachable m e" "k \<noteq> enID e"
  shows "path_to_leaf (fmupd (enID e) e m) k = path_to_leaf m k"
proof -
  have s: "forest_inv (m, order)" using assms by (simp add: forest_inv_def)
  have t: "forest_inv (fmupd (enID e) e m, order @ [enID e])"
    using assms by (simp add: forest_inv_def tree_inv_store)
  have "path_to_leaf (fst (fmupd (enID e) e m, order @ [enID e])) k = path_to_leaf (fst (m, order)) k"
  proof (rule tree.walk_agree [OF s t])
    show "\<forall>n \<in> set (path_to_leaf (fst (m, order)) k).
        fmlookup (fst (fmupd (enID e) e m, order @ [enID e])) (enID n) = Some n"
    proof
      fix n
      assume "n \<in> set (path_to_leaf (fst (m, order)) k)"
      with tree.walk_nodes [OF s] have n: "fmlookup m (enID n) = Some n" by simp
      then have "enID n \<noteq> enID e" using assms(2) fmdom'I [OF n] by (auto simp: attachable_def)
      with n show "fmlookup (fst (fmupd (enID e) e m, order @ [enID e])) (enID n) = Some n" by simp
    qed
  qed (use assms(3) in simp)
  then show ?thesis by simp
qed

lemma path_store_new:
  assumes "tree_inv m order" "attachable m e"
  shows "path_to_leaf (fmupd (enID e) e m) (enID e) = path_to_leaf m (enParentID e) @ [e]"
proof -
  have "path_to_leaf (fmupd (enID e) e m) (enID e) =
      path_to_leaf (fmupd (enID e) e m) (enParentID e) @ [e]"
    by (rule path_to_leaf_Some [OF tree_inv_store [OF assms]]) simp
  moreover have "enParentID e \<noteq> enID e" using assms(2) by (auto simp: attachable_def)
  ultimately show ?thesis using path_store_old [OF assms] by simp
qed

subsection \<open>Loading keeps the invariant\<close>

lemma session_inv_empty: "session_inv (empty_session sid)"
  by (simp add: session_inv_def empty_session_def tree_inv_empty)

lemma load_entry_Inr:
  assumes "load_entry s e = Inr s'"
  shows "s' = store_entry s e \<and> validate_entry e = None \<and> attachable (ssEntries s) e \<and>
     leaf_known (ssEntries s) e \<and> validate_compaction_reference (ssEntries s) e = None"
  using assms validate_entry_None [of e]
  by (auto simp: load_entry_def attachable_def leaf_known_def fmdom'_lookup
      simp del: not_None_eq split: option.splits if_splits)

lemma load_entry_inv [inv_intros]: "session_inv s \<Longrightarrow> load_entry s e = Inr s' \<Longrightarrow> session_inv s'"
  using load_entry_Inr session_inv_store by blast

lemma load_entries_inv [inv_intros]:
  "session_inv s \<Longrightarrow> load_entries s es = Inr s' \<Longrightarrow> session_inv s'"
proof (induction es arbitrary: s)
  case (Cons e es)
  then show ?case by (cases "load_entry s e") (auto intro: load_entry_inv)
qed simp

lemma load_entries_entries:
  "session_inv s \<Longrightarrow> load_entries s es = Inr s' \<Longrightarrow> session_entries s' = session_entries s @ es"
proof (induction es arbitrary: s)
  case (Cons e es)
  then obtain s1 where s1: "load_entry s e = Inr s1" "load_entries s1 es = Inr s'"
    by (cases "load_entry s e") auto
  with load_entry_Inr have "s1 = store_entry s e" "attachable (ssEntries s) e" by blast+
  then have "session_entries s1 = session_entries s @ [e]"
    using Cons.prems(1) session_entries_store
    by (simp add: session_inv_def attachable_def fmdom'_lookup)
  moreover have "session_inv s1" using Cons.prems(1) s1(1) by (rule load_entry_inv)
  ultimately show ?case using Cons.IH s1(2) by simp
qed simp

lemma load_entries_append:
  "load_entries s (xs @ ys) =
     (case load_entries s xs of Inl err \<Rightarrow> Inl err | Inr s' \<Rightarrow> load_entries s' ys)"
  by (induction xs arbitrary: s) (auto split: sum.splits)

subsection \<open>Appending keeps the invariant\<close>

lemma fill_entry_simps:
  "enID (fill_entry s gen now e) =
     (if enID e = '''' then new_entry_id (ssEntries s) gen else enID e)"
  "enType (fill_entry s gen now e) = enType e"
  "enLeafID (fill_entry s gen now e) = enLeafID e"
  "enParentID (fill_entry s gen now e) =
     (if enType e \<noteq> EntrySessionInfo \<and> enType e \<noteq> EntryLeaf \<and> enParentID e = ''''
      then ssLeafID s else enParentID e)"
  "enMessage (fill_entry s gen now e) = enMessage e"
  "enFirstKeptEntryID (fill_entry s gen now e) = enFirstKeptEntryID e"
  "enSummary (fill_entry s gen now e) = enSummary e"
  by (simp_all add: fill_entry_def Let_def)

lemma prepare_entry_Inr:
  assumes "prepare_entry s gen now e0 = Inr e"
  shows "e = fill_entry s gen now e0 \<and> validate_entry e = None \<and>
    validate_compaction_reference (ssEntries s) e = None \<and>
    (enType e = EntryLabel \<longrightarrow> enTargetID e \<in> fmdom' (ssEntries s))"
  using assms
  by (auto simp: prepare_entry_def Let_def fmdom'_lookup simp del: not_None_eq
      split: if_splits option.splits)

text \<open>
  The uuid package does not repeat: none of the ids it returns during the call is already stored.
\<close>

definition fresh_ids :: "session \<Rightarrow> (nat \<Rightarrow> string) \<Rightarrow> bool" where
  "fresh_ids s gen \<longleftrightarrow> (\<forall>n. gen n \<notin> fmdom' (ssEntries s))"

lemma generate_entry_id_fresh:
  "\<forall>n. gen n \<notin> fmdom' m \<Longrightarrow> generate_entry_id n i m gen \<notin> fmdom' m"
  by (induction n arbitrary: i) (auto simp: Let_def fmdom'_lookup simp del: not_None_eq)

lemma new_entry_id_fresh: "fresh_ids s gen \<Longrightarrow> new_entry_id (ssEntries s) gen \<notin> fmdom' (ssEntries s)"
  by (simp add: fresh_ids_def new_entry_id_def generate_entry_id_fresh)

text \<open>The entries the public methods hand to \<open>append\<close>: no id and no parent of their own.\<close>

definition fresh_entry :: "session \<Rightarrow> entry \<Rightarrow> bool" where
  "fresh_entry s e \<longleftrightarrow> enID e = '''' \<and> enParentID e = '''' \<and> leaf_known (ssEntries s) e"

lemma prepare_entry_attachable:
  assumes "session_inv s" "fresh_ids s gen" "fresh_entry s e0" "prepare_entry s gen now e0 = Inr e"
  shows "attachable (ssEntries s) e" "leaf_known (ssEntries s) e"
proof -
  from prepare_entry_Inr [OF assms(4)] have e: "e = fill_entry s gen now e0" "validate_entry e = None"
    by blast+
  from assms(3) have e0: "enID e0 = ''''" "enParentID e0 = ''''" "leaf_known (ssEntries s) e0"
    by (simp_all add: fresh_entry_def)
  from e validate_entry_None have "enID e \<noteq> ''''" by blast
  with e e0 new_entry_id_fresh [OF assms(2)] assms(1) show "attachable (ssEntries s) e"
    by (auto simp: attachable_def fill_entry_simps session_inv_def)
  from e e0 show "leaf_known (ssEntries s) e"
    by (simp add: leaf_known_def fill_entry_simps)
qed

lemma append_entry_inv [inv_intros]:
  assumes "session_inv s" "fresh_ids s gen" "fresh_entry s e0" "append_entry s gen now e0 = Inr (s', e)"
  shows "session_inv s'"
proof -
  from assms(4) have "prepare_entry s gen now e0 = Inr e" "s' = store_entry s e"
    by (auto simp: append_entry_def split: sum.splits)
  with prepare_entry_attachable [OF assms(1-3)] assms(1) show ?thesis
    by (auto intro: session_inv_store)
qed

lemma zero_entry_simps [simp]:
  "enID zero_entry = ''''" "enParentID zero_entry = ''''" "enType zero_entry = no_entry_type"
  "enTimestamp zero_entry = zero_time" "enMessage zero_entry = NilMessage" "enVersion zero_entry = 0"
  "enSummary zero_entry = ''''" "enFirstKeptEntryID zero_entry = ''''" "enTargetID zero_entry = ''''"
  "enLeafID zero_entry = ''''" "enCWD zero_entry = ''''" "enProjectID zero_entry = ''''"
  "enName zero_entry = ''''" "enTitle zero_entry = ''''" "enLabel zero_entry = ''''"
  by (simp_all add: zero_entry_def)

lemma append_leaf_inv [inv_intros]:
  assumes "session_inv s" "fresh_ids s gen" "append_leaf s gen now leaf = Inr (s', e)"
  shows "session_inv s'"
proof -
  from assms(3) have leaf: "leaf = '''' \<or> leaf \<in> fmdom' (ssEntries s)"
    and app: "append_entry s gen now (zero_entry\<lparr>enType := EntryLeaf, enLeafID := leaf\<rparr>) = Inr (s', e)"
    by (auto simp: append_leaf_def fmdom'_lookup simp del: not_None_eq split: if_splits)
  from leaf have "fresh_entry s (zero_entry\<lparr>enType := EntryLeaf, enLeafID := leaf\<rparr>)"
    by (simp add: fresh_entry_def leaf_known_def)
  with assms(1,2) app show ?thesis by (blast intro: append_entry_inv)
qed

lemma move_to_inv [inv_intros]:
  assumes "session_inv s" "move_to s now leaf = Inr s'"
  shows "session_inv s'"
proof -
  from assms(2) have "s' = s\<lparr>ssLeafID := leaf, ssUpdatedAt := now\<rparr>"
    "leaf = '''' \<or> leaf \<in> fmdom' (ssEntries s)"
    by (auto simp: move_to_def fmdom'_lookup simp del: not_None_eq split: if_splits)
  with assms(1) show ?thesis by (auto simp: session_inv_def)
qed

end
