(* ===== verification/SessionContext.thy ===== *)
theory SessionContext
  imports SessionInvariant
begin

text \<open>
  What the context of a leaf holds: the two routines that collect its messages agree, the boundary
  search returns at a leaf with a complete context, and the executable leaf of a session whose
  history ends inside a tool unit is the last complete point before it.
\<close>

subsection \<open>The two collections of messages agree\<close>

lemma entry_messages_snd:
  "map snd (entry_messages e) = (case entry_context_message e of None \<Rightarrow> [] | Some m \<Rightarrow> [m])"
  by (simp add: entry_messages_def split: option.splits)

lemma append_context_messages:
  "scMessages (foldl append_context_message ctx path) =
     scMessages ctx @ map snd (concat (map entry_messages path))"
  by (induction path arbitrary: ctx)
    (auto simp: append_context_message_def entry_messages_def split: option.splits)

lemma apply_state_messages: "scMessages (foldl apply_state_entry ctx path) = scMessages ctx"
proof (induction path arbitrary: ctx)
  case (Cons e path)
  have "scMessages (apply_state_entry ctx e) = scMessages ctx"
    by (simp add: apply_state_entry_def Let_def split: entry_type.splits option.splits)
  with Cons show ?case by simp
qed simp

lemma context_messages_agree:
  "scMessages (build_context_of_path leaf path) = map snd (context_messages_of_path path)"
  by (simp add: build_context_of_path_def context_messages_of_path_def append_context_messages
      apply_state_messages empty_context_def Let_def split: option.splits)

lemma build_context_messages:
  "scMessages (build_context_for_leaf s leaf) = map snd (context_messages_for_leaf s leaf)"
  by (simp add: build_context_for_leaf_def context_messages_for_leaf_def context_messages_agree)

lemma validate_leaf_context:
  "validate_message_sequence (scMessages (build_context_for_leaf s leaf)) = None \<longleftrightarrow>
     msaStatus (analyze_leaf s leaf) = SeqComplete"
  by (simp add: validate_message_sequence_None build_context_messages analyze_leaf_def)

lemma context_messages_empty: "context_messages_of_path [] = []"
  by (simp add: context_messages_of_path_def last_compaction_index_def)

lemma analyze_empty_path: "session_path s leaf = [] \<Longrightarrow> msaStatus (analyze_leaf s leaf) = SeqComplete"
  by (simp add: analyze_leaf_def context_messages_for_leaf_def context_messages_empty)

subsection \<open>The boundary search\<close>

declare safe_boundary.simps [simp del]

lemma safe_boundary_returns:
  assumes "tree_inv (ssEntries s) (ssOrder s)"
  shows "\<exists>k. safe_boundary s leaf = Some k \<and> msaStatus (analyze_leaf s k) = SeqComplete \<and>
    k \<in> insert leaf (insert '''' (enParentID ` set (session_path s leaf)))"
proof -
  have f: "forest_inv (ssEntries s, ssOrder s)" using assms by (simp add: forest_inv_def)
  show ?thesis
    using f
  proof (induction leaf rule: tree.walk_induct)
    case (none k)
    then have none: "fmlookup (ssEntries s) k = None" by simp
    then have path: "session_path s k = []" by (simp add: session_path_def path_to_leaf_None)
    then have "safe_boundary s k = Some k"
      by (subst safe_boundary.simps) (simp add: validate_leaf_context analyze_empty_path)
    with path show ?case by (simp add: analyze_empty_path)
  next
    case (some k n)
    then have n: "fmlookup (ssEntries s) k = Some n" by simp
    show ?case
    proof (cases "msaStatus (analyze_leaf s k) = SeqComplete")
      case True
      then have "safe_boundary s k = Some k"
        by (subst safe_boundary.simps) (simp add: validate_leaf_context)
      with True show ?thesis by simp
    next
      case False
      have "safe_boundary s k = safe_boundary s (enParentID n)"
        using False n tree_invD(2) [OF assms n]
        by (subst safe_boundary.simps) (simp add: validate_leaf_context)
      moreover have "session_path s k = session_path s (enParentID n) @ [n]"
        using path_to_leaf_Some [OF assms n] by (simp add: session_path_def)
      ultimately show ?thesis using some by auto
    qed
  qed
qed

subsection \<open>The executable leaf\<close>

lemma entry_messages_simps:
  "entry_context_message e = None \<Longrightarrow> entry_messages e = []"
  "entry_context_message e = Some m \<Longrightarrow> entry_messages e = [(enID e, m)]"
  by (simp_all add: entry_messages_def)

lemma entry_messages_split:
  "concat (map entry_messages path) = pre @ (k, m) # post \<Longrightarrow>
     \<exists>xs e ys. path = xs @ e # ys \<and> enID e = k \<and> concat (map entry_messages xs) = pre"
proof (induction path arbitrary: pre)
  case (Cons e path)
  show ?case
  proof (cases "entry_context_message e")
    case None
    then have "concat (map entry_messages path) = pre @ (k, m) # post"
      using Cons.prems by (simp add: entry_messages_simps)
    from Cons.IH [OF this] obtain xs e' ys where
      "path = xs @ e' # ys" "enID e' = k" "concat (map entry_messages xs) = pre" by blast
    with None have "e # path = (e # xs) @ e' # ys" "concat (map entry_messages (e # xs)) = pre"
      by (simp_all add: entry_messages_simps)
    with \<open>enID e' = k\<close> show ?thesis by blast
  next
    case (Some m')
    then have msgs: "(enID e, m') # concat (map entry_messages path) = pre @ (k, m) # post"
      using Cons.prems by (simp add: entry_messages_simps)
    show ?thesis
    proof (cases pre)
      case Nil
      with msgs have "e # path = [] @ e # path" "enID e = k" "concat (map entry_messages []) = pre"
        by simp_all
      then show ?thesis by blast
    next
      case (Cons p pre')
      with msgs have "concat (map entry_messages path) = pre' @ (k, m) # post" by simp
      from Cons.IH [OF this] obtain xs e' ys where
        "path = xs @ e' # ys" "enID e' = k" "concat (map entry_messages xs) = pre'" by blast
      with Some Cons msgs have "e # path = (e # xs) @ e' # ys"
        "concat (map entry_messages (e # xs)) = pre" by (simp_all add: entry_messages_simps)
      with \<open>enID e' = k\<close> show ?thesis by blast
    qed
  qed
qed simp

lemma concat_nth_split: "i < length xs \<Longrightarrow> xs = take i xs @ (fst (xs ! i), snd (xs ! i)) # drop (Suc i) xs"
  by (simp add: id_take_nth_drop [symmetric])

text \<open>
  The messages before the pending one are the context of the part of the path before its entry,
  unless the entry is one a compaction kept: then the shorter path has lost the compaction.
\<close>

lemma context_prefix_plain:
  assumes "last_compaction_index path = None" "i < length (context_messages_of_path path)"
  shows "\<exists>xs e ys. path = xs @ e # ys \<and> enID e = fst (context_messages_of_path path ! i) \<and>
     context_messages_of_path xs = take i (context_messages_of_path path)"
proof -
  let ?ms = "context_messages_of_path path"
  have "?ms = concat (map entry_messages path)"
    using assms(1) by (simp add: context_messages_of_path_def)
  then have "concat (map entry_messages path) =
      take i ?ms @ (fst (?ms ! i), snd (?ms ! i)) # drop (Suc i) ?ms"
    using concat_nth_split [OF assms(2)] by simp
  from entry_messages_split [OF this] obtain xs e ys where
    xs: "path = xs @ e # ys" "enID e = fst (?ms ! i)" "concat (map entry_messages xs) = take i ?ms"
    by blast
  moreover have "last_compaction_index xs = None"
    using assms(1) xs(1) by (simp add: last_compaction_index_def last_index_None)
  then have "context_messages_of_path xs = take i ?ms"
    using xs(3) by (simp add: context_messages_of_path_def)
  ultimately show ?thesis by blast
qed

lemma context_messages_compaction:
  assumes "enType c = EntryCompaction" "\<forall>e \<in> set B. enType e \<noteq> EntryCompaction"
  shows "context_messages_of_path (A @ c # B) =
    ((enID c, UserMessage (compaction_summary_message (enSummary c) (enTimestamp c)))
      # concat (map entry_messages (kept_before (enFirstKeptEntryID c) (enFirstKeptEntryID c = '''') A)))
    @ concat (map entry_messages B)"
proof -
  have "last_compaction_index (A @ c # B) = Some (length A)"
    using assms by (simp add: last_compaction_index_def last_index_append last_index_None [THEN iffD2])
  then show ?thesis
    by (simp add: context_messages_of_path_def entries_after_compaction_def Let_def nth_append)
qed

lemma split_at_last_compaction:
  assumes "last_compaction_index path = Some j"
  shows "path = take j path @ path ! j # drop (Suc j) path \<and> enType (path ! j) = EntryCompaction \<and>
    (\<forall>e \<in> set (drop (Suc j) path). enType e \<noteq> EntryCompaction)"
proof -
  from last_index_Some [OF assms [unfolded last_compaction_index_def]]
  have j: "j < length path" "enType (path ! j) = EntryCompaction"
    "\<And>k. j < k \<Longrightarrow> k < length path \<Longrightarrow> enType (path ! k) \<noteq> EntryCompaction" by blast+
  have "\<forall>e \<in> set (drop (Suc j) path). enType e \<noteq> EntryCompaction"
    using j(3) by (auto simp: in_set_conv_nth)
  with j show ?thesis by (simp add: id_take_nth_drop [symmetric])
qed


lemma distinct_map_disjoint:
  "distinct (map f (xs @ ys)) \<Longrightarrow> f ` set xs \<inter> f ` set ys = {}"
  by auto

lemma context_prefix_compaction:
  assumes j: "last_compaction_index path = Some j" and d: "distinct (map enID path)"
    and i: "i < length (context_messages_of_path path)"
    and after: "fst (context_messages_of_path path ! i) \<in> enID ` set (drop (Suc j) path)"
  shows "\<exists>xs e ys. path = xs @ e # ys \<and> enID e = fst (context_messages_of_path path ! i) \<and>
     context_messages_of_path xs = take i (context_messages_of_path path)"
proof -
  let ?ms = "context_messages_of_path path"
  let ?A = "take j path" and ?c = "path ! j" and ?B = "drop (Suc j) path"
  from split_at_last_compaction [OF j] have path: "path = ?A @ ?c # ?B"
    and c: "enType ?c = EntryCompaction" and B: "\<forall>e \<in> set ?B. enType e \<noteq> EntryCompaction"
    by blast+
  define head where "head = (enID ?c, UserMessage (compaction_summary_message (enSummary ?c) (enTimestamp ?c)))
      # concat (map entry_messages (kept_before (enFirstKeptEntryID ?c) (enFirstKeptEntryID ?c = '''') ?A))"
  have ms: "?ms = head @ concat (map entry_messages ?B)"
    by (subst path, subst context_messages_compaction [OF c B]) (simp add: head_def)
  have kept: "set (kept_before k b xs) \<subseteq> set xs" for k b xs
    by (induction k b xs rule: kept_before.induct) (auto simp: Let_def)
  have mids: "fst ` set (concat (map entry_messages xs)) \<subseteq> enID ` set xs" for xs
    by (auto simp: entry_messages_def split: option.splits)
  have "fst ` set head \<subseteq> enID ` set (?A @ [?c])"
    using mids [of "kept_before (enFirstKeptEntryID ?c) (enFirstKeptEntryID ?c = '''') ?A"]
      kept [of "enFirstKeptEntryID ?c" "enFirstKeptEntryID ?c = ''''" ?A]
    by (auto simp: head_def)
  moreover have "enID ` set (?A @ [?c]) \<inter> enID ` set ?B = {}"
  proof (rule distinct_map_disjoint)
    have "(?A @ [?c]) @ ?B = path" by (simp only: append.assoc append.simps path [symmetric])
    with d show "distinct (map enID ((?A @ [?c]) @ ?B))" by (simp only:)
  qed
  ultimately have disj: "fst ` set head \<inter> enID ` set ?B = {}" by blast
  have ge: "length head \<le> i"
  proof (rule ccontr)
    assume "\<not> length head \<le> i"
    then have "?ms ! i \<in> set head" by (simp add: ms nth_append)
    with after disj show False by blast
  qed
  let ?tail = "concat (map entry_messages ?B)"
  have tail: "i - length head < length ?tail" using i ge ms by simp
  have at: "?ms ! i = ?tail ! (i - length head)" using ge by (simp add: ms nth_append)
  from entry_messages_split [OF concat_nth_split [OF tail]] obtain xs e ys where
    xs: "?B = xs @ e # ys" "enID e = fst (?tail ! (i - length head))"
      "concat (map entry_messages xs) = take (i - length head) ?tail" by blast
  have "\<forall>e \<in> set xs. enType e \<noteq> EntryCompaction" using B xs(1) by simp
  then have "context_messages_of_path (?A @ ?c # xs) = take i ?ms"
    using context_messages_compaction [OF c, of xs ?A, folded head_def] ge xs(3) by (simp add: ms)
  moreover have "path = (?A @ ?c # xs) @ e # ys"
    using path unfolding xs(1) by (simp only: append.assoc append.simps)
  ultimately show ?thesis using xs(2) at by metis
qed

text \<open>The condition under which the parent of the pending assistant is a complete point.\<close>

definition pending_after_compaction :: "session \<Rightarrow> string \<Rightarrow> bool" where
  "pending_after_compaction s leaf =
     (case last_compaction_index (session_path s leaf) of
        None \<Rightarrow> True
      | Some j \<Rightarrow>
          (case msaPending (analyze_leaf s leaf) of
             None \<Rightarrow> True
           | Some i \<Rightarrow> fst (context_messages_for_leaf s leaf ! i)
               \<in> enID ` set (drop (Suc j) (session_path s leaf))))"

lemma session_path_distinct: "session_inv s \<Longrightarrow> distinct (map enID (session_path s leaf))"
  using tree.walk_distinct [of "(ssEntries s, ssOrder s)" leaf]
  by (simp add: session_path_def forest_inv_def session_inv_tree)

lemma session_path_prefix:
  assumes "session_inv s" "session_path s leaf = xs @ e # ys"
  shows "session_path s (enParentID e) = xs" "fmlookup (ssEntries s) (enID e) = Some e"
proof -
  have f: "forest_inv (ssEntries s, ssOrder s)" using assms(1)
    by (simp add: forest_inv_def session_inv_tree)
  show "session_path s (enParentID e) = xs"
    using tree.walk_prefix [OF f, of leaf xs e ys] assms(2) by (simp add: session_path_def)
  show "fmlookup (ssEntries s) (enID e) = Some e"
    using tree.walk_nodes [OF f, of e leaf] assms(2) by (simp add: session_path_def)
qed

lemma context_prefix:
  assumes "session_inv s" "pending_after_compaction s leaf"
    and "msaPending (analyze_leaf s leaf) = Some i" "i < length (context_messages_for_leaf s leaf)"
  shows "\<exists>e. fmlookup (ssEntries s) (fst (context_messages_for_leaf s leaf ! i)) = Some e \<and>
     context_messages_for_leaf s (enParentID e) = take i (context_messages_for_leaf s leaf)"
proof -
  have "\<exists>xs e ys. session_path s leaf = xs @ e # ys \<and>
      enID e = fst (context_messages_of_path (session_path s leaf) ! i) \<and>
      context_messages_of_path xs = take i (context_messages_of_path (session_path s leaf))"
  proof (cases "last_compaction_index (session_path s leaf)")
    case None
    with assms(4) show ?thesis
      unfolding context_messages_for_leaf_def by (intro context_prefix_plain)
  next
    case (Some j)
    with assms show ?thesis
      unfolding context_messages_for_leaf_def
      by (intro context_prefix_compaction [OF Some session_path_distinct [OF assms(1)]])
        (simp_all add: pending_after_compaction_def context_messages_for_leaf_def)
  qed
  then obtain xs e ys where xs: "session_path s leaf = xs @ e # ys"
    "enID e = fst (context_messages_for_leaf s leaf ! i)"
    "context_messages_of_path xs = take i (context_messages_for_leaf s leaf)"
    unfolding context_messages_for_leaf_def by blast
  with session_path_prefix [OF assms(1) xs(1)] show ?thesis
    by (intro exI [of _ e]) (simp add: context_messages_for_leaf_def)
qed


lemma analyze_incomplete_pending:
  assumes "msaStatus (analyze_leaf s leaf) = SeqIncomplete"
  shows "\<exists>i. msaPending (analyze_leaf s leaf) = Some i \<and> i < length (context_messages_for_leaf s leaf) \<and>
     msaStatus (analyze_message_sequence
       (map snd (take i (context_messages_for_leaf s leaf)))) = SeqComplete"
  using analyze_incomplete_prefix [of "map snd (context_messages_for_leaf s leaf)"] assms
  by (auto simp: analyze_leaf_def take_map)

lemma executable_leaf_returns:
  assumes "session_inv s" "leaf = '''' \<or> leaf \<in> fmdom' (ssEntries s)"
  shows "\<exists>k. executable_leaf s leaf = Some k \<and> (k = '''' \<or> k \<in> fmdom' (ssEntries s))"
proof -
  have parents: "enParentID e = '''' \<or> enParentID e \<in> fmdom' (ssEntries s)"
    if "fmlookup (ssEntries s) j = Some e" for j e
    using tree_invD(3) [OF session_inv_tree [OF assms(1)] that] before_in session_inv_tree [OF assms(1)]
    by (metis tree_inv_def)
  have path: "enParentID e = '''' \<or> enParentID e \<in> fmdom' (ssEntries s)"
    if "e \<in> set (session_path s leaf)" for e
  proof -
    from that obtain xs ys where "session_path s leaf = xs @ e # ys" by (meson split_list)
    from parents [OF session_path_prefix(2) [OF assms(1) this]] show ?thesis .
  qed
  obtain b where b: "safe_boundary s leaf = Some b"
    "b \<in> insert leaf (insert '''' (enParentID ` set (session_path s leaf)))"
    using safe_boundary_returns [OF session_inv_tree [OF assms(1)]] by blast
  then have "b = '''' \<or> b \<in> fmdom' (ssEntries s)" using assms(2) path by blast
  then show ?thesis using b(1) assms(2) parents
    by (auto simp: executable_leaf_def Let_def split: option.splits)
qed

lemma executable_leaf_complete:
  assumes "session_inv s" "pending_after_compaction s leaf" "msaStatus (analyze_leaf s leaf) \<noteq> SeqInvalid"
    and "executable_leaf s leaf = Some k"
  shows "msaStatus (analyze_leaf s k) = SeqComplete"
proof (cases "msaStatus (analyze_leaf s leaf) = SeqIncomplete")
  case False
  with assms show ?thesis
    by (cases "msaStatus (analyze_leaf s leaf)") (simp_all add: executable_leaf_def Let_def)
next
  case True
  from analyze_incomplete_pending [OF this] obtain i where
    i: "msaPending (analyze_leaf s leaf) = Some i" "i < length (context_messages_for_leaf s leaf)"
    "msaStatus (analyze_message_sequence
       (map snd (take i (context_messages_for_leaf s leaf)))) = SeqComplete" by blast
  from context_prefix [OF assms(1,2) i(1,2)] obtain e where
    e: "fmlookup (ssEntries s) (fst (context_messages_for_leaf s leaf ! i)) = Some e"
    "context_messages_for_leaf s (enParentID e) = take i (context_messages_for_leaf s leaf)" by blast
  have "k = enParentID e" using assms(4) True i(1,2) e(1) by (simp add: executable_leaf_def Let_def)
  then show ?thesis using e(2) i(3) by (simp add: analyze_leaf_def)
qed

subsection \<open>Loading\<close>

lemma load_session_Inr:
  assumes "load_session s es = Some (Inr s')"
  shows "\<exists>c leaf. load_entries (empty_session (ssID s)) es = Inr c \<and> validate_loaded_history c = None \<and>
     executable_leaf c (ssLeafID c) = Some leaf \<and> s' = c\<lparr>ssLeafID := leaf, ssID := ssID s\<rparr>"
  using assms by (auto simp: load_session_def publish_def split: sum.splits option.splits)

lemma session_tree_only:
  "session_path (s\<lparr>ssLeafID := l, ssID := i\<rparr>) k = session_path s k"
  "analyze_leaf (s\<lparr>ssLeafID := l, ssID := i\<rparr>) k = analyze_leaf s k"
  "session_entries (s\<lparr>ssLeafID := l, ssID := i\<rparr>) = session_entries s"
  by (simp_all add: session_path_def analyze_leaf_def context_messages_for_leaf_def session_entries_def)

lemma load_session_returns: "load_session s es \<noteq> None"
proof (cases "load_entries (empty_session (ssID s)) es")
  case (Inr c)
  have "session_inv c" by (rule load_entries_inv [OF session_inv_empty Inr])
  then have "executable_leaf c (ssLeafID c) \<noteq> None"
    using executable_leaf_returns [of c "ssLeafID c"] by (auto simp: session_inv_def)
  with Inr show ?thesis by (auto simp: load_session_def split: option.splits)
qed (simp add: load_session_def)

lemma load_session_inv:
  assumes "load_session s es = Some (Inr s')"
  shows "session_inv s'" "session_entries s' = es" "ssID s' = ssID s"
proof -
  from load_session_Inr [OF assms] obtain c leaf where
    c: "load_entries (empty_session (ssID s)) es = Inr c"
    "executable_leaf c (ssLeafID c) = Some leaf" "s' = c\<lparr>ssLeafID := leaf, ssID := ssID s\<rparr>" by blast
  have inv: "session_inv c" by (rule load_entries_inv [OF session_inv_empty c(1)])
  then have "leaf = '''' \<or> leaf \<in> fmdom' (ssEntries c)"
    using executable_leaf_returns [OF inv, of "ssLeafID c"] c(2) by (auto simp: session_inv_def)
  with inv c(3) show "session_inv s'" by (simp add: session_inv_def)
  show "session_entries s' = es"
    using load_entries_entries [OF session_inv_empty c(1)] c(3)
    by (simp add: session_tree_only) (simp add: session_entries_def empty_session_def)
  show "ssID s' = ssID s" using c(3) by simp
qed


end
