(* ===== verification/SessionFork.thy ===== *)
theory SessionFork
  imports SessionInvariant
begin

text \<open>
  Forking a session. The copied path becomes the whole tree of the fork, so the fork's own path to
  its leaf, and with it the model context, is the source's path. The metadata entry is written
  last and moved to the front of the order, which keeps the invariant since it is a root.
\<close>

text \<open>Entries that a conversation path is made of: neither metadata nor leaf markers.\<close>

definition conversation_entry :: "entry \<Rightarrow> bool" where
  "conversation_entry e \<longleftrightarrow> enType e \<noteq> EntrySessionInfo \<and> enType e \<noteq> EntryLeaf"

definition copied :: "session \<Rightarrow> entry list \<Rightarrow> bool" where
  "copied f path \<longleftrightarrow> session_inv f \<and> ssOrder f = map enID path \<and>
     (\<forall>e \<in> set path. fmlookup (ssEntries f) (enID e) = Some e) \<and>
     ssLeafID f = (if path = [] then '''' else enID (last path))"

lemma copied_empty:
  "session_inv f \<Longrightarrow> ssEntries f = fmempty \<Longrightarrow> ssLeafID f = '''' \<Longrightarrow> copied f []"
  by (simp add: copied_def session_inv_def tree_inv_def)

lemma copied_store:
  assumes "copied f path" "conversation_entry e" "enID e \<noteq> ''''" "enID e \<notin> enID ` set path"
    "enParentID e = '''' \<or> enParentID e \<in> enID ` set path"
  shows "copied (store_entry f e) (path @ [e])"
proof -
  from assms(1) have f: "session_inv f" "ssOrder f = map enID path"
    "\<forall>n \<in> set path. fmlookup (ssEntries f) (enID n) = Some n"
    by (simp_all add: copied_def)
  then have dom: "fmdom' (ssEntries f) = enID ` set path"
    by (simp add: session_inv_def tree_inv_def)
  have att: "attachable (ssEntries f) e" using assms(3-5) by (simp add: attachable_def dom)
  have "leaf_known (ssEntries f) e" using assms(2) by (simp add: leaf_known_def conversation_entry_def)
  with f att have "session_inv (store_entry f e)" by (intro session_inv_store)
  moreover have "fmlookup (ssEntries f) (enID e) = None"
    using att by (simp add: attachable_def fmdom'_lookup)
  ultimately show ?thesis
    using f assms(2,4) by (auto simp: copied_def conversation_entry_def)
qed

lemma copied_path:
  assumes inv: "tree_inv m order" and plain: "\<forall>e \<in> set (path_to_leaf m leaf). conversation_entry e"
    and f0: "copied f0 []"
  shows "path_to_leaf m leaf = xs @ ys \<Longrightarrow> copied (foldl store_entry f0 xs) xs"
proof (induction xs arbitrary: ys rule: rev_induct)
  case Nil
  then show ?case using f0 by simp
next
  case (snoc e xs)
  have s: "forest_inv (m, order)" using inv by (simp add: forest_inv_def)
  note prefix = tree.walk_prefix [OF s, of leaf xs e ys, simplified]
  note distinct = tree.walk_distinct [OF s, of leaf, simplified]
  from snoc.prems have path: "path_to_leaf m leaf = xs @ e # ys" by simp
  then have e: "fmlookup m (enID e) = Some e"
    using tree.walk_nodes [OF s, of e leaf] by simp
  have parent: "enParentID e = '''' \<or> enParentID e \<in> enID ` set xs"
  proof (cases "xs = []")
    case True
    with path tree.walk_hd [OF s, of leaf e ys] show ?thesis by simp
  next
    case False
    then obtain zs a where "xs = zs @ [a]" by (metis rev_exhaust)
    with path tree.walk_links [OF s, of leaf zs a e ys] show ?thesis by simp
  qed
  have "copied (store_entry (foldl store_entry f0 xs) e) (xs @ [e])"
  proof (rule copied_store)
    show "copied (foldl store_entry f0 xs) xs" using snoc.IH path by blast
    show "conversation_entry e" using plain path by simp
    show "enID e \<noteq> ''''" by (rule tree_invD(2) [OF inv e])
    show "enID e \<notin> enID ` set xs" using distinct path by simp
    show "enParentID e = '''' \<or> enParentID e \<in> enID ` set xs" by (rule parent)
  qed
  then show ?case by simp
qed

lemma copied_walk:
  assumes "tree_inv m order" "copied f (path_to_leaf m leaf)" "fmlookup m leaf = None \<Longrightarrow> leaf = ''''"
  shows "path_to_leaf (ssEntries f) leaf = path_to_leaf m leaf"
proof -
  have s: "forest_inv (m, order)" using assms(1) by (simp add: forest_inv_def)
  have t: "forest_inv (ssEntries f, ssOrder f)"
  proof -
    have "session_inv f" using assms(2) by (simp add: copied_def)
    then show ?thesis by (simp add: forest_inv_def session_inv_tree)
  qed
  have "path_to_leaf (fst (ssEntries f, ssOrder f)) leaf = path_to_leaf (fst (m, order)) leaf"
  proof (rule tree.walk_agree [OF s t])
    show "\<forall>n \<in> set (path_to_leaf (fst (m, order)) leaf).
        fmlookup (fst (ssEntries f, ssOrder f)) (enID n) = Some n"
      using assms(2) by (simp add: copied_def)
    show "fmlookup (fst (m, order)) leaf = None \<Longrightarrow> fmlookup (fst (ssEntries f, ssOrder f)) leaf = None"
      using assms(3) tree.node_root [OF t] by simp
  qed
  then show ?thesis by simp
qed

text \<open>Moving a new root to the front of the order.\<close>

lemma tree_inv_rotate:
  assumes "tree_inv m (order @ [k])" "enParentID (the (fmlookup m k)) = ''''"
  shows "tree_inv m (k # order)"
proof -
  from assms(1) have inv: "distinct (order @ [k])" "set (order @ [k]) = fmdom' m" "'''' \<notin> set (order @ [k])"
    and each: "\<forall>x \<in> set (order @ [k]). enID (the (fmlookup m x)) = x \<and>
      (enParentID (the (fmlookup m x)) = '''' \<or> before (order @ [k]) (enParentID (the (fmlookup m x))) x)"
    unfolding tree_inv_def by blast+
  have move: "before (k # order) p x" if "before (order @ [k]) p x" "x \<noteq> k" for p x
  proof -
    from that(1) obtain xs ys where split: "order @ [k] = xs @ x # ys" "p \<in> set xs"
      by (auto simp: before_def)
    with that(2) obtain zs where "order = xs @ x # zs"
      by (cases ys rule: rev_cases) auto
    with split(2) have "before order p x" unfolding before_def by blast
    then show ?thesis by (rule before_Cons)
  qed
  have "enParentID (the (fmlookup m x)) = '''' \<or> before (k # order) (enParentID (the (fmlookup m x))) x"
    if "x \<in> set (k # order)" for x
    using that each move assms(2) by (cases "x = k") auto
  with inv each show ?thesis by (auto simp: tree_inv_def)
qed

lemma fork_metadata_inv [inv_intros]:
  assumes "session_inv f" "fresh_ids f gen" "fork_metadata f gen now = Inr f'"
  shows "session_inv f'"
    "k \<in> insert '''' (fmdom' (ssEntries f)) \<Longrightarrow>
       path_to_leaf (ssEntries f') k = path_to_leaf (ssEntries f) k"
    "ssLeafID f' = ssLeafID f"
proof -
  have "session_inv f' \<and> ssLeafID f' = ssLeafID f \<and>
      (\<forall>k \<in> insert '''' (fmdom' (ssEntries f)).
         path_to_leaf (ssEntries f') k = path_to_leaf (ssEntries f) k)"
  proof (cases "f' = f")
    case True
    with assms(1) show ?thesis by simp
  next
    case False
    let ?e0 = "zero_entry\<lparr>enType := EntrySessionInfo, enCWD := ssCWD f,
                enProjectID := ssProjectID f, enName := ssName f, enTitle := ssTitle f\<rparr>"
    from False assms(3) obtain e where prep: "prepare_entry f gen now ?e0 = Inr e"
      and f': "f' = (store_entry f e)\<lparr>ssOrder := enID e # butlast (ssOrder (store_entry f e))\<rparr>"
      by (auto simp: fork_metadata_def Let_def split: if_splits sum.splits)
    have att: "attachable (ssEntries f) e" and known: "leaf_known (ssEntries f) e"
      by (rule prepare_entry_attachable [OF assms(1,2) _ prep],
          simp add: fresh_entry_def leaf_known_def)+
    from prepare_entry_Inr [OF prep] have e: "enType e = EntrySessionInfo" "enParentID e = ''''"
      by (auto simp: fill_entry_simps)
    from att have new: "fmlookup (ssEntries f) (enID e) = None"
      by (simp add: attachable_def fmdom'_lookup)
    then have order: "ssOrder f' = enID e # ssOrder f" by (simp add: f')
    have "session_inv (store_entry f e)" using assms(1) att known by (rule session_inv_store)
    then have tree: "tree_inv (ssEntries (store_entry f e)) (ssOrder f @ [enID e])"
      and leaf: "ssLeafID f = '''' \<or> ssLeafID f \<in> fmdom' (ssEntries (store_entry f e))"
      using new e by (simp_all add: session_inv_def)
    from tree_inv_rotate [OF tree] e
    have "tree_inv (ssEntries f') (ssOrder f')" by (simp add: f' order [unfolded f'] new)
    with leaf e have "session_inv f'" by (simp add: session_inv_def f')
    moreover have "path_to_leaf (ssEntries f') k = path_to_leaf (ssEntries f) k"
      if "k \<in> insert '''' (fmdom' (ssEntries f))" for k
    proof -
      have "k \<noteq> enID e" using that att by (auto simp: attachable_def)
      from path_store_old [OF session_inv_tree [OF assms(1)] att this] show ?thesis
        by (simp add: f')
    qed
    ultimately show ?thesis using e by (simp add: f')
  qed
  then show "session_inv f'" "ssLeafID f' = ssLeafID f"
    "k \<in> insert '''' (fmdom' (ssEntries f)) \<Longrightarrow>
       path_to_leaf (ssEntries f') k = path_to_leaf (ssEntries f) k"
    by blast+
qed

text \<open>
  The whole fork. The source path holds conversation entries only, as it does in every session
  whose leaf was never moved to a metadata entry or a leaf marker.
\<close>

definition conversation_path :: "session \<Rightarrow> string \<Rightarrow> bool" where
  "conversation_path s leaf \<longleftrightarrow> (\<forall>e \<in> set (session_path s leaf). conversation_entry e)"

definition valid_leaf :: "session \<Rightarrow> string \<Rightarrow> bool" where
  "valid_leaf s leaf \<longleftrightarrow> leaf = '''' \<or> leaf \<in> fmdom' (ssEntries s)"

lemma fork_target_leaf:
  assumes "session_inv s" "fork_target s opts = Inr (leaf, marker)"
  shows "marker = None \<Longrightarrow> valid_leaf s leaf"
    "marker = Some e \<Longrightarrow> enType e = EntryLeaf \<and> enLeafID e = leaf \<and> enParentID e = leaf \<and>
       enID e \<in> fmdom' (ssEntries s) \<and> enType (the (fmlookup (ssEntries s) (enID e))) = EntryLeaf"
proof -
  note tree = session_inv_tree [OF assms(1)]
  have dom: "set (ssOrder s) = fmdom' (ssEntries s)" using tree by (simp add: tree_inv_def)
  show "valid_leaf s leaf" if "marker = None"
  proof (cases "foEntryID opts = ''''")
    case True
    with assms show ?thesis by (auto simp: fork_target_def valid_leaf_def session_inv_def)
  next
    case False
    with assms(2) obtain t where t: "fmlookup (ssEntries s) (foEntryID opts) = Some t"
      by (auto simp: fork_target_def split: option.splits)
    have "leaf = enID t \<or> leaf = enParentID t"
      using assms(2) False t that
      by (auto simp: fork_target_def Let_def split: fork_position.splits if_splits)
    with tree_invD [OF tree t] before_in [of "ssOrder s" "enParentID t" "foEntryID opts"] dom
    show ?thesis by (auto simp: valid_leaf_def)
  qed
  show "enType e = EntryLeaf \<and> enLeafID e = leaf \<and> enParentID e = leaf \<and>
       enID e \<in> fmdom' (ssEntries s) \<and> enType (the (fmlookup (ssEntries s) (enID e))) = EntryLeaf"
    if "marker = Some e"
  proof -
    from assms(2) that have "foEntryID opts \<noteq> ''''" by (auto simp: fork_target_def)
    with assms(2) obtain t where t: "fmlookup (ssEntries s) (foEntryID opts) = Some t"
      by (auto simp: fork_target_def split: option.splits)
    have "enType t = EntryLeaf" "e = t\<lparr>enParentID := enLeafID t\<rparr>" "leaf = enLeafID t"
      using assms(2) \<open>foEntryID opts \<noteq> ''''\<close> t that
      by (auto simp: fork_target_def Let_def split: fork_position.splits if_splits)
    moreover have "enID t = foEntryID opts" by (rule tree_invD(1) [OF tree t])
    ultimately show ?thesis using t fmdom'I [OF t] by simp
  qed
qed

lemma fork_base_copied:
  fixes now :: time and fresh :: string and opts :: fork_options and s :: session
  assumes "session_inv s" "conversation_path s leaf" "valid_leaf s leaf"
  defines "f0 \<equiv> (new_session (foID opts) fresh now)\<lparr>ssCWD := ssCWD s,
                  ssProjectID := ssProjectID s, ssName := ssName s, ssTitle := ssTitle s\<rparr>"
  shows "copied (foldl store_entry f0 (session_path s leaf)) (session_path s leaf)"
    "session_path (foldl store_entry f0 (session_path s leaf)) leaf = session_path s leaf"
    "fmdom' (ssEntries (foldl store_entry f0 (session_path s leaf))) \<subseteq> fmdom' (ssEntries s)"
proof -
  let ?f = "foldl store_entry f0 (session_path s leaf)"
  note tree = session_inv_tree [OF assms(1)]
  have f: "forest_inv (ssEntries s, ssOrder s)" using tree by (simp add: forest_inv_def)
  have empty: "copied f0 []"
    by (rule copied_empty)
      (simp_all add: f0_def new_session_def empty_session_def session_inv_def tree_inv_empty)
  have nodes: "\<forall>e \<in> set (path_to_leaf (ssEntries s) leaf). conversation_entry e"
    using assms(2) by (simp only: conversation_path_def session_path_def)
  show c: "copied ?f (session_path s leaf)"
    unfolding session_path_def
    by (rule copied_path [OF tree nodes empty append_Nil2 [symmetric]])
  show "session_path ?f leaf = session_path s leaf"
    unfolding session_path_def
  proof (rule copied_walk [OF tree])
    show "copied (foldl store_entry f0 (path_to_leaf (ssEntries s) leaf))
        (path_to_leaf (ssEntries s) leaf)" using c by (simp only: session_path_def)
    show "leaf = ''''" if "fmlookup (ssEntries s) leaf = None"
      using assms(3) that unfolding valid_leaf_def fmdom'_lookup by blast
  qed
  have order: "ssOrder ?f = map enID (session_path s leaf)" and inv: "session_inv ?f"
    using c unfolding copied_def by blast+
  have "fmdom' (ssEntries ?f) = set (ssOrder ?f)"
    using session_inv_tree [OF inv] unfolding tree_inv_def by blast
  then have dom: "fmdom' (ssEntries ?f) = enID ` set (session_path s leaf)"
    by (simp only: order set_map)
  have node: "enID e \<in> fmdom' (ssEntries s)" if "e \<in> set (session_path s leaf)" for e
    using tree.walk_nodes [OF f, of e leaf] that
    by (simp only: session_path_def fst_conv fmdom'I)
  show "fmdom' (ssEntries ?f) \<subseteq> fmdom' (ssEntries s)" unfolding dom using node by blast
qed

lemma fork_session_correct:
  assumes "session_inv s" "fresh_ids s gen" "fork_target s opts = Inr (leaf, marker)"
    and "conversation_path s leaf" "valid_leaf s leaf"
    and fork: "fork_session s fresh gen now opts = Inr f"
  shows "session_inv f" "ssLeafID f = leaf" "session_path f leaf = session_path s leaf"
proof -
  define f0 where "f0 = (new_session (foID opts) fresh now)\<lparr>ssCWD := ssCWD s,
                  ssProjectID := ssProjectID s, ssName := ssName s, ssTitle := ssTitle s\<rparr>"
  define f1 where "f1 = foldl store_entry f0 (session_path s leaf)"
  define f2 where "f2 = (case marker of None \<Rightarrow> f1 | Some e \<Rightarrow> store_entry f1 e)"
  have base: "copied f1 (session_path s leaf)" "session_path f1 leaf = session_path s leaf"
    "fmdom' (ssEntries f1) \<subseteq> fmdom' (ssEntries s)"
    unfolding f1_def f0_def by (rule fork_base_copied [OF assms(1,4,5)])+
  have inv1: "session_inv f1" using base(1) by (simp add: copied_def)
  have leaf1: "ssLeafID f1 = leaf"
  proof (cases "fmlookup (ssEntries s) leaf")
    case None
    with assms(5) have "leaf = ''''" by (auto simp: valid_leaf_def fmdom'_lookup)
    with base(1) show ?thesis by (simp add: copied_def session_path_def path_to_leaf_def)
  next
    case (Some e)
    have "session_path s leaf = path_to_leaf (ssEntries s) (enParentID e) @ [e]"
      unfolding session_path_def by (rule path_to_leaf_Some [OF session_inv_tree [OF assms(1)] Some])
    with base(1) tree_invD(1) [OF session_inv_tree [OF assms(1)] Some] show ?thesis
      by (simp add: copied_def)
  qed
  have step: "session_inv f2 \<and> ssLeafID f2 = leaf \<and> session_path f2 leaf = session_path s leaf \<and>
      fmdom' (ssEntries f2) \<subseteq> fmdom' (ssEntries s)"
  proof (cases marker)
    case None
    then show ?thesis using inv1 leaf1 base by (simp add: f2_def)
  next
    case (Some e)
    note e = fork_target_leaf(2) [OF assms(1,3) Some]
    have notin: "enID e \<notin> fmdom' (ssEntries f1)"
    proof
      assume "enID e \<in> fmdom' (ssEntries f1)"
      then have "enID e \<in> set (map enID (session_path s leaf))"
        using session_inv_tree [OF inv1] base(1) by (simp add: copied_def tree_inv_def)
      then obtain n where n: "n \<in> set (session_path s leaf)" "enID n = enID e" by auto
      have "forest_inv (ssEntries s, ssOrder s)"
        using session_inv_tree [OF assms(1)] by (simp add: forest_inv_def)
      from tree.walk_nodes [OF this, of n leaf] n have "fmlookup (ssEntries s) (enID e) = Some n"
        by (simp add: session_path_def)
      with e have "enType n = EntryLeaf" by simp
      with assms(4) n(1) show False by (auto simp: conversation_path_def conversation_entry_def)
    qed
    have leaf_in: "leaf = '''' \<or> leaf \<in> fmdom' (ssEntries f1)"
      using inv1 leaf1 by (auto simp: session_inv_def)
    have ne: "enID e \<noteq> ''''"
      using e session_inv_tree [OF assms(1)] by (metis tree_inv_def)
    have att: "attachable (ssEntries f1) e" using e notin leaf_in ne by (simp add: attachable_def)
    moreover have "leaf_known (ssEntries f1) e" using e leaf_in by (simp add: leaf_known_def)
    ultimately have "session_inv (store_entry f1 e)" using inv1 by (intro session_inv_store)
    moreover have "leaf \<noteq> enID e" using leaf_in notin ne by auto
    then have "session_path (store_entry f1 e) leaf = session_path s leaf"
      using path_store_old [OF session_inv_tree [OF inv1] att] base(2) by (simp add: session_path_def)
    ultimately show ?thesis using e base(3) Some by (simp add: f2_def)
  qed
  have meta: "fork_metadata f2 gen now = Inr f"
    using fork assms(3) unfolding fork_session_def f2_def f1_def f0_def Let_def by simp
  have fresh2: "fresh_ids f2 gen" using assms(2) step by (auto simp: fresh_ids_def)
  note inv = fork_metadata_inv [OF _ fresh2 meta]
  from step show "session_inv f" "ssLeafID f = leaf" using inv(1,3) by auto
  have "leaf \<in> insert '''' (fmdom' (ssEntries f2))" using step by (auto simp: session_inv_def)
  with inv(2) [of leaf] step show "session_path f leaf = session_path s leaf"
    by (simp add: session_path_def)
qed

end
