(* ===== verification/SessionReload.thy ===== *)
theory SessionReload
  imports SessionContext SessionFork
begin

text \<open>
  The history a session built by the public append methods has is one \<open>Load\<close> accepts, and loading
  it gives the same tree, labels, leaf and metadata back (the times come from the entries instead).
\<close>

definition same_history :: "session \<Rightarrow> session \<Rightarrow> bool" where
  "same_history s t \<longleftrightarrow> ssEntries s = ssEntries t \<and> ssOrder s = ssOrder t \<and>
     ssLabels s = ssLabels t \<and> ssLeafID s = ssLeafID t \<and> ssCWD s = ssCWD t \<and>
     ssProjectID s = ssProjectID t \<and> ssName s = ssName t \<and> ssTitle s = ssTitle t"

inductive api_session :: "session \<Rightarrow> bool" where
  api_new: "api_session (new_session sid fresh now)"
| api_append: "api_session s \<Longrightarrow> fresh_ids s gen \<Longrightarrow> fresh_entry s e0 \<Longrightarrow>
     append_entry s gen now e0 = Inr (s', e) \<Longrightarrow> api_session s'"

lemma store_metadata_fields:
  "ssCWD (store_entry s e) = (if enType e = EntrySessionInfo \<and> enCWD e \<noteq> '''' then enCWD e else ssCWD s)"
  "ssProjectID (store_entry s e) =
     (if enType e = EntrySessionInfo \<and> enProjectID e \<noteq> '''' then enProjectID e else ssProjectID s)"
  "ssName (store_entry s e) = (if enType e = EntrySessionInfo \<and> enName e \<noteq> '''' then enName e else ssName s)"
  "ssTitle (store_entry s e) = (if enType e = EntrySessionInfo \<and> enTitle e \<noteq> '''' then enTitle e else ssTitle s)"
  by (simp_all add: store_entry_def Let_def frame) (simp_all add: store_metadata_def)

lemma same_history_store: "same_history s t \<Longrightarrow> same_history (store_entry s e) (store_entry t e)"
  by (simp add: same_history_def store_metadata_fields)

lemma append_entry_Inr:
  "append_entry s gen now e0 = Inr (s', e) \<longleftrightarrow> prepare_entry s gen now e0 = Inr e \<and> s' = store_entry s e"
  by (auto simp: append_entry_def split: sum.splits)

lemma load_entry_prepared:
  assumes "session_inv s" "fresh_ids s gen" "fresh_entry s e0" "prepare_entry s gen now e0 = Inr e"
    and "ssEntries t = ssEntries s"
  shows "load_entry t e = Inr (store_entry t e)"
proof -
  have att: "attachable (ssEntries s) e" and known: "leaf_known (ssEntries s) e"
    by (rule prepare_entry_attachable [OF assms(1-4)])+
  have ok: "validate_entry e = None" "validate_compaction_reference (ssEntries s) e = None"
    using prepare_entry_Inr [OF assms(4)] by blast+
  have "fmlookup (ssEntries s) (enID e) = None"
    "enParentID e = '''' \<or> fmlookup (ssEntries s) (enParentID e) \<noteq> None"
    "enType e = EntryLeaf \<longrightarrow> enLeafID e = '''' \<or> fmlookup (ssEntries s) (enLeafID e) \<noteq> None"
    using att known by (simp_all add: attachable_def leaf_known_def fmdom'_lookup)
  then show ?thesis using ok assms(5)
    by (simp add: load_entry_def del: not_None_eq)
qed

lemma api_session_reload:
  assumes "api_session s"
  shows "session_inv s \<and> (\<exists>t. load_entries (empty_session (ssID s)) (session_entries s) = Inr t \<and>
    same_history s t)"
  using assms
proof induction
  case (api_new sid fresh now)
  show ?case
    by (simp add: new_session_def session_entries_def empty_session_def same_history_def
        session_inv_def tree_inv_empty)
next
  case (api_append s gen e0 now s' e)
  from api_append.IH obtain t where inv: "session_inv s"
    and t: "load_entries (empty_session (ssID s)) (session_entries s) = Inr t" "same_history s t" by blast
  from api_append.hyps(4) have prep: "prepare_entry s gen now e0 = Inr e" and s': "s' = store_entry s e"
    by (simp_all add: append_entry_Inr)
  have new: "fmlookup (ssEntries s) (enID e) = None"
    using prepare_entry_attachable(1) [OF inv api_append.hyps(2,3) prep]
    by (simp add: attachable_def fmdom'_lookup)
  have entries: "session_entries s' = session_entries s @ [e]"
    unfolding s' by (rule session_entries_store [OF session_inv_tree [OF inv] new])
  have "ssEntries t = ssEntries s" using t(2) by (simp add: same_history_def)
  from load_entry_prepared [OF inv api_append.hyps(2,3) prep this]
  have "load_entries (empty_session (ssID s')) (session_entries s') = Inr (store_entry t e)"
    using t(1) by (simp add: entries load_entries_append) (simp add: s')
  moreover have "same_history s' (store_entry t e)"
    unfolding s' by (rule same_history_store [OF t(2)])
  moreover have "session_inv s'"
    by (rule append_entry_inv [OF inv api_append.hyps(2,3,4)])
  ultimately show ?case by blast
qed

end
