(* ===== verification/SessionProperties.thy ===== *)
theory SessionProperties
  imports SessionReload
begin

text \<open>The properties of the session tree, with a concrete session on which each can be read.\<close>

text \<open>A sample history: a question, an assistant message that calls one tool, and its result.\<close>

definition sample_text :: "string \<Rightarrow> content" where
  "sample_text txt = TextContent \<lparr>tcType = ''text'', tcText = txt, tcTextSignature = ''''\<rparr>"

definition sample_user :: agent_message where
  "sample_user = UserMessage \<lparr>umRole = ''user'', umContent = [sample_text ''hi''], umTimestamp = 1\<rparr>"

definition sample_call :: agent_message where
  "sample_call = AssistantMessage \<lparr>amRole = ''assistant'', amContent = [ToolCallContent
     \<lparr>ccType = ''toolCall'', ccID = ''t1'', ccName = ''ls'', ccArguments = ''{}'',
       ccThoughtSignature = ''''\<rparr>],
     amProvider = '''', amModel = ''m'', amResponseModel = '''', amResponseID = '''',
     amUsage = zero_usage, amStopReason = StopReasonToolUse, amErrorMessage = '''', amTimestamp = 2\<rparr>"

definition sample_result :: agent_message where
  "sample_result = ToolResultMessage \<lparr>rmRole = ''toolResult'', rmToolCallID = ''t1'', rmToolName = ''ls'',
     rmContent = [sample_text ''ok''], rmDetails = None, rmIsError = False, rmTimestamp = 3\<rparr>"

definition sample_entry :: "string \<Rightarrow> string \<Rightarrow> agent_message \<Rightarrow> entry" where
  "sample_entry k parent m = zero_entry\<lparr>enType := EntryMessage, enVersion := format_version, enID := k,
     enParentID := parent, enTimestamp := 7, enMessage := m\<rparr>"

definition sample_history :: "entry list" where
  "sample_history = [sample_entry ''a'' '''' sample_user, sample_entry ''b'' ''a'' sample_call,
     sample_entry ''c'' ''b'' sample_result]"

definition sample_session :: session where
  "sample_session = foldl store_entry (empty_session ''s'') sample_history"

text \<open>
  C1: appending an entry keeps the session a tree with a known leaf, adds exactly the new entry at
  the end of the history, puts it below its parent, and changes the path to no other entry.
\<close>

theorem append_entry_tree:
  assumes "session_inv s" "fresh_ids s gen" "fresh_entry s e0" "append_entry s gen now e0 = Inr (s', e)"
  shows "session_inv s' \<and> session_entries s' = session_entries s @ [e] \<and>
    session_path s' (enID e) = session_path s (enParentID e) @ [e] \<and>
    (\<forall>k. k \<noteq> enID e \<longrightarrow> session_path s' k = session_path s k)"
proof -
  from assms(4) have prep: "prepare_entry s gen now e0 = Inr e" and s': "s' = store_entry s e"
    by (simp_all add: append_entry_Inr)
  note att = prepare_entry_attachable(1) [OF assms(1-3) prep]
  then have new: "fmlookup (ssEntries s) (enID e) = None" by (simp add: attachable_def fmdom'_lookup)
  note tree = session_inv_tree [OF assms(1)]
  have "session_inv s'" by (rule append_entry_inv [OF assms])
  moreover have "session_entries s' = session_entries s @ [e]"
    unfolding s' by (rule session_entries_store [OF tree new])
  ultimately show ?thesis
    using path_store_new [OF tree att] path_store_old [OF tree att] by (simp add: s' session_path_def)
qed

lemma sample_loads: "load_entries (empty_session ''s'') sample_history = Inr sample_session"
  by code_simp

lemma sample_load: "load_session (empty_session ''s'') sample_history = Some (Inr sample_session)"
  by code_simp

lemma sample_inv: "session_inv sample_session"
  by (rule load_entries_inv [OF session_inv_empty sample_loads])

definition sample_ids :: "nat \<Rightarrow> string" where
  "sample_ids n = ''01890000-0000''"

lemma sample_dom: "fmdom' (ssEntries sample_session) = {''a'', ''b'', ''c''}"
proof -
  have "set (ssOrder sample_session) = {''a'', ''b'', ''c''}" by code_simp
  then show ?thesis using session_inv_tree [OF sample_inv] by (simp add: tree_inv_def)
qed

lemma sample_fresh: "fresh_ids sample_session sample_ids"
  by (simp add: fresh_ids_def sample_ids_def sample_dom)

definition sample_next :: entry where
  "sample_next = zero_entry\<lparr>enType := EntryMessage, enMessage := sample_user\<rparr>"

definition sample_appended :: entry where
  "sample_appended = sample_entry ''01890000'' ''c'' sample_user"

lemma sample_append:
  "append_entry sample_session sample_ids 7 sample_next =
     Inr (store_entry sample_session sample_appended, sample_appended)"
  by code_simp

lemma sample_fresh_entry: "fresh_entry sample_session sample_next"
  by (simp add: fresh_entry_def leaf_known_def sample_next_def)

theorem append_entry_tree_witness:
  "session_path (store_entry sample_session sample_appended) ''01890000'' =
     session_path sample_session ''c'' @ [sample_appended]"
  using append_entry_tree [OF sample_inv sample_fresh sample_fresh_entry sample_append]
  by (simp add: sample_appended_def sample_entry_def)

text \<open>
  C2: loading a history always returns; when it accepts, the session is a tree with a known leaf
  that holds exactly the entries of the history in their order, under the session's own id.
\<close>

theorem load_session_result:
  "load_session s es \<noteq> None \<and>
     (\<forall>s'. load_session s es = Some (Inr s') \<longrightarrow>
        session_inv s' \<and> session_entries s' = es \<and> ssID s' = ssID s)"
  using load_session_returns load_session_inv by blast

theorem load_session_result_witness:
  "session_inv sample_session \<and> session_entries sample_session = sample_history"
  using load_session_result [of "empty_session ''s''" sample_history] sample_load by blast

text \<open>
  C3: every session built by the append methods has a history that \<open>Load\<close> reads back: all its
  entries pass the checks of a load, and give the same entries, order, labels, leaf and metadata.
\<close>

theorem reload_api_session:
  assumes "api_session s"
  shows "session_inv s \<and> (\<exists>t. load_entries (empty_session (ssID s)) (session_entries s) = Inr t \<and>
    same_history s t)"
  by (rule api_session_reload [OF assms])

definition sample_started :: session where
  "sample_started = store_entry (new_session ''s'' ''u'' 5) (sample_entry ''01890000'' '''' sample_user)"

lemma sample_started_api: "api_session sample_started"
proof (rule api_session.api_append)
  show "api_session (new_session ''s'' ''u'' 5)" by (rule api_session.api_new)
  show "append_entry (new_session ''s'' ''u'' 5) sample_ids 7 sample_next =
      Inr (sample_started, sample_entry ''01890000'' '''' sample_user)" by code_simp
qed (simp_all add: fresh_ids_def new_session_def empty_session_def fresh_entry_def leaf_known_def
      sample_next_def)

theorem reload_api_session_witness:
  "\<exists>t. load_entries (empty_session ''s'') [sample_entry ''01890000'' '''' sample_user] = Inr t \<and>
     ssLeafID t = ''01890000''"
proof -
  have "ssID sample_started = ''s''" "ssLeafID sample_started = ''01890000''"
    "session_entries sample_started = [sample_entry ''01890000'' '''' sample_user]" by code_simp+
  with reload_api_session [OF sample_started_api] show ?thesis by (auto simp: same_history_def)
qed










text \<open>
  C6: a message history is accepted exactly when, with the failed and empty assistant messages
  left out, every assistant message with tool calls is followed at once by one result for each
  of its calls, in any order, and no result stands anywhere else.
\<close>

theorem validate_sequence_complete:
  "(validate_message_sequence ms = None) = complete_items (message_sequence_items ms)"
  by (simp add: validate_message_sequence_None analyze_complete_iff)

text \<open>
  When the analysis reports an unfinished tool unit, the pending index is the position of the
  assistant message that opened it, and the messages before that position are a complete history.
\<close>

theorem pending_index_prefix:
  assumes "msaStatus (analyze_message_sequence ms) = SeqIncomplete"
  shows "\<exists>i a. msaPending (analyze_message_sequence ms) = Some i \<and> i < length ms \<and>
     ms ! i = AssistantMessage a \<and> tool_calls_of_content (amContent a) \<noteq> [] \<and>
     validate_message_sequence (take i ms) = None"
proof -
  from analyze_incomplete_prefix [OF assms] obtain i a where
    "msaPending (analyze_message_sequence ms) = Some i" "i < length ms" "ms ! i = AssistantMessage a"
    "tool_call_id_set (amContent a) \<noteq> []"
    "msaStatus (analyze_message_sequence (take i ms)) = SeqComplete" by blast
  then show ?thesis by (auto simp: tool_call_id_set_def validate_message_sequence_None)
qed

theorem pending_index_prefix_witness:
  "msaPending (analyze_message_sequence [sample_user, sample_call]) = Some 1 \<and>
     validate_message_sequence (take 1 [sample_user, sample_call]) = None"
proof -
  have "msaStatus (analyze_message_sequence [sample_user, sample_call]) = SeqIncomplete"
    "msaPending (analyze_message_sequence [sample_user, sample_call]) = Some 1" by code_simp+
  with pending_index_prefix [of "[sample_user, sample_call]"] show ?thesis by auto
qed

text \<open>
  C8: on a session tree the climb to a safe boundary always ends, at the leaf, at the root or at an
  ancestor, and the context there is complete.
\<close>

theorem safe_boundary_terminates:
  assumes "session_inv s"
  shows "\<exists>k. safe_boundary s leaf = Some k \<and>
    k \<in> insert leaf (insert '''' (enParentID ` set (session_path s leaf))) \<and>
    validate_message_sequence (scMessages (build_context_for_leaf s k)) = None"
  using safe_boundary_returns [OF session_inv_tree [OF assms], of leaf]
  by (auto simp: validate_leaf_context)

theorem safe_boundary_terminates_witness:
  "safe_boundary sample_session ''b'' = Some ''a'' \<and>
     validate_message_sequence (scMessages (build_context_for_leaf sample_session ''a'')) = None"
proof -
  have "safe_boundary sample_session ''b'' = Some ''a''" by code_simp
  with safe_boundary_terminates [OF sample_inv, of "''b''"] show ?thesis by auto
qed


end
