(* ===== verification/Events.thy ===== *)
theory Events
  imports Protocol
begin

text \<open>
  The two event types of \<open>internal/agent/ai/types.go\<close> and their validation in \<open>event.go\<close>: the
  events a provider streams while it answers, and the events the agent publishes while it runs.
  A pointer field that may be nil is an option; a nil \<open>AgentMessage\<close> is \<open>NilMessage\<close>.
\<close>

datatype assistant_event_type =
    AssistantEventStart
  | AssistantEventTextStart | AssistantEventTextDelta | AssistantEventTextEnd
  | AssistantEventThinkingStart | AssistantEventThinkingDelta | AssistantEventThinkingEnd
  | AssistantEventToolCallStart | AssistantEventToolCallDelta | AssistantEventToolCallEnd
  | AssistantEventDone | AssistantEventError
  | AssistantEventOther string

record assistant_event =
  aeType :: assistant_event_type
  aeContentIndex :: "int option"
  aeDelta :: string
  aeContent :: string
  aeToolCall :: "tool_call_content option"
  aePartial :: "assistant_message option"
  aeReason :: stop_reason
  aeMessage :: "assistant_message option"
  aeError :: "assistant_message option"

definition zero_assistant_event :: assistant_event where
  "zero_assistant_event = \<lparr>aeType = AssistantEventOther '''', aeContentIndex = None, aeDelta = '''',
     aeContent = '''', aeToolCall = None, aePartial = None, aeReason = StopReasonOther '''',
     aeMessage = None, aeError = None\<rparr>"

definition validate_partial :: "assistant_event \<Rightarrow> validate_error option" where
  "validate_partial e =
     (case aePartial e of
        None \<Rightarrow> Some ErrEventRequiresPartial
      | Some m \<Rightarrow> validate_assistant m)"

definition is_successful_terminal_reason :: "stop_reason \<Rightarrow> bool" where
  "is_successful_terminal_reason r =
     (case r of
        StopReasonStop \<Rightarrow> True | StopReasonLength \<Rightarrow> True | StopReasonToolUse \<Rightarrow> True
      | _ \<Rightarrow> False)"

definition validate_assistant_event :: "assistant_event \<Rightarrow> validate_error option" where
  "validate_assistant_event e =
     (let start = (if aeContentIndex e = None then Some ErrEventRequiresContentIndex
                   else validate_partial e);
          delta = (if aeContentIndex e = None then Some ErrEventRequiresContentIndex
                   else if aeDelta e = '''' then Some ErrEventRequiresDelta
                   else validate_partial e);
          finish = (if aeContentIndex e = None then Some ErrEventRequiresContentIndex
                    else if aeContent e = '''' then Some ErrEventRequiresContent
                    else validate_partial e)
      in case aeType e of
        AssistantEventStart \<Rightarrow> validate_partial e
      | AssistantEventTextStart \<Rightarrow> start
      | AssistantEventThinkingStart \<Rightarrow> start
      | AssistantEventToolCallStart \<Rightarrow> start
      | AssistantEventTextDelta \<Rightarrow> delta
      | AssistantEventThinkingDelta \<Rightarrow> delta
      | AssistantEventToolCallDelta \<Rightarrow> delta
      | AssistantEventTextEnd \<Rightarrow> finish
      | AssistantEventThinkingEnd \<Rightarrow> finish
      | AssistantEventToolCallEnd \<Rightarrow>
          (if aeContentIndex e = None then Some ErrEventRequiresContentIndex
           else (case aeToolCall e of
                   None \<Rightarrow> Some ErrEventRequiresToolCall
                 | Some c \<Rightarrow> or_else (validate_tool_call c) (validate_partial e)))
      | AssistantEventDone \<Rightarrow>
          (case aeMessage e of
             None \<Rightarrow> Some ErrDoneRequiresMessage
           | Some m \<Rightarrow>
               if \<not> is_successful_terminal_reason (aeReason e) then Some (ErrDoneReason (aeReason e))
               else validate_assistant m)
      | AssistantEventError \<Rightarrow>
          (case aeError e of
             None \<Rightarrow> Some ErrErrorRequiresMessage
           | Some m \<Rightarrow>
               if aeReason e \<noteq> StopReasonError \<and> aeReason e \<noteq> StopReasonAborted
               then Some (ErrErrorReason (aeReason e))
               else validate_assistant m)
      | AssistantEventOther t \<Rightarrow> Some (ErrUnknownAssistantEvent t))"

definition final_message :: "assistant_event \<Rightarrow> assistant_message option" where
  "final_message e =
     (case aeType e of
        AssistantEventDone \<Rightarrow> aeMessage e
      | AssistantEventError \<Rightarrow> aeError e
      | _ \<Rightarrow> None)"

definition terminal_event :: "assistant_event \<Rightarrow> bool" where
  "terminal_event e \<longleftrightarrow> aeType e = AssistantEventDone \<or> aeType e = AssistantEventError"

lemma validate_terminal_final:
  "validate_assistant_event e = None \<Longrightarrow> terminal_event e \<Longrightarrow> final_message e \<noteq> None"
  by (auto simp: validate_assistant_event_def terminal_event_def final_message_def Let_def
      split: option.splits)

lemma validate_start_partial:
  "validate_assistant_event e = None \<Longrightarrow> \<not> terminal_event e \<Longrightarrow> aePartial e \<noteq> None"
  by (auto simp: validate_assistant_event_def terminal_event_def validate_partial_def or_else_def
      Let_def split: option.splits assistant_event_type.splits if_splits)

subsection \<open>Agent events\<close>

datatype agent_event_type =
    AgentEventAgentStart | AgentEventAgentEnd
  | AgentEventTurnStart | AgentEventTurnEnd
  | AgentEventMessageStart | AgentEventMessageUpdate | AgentEventMessageEnd
  | AgentEventToolExecutionStart | AgentEventToolExecutionUpdate | AgentEventToolExecutionEnd

record agent_event =
  evType :: agent_event_type
  evTurn :: int
  evMessage :: agent_message
  evMessages :: message_list
  evToolResults :: "tool_result_message list"
  evAssistantEvent :: "assistant_event option"
  evDelta :: string
  evToolCallID :: string
  evToolName :: string
  evArgs :: bytes
  evResult :: "tool_result option"
  evIsError :: bool

definition agent_event_of :: "agent_event_type \<Rightarrow> agent_event" where
  "agent_event_of t = \<lparr>evType = t, evTurn = 0, evMessage = NilMessage, evMessages = [],
     evToolResults = [], evAssistantEvent = None, evDelta = '''', evToolCallID = '''',
     evToolName = '''', evArgs = [], evResult = None, evIsError = False\<rparr>"

definition validate_agent_event :: "agent_event \<Rightarrow> validate_error option" where
  "validate_agent_event e =
     or_else (validate_message (evMessage e))
       (or_else (case evAssistantEvent e of None \<Rightarrow> None | Some a \<Rightarrow> validate_assistant_event a)
         (case evType e of
            AgentEventMessageUpdate \<Rightarrow>
              (if evMessage e = NilMessage then Some ErrUpdateRequiresMessage
               else if evAssistantEvent e = None then Some ErrUpdateRequiresAssistantEvent
               else None)
          | AgentEventToolExecutionStart \<Rightarrow>
              (if evToolCallID e = '''' then Some ErrToolStartRequiresCallID
               else if evToolName e = '''' then Some ErrToolStartRequiresName
               else if evArgs e = [] \<or> \<not> json_valid (evArgs e) then Some ErrToolStartRequiresArgs
               else if \<not> is_json_object (evArgs e) then Some ErrToolStartArgsNotObject
               else None)
          | _ \<Rightarrow> None))"

end
