(* ===== verification/CoreTypes.thy ===== *)
theory CoreTypes
  imports Events
begin

text \<open>
  The values and interfaces of the agent core, \<open>internal/agent/core/types.go\<close> and \<open>tool.go\<close>. The
  loop is polymorphic in the state \<open>'s\<close> of everything outside it: the context that may be
  cancelled, the event sink, the provider, the tools and the hooks. Each of those is a function
  from that state to an answer and a new state, so an answer may depend on all that happened
  before and a cancellation may arrive between any two calls. A func or interface field that may
  be nil is an option.
\<close>

datatype go_error =
    ErrMissingStream
  | ErrContinueEmptyContext
  | ErrContinueFromAssistant
  | ErrAgentBusy
  | ErrListHasNilMessage
  | ErrInvalidMessage validate_error
  | ErrInvalidEvent validate_error
  | ErrQueuedMessagesRequired
  | ErrUnknownQueueMode string
  | ErrRunnerNotConfigured
  | ErrUnknownExecutionMode string
  | ErrToolNil
  | ErrToolRequiresName
  | ErrDuplicateTool string
  | ErrToolSchema string string
  | ErrArgumentsNotObject
  | ErrArgumentsInvalid bytes
  | ErrContextCanceled
  | ErrContextDeadline
  | ErrListenerDispatch "go_error list"
  | ErrUpdateEmit go_error
  | ErrUnknownTool string
  | ErrWrapped string go_error
  | ErrExternal string

subsection \<open>Effects\<close>

type_synonym ('s, 'a) io = "'s \<Rightarrow> (go_error + 'a) \<times> 's"

definition io_return :: "'a \<Rightarrow> ('s, 'a) io" where
  "io_return x = (\<lambda>s. (Inr x, s))"

definition io_fail :: "go_error \<Rightarrow> ('s, 'a) io" where
  "io_fail e = (\<lambda>s. (Inl e, s))"

definition io_bind :: "('s, 'a) io \<Rightarrow> ('a \<Rightarrow> ('s, 'b) io) \<Rightarrow> ('s, 'b) io" where
  "io_bind m f = (\<lambda>s. case m s of (Inl e, s') \<Rightarrow> (Inl e, s') | (Inr x, s') \<Rightarrow> f x s')"

text \<open>A call whose error is handled where it is made.\<close>

definition io_try ::
  "('s, 'a) io \<Rightarrow> (go_error \<Rightarrow> ('s, 'b) io) \<Rightarrow> ('a \<Rightarrow> ('s, 'b) io) \<Rightarrow> ('s, 'b) io" where
  "io_try m h f = (\<lambda>s. case m s of (Inl e, s') \<Rightarrow> h e s' | (Inr x, s') \<Rightarrow> f x s')"

text \<open>A call that cannot fail.\<close>

definition io_call :: "('s \<Rightarrow> 'a \<times> 's) \<Rightarrow> ('s, 'a) io" where
  "io_call g = (\<lambda>s. case g s of (x, s') \<Rightarrow> (Inr x, s'))"

lemma io_return_apply [simp]: "io_return x s = (Inr x, s)"
  by (simp add: io_return_def)

lemma io_fail_apply [simp]: "io_fail e s = (Inl e, s)"
  by (simp add: io_fail_def)

lemma io_bind_return [simp]: "io_bind (io_return x) f = f x"
  by (simp add: io_bind_def io_return_def)

lemma io_bind_fail [simp]: "io_bind (io_fail e) f = io_fail e"
  by (simp add: io_bind_def io_fail_def)

lemma io_bind_Inr:
  "io_bind m f s = (Inr y, s') \<longleftrightarrow> (\<exists>x s1. m s = (Inr x, s1) \<and> f x s1 = (Inr y, s'))"
  by (auto simp: io_bind_def split: prod.splits sum.splits)

lemma io_try_Inr:
  "io_try m h f s = (Inr y, s') \<longleftrightarrow>
     (\<exists>e s1. m s = (Inl e, s1) \<and> h e s1 = (Inr y, s')) \<or>
     (\<exists>x s1. m s = (Inr x, s1) \<and> f x s1 = (Inr y, s'))"
  by (auto simp: io_try_def split: prod.splits sum.splits)

lemma io_call_Inr [simp]: "io_call g s = (Inr x, s') \<longleftrightarrow> g s = (x, s')"
  by (auto simp: io_call_def split: prod.splits)

lemma io_call_Inl [simp]: "io_call g s \<noteq> (Inl e, s')"
  by (simp add: io_call_def split: prod.splits)

lemma io_bind_assoc: "io_bind (io_bind m f) g = io_bind m (\<lambda>x. io_bind (f x) g)"
  by (rule ext) (auto simp: io_bind_def split: prod.splits sum.splits)

subsection \<open>The agent's context, sink and requests\<close>

record agent_context =
  acSystemPrompt :: string
  acMessages :: message_list
  acTools :: "tool_definition list"

record stream_request =
  sqContext :: llm_context
  sqModel :: string
  sqProvider :: string
  sqReasoning :: string
  sqSessionID :: string
  sqMaxTokens :: int

type_synonym 's event_sink = "(agent_event \<Rightarrow> ('s, unit) io) option"

text \<open>
  What the loop reads from a provider's stream: the events its \<open>select\<close> received, in order, and how
  the reading ended, by the context or by the closed channel and the answer of \<open>Result\<close>.
\<close>

datatype stream_end =
    StreamCancelled go_error
  | StreamClosed "go_error + assistant_message option"

type_synonym stream_reading = "assistant_event list \<times> stream_end"

record tool_run_request =
  tqTurn :: int
  tqContext :: agent_context
  tqAssistant :: assistant_message
  tqCalls :: "tool_call_content list"

record tool_run_result =
  trrMessages :: "tool_result_message list"
  trrTerminate :: bool

text \<open>\<open>ExecuteTools\<close> returns a result beside an error, so both are there.\<close>

type_synonym 's tool_runner =
  "'s event_sink \<Rightarrow> tool_run_request \<Rightarrow> 's \<Rightarrow> (tool_run_result \<times> go_error option) \<times> 's"

record turn_context =
  tcMessage :: assistant_message
  tcToolResults :: "tool_result_message list"
  tcContext :: agent_context
  tcNewMessages :: message_list
  tcTurn :: int

record 's turn_update =
  tuContext :: "agent_context option"
  tuModel :: string
  tuProvider :: string
  tuReasoning :: string
  tuRunner :: "'s tool_runner option"

record 's loop_config =
  cfModel :: string
  cfProvider :: string
  cfReasoning :: string
  cfSessionID :: string
  cfMaxTurns :: int
  cfStream :: "(stream_request \<Rightarrow> ('s, stream_reading option) io) option"
  cfRunner :: "'s tool_runner option"
  cfTransformContext :: "(message_list \<Rightarrow> ('s, message_list) io) option"
  cfConvertToLLM :: "(message_list \<Rightarrow> ('s, message_list) io) option"
  cfPrepareNextTurn :: "(turn_context \<Rightarrow> ('s, 's turn_update) io) option"
  cfShouldStop :: "(turn_context \<Rightarrow> ('s, bool) io) option"
  cfSteering :: "('s, message_list) io option"
  cfFollowUp :: "('s, message_list) io option"

text \<open>
  The surroundings of one run: \<open>ctx.Err()\<close>, the event sink, and the text of an error's \<open>Error\<close>.
\<close>

record 's loop_env =
  evCtxErr :: "'s \<Rightarrow> go_error option \<times> 's"
  evEmit :: "'s event_sink"
  evErrorText :: "go_error \<Rightarrow> string"

definition ctx_err :: "'s loop_env \<Rightarrow> ('s, go_error option) io" where
  "ctx_err env = io_call (evCtxErr env)"

definition emit_event :: "'s event_sink \<Rightarrow> agent_event \<Rightarrow> ('s, unit) io" where
  "emit_event sink ev = (case sink of None \<Rightarrow> io_return () | Some f \<Rightarrow> f ev)"

definition emit_message ::
  "'s event_sink \<Rightarrow> agent_event_type \<Rightarrow> int \<Rightarrow> agent_message \<Rightarrow> ('s, unit) io" where
  "emit_message sink t turn m = emit_event sink ((agent_event_of t)\<lparr>evTurn := turn, evMessage := m\<rparr>)"

end
