(* ===== verification/AgentLoop.thy ===== *)
theory AgentLoop
  imports CoreTypes
begin

text \<open>
  One run of the agent: \<open>internal/agent/core/agent_loop.go\<close>, \<open>agent_assistant.go\<close>,
  \<open>agent_errors.go\<close>, \<open>agent_tools.go\<close> and \<open>tool_missing.go\<close>.
\<close>

subsection \<open>Failed assistant messages\<close>

definition new_assistant_error ::
  "string \<Rightarrow> string \<Rightarrow> stop_reason \<Rightarrow> string \<Rightarrow> assistant_message" where
  "new_assistant_error provider model reason txt =
     \<lparr>amRole = '''', amContent = [], amProvider = provider, amModel = model, amResponseModel = '''',
      amResponseID = '''', amUsage = zero_usage, amStopReason = reason, amErrorMessage = txt,
      amTimestamp = 0\<rparr>"

definition normalize_assistant_error_message ::
  "assistant_message \<Rightarrow> stop_reason \<Rightarrow> assistant_message" where
  "normalize_assistant_error_message m reason = m\<lparr>amStopReason := reason\<rparr>"

definition emit_assistant_error_terminal ::
  "'s loop_env \<Rightarrow> int \<Rightarrow> 's loop_config \<Rightarrow> string \<Rightarrow> stop_reason \<Rightarrow> bool \<Rightarrow> ('s, assistant_message) io" where
  "emit_assistant_error_terminal env turn cfg txt reason started =
     (let m = new_assistant_error (cfProvider cfg) (cfModel cfg) reason txt in
      io_bind (if started then io_return ()
               else emit_message (evEmit env) AgentEventMessageStart turn (AssistantMessage m))
        (\<lambda>_. io_bind (emit_message (evEmit env) AgentEventMessageEnd turn (AssistantMessage m))
          (\<lambda>_. io_return m)))"

definition emit_assistant_error ::
  "'s loop_env \<Rightarrow> int \<Rightarrow> 's loop_config \<Rightarrow> string \<Rightarrow> stop_reason \<Rightarrow> ('s, assistant_message) io" where
  "emit_assistant_error env turn cfg txt reason =
     emit_assistant_error_terminal env turn cfg txt reason False"

definition emit_turn_end ::
  "'s loop_env \<Rightarrow> int \<Rightarrow> assistant_message \<Rightarrow> tool_result_message list \<Rightarrow> ('s, unit) io" where
  "emit_turn_end env turn m results =
     emit_event (evEmit env) ((agent_event_of AgentEventTurnEnd)\<lparr>evTurn := turn,
       evMessage := AssistantMessage m, evToolResults := results\<rparr>)"

definition emit_agent_end :: "'s loop_env \<Rightarrow> message_list \<Rightarrow> ('s, message_list) io" where
  "emit_agent_end env ms =
     io_bind (emit_event (evEmit env) ((agent_event_of AgentEventAgentEnd)\<lparr>evMessages := ms\<rparr>))
       (\<lambda>_. io_return ms)"

definition emit_active_terminal_error ::
  "'s loop_env \<Rightarrow> message_list \<Rightarrow> int \<Rightarrow> 's loop_config \<Rightarrow> string \<Rightarrow> stop_reason \<Rightarrow> ('s, message_list) io" where
  "emit_active_terminal_error env new turn cfg txt reason =
     io_bind (emit_assistant_error env turn cfg txt reason) (\<lambda>m.
     io_bind (emit_turn_end env turn m []) (\<lambda>_.
     emit_agent_end env (new @ [AssistantMessage m])))"

definition emit_turn_start :: "'s loop_env \<Rightarrow> int \<Rightarrow> ('s, unit) io" where
  "emit_turn_start env turn =
     emit_event (evEmit env) ((agent_event_of AgentEventTurnStart)\<lparr>evTurn := turn\<rparr>)"

definition emit_post_turn_hook_error ::
  "'s loop_env \<Rightarrow> message_list \<Rightarrow> int \<Rightarrow> 's loop_config \<Rightarrow> string \<Rightarrow> ('s, message_list) io" where
  "emit_post_turn_hook_error env new previous_turn cfg txt =
     io_bind (emit_turn_start env (previous_turn + 1)) (\<lambda>_.
     emit_active_terminal_error env new (previous_turn + 1) cfg txt StopReasonError)"

subsection \<open>Reading the provider's stream\<close>

definition emit_assistant_update :: "'s loop_env \<Rightarrow> int \<Rightarrow> assistant_event \<Rightarrow> ('s, unit) io" where
  "emit_assistant_update env turn e =
     (case aePartial e of
        None \<Rightarrow> io_return ()
      | Some p \<Rightarrow>
          emit_event (evEmit env) ((agent_event_of AgentEventMessageUpdate)\<lparr>evTurn := turn,
            evMessage := AssistantMessage p, evAssistantEvent := Some e, evDelta := aeDelta e\<rparr>))"

definition finish_streamed_message ::
  "'s loop_env \<Rightarrow> int \<Rightarrow> bool \<Rightarrow> assistant_message \<Rightarrow> ('s, assistant_message) io" where
  "finish_streamed_message env turn started m =
     io_bind (if started then io_return ()
              else emit_message (evEmit env) AgentEventMessageStart turn (AssistantMessage m)) (\<lambda>_.
     io_bind (emit_message (evEmit env) AgentEventMessageEnd turn (AssistantMessage m)) (\<lambda>_.
     io_return m))"

text \<open>
  The body of the select loop. The dereferenced pointers are those \<open>Validate\<close> has just required.
\<close>

primrec stream_events ::
  "'s loop_env \<Rightarrow> 's loop_config \<Rightarrow> int \<Rightarrow> stream_end \<Rightarrow> assistant_event list \<Rightarrow> bool
     \<Rightarrow> ('s, assistant_message) io" where
  "stream_events env cfg turn ending [] started =
     (case ending of
        StreamCancelled err \<Rightarrow>
          emit_assistant_error_terminal env turn cfg (evErrorText env err) StopReasonAborted started
      | StreamClosed (Inl err) \<Rightarrow>
          io_bind (ctx_err env) (\<lambda>cancelled.
            emit_assistant_error_terminal env turn cfg (evErrorText env err)
              (if cancelled = None then StopReasonError else StopReasonAborted) started)
      | StreamClosed (Inr None) \<Rightarrow>
          emit_assistant_error_terminal env turn cfg ''stream ended without message''
            StopReasonError started
      | StreamClosed (Inr (Some m)) \<Rightarrow> io_return m)"
| "stream_events env cfg turn ending (e # es) started =
     (case validate_assistant_event e of
        Some err \<Rightarrow>
          emit_assistant_error_terminal env turn cfg (evErrorText env (ErrInvalidEvent err))
            StopReasonError started
      | None \<Rightarrow>
          (case aeType e of
             AssistantEventStart \<Rightarrow>
               io_bind (emit_message (evEmit env) AgentEventMessageStart turn
                   (AssistantMessage (the (aePartial e))))
                 (\<lambda>_. stream_events env cfg turn ending es True)
           | AssistantEventDone \<Rightarrow> finish_streamed_message env turn started (the (aeMessage e))
           | AssistantEventError \<Rightarrow>
               finish_streamed_message env turn started
                 (normalize_assistant_error_message (the (aeError e)) (aeReason e))
           | _ \<Rightarrow>
               io_bind (emit_assistant_update env turn e)
                 (\<lambda>_. stream_events env cfg turn ending es started)))"

definition transform_with ::
  "(message_list \<Rightarrow> ('s, message_list) io) option \<Rightarrow> message_list \<Rightarrow> 's \<Rightarrow> (go_error + message_list) \<times> 's" where
  "transform_with hook ms = (case hook of None \<Rightarrow> io_return ms | Some f \<Rightarrow> f ms)"

definition request_stream ::
  "'s loop_env \<Rightarrow> agent_context \<Rightarrow> 's loop_config \<Rightarrow> int \<Rightarrow> message_list \<Rightarrow> ('s, assistant_message) io" where
  "request_stream env ctx cfg turn ms =
     (case cfStream cfg of
        None \<Rightarrow> io_fail ErrMissingStream
      | Some stream \<Rightarrow>
          io_try (stream \<lparr>sqContext = \<lparr>lcSystemPrompt = acSystemPrompt ctx, lcMessages = ms,
                 lcTools = acTools ctx\<rparr>, sqModel = cfModel cfg, sqProvider = cfProvider cfg,
                 sqReasoning = cfReasoning cfg, sqSessionID = cfSessionID cfg, sqMaxTokens = 0\<rparr>)
            (\<lambda>err. emit_assistant_error env turn cfg (evErrorText env err) StopReasonError)
            (\<lambda>reading. case reading of
               None \<Rightarrow> emit_assistant_error env turn cfg ''stream returned nil'' StopReasonError
             | Some (events, ending) \<Rightarrow> stream_events env cfg turn ending events False))"

definition stream_assistant_response ::
  "'s loop_env \<Rightarrow> agent_context \<Rightarrow> 's loop_config \<Rightarrow> int \<Rightarrow> ('s, assistant_message) io" where
  "stream_assistant_response env ctx cfg turn =
     (let failed = (\<lambda>err. emit_assistant_error env turn cfg (evErrorText env err) StopReasonError) in
      io_bind (ctx_err env) (\<lambda>cancelled.
      case cancelled of
        Some err \<Rightarrow> emit_assistant_error env turn cfg (evErrorText env err) StopReasonAborted
      | None \<Rightarrow>
          io_try (transform_with (cfTransformContext cfg) (acMessages ctx)) failed (\<lambda>ms.
          io_try (transform_with (cfConvertToLLM cfg) ms) failed (\<lambda>ms'.
          request_stream env ctx cfg turn ms'))))"

subsection \<open>Running the tools\<close>

definition emit_tool_start :: "'s event_sink \<Rightarrow> int \<Rightarrow> tool_call_content \<Rightarrow> ('s, unit) io" where
  "emit_tool_start sink turn call =
     emit_event sink ((agent_event_of AgentEventToolExecutionStart)\<lparr>evTurn := turn,
       evToolCallID := ccID call, evToolName := ccName call, evArgs := ccArguments call\<rparr>)"

definition missing_runner_message :: "tool_call_content \<Rightarrow> tool_result_message" where
  "missing_runner_message call =
     \<lparr>rmRole = '''', rmToolCallID = ccID call, rmToolName = ccName call,
      rmContent = [new_text_content ''tool runner is not configured''], rmDetails = None,
      rmIsError = True, rmTimestamp = 0\<rparr>"

definition missing_runner_call ::
  "'s event_sink \<Rightarrow> int \<Rightarrow> tool_call_content \<Rightarrow> ('s, tool_result_message) io" where
  "missing_runner_call sink turn call =
     (let m = missing_runner_message call in
      io_bind (emit_tool_start sink turn call) (\<lambda>_.
      io_bind (emit_event sink ((agent_event_of AgentEventToolExecutionEnd)\<lparr>evTurn := turn,
          evToolCallID := ccID call, evToolName := ccName call,
          evResult := Some \<lparr>trContent = rmContent m, trDetails = None, trTerminate = False\<rparr>,
          evIsError := True\<rparr>)) (\<lambda>_.
      io_bind (emit_message sink AgentEventMessageStart turn (ToolResultMessage m)) (\<lambda>_.
      io_bind (emit_message sink AgentEventMessageEnd turn (ToolResultMessage m)) (\<lambda>_.
      io_return m)))))"

primrec missing_runner_calls ::
  "'s event_sink \<Rightarrow> int \<Rightarrow> tool_call_content list \<Rightarrow> ('s, tool_result_message list) io" where
  "missing_runner_calls sink turn [] = io_return []"
| "missing_runner_calls sink turn (call # calls) =
     io_bind (missing_runner_call sink turn call) (\<lambda>m.
     io_bind (missing_runner_calls sink turn calls) (\<lambda>ms. io_return (m # ms)))"

definition empty_run_result :: tool_run_result where
  "empty_run_result = \<lparr>trrMessages = [], trrTerminate = False\<rparr>"

definition missing_runner :: "'s tool_runner" where
  "missing_runner sink req s =
     (case missing_runner_calls sink (tqTurn req) (tqCalls req) s of
        (Inl e, s') \<Rightarrow> ((empty_run_result, Some e), s')
      | (Inr ms, s') \<Rightarrow> ((\<lparr>trrMessages = ms, trrTerminate = False\<rparr>, None), s'))"

definition zero_assistant :: assistant_message where
  "zero_assistant = new_assistant_error '''' '''' (StopReasonOther '''') ''''"

definition execute_tool_calls ::
  "'s loop_env \<Rightarrow> agent_context \<Rightarrow> 's loop_config \<Rightarrow> int \<Rightarrow> assistant_message \<Rightarrow> tool_call_content list
     \<Rightarrow> 's \<Rightarrow> (tool_run_result \<times> go_error option) \<times> 's" where
  "execute_tool_calls env ctx cfg turn m calls =
     (case cfRunner cfg of
        None \<Rightarrow>
          missing_runner (evEmit env) \<lparr>tqTurn = turn,
            tqContext = \<lparr>acSystemPrompt = '''', acMessages = [], acTools = []\<rparr>,
            tqAssistant = zero_assistant, tqCalls = calls\<rparr>
      | Some run \<Rightarrow>
          run (evEmit env) \<lparr>tqTurn = turn, tqContext = ctx, tqAssistant = m, tqCalls = calls\<rparr>)"

subsection \<open>One turn\<close>

record 's loop_state =
  lsCurrent :: agent_context
  lsConfig :: "'s loop_config"
  lsNew :: message_list
  lsTurn :: int
  lsFirst :: bool
  lsPending :: message_list
  lsMore :: bool

datatype 's turn_outcome = Finished message_list | Running "'s loop_state"

definition add_message :: "agent_message \<Rightarrow> 's loop_state \<Rightarrow> 's loop_state" where
  "add_message m st = st\<lparr>lsCurrent := (lsCurrent st)\<lparr>acMessages := acMessages (lsCurrent st) @ [m]\<rparr>,
     lsNew := lsNew st @ [m]\<rparr>"

definition begin_turn :: "'s loop_env \<Rightarrow> 's loop_state \<Rightarrow> ('s, 's loop_state) io" where
  "begin_turn env st =
     (if lsFirst st then io_return (st\<lparr>lsFirst := False\<rparr>)
      else io_bind (emit_turn_start env (lsTurn st + 1))
             (\<lambda>_. io_return (st\<lparr>lsTurn := lsTurn st + 1\<rparr>)))"

primrec take_pending ::
  "'s loop_env \<Rightarrow> message_list \<Rightarrow> 's loop_state \<Rightarrow> ('s, 's loop_state) io" where
  "take_pending env [] st = io_return (st\<lparr>lsPending := []\<rparr>)"
| "take_pending env (m # ms) st =
     io_bind (emit_message (evEmit env) AgentEventMessageStart (lsTurn st) m) (\<lambda>_.
     io_bind (emit_message (evEmit env) AgentEventMessageEnd (lsTurn st) m) (\<lambda>_.
     take_pending env ms (add_message m st)))"

definition failed_message :: "assistant_message \<Rightarrow> bool" where
  "failed_message m \<longleftrightarrow> amStopReason m = StopReasonError \<or> amStopReason m = StopReasonAborted"

datatype 's tool_phase = ToolsEnded message_list | ToolsRan "'s loop_state" "tool_result_message list"

definition run_tools ::
  "'s loop_env \<Rightarrow> assistant_message \<Rightarrow> 's loop_state \<Rightarrow> ('s, 's tool_phase) io" where
  "run_tools env m st =
     (let calls = tool_calls_from_assistant m; cfg = lsConfig st; turn = lsTurn st in
      if failed_message m \<or> calls = [] then io_return (ToolsRan (st\<lparr>lsMore := False\<rparr>) [])
      else io_bind (ctx_err env) (\<lambda>cancelled.
        case cancelled of
          Some err \<Rightarrow>
            io_bind (emit_active_terminal_error env (lsNew st) turn cfg (evErrorText env err)
              StopReasonAborted) (\<lambda>ms. io_return (ToolsEnded ms))
        | None \<Rightarrow>
            io_bind (io_call (execute_tool_calls env (lsCurrent st) cfg turn m calls)) (\<lambda>answer.
              (let batch = fst answer;
                   st1 = foldl (\<lambda>st r. add_message (ToolResultMessage r) st) st (trrMessages batch) in
               case snd answer of
                 None \<Rightarrow> io_return (ToolsRan (st1\<lparr>lsMore := \<not> trrTerminate batch\<rparr>) (trrMessages batch))
               | Some e \<Rightarrow>
                   io_bind (ctx_err env) (\<lambda>after.
                     case after of
                       Some ctxe \<Rightarrow>
                         io_bind (emit_active_terminal_error env (lsNew st1) turn cfg
                           (evErrorText env ctxe) StopReasonAborted) (\<lambda>ms. io_return (ToolsEnded ms))
                     | None \<Rightarrow> io_fail e)))))"

definition apply_turn_update :: "'s turn_update \<Rightarrow> 's loop_state \<Rightarrow> 's loop_state" where
  "apply_turn_update u st =
     (let cfg0 = lsConfig st;
          cfg1 = (if tuModel u \<noteq> '''' then cfg0\<lparr>cfModel := tuModel u\<rparr> else cfg0);
          cfg2 = (if tuProvider u \<noteq> '''' then cfg1\<lparr>cfProvider := tuProvider u\<rparr> else cfg1);
          cfg3 = (if tuReasoning u \<noteq> '''' then cfg2\<lparr>cfReasoning := tuReasoning u\<rparr> else cfg2);
          cfg4 = (if tuRunner u \<noteq> None then cfg3\<lparr>cfRunner := tuRunner u\<rparr> else cfg3)
      in st\<lparr>lsCurrent := (case tuContext u of None \<Rightarrow> lsCurrent st | Some c \<Rightarrow> c), lsConfig := cfg4\<rparr>)"

definition get_queued_messages :: "('s, message_list) io option \<Rightarrow> ('s, message_list) io" where
  "get_queued_messages get = (case get of None \<Rightarrow> io_return [] | Some g \<Rightarrow> g)"

text \<open>The hooks after \<open>turn_end\<close>; each failure opens one more turn that holds the error.\<close>

definition hook_failed :: "'s loop_env \<Rightarrow> 's loop_state \<Rightarrow> go_error \<Rightarrow> ('s, 's turn_outcome) io" where
  "hook_failed env st err =
     io_bind (emit_post_turn_hook_error env (lsNew st) (lsTurn st) (lsConfig st) (evErrorText env err))
       (\<lambda>ms. io_return (Finished ms))"

definition finish_run :: "'s loop_env \<Rightarrow> 's loop_state \<Rightarrow> ('s, 's turn_outcome) io" where
  "finish_run env st = io_bind (emit_agent_end env (lsNew st)) (\<lambda>ms. io_return (Finished ms))"

definition poll_steering :: "'s loop_env \<Rightarrow> 's loop_state \<Rightarrow> ('s, 's turn_outcome) io" where
  "poll_steering env st =
     io_try (get_queued_messages (cfSteering (lsConfig st))) (hook_failed env st)
       (\<lambda>ms. io_return (Running (st\<lparr>lsPending := ms\<rparr>)))"

definition check_stop ::
  "'s loop_env \<Rightarrow> turn_context \<Rightarrow> 's loop_state \<Rightarrow> ('s, 's turn_outcome) io" where
  "check_stop env tc st =
     (case cfShouldStop (lsConfig st) of
        None \<Rightarrow> poll_steering env st
      | Some should_stop \<Rightarrow>
          io_try (should_stop tc) (hook_failed env st)
            (\<lambda>stop. if stop then finish_run env st else poll_steering env st))"

definition after_turn ::
  "'s loop_env \<Rightarrow> assistant_message \<Rightarrow> tool_result_message list \<Rightarrow> 's loop_state
     \<Rightarrow> ('s, 's turn_outcome) io" where
  "after_turn env m results st =
     io_bind (emit_turn_end env (lsTurn st) m results) (\<lambda>_.
     if failed_message m then finish_run env st
     else (let tc = \<lparr>tcMessage = m, tcToolResults = results, tcContext = lsCurrent st,
                     tcNewMessages = lsNew st, tcTurn = lsTurn st\<rparr> in
       case cfPrepareNextTurn (lsConfig st) of
         None \<Rightarrow> check_stop env tc st
       | Some prepare \<Rightarrow>
           io_try (prepare tc) (hook_failed env st) (\<lambda>u.
             (let st1 = apply_turn_update u st
              in check_stop env (tc\<lparr>tcContext := lsCurrent st1\<rparr>) st1))))"

definition finish_phase ::
  "'s loop_env \<Rightarrow> assistant_message \<Rightarrow> 's tool_phase \<Rightarrow> ('s, 's turn_outcome) io" where
  "finish_phase env m phase =
     (case phase of
        ToolsEnded ms \<Rightarrow> io_return (Finished ms)
      | ToolsRan st results \<Rightarrow> after_turn env m results st)"

definition answer_turn :: "'s loop_env \<Rightarrow> 's loop_state \<Rightarrow> ('s, 's turn_outcome) io" where
  "answer_turn env st =
     io_bind (stream_assistant_response env (lsCurrent st) (lsConfig st) (lsTurn st)) (\<lambda>m.
     io_bind (run_tools env m (add_message (AssistantMessage m) st)) (finish_phase env m))"

definition turn_body ::
  "'s loop_env \<Rightarrow> int \<Rightarrow> 's loop_state \<Rightarrow> ('s, 's turn_outcome) io" where
  "turn_body env max_turns st0 =
     io_bind (begin_turn env st0) (\<lambda>st.
     if lsTurn st > max_turns
     then io_bind (emit_active_terminal_error env (lsNew st) (lsTurn st) (lsConfig st)
            ''max_turns_exceeded'' StopReasonError) (\<lambda>ms. io_return (Finished ms))
     else io_bind (take_pending env (lsPending st) st) (answer_turn env))"

subsection \<open>The run\<close>

text \<open>A turn that goes on has used up one turn number, which bounds the run.\<close>

definition same_turn :: "'s loop_state \<Rightarrow> 's loop_state \<Rightarrow> bool" where
  "same_turn st st' \<longleftrightarrow> lsTurn st' = lsTurn st \<and> lsFirst st' = lsFirst st"

lemma same_turn_refl [simp]: "same_turn st st"
  by (simp add: same_turn_def)

lemma same_turn_trans: "same_turn a b \<Longrightarrow> same_turn b c \<Longrightarrow> same_turn a c"
  by (simp add: same_turn_def)

lemma add_message_simps [simp]:
  "lsTurn (add_message m st) = lsTurn st" "lsFirst (add_message m st) = lsFirst st"
  "lsConfig (add_message m st) = lsConfig st" "lsPending (add_message m st) = lsPending st"
  "lsMore (add_message m st) = lsMore st" "lsNew (add_message m st) = lsNew st @ [m]"
  "acMessages (lsCurrent (add_message m st)) = acMessages (lsCurrent st) @ [m]"
  by (simp_all add: add_message_def)

lemma add_results_simps [simp]:
  "lsTurn (foldl (\<lambda>st r. add_message (f r) st) st rs) = lsTurn st"
  "lsFirst (foldl (\<lambda>st r. add_message (f r) st) st rs) = lsFirst st"
  "lsConfig (foldl (\<lambda>st r. add_message (f r) st) st rs) = lsConfig st"
  "lsPending (foldl (\<lambda>st r. add_message (f r) st) st rs) = lsPending st"
  "lsNew (foldl (\<lambda>st r. add_message (f r) st) st rs) = lsNew st @ map f rs"
  "acMessages (lsCurrent (foldl (\<lambda>st r. add_message (f r) st) st rs)) =
     acMessages (lsCurrent st) @ map f rs"
  by (induction rs arbitrary: st) simp_all

lemma take_pending_turn: "take_pending env ms st s = (Inr st', s') \<Longrightarrow> same_turn st st'"
proof (induction ms arbitrary: st s)
  case (Cons m ms)
  then show ?case by (fastforce simp: io_bind_Inr same_turn_def)
qed (auto simp: same_turn_def)

lemma run_tools_turn:
  assumes "run_tools env m st s = (Inr (ToolsRan st' rs), s')"
  shows "same_turn st st'"
  using assms
  by (auto simp: run_tools_def Let_def io_bind_Inr io_return_def same_turn_def
      split: if_splits option.splits)

lemma apply_turn_update_turn [simp]:
  "lsTurn (apply_turn_update u st) = lsTurn st" "lsFirst (apply_turn_update u st) = lsFirst st"
  "lsNew (apply_turn_update u st) = lsNew st" "lsPending (apply_turn_update u st) = lsPending st"
  "lsMore (apply_turn_update u st) = lsMore st"
  by (simp_all add: apply_turn_update_def Let_def)

lemma hook_failed_Running [simp]: "hook_failed env st err s \<noteq> (Inr (Running st'), s')"
  by (simp add: hook_failed_def io_bind_Inr)

lemma finish_run_Running [simp]: "finish_run env st s \<noteq> (Inr (Running st'), s')"
  by (simp add: finish_run_def io_bind_Inr)

lemma poll_steering_turn: "poll_steering env st s = (Inr (Running st'), s') \<Longrightarrow> same_turn st st'"
  by (auto simp: poll_steering_def io_try_Inr same_turn_def)

lemma check_stop_turn: "check_stop env tc st s = (Inr (Running st'), s') \<Longrightarrow> same_turn st st'"
  by (auto simp: check_stop_def io_try_Inr dest: poll_steering_turn split: option.splits if_splits)

lemma after_turn_turn:
  assumes "after_turn env m results st s = (Inr (Running st'), s')"
  shows "same_turn st st'"
proof -
  have upd: "same_turn (apply_turn_update u st) st' \<Longrightarrow> same_turn st st'" for u
    by (simp add: same_turn_def)
  from assms show ?thesis
    by (auto simp: after_turn_def Let_def io_bind_Inr io_try_Inr
        dest!: check_stop_turn intro: upd split: option.splits if_splits)
qed

lemma finish_phase_Running:
  "finish_phase env m phase s = (Inr (Running st'), s') \<Longrightarrow>
     \<exists>st rs. phase = ToolsRan st rs \<and> after_turn env m rs st s = (Inr (Running st'), s')"
  by (cases phase) (simp_all add: finish_phase_def)

lemma answer_turn_turn:
  assumes "answer_turn env st s = (Inr (Running st'), s')"
  shows "same_turn st st'"
proof -
  from assms obtain m s1 st2 rs s2 where
    "run_tools env m (add_message (AssistantMessage m) st) s1 = (Inr (ToolsRan st2 rs), s2)"
    "after_turn env m rs st2 s2 = (Inr (Running st'), s')"
    by (auto simp: answer_turn_def io_bind_Inr dest: finish_phase_Running)
  then have "same_turn (add_message (AssistantMessage m) st) st2" "same_turn st2 st'"
    by (blast dest: run_tools_turn after_turn_turn)+
  then show ?thesis by (simp add: same_turn_def)
qed

lemma turn_body_running:
  assumes "turn_body env max_turns st0 s = (Inr (Running st'), s')"
  shows "\<not> lsFirst st'" "lsTurn st' = (if lsFirst st0 then lsTurn st0 else lsTurn st0 + 1)"
    "lsTurn st' \<le> max_turns"
proof -
  from assms obtain st s1 st1 s2 where st: "begin_turn env st0 s = (Inr st, s1)"
    and rest: "\<not> lsTurn st > max_turns" "take_pending env (lsPending st) st s1 = (Inr st1, s2)"
      "answer_turn env st1 s2 = (Inr (Running st'), s')"
    by (auto simp: turn_body_def io_bind_Inr split: if_splits)
  from st have start: "\<not> lsFirst st" "lsTurn st = (if lsFirst st0 then lsTurn st0 else lsTurn st0 + 1)"
    by (auto simp: begin_turn_def io_bind_Inr split: if_splits)
  from rest(2,3) have "same_turn st st1" "same_turn st1 st'"
    by (blast dest: take_pending_turn answer_turn_turn)+
  then have same: "lsTurn st' = lsTurn st" "lsFirst st' = lsFirst st" by (simp_all add: same_turn_def)
  with start rest(1) show "\<not> lsFirst st'"
    "lsTurn st' = (if lsFirst st0 then lsTurn st0 else lsTurn st0 + 1)" "lsTurn st' \<le> max_turns"
    by simp_all
qed

text \<open>
  The two nested loops of \<open>runLoop\<close> as one recursion: the inner one while there is a tool result to
  answer or a pending message, the outer one while there are follow-up messages.
\<close>

function run_turns ::
  "'s loop_env \<Rightarrow> int \<Rightarrow> 's loop_state \<Rightarrow> 's \<Rightarrow> (go_error + message_list) \<times> 's" where
  "run_turns env max_turns st s =
     (if lsMore st \<or> lsPending st \<noteq> [] then
        (case turn_body env max_turns st s of
           (Inl e, s') \<Rightarrow> (Inl e, s')
         | (Inr (Finished ms), s') \<Rightarrow> (Inr ms, s')
         | (Inr (Running st'), s') \<Rightarrow> run_turns env max_turns st' s')
      else
        (case get_queued_messages (cfFollowUp (lsConfig st)) s of
           (Inl err, s') \<Rightarrow>
             emit_post_turn_hook_error env (lsNew st) (lsTurn st) (lsConfig st) (evErrorText env err) s'
         | (Inr [], s') \<Rightarrow> emit_agent_end env (lsNew st) s'
         | (Inr (m # ms), s') \<Rightarrow>
             run_turns env max_turns (st\<lparr>lsPending := m # ms, lsMore := True\<rparr>) s'))"
  by pat_completeness auto
termination
proof (relation "measure (\<lambda>(env, max_turns, st, s).
    4 * nat (max_turns + 1 - lsTurn st) + 2 * (if lsFirst st then 1 else 0) +
    (if lsMore st \<or> lsPending st \<noteq> [] then 0 else 1))", goal_cases)
  case (2 env max_turns st s x y z st')
  then have "turn_body env max_turns st s = (Inr (Running st'), y)" by simp
  from turn_body_running [OF this] 2 show ?case by (auto split: if_splits)
qed auto

declare run_turns.simps [simp del]

definition default_max_turns :: int where
  "default_max_turns = 15"

definition effective_max_turns :: "'s loop_config \<Rightarrow> int" where
  "effective_max_turns cfg = (if cfMaxTurns cfg \<le> 0 then default_max_turns else cfMaxTurns cfg)"

definition run_loop ::
  "'s loop_env \<Rightarrow> agent_context \<Rightarrow> 's loop_config \<Rightarrow> message_list \<Rightarrow> int \<Rightarrow> ('s, message_list) io" where
  "run_loop env ctx cfg new turn =
     io_bind (get_queued_messages (cfSteering cfg)) (\<lambda>pending.
       run_turns env (effective_max_turns cfg)
         \<lparr>lsCurrent = ctx, lsConfig = cfg, lsNew = new, lsTurn = turn, lsFirst = True,
          lsPending = pending, lsMore = True\<rparr>)"

primrec emit_prompts :: "'s loop_env \<Rightarrow> message_list \<Rightarrow> ('s, unit) io" where
  "emit_prompts env [] = io_return ()"
| "emit_prompts env (m # ms) =
     io_bind (emit_message (evEmit env) AgentEventMessageStart 1 m) (\<lambda>_.
     io_bind (emit_message (evEmit env) AgentEventMessageEnd 1 m) (\<lambda>_.
     emit_prompts env ms))"

definition emit_run_start :: "'s loop_env \<Rightarrow> ('s, unit) io" where
  "emit_run_start env =
     io_bind (emit_event (evEmit env) (agent_event_of AgentEventAgentStart)) (\<lambda>_.
     emit_turn_start env 1)"

definition run_agent_loop ::
  "'s loop_env \<Rightarrow> message_list \<Rightarrow> agent_context \<Rightarrow> 's loop_config \<Rightarrow> ('s, message_list) io" where
  "run_agent_loop env prompts ctx cfg =
     (if cfStream cfg = None then io_fail ErrMissingStream
      else io_bind (emit_run_start env) (\<lambda>_.
           io_bind (emit_prompts env prompts) (\<lambda>_.
           run_loop env (ctx\<lparr>acMessages := acMessages ctx @ prompts\<rparr>) cfg prompts 1)))"

definition run_agent_loop_continue ::
  "'s loop_env \<Rightarrow> agent_context \<Rightarrow> 's loop_config \<Rightarrow> ('s, message_list) io" where
  "run_agent_loop_continue env ctx cfg =
     (if acMessages ctx = [] \<or> last (acMessages ctx) = NilMessage then io_fail ErrContinueEmptyContext
      else if message_role_of (last (acMessages ctx)) = Some RoleAssistant
      then io_fail ErrContinueFromAssistant
      else if cfStream cfg = None then io_fail ErrMissingStream
      else io_bind (emit_run_start env) (\<lambda>_. run_loop env ctx cfg [] 1))"

end
