(* ===== verification/MessageQueue.thy ===== *)
theory MessageQueue
  imports CoreTypes
begin

text \<open>
  The steering and follow-up queues of the agent, \<open>internal/agent/core/queue.go\<close>, and the contract
  of a message buffer they keep: every message handed out was put in before, each once, in the order
  they were put in.
\<close>

datatype queue_mode = QueueModeOneAtATime | QueueModeAll | QueueModeOther string

record message_queue =
  mqMode :: queue_mode
  mqMessages :: message_list

definition normalize_queue_mode :: "queue_mode \<Rightarrow> queue_mode" where
  "normalize_queue_mode mode = (if mode = QueueModeAll then QueueModeAll else QueueModeOneAtATime)"

definition validate_queue_mode :: "queue_mode \<Rightarrow> go_error option" where
  "validate_queue_mode mode =
     (case mode of
        QueueModeOneAtATime \<Rightarrow> None
      | QueueModeAll \<Rightarrow> None
      | QueueModeOther m \<Rightarrow> if m = '''' then None else Some (ErrUnknownQueueMode m))"

definition new_message_queue :: "queue_mode \<Rightarrow> message_queue" where
  "new_message_queue mode = \<lparr>mqMode = normalize_queue_mode mode, mqMessages = []\<rparr>"

text \<open>\<open>cloneValidatedMessages\<close>: the first message that is nil or does not validate is the error.\<close>

fun check_messages :: "message_list \<Rightarrow> go_error option" where
  "check_messages [] = None"
| "check_messages (m # ms) =
     (if m = NilMessage then Some ErrListHasNilMessage
      else (case validate_message m of
              Some e \<Rightarrow> Some (ErrInvalidMessage e)
            | None \<Rightarrow> check_messages ms))"

definition clone_validated_messages :: "message_list \<Rightarrow> go_error + message_list" where
  "clone_validated_messages ms =
     (case check_messages ms of Some e \<Rightarrow> Inl e | None \<Rightarrow> Inr ms)"

definition queue_enqueue :: "message_list \<Rightarrow> message_queue \<Rightarrow> go_error option \<times> message_queue" where
  "queue_enqueue ms q =
     (case clone_validated_messages ms of
        Inl e \<Rightarrow> (Some e, q)
      | Inr validated \<Rightarrow>
          if validated = [] then (Some ErrQueuedMessagesRequired, q)
          else (None, q\<lparr>mqMessages := mqMessages q @ validated\<rparr>))"

definition queue_drain :: "message_queue \<Rightarrow> message_list \<times> message_queue" where
  "queue_drain q =
     (if mqMessages q = [] then ([], q)
      else (let count = (if normalize_queue_mode (mqMode q) = QueueModeOneAtATime then 1
                         else length (mqMessages q))
            in (take count (mqMessages q), q\<lparr>mqMessages := drop count (mqMessages q)\<rparr>)))"

definition queue_clear :: "message_queue \<Rightarrow> message_queue" where
  "queue_clear q = q\<lparr>mqMessages := []\<rparr>"

definition queue_take_all :: "message_queue \<Rightarrow> message_list \<times> message_queue" where
  "queue_take_all q = (mqMessages q, queue_clear q)"

definition queue_has_items :: "message_queue \<Rightarrow> bool" where
  "queue_has_items q \<longleftrightarrow> 0 < length (mqMessages q)"

definition queue_set_mode :: "queue_mode \<Rightarrow> message_queue \<Rightarrow> go_error option \<times> message_queue" where
  "queue_set_mode mode q =
     (case validate_queue_mode mode of
        Some e \<Rightarrow> (Some e, q)
      | None \<Rightarrow> (None, q\<lparr>mqMode := normalize_queue_mode mode\<rparr>))"

subsection \<open>The contract of a buffer\<close>

datatype buffer_call = StepPut message_list | StepTake | StepTakeAll | StepMode queue_mode

text \<open>What one step put in, what it handed out, and the buffer after it.\<close>

fun buffer_step ::
  "(message_list \<Rightarrow> 'q \<Rightarrow> go_error option \<times> 'q) \<Rightarrow> ('q \<Rightarrow> message_list \<times> 'q)
     \<Rightarrow> ('q \<Rightarrow> message_list \<times> 'q) \<Rightarrow> (queue_mode \<Rightarrow> 'q \<Rightarrow> go_error option \<times> 'q)
     \<Rightarrow> buffer_call \<Rightarrow> 'q \<Rightarrow> (message_list \<times> message_list) \<times> 'q" where
  "buffer_step put get get_all mode (StepPut ms) q =
     (case put ms q of (r, q') \<Rightarrow> ((if r = None then ms else [], []), q'))"
| "buffer_step put get get_all mode StepTake q = (case get q of (ms, q') \<Rightarrow> (([], ms), q'))"
| "buffer_step put get get_all mode StepTakeAll q = (case get_all q of (ms, q') \<Rightarrow> (([], ms), q'))"
| "buffer_step put get get_all mode (StepMode m) q = (case mode m q of (r, q') \<Rightarrow> (([], []), q'))"

primrec buffer_steps ::
  "(buffer_call \<Rightarrow> 'q \<Rightarrow> (message_list \<times> message_list) \<times> 'q) \<Rightarrow> buffer_call list
     \<Rightarrow> 'q \<Rightarrow> (message_list \<times> message_list) \<times> 'q" where
  "buffer_steps step [] q = (([], []), q)"
| "buffer_steps step (x # xs) q =
     (case step x q of
        ((ins, outs), q1) \<Rightarrow>
          (case buffer_steps step xs q1 of ((ins', outs'), q') \<Rightarrow> ((ins @ ins', outs @ outs'), q')))"

text \<open>Asking again and again, at most \<open>n\<close> times.\<close>

primrec poll :: "('q \<Rightarrow> message_list \<times> 'q) \<Rightarrow> nat \<Rightarrow> 'q \<Rightarrow> message_list" where
  "poll get 0 q = []"
| "poll get (Suc n) q = (case get q of (ms, q') \<Rightarrow> ms @ poll get n q')"

locale message_buffer =
  fixes items :: "'q \<Rightarrow> message_list"
    and put :: "message_list \<Rightarrow> 'q \<Rightarrow> go_error option \<times> 'q"
    and get :: "'q \<Rightarrow> message_list \<times> 'q"
    and get_all :: "'q \<Rightarrow> message_list \<times> 'q"
    and mode :: "queue_mode \<Rightarrow> 'q \<Rightarrow> go_error option \<times> 'q"
  assumes put_items: "put ms q = (r, q') \<Longrightarrow> items q' = (if r = None then items q @ ms else items q)"
    and get_items: "get q = (ms, q') \<Longrightarrow> items q = ms @ items q'"
    and get_some: "get q = (ms, q') \<Longrightarrow> ms = [] \<Longrightarrow> items q = []"
    and get_all_items: "get_all q = (ms, q') \<Longrightarrow> ms = items q \<and> items q' = []"
    and mode_items: "mode m q = (r, q') \<Longrightarrow> items q' = items q"
begin

lemma buffer_step_fifo:
  "buffer_step put get get_all mode x q = ((ins, outs), q') \<Longrightarrow> items q @ ins = outs @ items q'"
  by (cases x) (auto dest: put_items get_items get_all_items mode_items
      split: prod.splits if_splits)

lemma buffer_fifo:
  "buffer_steps (buffer_step put get get_all mode) xs q = ((ins, outs), q') \<Longrightarrow> items q @ ins = outs @ items q'"
proof (induction xs arbitrary: q ins outs)
  case (Cons x xs)
  from Cons.prems obtain i o1 q1 i' o' where x: "buffer_step put get get_all mode x q = ((i, o1), q1)"
    and xs: "buffer_steps (buffer_step put get get_all mode) xs q1 = ((i', o'), q')" and eq: "ins = i @ i'" "outs = o1 @ o'"
    by (auto split: prod.splits)
  show ?case
    using buffer_step_fifo [OF x] Cons.IH [OF xs] unfolding eq
    by (metis append.assoc)
qed simp

lemma get_shorter: "get q = (ms, q') \<Longrightarrow> items q \<noteq> [] \<Longrightarrow> length (items q') < length (items q)"
  using get_items [of q ms q'] get_some [of q ms q'] by (cases ms) auto

lemma poll_all: "length (items q) \<le> n \<Longrightarrow> poll get n q = items q"
proof (induction n arbitrary: q)
  case (Suc n)
  obtain ms q' where get: "get q = (ms, q')" by (cases "get q")
  have "items q = [] \<Longrightarrow> items q' = []" using get_items [OF get] by simp
  then have "length (items q') \<le> n"
    using Suc.prems get_shorter [OF get] by (cases "items q = []") auto
  then show ?case using Suc.IH get_items [OF get] get by simp
qed simp

end

lemma queue_enqueue_items:
  "queue_enqueue ms q = (r, q') \<Longrightarrow>
     mqMessages q' = (if r = None then mqMessages q @ ms else mqMessages q)"
  by (auto simp: queue_enqueue_def clone_validated_messages_def split: option.splits if_splits)

lemma queue_drain_items: "queue_drain q = (ms, q') \<Longrightarrow> mqMessages q = ms @ mqMessages q'"
  by (auto simp: queue_drain_def Let_def split: if_splits)

lemma queue_drain_empty: "queue_drain q = (ms, q') \<Longrightarrow> ms = [] \<Longrightarrow> mqMessages q = []"
  by (auto simp: queue_drain_def Let_def split: if_splits)

lemma queue_set_mode_items: "queue_set_mode m q = (r, q') \<Longrightarrow> mqMessages q' = mqMessages q"
  by (auto simp: queue_set_mode_def split: option.splits)

interpretation mq: message_buffer mqMessages queue_enqueue queue_drain queue_take_all queue_set_mode
  by unfold_locales
    (auto simp: queue_take_all_def queue_clear_def
      dest: queue_enqueue_items queue_drain_items queue_drain_empty queue_set_mode_items)

lemma check_messages_None:
  "check_messages ms = None \<longleftrightarrow> (\<forall>m \<in> set ms. m \<noteq> NilMessage \<and> validate_message m = None)"
  by (induction ms) (auto split: option.splits)

definition queue_ok :: "message_queue \<Rightarrow> bool" where
  "queue_ok q \<longleftrightarrow> mqMode q \<in> {QueueModeOneAtATime, QueueModeAll} \<and>
     (\<forall>m \<in> set (mqMessages q). m \<noteq> NilMessage \<and> validate_message m = None)"

lemma queue_ok_ops [inv_intros]:
  "queue_ok (new_message_queue mode)"
  "queue_ok q \<Longrightarrow> queue_ok (snd (queue_enqueue ms q))"
  "queue_ok q \<Longrightarrow> queue_ok (snd (queue_drain q))"
  "queue_ok q \<Longrightarrow> queue_ok (queue_clear q)"
  "queue_ok q \<Longrightarrow> queue_ok (snd (queue_take_all q))"
  "queue_ok q \<Longrightarrow> queue_ok (snd (queue_set_mode mode q))"
  by (auto simp: queue_ok_def new_message_queue_def normalize_queue_mode_def queue_enqueue_def
      clone_validated_messages_def check_messages_None queue_drain_def Let_def queue_clear_def
      queue_take_all_def queue_set_mode_def dest: in_set_dropD split: option.splits)

lemma queue_drained_ok: "queue_ok q \<Longrightarrow> m \<in> set (fst (queue_drain q)) \<Longrightarrow> m \<noteq> NilMessage \<and> validate_message m = None"
  by (auto simp: queue_ok_def queue_drain_def Let_def dest: in_set_takeD split: if_splits)

end
