(* ===== verification/AgentState.thy ===== *)
theory AgentState
  imports Events
begin

text \<open>
  What the agent shows of itself while it runs, \<open>internal/agent/core/agent_state.go\<close>: the state and
  the reducer that every published event goes through. \<open>event.Message\<close> as a value and as a
  pointer are one constructor of \<open>agent_message\<close>; copies of a value are the value.
\<close>

datatype agent_phase = AgentPhaseIdle | AgentPhaseStreaming | AgentPhaseExecutingTools | AgentPhaseAborted

record agent_state =
  stSystemPrompt :: string
  stModel :: string
  stProvider :: string
  stReasoning :: string
  stTools :: "tool_definition list"
  stMessages :: message_list
  stIsStreaming :: bool
  stPhase :: agent_phase
  stStreamingMessage :: agent_message
  stPendingToolCalls :: "string list"
  stErrorMessage :: string

definition set_phase :: "agent_phase \<Rightarrow> agent_state \<Rightarrow> agent_state" where
  "set_phase p st = (if stPhase st = AgentPhaseAborted then st else st\<lparr>stPhase := p\<rparr>)"

definition add_pending_tool_call :: "string \<Rightarrow> agent_state \<Rightarrow> agent_state" where
  "add_pending_tool_call i st =
     (if i = '''' then st
      else if i \<in> set (stPendingToolCalls st) then st
      else st\<lparr>stPendingToolCalls := stPendingToolCalls st @ [i]\<rparr>)"

definition remove_pending_tool_call :: "string \<Rightarrow> agent_state \<Rightarrow> agent_state" where
  "remove_pending_tool_call i st =
     (if i = '''' \<or> stPendingToolCalls st = [] then st
      else st\<lparr>stPendingToolCalls := filter (\<lambda>e. e \<noteq> i) (stPendingToolCalls st)\<rparr>)"

definition reduce_agent_event :: "agent_event \<Rightarrow> agent_state \<Rightarrow> agent_state" where
  "reduce_agent_event ev st =
     (case evType ev of
        AgentEventAgentStart \<Rightarrow>
          (set_phase AgentPhaseStreaming (st\<lparr>stIsStreaming := True\<rparr>))\<lparr>stErrorMessage := ''''\<rparr>
      | AgentEventMessageStart \<Rightarrow>
          set_phase AgentPhaseStreaming (st\<lparr>stStreamingMessage := evMessage ev, stIsStreaming := True\<rparr>)
      | AgentEventMessageUpdate \<Rightarrow>
          set_phase AgentPhaseStreaming (st\<lparr>stStreamingMessage := evMessage ev, stIsStreaming := True\<rparr>)
      | AgentEventMessageEnd \<Rightarrow>
          (if evMessage ev \<noteq> NilMessage then st\<lparr>stMessages := stMessages st @ [evMessage ev]\<rparr> else st)
            \<lparr>stStreamingMessage := NilMessage\<rparr>
      | AgentEventToolExecutionStart \<Rightarrow>
          set_phase AgentPhaseExecutingTools
            ((add_pending_tool_call (evToolCallID ev) st)\<lparr>stIsStreaming := True\<rparr>)
      | AgentEventToolExecutionEnd \<Rightarrow>
          (let st1 = remove_pending_tool_call (evToolCallID ev) st
           in set_phase (if stPendingToolCalls st1 \<noteq> [] then AgentPhaseExecutingTools
                         else AgentPhaseStreaming) st1)
      | AgentEventTurnEnd \<Rightarrow>
          (case evMessage ev of
             AssistantMessage m \<Rightarrow>
               if amErrorMessage m \<noteq> '''' then st\<lparr>stErrorMessage := amErrorMessage m\<rparr> else st
           | _ \<Rightarrow> st)
      | AgentEventAgentEnd \<Rightarrow> st\<lparr>stStreamingMessage := NilMessage, stPendingToolCalls := []\<rparr>
      | _ \<Rightarrow> st)"

text \<open>The messages a list of events has ended.\<close>

definition ended_messages :: "agent_event list \<Rightarrow> message_list" where
  "ended_messages evs =
     filter (\<lambda>m. m \<noteq> NilMessage) (map evMessage (filter (\<lambda>ev. evType ev = AgentEventMessageEnd) evs))"

lemma ended_messages_simps [simp]:
  "ended_messages [] = []"
  "ended_messages (evs @ [ev]) = ended_messages evs @
     (if evType ev = AgentEventMessageEnd \<and> evMessage ev \<noteq> NilMessage then [evMessage ev] else [])"
  by (simp_all add: ended_messages_def)

lemma set_phase_fields [simp]:
  "stMessages (set_phase p st) = stMessages st"
  "stPendingToolCalls (set_phase p st) = stPendingToolCalls st"
  "stStreamingMessage (set_phase p st) = stStreamingMessage st"
  "stErrorMessage (set_phase p st) = stErrorMessage st"
  by (simp_all add: set_phase_def)

lemma pending_fields [simp]:
  "stMessages (add_pending_tool_call i st) = stMessages st"
  "stMessages (remove_pending_tool_call i st) = stMessages st"
  "stPhase (add_pending_tool_call i st) = stPhase st"
  "stPhase (remove_pending_tool_call i st) = stPhase st"
  by (simp_all add: add_pending_tool_call_def remove_pending_tool_call_def)

lemma reduce_messages:
  "stMessages (reduce_agent_event ev st) = stMessages st @ ended_messages [ev]"
  using ended_messages_simps(2) [of "[]" ev]
  by (simp add: reduce_agent_event_def Let_def split: agent_event_type.splits agent_message.splits)

text \<open>An abort during the run is not lost: the phase stays aborted until the run is finished.\<close>

lemma reduce_keeps_abort:
  "stPhase st = AgentPhaseAborted \<Longrightarrow> stPhase (reduce_agent_event ev st) = AgentPhaseAborted"
  by (auto simp: reduce_agent_event_def set_phase_def Let_def
      split: agent_event_type.splits agent_message.splits)

subsection \<open>Pending tool calls\<close>

text \<open>The reference: the calls that were started and have not ended since.\<close>

fun running_calls :: "agent_event list \<Rightarrow> string set" where
  "running_calls [] = {}"
| "running_calls (ev # evs) =
     (case evType ev of
        AgentEventToolExecutionStart \<Rightarrow> insert (evToolCallID ev) (running_calls evs)
      | AgentEventToolExecutionEnd \<Rightarrow> running_calls evs - {evToolCallID ev}
      | AgentEventAgentEnd \<Rightarrow> {}
      | _ \<Rightarrow> running_calls evs)"

definition pending_ok :: "agent_state \<Rightarrow> bool" where
  "pending_ok st \<longleftrightarrow> distinct (stPendingToolCalls st) \<and> '''' \<notin> set (stPendingToolCalls st)"

lemma set_phase_pending_ok [simp]: "pending_ok (set_phase p st) = pending_ok st"
  by (simp add: pending_ok_def)

lemma reduce_pending_ok [inv_intros]: "pending_ok st \<Longrightarrow> pending_ok (reduce_agent_event ev st)"
  by (auto simp: pending_ok_def reduce_agent_event_def add_pending_tool_call_def
      remove_pending_tool_call_def Let_def split: agent_event_type.splits agent_message.splits)

lemma reduce_pending:
  "set (stPendingToolCalls (reduce_agent_event ev st)) =
     (case evType ev of
        AgentEventToolExecutionStart \<Rightarrow> set (stPendingToolCalls st) \<union> ({evToolCallID ev} - {''''})
      | AgentEventToolExecutionEnd \<Rightarrow>
          set (stPendingToolCalls st) - ({evToolCallID ev} - {''''})
      | AgentEventAgentEnd \<Rightarrow> {}
      | _ \<Rightarrow> set (stPendingToolCalls st))"
  by (auto simp: reduce_agent_event_def add_pending_tool_call_def remove_pending_tool_call_def Let_def
      split: agent_event_type.splits agent_message.splits)

text \<open>
  After any events, the pending calls are the running ones, each once: \<open>foldl\<close> reads the events
  oldest first, \<open>running_calls\<close> newest first.
\<close>

lemma reduce_all_pending:
  assumes "pending_ok st" "stPendingToolCalls st = []"
  shows "pending_ok (foldl (\<lambda>st ev. reduce_agent_event ev st) st evs) \<and>
    set (stPendingToolCalls (foldl (\<lambda>st ev. reduce_agent_event ev st) st evs)) =
      running_calls (rev evs) - {''''}"
proof (induction evs rule: rev_induct)
  case Nil
  then show ?case using assms by simp
next
  case (snoc ev evs)
  let ?st = "foldl (\<lambda>st ev. reduce_agent_event ev st) st evs"
  have "pending_ok (reduce_agent_event ev ?st)" using snoc reduce_pending_ok by blast
  moreover have "set (stPendingToolCalls (reduce_agent_event ev ?st)) =
      running_calls (rev (evs @ [ev])) - {''''}"
    using snoc by (auto simp: reduce_pending split: agent_event_type.splits)
  ultimately show ?case by simp
qed

lemma reduce_all_messages:
  "stMessages (foldl (\<lambda>st ev. reduce_agent_event ev st) st evs) = stMessages st @ ended_messages evs"
proof (induction evs rule: rev_induct)
  case (snoc ev evs)
  then show ?case
    using ended_messages_simps(2) [of "[]" ev] by (simp add: reduce_messages)
qed simp

end
