(* ===== verification/Agent.thy ===== *)
theory Agent
  imports AgentLoop MessageQueue AgentState
begin

text \<open>
  The agent, \<open>internal/agent/core/agent.go\<close>: its state, its listeners, its two queues and the one run
  it may have. Everything happens under the agent's mutex except the run itself, so the other
  goroutines are the calls made between two steps of the run. What is outside the agent, a listener
  or the parent context, is a function of the agent that answers and names the methods it calls: it
  has no other way to reach the agent. A closure is a value \<open>'l\<close>, the setup says what it does.
  \<open>agLog\<close> is no field of the code: it is the list of events published since the run began.
\<close>

record active_run =
  arObserved :: bool
  arCtxErr :: "go_error option"
  arSkipSteering :: bool

record ('l, 'w) agent =
  agState :: agent_state
  agNextListenerID :: nat
  agListenerOrder :: "nat list"
  agListeners :: "nat \<rightharpoonup> 'l"
  agSteering :: message_queue
  agFollowUp :: message_queue
  agActive :: "active_run option"
  agLog :: "agent_event list"
  agWorld :: 'w

subsection \<open>The methods\<close>

definition agent_listen :: "'l option \<Rightarrow> ('l, 'w) agent \<Rightarrow> nat option \<times> ('l, 'w) agent" where
  "agent_listen l a =
     (case l of
        None \<Rightarrow> (None, a)
      | Some f \<Rightarrow>
          (let i = agNextListenerID a in
           (Some i, a\<lparr>agNextListenerID := i + 1, agListeners := (agListeners a)(i \<mapsto> f),
              agListenerOrder := agListenerOrder a @ [i]\<rparr>)))"

definition agent_unsubscribe :: "nat \<Rightarrow> ('l, 'w) agent \<Rightarrow> ('l, 'w) agent" where
  "agent_unsubscribe i a =
     a\<lparr>agListeners := (agListeners a)(i := None), agListenerOrder := remove1 i (agListenerOrder a)\<rparr>"

definition agent_steer :: "message_list \<Rightarrow> ('l, 'w) agent \<Rightarrow> go_error option \<times> ('l, 'w) agent" where
  "agent_steer ms a = (case queue_enqueue ms (agSteering a) of (r, q) \<Rightarrow> (r, a\<lparr>agSteering := q\<rparr>))"

definition agent_follow_up :: "message_list \<Rightarrow> ('l, 'w) agent \<Rightarrow> go_error option \<times> ('l, 'w) agent" where
  "agent_follow_up ms a = (case queue_enqueue ms (agFollowUp a) of (r, q) \<Rightarrow> (r, a\<lparr>agFollowUp := q\<rparr>))"

definition clear_steering_queue :: "('l, 'w) agent \<Rightarrow> message_list \<times> ('l, 'w) agent" where
  "clear_steering_queue a = (case queue_take_all (agSteering a) of (ms, q) \<Rightarrow> (ms, a\<lparr>agSteering := q\<rparr>))"

definition clear_follow_up_queue :: "('l, 'w) agent \<Rightarrow> message_list \<times> ('l, 'w) agent" where
  "clear_follow_up_queue a = (case queue_take_all (agFollowUp a) of (ms, q) \<Rightarrow> (ms, a\<lparr>agFollowUp := q\<rparr>))"

definition clear_all_queues :: "('l, 'w) agent \<Rightarrow> ('l, 'w) agent" where
  "clear_all_queues a =
     a\<lparr>agSteering := queue_clear (agSteering a), agFollowUp := queue_clear (agFollowUp a)\<rparr>"

definition has_queued_messages :: "('l, 'w) agent \<Rightarrow> bool" where
  "has_queued_messages a \<longleftrightarrow> queue_has_items (agSteering a) \<or> queue_has_items (agFollowUp a)"

definition set_steering_mode :: "queue_mode \<Rightarrow> ('l, 'w) agent \<Rightarrow> go_error option \<times> ('l, 'w) agent" where
  "set_steering_mode m a = (case queue_set_mode m (agSteering a) of (r, q) \<Rightarrow> (r, a\<lparr>agSteering := q\<rparr>))"

definition set_follow_up_mode :: "queue_mode \<Rightarrow> ('l, 'w) agent \<Rightarrow> go_error option \<times> ('l, 'w) agent" where
  "set_follow_up_mode m a = (case queue_set_mode m (agFollowUp a) of (r, q) \<Rightarrow> (r, a\<lparr>agFollowUp := q\<rparr>))"

text \<open>Cancelling a context that already has an error changes nothing.\<close>

definition cancel_run :: "go_error \<Rightarrow> active_run \<Rightarrow> active_run" where
  "cancel_run e run = (if arCtxErr run = None then run\<lparr>arCtxErr := Some e\<rparr> else run)"

definition agent_abort :: "('l, 'w) agent \<Rightarrow> bool \<times> ('l, 'w) agent" where
  "agent_abort a =
     (case agActive a of
        None \<Rightarrow> (False, a)
      | Some run \<Rightarrow>
          (True, a\<lparr>agState := (agState a)\<lparr>stPhase := AgentPhaseAborted\<rparr>,
             agActive := Some (cancel_run ErrContextCanceled run)\<rparr>))"

definition agent_reset :: "('l, 'w) agent \<Rightarrow> go_error option \<times> ('l, 'w) agent" where
  "agent_reset a =
     (if agActive a \<noteq> None then (Some ErrAgentBusy, a)
      else (None, a\<lparr>agState := (agState a)\<lparr>stMessages := [], stIsStreaming := False,
               stPhase := AgentPhaseIdle, stStreamingMessage := NilMessage,
               stPendingToolCalls := [], stErrorMessage := ''''\<rparr>,
             agSteering := queue_clear (agSteering a), agFollowUp := queue_clear (agFollowUp a)\<rparr>))"

subsection \<open>What is outside\<close>

text \<open>A prompt while a run is active is refused and changes nothing, so it is no call here.\<close>

datatype ('l, 'w) agent_call =
    CallSteer message_list | CallFollowUp message_list
  | CallClearSteering | CallClearFollowUp | CallClearAll
  | CallSteeringMode queue_mode | CallFollowUpMode queue_mode
  | CallListen "'l option" | CallUnsubscribe nat
  | CallAbort | CallReset | CallWorld 'w

fun apply_call :: "('l, 'w) agent_call \<Rightarrow> ('l, 'w) agent \<Rightarrow> ('l, 'w) agent" where
  "apply_call (CallSteer ms) a = snd (agent_steer ms a)"
| "apply_call (CallFollowUp ms) a = snd (agent_follow_up ms a)"
| "apply_call CallClearSteering a = snd (clear_steering_queue a)"
| "apply_call CallClearFollowUp a = snd (clear_follow_up_queue a)"
| "apply_call CallClearAll a = clear_all_queues a"
| "apply_call (CallSteeringMode m) a = snd (set_steering_mode m a)"
| "apply_call (CallFollowUpMode m) a = snd (set_follow_up_mode m a)"
| "apply_call (CallListen l) a = snd (agent_listen l a)"
| "apply_call (CallUnsubscribe i) a = agent_unsubscribe i a"
| "apply_call CallAbort a = snd (agent_abort a)"
| "apply_call CallReset a = snd (agent_reset a)"
| "apply_call (CallWorld w) a = a\<lparr>agWorld := w\<rparr>"

definition apply_calls :: "('l, 'w) agent_call list \<Rightarrow> ('l, 'w) agent \<Rightarrow> ('l, 'w) agent" where
  "apply_calls cs a = fold apply_call cs a"

record ('l, 'w) agent_setup =
  suConfig :: "('l, 'w) agent loop_config"
  suListener :: "'l \<Rightarrow> agent_event \<Rightarrow> agent_state \<Rightarrow> ('l, 'w) agent \<Rightarrow>
    go_error option \<times> ('l, 'w) agent_call list"
  suParent :: "('l, 'w) agent \<Rightarrow> go_error option \<times> ('l, 'w) agent_call list"
  suErrorText :: "go_error \<Rightarrow> string"

text \<open>
  \<open>Err\<close> of the run's context: its own cancellation, or the parent's, which it then keeps. The context
  of a run that is over has been cancelled.
\<close>

definition run_ctx_err :: "('l, 'w) agent_setup \<Rightarrow> ('l, 'w) agent \<Rightarrow> go_error option \<times> ('l, 'w) agent" where
  "run_ctx_err su a =
     (case agActive a of
        None \<Rightarrow> (Some ErrContextCanceled, a)
      | Some run \<Rightarrow>
          (case arCtxErr run of
             Some e \<Rightarrow> (Some e, a)
           | None \<Rightarrow>
               (case suParent su a of
                  (None, cs) \<Rightarrow> (None, apply_calls cs a)
                | (Some e, cs) \<Rightarrow>
                    (Some e, apply_calls cs (a\<lparr>agActive := Some (cancel_run e run)\<rparr>)))))"

subsection \<open>Publishing an event\<close>

definition reduce_agent_event_locked :: "agent_event \<Rightarrow> ('l, 'w) agent \<Rightarrow> ('l, 'w) agent" where
  "reduce_agent_event_locked ev a =
     a\<lparr>agState := reduce_agent_event ev (agState a),
       agActive := (if evType ev = AgentEventAgentEnd
                    then map_option (\<lambda>run. run\<lparr>arObserved := True\<rparr>) (agActive a) else agActive a)\<rparr>"

definition listener_snapshot :: "('l, 'w) agent \<Rightarrow> 'l list" where
  "listener_snapshot a = List.map_filter (agListeners a) (agListenerOrder a)"

fun notify ::
  "('l, 'w) agent_setup \<Rightarrow> agent_event \<Rightarrow> agent_state \<Rightarrow> 'l list \<Rightarrow> ('l, 'w) agent
     \<Rightarrow> go_error list \<times> ('l, 'w) agent" where
  "notify su ev st [] a = ([], a)"
| "notify su ev st (l # ls) a =
     (case suListener su l ev st a of
        (err, cs) \<Rightarrow>
          (case notify su ev st ls (apply_calls cs a) of
             (errs, a') \<Rightarrow> ((case err of None \<Rightarrow> errs | Some e \<Rightarrow> e # errs), a')))"

definition process_event ::
  "('l, 'w) agent_setup \<Rightarrow> agent_event \<Rightarrow> ('l, 'w) agent \<Rightarrow> (go_error + unit) \<times> ('l, 'w) agent" where
  "process_event su ev a =
     (let a1 = (reduce_agent_event_locked ev a)\<lparr>agLog := agLog a @ [ev]\<rparr> in
      case notify su ev (agState a1) (listener_snapshot a1) a1 of
        (errs, a2) \<Rightarrow> (if errs = [] then Inr () else Inl (ErrListenerDispatch errs), a2))"

definition agent_env :: "('l, 'w) agent_setup \<Rightarrow> ('l, 'w) agent loop_env" where
  "agent_env su = \<lparr>evCtxErr = run_ctx_err su, evEmit = Some (process_event su),
     evErrorText = suErrorText su\<rparr>"

subsection \<open>A run\<close>

definition steering_source ::
  "(('l, 'w) agent, message_list) io option \<Rightarrow> (('l, 'w) agent, message_list) io" where
  "steering_source fallback a =
     (if (case agActive a of None \<Rightarrow> False | Some run \<Rightarrow> arSkipSteering run)
      then (Inr [], a\<lparr>agActive := map_option (\<lambda>run. run\<lparr>arSkipSteering := False\<rparr>) (agActive a)\<rparr>)
      else (case queue_drain (agSteering a) of
              (ms, q) \<Rightarrow>
                (case fallback of
                   None \<Rightarrow> (Inr ms, a\<lparr>agSteering := q\<rparr>)
                 | Some f \<Rightarrow>
                     if ms \<noteq> [] then (Inr ms, a\<lparr>agSteering := q\<rparr>) else f (a\<lparr>agSteering := q\<rparr>))))"

definition follow_up_source ::
  "(('l, 'w) agent, message_list) io option \<Rightarrow> (('l, 'w) agent, message_list) io" where
  "follow_up_source fallback a =
     (case queue_drain (agFollowUp a) of
        (ms, q) \<Rightarrow>
          (case fallback of
             None \<Rightarrow> (Inr ms, a\<lparr>agFollowUp := q\<rparr>)
           | Some f \<Rightarrow>
               if ms \<noteq> [] then (Inr ms, a\<lparr>agFollowUp := q\<rparr>) else f (a\<lparr>agFollowUp := q\<rparr>)))"

definition loop_config_for_run ::
  "('l, 'w) agent_setup \<Rightarrow> ('l, 'w) agent \<Rightarrow> ('l, 'w) agent loop_config" where
  "loop_config_for_run su a =
     (let cfg = suConfig su in
      cfg\<lparr>cfModel := stModel (agState a), cfProvider := stProvider (agState a),
        cfReasoning := stReasoning (agState a),
        cfSteering := Some (steering_source (cfSteering cfg)),
        cfFollowUp := Some (follow_up_source (cfFollowUp cfg))\<rparr>)"

definition context_snapshot :: "('l, 'w) agent \<Rightarrow> agent_context" where
  "context_snapshot a = \<lparr>acSystemPrompt = stSystemPrompt (agState a),
     acMessages = stMessages (agState a), acTools = stTools (agState a)\<rparr>"

definition begin_run :: "bool \<Rightarrow> ('l, 'w) agent \<Rightarrow> ('l, 'w) agent" where
  "begin_run skip a =
     a\<lparr>agActive := Some \<lparr>arObserved = False, arCtxErr = None, arSkipSteering = skip\<rparr>,
       agState := (agState a)\<lparr>stIsStreaming := True, stPhase := AgentPhaseStreaming,
         stStreamingMessage := NilMessage, stPendingToolCalls := [], stErrorMessage := ''''\<rparr>,
       agLog := []\<rparr>"

text \<open>The active run is the one that began it: no other can begin before it is finished.\<close>

definition finish_agent_run :: "('l, 'w) agent \<Rightarrow> ('l, 'w) agent" where
  "finish_agent_run a =
     a\<lparr>agState := (agState a)\<lparr>stIsStreaming := False, stPhase := AgentPhaseIdle,
         stStreamingMessage := NilMessage, stPendingToolCalls := []\<rparr>,
       agActive := None\<rparr>"

text \<open>\<open>errors.As\<close> for a listener's error and \<open>errors.Is\<close> for a cancelled context.\<close>

fun is_listener_error :: "go_error \<Rightarrow> bool" where
  "is_listener_error (ErrListenerDispatch es) = True"
| "is_listener_error (ErrUpdateEmit e) = is_listener_error e"
| "is_listener_error (ErrWrapped msg e) = is_listener_error e"
| "is_listener_error _ = False"

fun is_canceled :: "go_error \<Rightarrow> bool" where
  "is_canceled ErrContextCanceled = True"
| "is_canceled (ErrUpdateEmit e) = is_canceled e"
| "is_canceled (ErrWrapped msg e) = is_canceled e"
| "is_canceled (ErrListenerDispatch es) = (\<exists>e \<in> set es. is_canceled e)"
| "is_canceled _ = False"

type_synonym ('l, 'w) agent_answer = "(message_list \<times> go_error option) \<times> ('l, 'w) agent"

definition emit_failure ::
  "('l, 'w) agent_setup \<Rightarrow> ('l, 'w) agent loop_config \<Rightarrow> go_error \<Rightarrow> stop_reason
     \<Rightarrow> (('l, 'w) agent, message_list) io" where
  "emit_failure su cfg err reason =
     (let env = agent_env su;
          m = new_assistant_error (cfProvider cfg) (cfModel cfg) reason (suErrorText su err) in
      io_bind (emit_message (evEmit env) AgentEventMessageStart 1 (AssistantMessage m)) (\<lambda>_.
      io_bind (emit_message (evEmit env) AgentEventMessageEnd 1 (AssistantMessage m)) (\<lambda>_.
      io_bind (emit_turn_end env 1 m []) (\<lambda>_.
      emit_agent_end env [AssistantMessage m]))))"

definition maybe_emit_failure ::
  "('l, 'w) agent_setup \<Rightarrow> ('l, 'w) agent loop_config \<Rightarrow> go_error + message_list \<Rightarrow> ('l, 'w) agent
     \<Rightarrow> ('l, 'w) agent_answer" where
  "maybe_emit_failure su cfg r a =
     (case r of
        Inr ms \<Rightarrow> ((ms, None), a)
      | Inl err \<Rightarrow>
          if is_listener_error err then (([], Some err), a)
          else if (case agActive a of None \<Rightarrow> True | Some run \<Rightarrow> arObserved run)
          then (([], Some err), a)
          else (let (gone, a1) = (if is_canceled err then (True, a)
                       else (case run_ctx_err su a of (e, a1) \<Rightarrow> (e \<noteq> None, a1)));
                    reason = (if gone then StopReasonAborted else StopReasonError)
                in (case emit_failure su cfg err reason a1 of
                      (Inl err2, a2) \<Rightarrow> (([], Some err2), a2)
                    | (Inr ms, a2) \<Rightarrow> ((ms, Some err), a2))))"

definition run_prompt_locked ::
  "('l, 'w) agent_setup \<Rightarrow> message_list \<Rightarrow> bool \<Rightarrow> ('l, 'w) agent \<Rightarrow> ('l, 'w) agent_answer" where
  "run_prompt_locked su ms skip a =
     (let a1 = begin_run skip a; ctx = context_snapshot a1; cfg = loop_config_for_run su a1 in
      case run_agent_loop (agent_env su) ms ctx cfg a1 of
        (r, a2) \<Rightarrow>
          (case maybe_emit_failure su cfg r a2 of (res, a3) \<Rightarrow> (res, finish_agent_run a3)))"

definition run_continue_locked :: "('l, 'w) agent_setup \<Rightarrow> ('l, 'w) agent \<Rightarrow> ('l, 'w) agent_answer" where
  "run_continue_locked su a =
     (let a1 = begin_run False a; ctx = context_snapshot a1; cfg = loop_config_for_run su a1 in
      case run_agent_loop_continue (agent_env su) ctx cfg a1 of
        (r, a2) \<Rightarrow>
          (case maybe_emit_failure su cfg r a2 of (res, a3) \<Rightarrow> (res, finish_agent_run a3)))"

definition run_prompt ::
  "('l, 'w) agent_setup \<Rightarrow> message_list \<Rightarrow> bool \<Rightarrow> ('l, 'w) agent \<Rightarrow> ('l, 'w) agent_answer" where
  "run_prompt su ms skip a =
     (if agActive a \<noteq> None then (([], Some ErrAgentBusy), a) else run_prompt_locked su ms skip a)"

definition agent_prompt ::
  "('l, 'w) agent_setup \<Rightarrow> message_list \<Rightarrow> ('l, 'w) agent \<Rightarrow> ('l, 'w) agent_answer" where
  "agent_prompt su ms a =
     (case clone_validated_messages ms of
        Inl e \<Rightarrow> (([], Some e), a)
      | Inr prompts \<Rightarrow> run_prompt su prompts False a)"

definition agent_continue :: "('l, 'w) agent_setup \<Rightarrow> ('l, 'w) agent \<Rightarrow> ('l, 'w) agent_answer" where
  "agent_continue su a =
     (let ms = stMessages (agState a) in
      if agActive a \<noteq> None then (([], Some ErrAgentBusy), a)
      else if ms = [] \<or> last ms = NilMessage then (([], Some ErrContinueEmptyContext), a)
      else if message_role_of (last ms) = Some RoleAssistant
      then (case queue_drain (agSteering a) of
              (m # qs, q) \<Rightarrow> run_prompt_locked su (m # qs) True (a\<lparr>agSteering := q\<rparr>)
            | ([], q) \<Rightarrow>
                (case queue_drain (agFollowUp a) of
                   (m # qs, p) \<Rightarrow>
                     run_prompt_locked su (m # qs) False (a\<lparr>agSteering := q, agFollowUp := p\<rparr>)
                 | ([], p) \<Rightarrow>
                     (([], Some ErrContinueFromAssistant), a\<lparr>agSteering := q, agFollowUp := p\<rparr>)))
      else run_continue_locked su a)"

definition new_agent :: "agent_context \<Rightarrow> ('l, 'w) agent_setup \<Rightarrow> queue_mode \<Rightarrow> queue_mode \<Rightarrow> 'w \<Rightarrow> ('l, 'w) agent" where
  "new_agent ctx su steering follow_up w =
     \<lparr>agState = \<lparr>stSystemPrompt = acSystemPrompt ctx, stModel = cfModel (suConfig su),
        stProvider = cfProvider (suConfig su), stReasoning = cfReasoning (suConfig su),
        stTools = acTools ctx, stMessages = acMessages ctx, stIsStreaming = False,
        stPhase = AgentPhaseIdle, stStreamingMessage = NilMessage, stPendingToolCalls = [],
        stErrorMessage = ''''\<rparr>,
      agNextListenerID = 0, agListenerOrder = [], agListeners = Map.empty,
      agSteering = new_message_queue steering, agFollowUp = new_message_queue follow_up,
      agActive = None, agLog = [], agWorld = w\<rparr>"

subsection \<open>Listeners\<close>

definition listeners_ok :: "('l, 'w) agent \<Rightarrow> bool" where
  "listeners_ok a \<longleftrightarrow> distinct (agListenerOrder a) \<and> set (agListenerOrder a) = dom (agListeners a) \<and>
     (\<forall>i \<in> dom (agListeners a). i < agNextListenerID a)"

lemma agent_call_frame [simp]:
  "agListeners (agent_unsubscribe i a) = (agListeners a)(i := None)"
  "agListenerOrder (agent_unsubscribe i a) = remove1 i (agListenerOrder a)"
  "agNextListenerID (agent_unsubscribe i a) = agNextListenerID a"
  by (simp_all add: agent_unsubscribe_def)

lemma apply_call_listeners_ok [inv_intros]: "listeners_ok a \<Longrightarrow> listeners_ok (apply_call c a)"
proof (cases c)
  case (CallListen l)
  then show "listeners_ok a \<Longrightarrow> listeners_ok (apply_call c a)"
    by (auto simp: listeners_ok_def agent_listen_def Let_def less_Suc_eq split: option.splits)
next
  case (CallUnsubscribe i)
  then show "listeners_ok a \<Longrightarrow> listeners_ok (apply_call c a)"
    by (auto simp: listeners_ok_def set_remove1_eq)
qed (auto simp: listeners_ok_def agent_steer_def agent_follow_up_def clear_steering_queue_def
    clear_follow_up_queue_def clear_all_queues_def set_steering_mode_def set_follow_up_mode_def
    agent_abort_def agent_reset_def queue_take_all_def split: prod.splits option.splits)

end
