(* ===== verification/ToolRunner.thy ===== *)
theory ToolRunner
  imports AgentLoop
begin

text \<open>
  The tool registry and runner, \<open>internal/agent/core/tool_registry.go\<close> and \<open>tool_runner.go\<close>. A
  tool is its two functions on the outside state; the decoded arguments of a call are a function
  of their bytes, so the bytes stand for both (a number too large for a float64, which fails to
  decode, is not told apart). The jsonschema package is a parameter: \<open>compile\<close> turns a schema into
  its validator. In parallel mode a goroutine runs to its end before the next one starts, in an
  order the scheduler \<open>sched\<close> chooses.
\<close>

subsection \<open>The registry\<close>

datatype execution_mode = ExecutionModeUnset | ExecutionModeParallel | ExecutionModeSequential
  | ExecutionModeOther string

record tool_call =
  tkID :: string
  tkName :: string
  tkArguments :: bytes

record 's tool =
  tlDefinition :: tool_definition
  tlMode :: execution_mode
  tlPrepare :: "bytes \<Rightarrow> ('s, bytes) io"
  tlExecute :: "tool_call \<Rightarrow> (agent_event \<Rightarrow> ('s, unit) io) \<Rightarrow> ('s, tool_result) io"

type_synonym validator = "bytes \<Rightarrow> go_error option"

record 's registered_tool =
  rgTool :: "'s tool"
  rgDefinition :: tool_definition
  rgSchema :: "validator option"

record 's registry =
  rgOrder :: "string list"
  rgTools :: "string \<rightharpoonup> 's registered_tool"

definition empty_registry :: "'s registry" where
  "empty_registry = \<lparr>rgOrder = [], rgTools = Map.empty\<rparr>"

definition compile_schema ::
  "(bytes \<Rightarrow> go_error + validator) \<Rightarrow> bytes \<Rightarrow> go_error + validator option" where
  "compile_schema compile raw =
     (if raw = [] then Inr None
      else (case compile raw of Inl e \<Rightarrow> Inl e | Inr v \<Rightarrow> Inr (Some v)))"

definition register_tool ::
  "(bytes \<Rightarrow> go_error + validator) \<Rightarrow> 's registry \<Rightarrow> 's tool option \<Rightarrow> go_error + 's registry" where
  "register_tool compile reg t =
     (case t of
        None \<Rightarrow> Inl ErrToolNil
      | Some tool \<Rightarrow>
          (let d = tlDefinition tool in
           if tdName d = '''' then Inl ErrToolRequiresName
           else if rgTools reg (tdName d) \<noteq> None then Inl (ErrDuplicateTool (tdName d))
           else (case compile_schema compile (tdParameters d) of
                   Inl e \<Rightarrow> Inl (ErrWrapped (tdName d) e)
                 | Inr schema \<Rightarrow>
                     Inr (reg\<lparr>rgOrder := rgOrder reg @ [tdName d],
                       rgTools := (rgTools reg)(tdName d \<mapsto>
                         \<lparr>rgTool = tool, rgDefinition = d, rgSchema = schema\<rparr>)\<rparr>))))"

fun register_tools ::
  "(bytes \<Rightarrow> go_error + validator) \<Rightarrow> 's registry \<Rightarrow> 's tool option list \<Rightarrow> go_error + 's registry" where
  "register_tools compile reg [] = Inr reg"
| "register_tools compile reg (t # ts) =
     (case register_tool compile reg t of
        Inl e \<Rightarrow> Inl e | Inr reg' \<Rightarrow> register_tools compile reg' ts)"

definition new_registry ::
  "(bytes \<Rightarrow> go_error + validator) \<Rightarrow> 's tool option list \<Rightarrow> go_error + 's registry" where
  "new_registry compile ts = register_tools compile empty_registry ts"

definition registry_definitions :: "'s registry \<Rightarrow> tool_definition list" where
  "registry_definitions reg = map (\<lambda>n. rgDefinition (the (rgTools reg n))) (rgOrder reg)"

definition registry_lookup :: "'s registry \<Rightarrow> string \<Rightarrow> 's registered_tool option" where
  "registry_lookup reg name = rgTools reg name"

definition validate_with_schema :: "validator option \<Rightarrow> bytes \<Rightarrow> go_error option" where
  "validate_with_schema schema args = (case schema of None \<Rightarrow> None | Some v \<Rightarrow> v args)"

text \<open>\<open>decodeArguments\<close>; a JSON \<open>null\<close> decodes to a nil map, which is not an object.\<close>

definition decode_arguments :: "bytes \<Rightarrow> go_error + bytes" where
  "decode_arguments raw0 =
     (let raw = (if raw0 = [] then ''{}'' else raw0) in
      if \<not> json_valid raw then Inl (ErrArgumentsInvalid raw)
      else if first_nonspace raw = Some (CHR ''{'') then Inr raw
      else if first_nonspace raw = Some (CHR ''n'') then Inl ErrArgumentsNotObject
      else Inl (ErrArgumentsInvalid raw))"

definition check_arguments :: "'s registered_tool \<Rightarrow> bytes \<Rightarrow> go_error option" where
  "check_arguments item raw =
     (case decode_arguments raw of
        Inl e \<Rightarrow> Some e
      | Inr args \<Rightarrow> validate_with_schema (rgSchema item) args)"

subsection \<open>The runner\<close>

record before_context =
  bcAssistant :: assistant_message
  bcCall :: tool_call_content
  bcArguments :: bytes
  bcContext :: agent_context

record before_result =
  brArguments :: bytes
  brBlock :: bool
  brReason :: string

record after_context =
  acAssistant :: assistant_message
  acCall :: tool_call_content
  acArguments :: bytes
  acResult :: tool_result
  acIsError :: bool
  acContext :: agent_context

record after_result =
  arContent :: content_list
  arHasContent :: bool
  arDetails :: "bytes option"
  arHasDetails :: bool
  arIsError :: "bool option"
  arTerminate :: "bool option"

record 's runner =
  rnRegistry :: "'s registry"
  rnMode :: execution_mode
  rnBefore :: "(before_context \<Rightarrow> ('s, before_result) io) option"
  rnAfter :: "(after_context \<Rightarrow> ('s, after_result) io) option"

definition new_runner ::
  "'s registry \<Rightarrow> execution_mode \<Rightarrow> (before_context \<Rightarrow> ('s, before_result) io) option
     \<Rightarrow> (after_context \<Rightarrow> ('s, after_result) io) option \<Rightarrow> go_error + 's runner" where
  "new_runner reg mode0 before after =
     (let mode = (if mode0 = ExecutionModeUnset then ExecutionModeParallel else mode0) in
      case mode of
        ExecutionModeOther m \<Rightarrow> Inl (ErrUnknownExecutionMode m)
      | _ \<Rightarrow> Inr \<lparr>rnRegistry = reg, rnMode = mode, rnBefore = before, rnAfter = after\<rparr>)"

record tool_outcome =
  toMessage :: tool_result_message
  toTerminate :: bool

record 's prepared_call =
  pcIndex :: nat
  pcCall :: tool_call_content
  pcTool :: "'s registered_tool"

definition make_outcome :: "tool_call_content \<Rightarrow> tool_result \<Rightarrow> bool \<Rightarrow> tool_outcome" where
  "make_outcome call res isErr =
     \<lparr>toMessage = \<lparr>rmRole = '''', rmToolCallID = ccID call, rmToolName = ccName call,
        rmContent = trContent res, rmDetails = trDetails res, rmIsError = isErr, rmTimestamp = 0\<rparr>,
      toTerminate = trTerminate res\<rparr>"

definition text_result :: "string \<Rightarrow> tool_result" where
  "text_result msg = \<lparr>trContent = [new_text_content msg], trDetails = None, trTerminate = False\<rparr>"

definition make_error_outcome :: "tool_call_content \<Rightarrow> string \<Rightarrow> tool_outcome" where
  "make_error_outcome call msg = make_outcome call (text_result msg) True"

definition emit_tool_end :: "'s event_sink \<Rightarrow> int \<Rightarrow> tool_outcome \<Rightarrow> ('s, unit) io" where
  "emit_tool_end snk turn outcome =
     (let m = toMessage outcome in
      emit_event snk ((agent_event_of AgentEventToolExecutionEnd)\<lparr>evTurn := turn,
        evToolCallID := rmToolCallID m, evToolName := rmToolName m,
        evResult := Some \<lparr>trContent = rmContent m, trDetails = rmDetails m,
          trTerminate = toTerminate outcome\<rparr>,
        evIsError := rmIsError m\<rparr>))"

definition emit_tool_message :: "'s event_sink \<Rightarrow> int \<Rightarrow> tool_result_message \<Rightarrow> ('s, unit) io" where
  "emit_tool_message snk turn m =
     io_bind (emit_message snk AgentEventMessageStart turn (ToolResultMessage m)) (\<lambda>_.
     emit_message snk AgentEventMessageEnd turn (ToolResultMessage m))"

definition outcome_messages :: "tool_outcome list \<Rightarrow> tool_result_message list" where
  "outcome_messages os = map toMessage os"

text \<open>Whether every outcome asked to end the run.\<close>

definition all_terminate :: "tool_outcome list \<Rightarrow> bool" where
  "all_terminate os \<longleftrightarrow> os \<noteq> [] \<and> length (filter toTerminate os) = length os"

definition batch_mode :: "'s runner \<Rightarrow> tool_call_content list \<Rightarrow> execution_mode" where
  "batch_mode r calls =
     (if rnMode r = ExecutionModeSequential then ExecutionModeSequential
      else if list_ex (\<lambda>c. case registry_lookup (rnRegistry r) (ccName c) of
             None \<Rightarrow> False | Some item \<Rightarrow> tlMode (rgTool item) = ExecutionModeSequential) calls
      then ExecutionModeSequential else ExecutionModeParallel)"

text \<open>
  \<open>prepare\<close>: the outcome of a call that will not be executed is published at once; \<open>Inl\<close> is a call
  ready to execute. \<open>tx\<close> is the text of an error.
\<close>

definition refuse_call ::
  "'s event_sink \<Rightarrow> int \<Rightarrow> tool_call_content \<Rightarrow> string \<Rightarrow> ('s, 's prepared_call + tool_outcome) io" where
  "refuse_call snk turn call msg =
     (let outcome = make_error_outcome call msg in
      io_bind (emit_tool_end snk turn outcome) (\<lambda>_. io_return (Inr outcome)))"

definition block_or_ready ::
  "'s event_sink \<Rightarrow> int \<Rightarrow> nat \<Rightarrow> tool_call_content \<Rightarrow> 's registered_tool
     \<Rightarrow> before_result \<Rightarrow> bytes \<Rightarrow> ('s, 's prepared_call + tool_outcome) io" where
  "block_or_ready snk turn index call item hook raw =
     (if brBlock hook
      then refuse_call snk turn call (if brReason hook = '''' then ''tool call blocked'' else brReason hook)
      else io_return (Inl \<lparr>pcIndex = index, pcCall = call\<lparr>ccArguments := raw\<rparr>, pcTool = item\<rparr>))"

definition default_arguments :: "tool_call_content \<Rightarrow> tool_call_content" where
  "default_arguments call =
     (if ccArguments call = [] then call\<lparr>ccArguments := ''{}''\<rparr> else call)"

definition run_before ::
  "'s runner \<Rightarrow> (go_error \<Rightarrow> string) \<Rightarrow> 's event_sink \<Rightarrow> tool_run_request \<Rightarrow> nat \<Rightarrow> tool_call_content
     \<Rightarrow> 's registered_tool \<Rightarrow> bytes \<Rightarrow> ('s, 's prepared_call + tool_outcome) io" where
  "run_before r tx snk req index call item raw =
     (let turn = tqTurn req; refuse = (\<lambda>e. refuse_call snk turn call (tx e)) in
      case rnBefore r of
        None \<Rightarrow> io_return (Inl \<lparr>pcIndex = index, pcCall = call\<lparr>ccArguments := raw\<rparr>, pcTool = item\<rparr>)
      | Some hook \<Rightarrow>
          io_try (hook \<lparr>bcAssistant = tqAssistant req, bcCall = call, bcArguments = raw,
              bcContext = tqContext req\<rparr>) refuse (\<lambda>res.
          if brArguments res = [] then block_or_ready snk turn index call item res raw
          else (case check_arguments item (brArguments res) of
                  Some e \<Rightarrow> refuse e
                | None \<Rightarrow> block_or_ready snk turn index call item res (brArguments res))))"

definition prepare_known ::
  "'s runner \<Rightarrow> (go_error \<Rightarrow> string) \<Rightarrow> 's event_sink \<Rightarrow> tool_run_request \<Rightarrow> nat \<Rightarrow> tool_call_content
     \<Rightarrow> 's registered_tool \<Rightarrow> ('s, 's prepared_call + tool_outcome) io" where
  "prepare_known r tx snk req index call item =
     (let refuse = (\<lambda>e. refuse_call snk (tqTurn req) call (tx e)) in
      io_try (tlPrepare (rgTool item) (ccArguments call)) refuse (\<lambda>raw0.
      let raw = (if raw0 = [] then ''{}'' else raw0) in
      case check_arguments item raw of
        Some e \<Rightarrow> refuse e
      | None \<Rightarrow> run_before r tx snk req index call item raw))"

definition prepare_call ::
  "'s runner \<Rightarrow> (go_error \<Rightarrow> string) \<Rightarrow> 's event_sink \<Rightarrow> tool_run_request \<Rightarrow> nat \<Rightarrow> tool_call_content
     \<Rightarrow> ('s, 's prepared_call + tool_outcome) io" where
  "prepare_call r tx snk req index call0 =
     (let call = default_arguments call0 in
      io_bind (emit_tool_start snk (tqTurn req) call) (\<lambda>_.
      case registry_lookup (rnRegistry r) (ccName call) of
        None \<Rightarrow> refuse_call snk (tqTurn req) call (tx (ErrUnknownTool (ccName call)))
      | Some item \<Rightarrow> prepare_known r tx snk req index call item))"

subsection \<open>Executing a prepared call\<close>

text \<open>\<open>errors.As\<close> for an error the update sink returned, through any wrapping the tool added.\<close>

fun as_update_error :: "go_error \<Rightarrow> go_error option" where
  "as_update_error (ErrUpdateEmit e) = Some e"
| "as_update_error (ErrWrapped msg e) = as_update_error e"
| "as_update_error _ = None"

definition update_sink ::
  "'s event_sink \<Rightarrow> int \<Rightarrow> tool_call_content \<Rightarrow> agent_event \<Rightarrow> ('s, unit) io" where
  "update_sink snk turn call ev0 =
     (let ev = ev0\<lparr>evType := AgentEventToolExecutionUpdate, evTurn := turn,
            evToolCallID := (if evToolCallID ev0 = '''' then ccID call else evToolCallID ev0),
            evToolName := (if evToolName ev0 = '''' then ccName call else evToolName ev0)\<rparr>
      in io_try (emit_event snk ev) (\<lambda>e. io_fail (ErrUpdateEmit e)) io_return)"

definition apply_after_result :: "after_result \<Rightarrow> tool_result \<Rightarrow> tool_result" where
  "apply_after_result h res =
     (let r1 = (if arHasContent h then res\<lparr>trContent := arContent h\<rparr> else res);
          r2 = (if arHasDetails h then r1\<lparr>trDetails := arDetails h\<rparr> else r1)
      in (case arTerminate h of None \<Rightarrow> r2 | Some b \<Rightarrow> r2\<lparr>trTerminate := b\<rparr>))"

definition finish_call ::
  "'s event_sink \<Rightarrow> int \<Rightarrow> tool_call_content \<Rightarrow> tool_result \<Rightarrow> bool \<Rightarrow> ('s, tool_outcome) io" where
  "finish_call snk turn call res isErr =
     (let outcome = make_outcome call res isErr in
      io_bind (emit_tool_end snk turn outcome) (\<lambda>_. io_return outcome))"

definition after_execute ::
  "'s runner \<Rightarrow> (go_error \<Rightarrow> string) \<Rightarrow> 's event_sink \<Rightarrow> tool_run_request \<Rightarrow> tool_call_content
     \<Rightarrow> tool_result \<Rightarrow> bool \<Rightarrow> ('s, tool_outcome) io" where
  "after_execute r tx snk req call res0 isErr =
     (let res = (if trContent res0 = [] then res0\<lparr>trContent := [new_text_content '''']\<rparr> else res0);
          turn = tqTurn req in
      case rnAfter r of
        None \<Rightarrow> finish_call snk turn call res isErr
      | Some hook \<Rightarrow>
          io_try (hook \<lparr>acAssistant = tqAssistant req, acCall = call, acArguments = ccArguments call,
              acResult = res, acIsError = isErr, acContext = tqContext req\<rparr>)
            (\<lambda>e. finish_call snk turn call (text_result (tx e)) True)
            (\<lambda>h. finish_call snk turn call (apply_after_result h res)
                    (case arIsError h of None \<Rightarrow> isErr | Some b \<Rightarrow> b)))"

definition execute_prepared ::
  "('s \<Rightarrow> go_error option \<times> 's) \<Rightarrow> 's runner \<Rightarrow> (go_error \<Rightarrow> string) \<Rightarrow> 's event_sink
     \<Rightarrow> tool_run_request \<Rightarrow> 's prepared_call \<Rightarrow> ('s, tool_outcome) io" where
  "execute_prepared ctx r tx snk req item =
     (let call = pcCall item in
      io_bind (io_call ctx) (\<lambda>cancelled.
      case cancelled of
        Some err \<Rightarrow> io_fail err
      | None \<Rightarrow>
          io_try (tlExecute (rgTool (pcTool item))
              \<lparr>tkID = ccID call, tkName = ccName call, tkArguments = ccArguments call\<rparr>
              (update_sink snk (tqTurn req) call))
            (\<lambda>e. case as_update_error e of
                   Some u \<Rightarrow> io_fail u
                 | None \<Rightarrow> after_execute r tx snk req call (text_result (tx e)) True)
            (\<lambda>res. after_execute r tx snk req call res False)))"

subsection \<open>Sequential batches\<close>

definition run_call ::
  "('s \<Rightarrow> go_error option \<times> 's) \<Rightarrow> 's runner \<Rightarrow> (go_error \<Rightarrow> string) \<Rightarrow> 's event_sink
     \<Rightarrow> tool_run_request \<Rightarrow> nat \<Rightarrow> tool_call_content \<Rightarrow> ('s, tool_outcome) io" where
  "run_call ctx r tx snk req index call =
     io_bind (prepare_call r tx snk req index call) (\<lambda>p.
     io_bind (case p of Inl item \<Rightarrow> execute_prepared ctx r tx snk req item
                      | Inr outcome \<Rightarrow> io_return outcome) (\<lambda>outcome.
     io_bind (emit_tool_message snk (tqTurn req) (toMessage outcome)) (\<lambda>_.
     io_return outcome)))"

primrec sequential_calls ::
  "('s \<Rightarrow> go_error option \<times> 's) \<Rightarrow> 's runner \<Rightarrow> (go_error \<Rightarrow> string) \<Rightarrow> 's event_sink
     \<Rightarrow> tool_run_request \<Rightarrow> nat \<Rightarrow> tool_outcome list \<Rightarrow> tool_call_content list
     \<Rightarrow> 's \<Rightarrow> (tool_run_result \<times> go_error option) \<times> 's" where
  "sequential_calls ctx r tx snk req i os [] s =
     ((\<lparr>trrMessages = outcome_messages os, trrTerminate = all_terminate os\<rparr>, None), s)"
| "sequential_calls ctx r tx snk req i os (call # calls) s =
     (case ctx s of
        (Some err, s1) \<Rightarrow>
          ((\<lparr>trrMessages = outcome_messages os, trrTerminate = False\<rparr>, Some err), s1)
      | (None, s1) \<Rightarrow>
          (case run_call ctx r tx snk req i call s1 of
             (Inl err, s2) \<Rightarrow> ((empty_run_result, Some err), s2)
           | (Inr outcome, s2) \<Rightarrow>
               sequential_calls ctx r tx snk req (Suc i) (os @ [outcome]) calls s2))"

definition execute_sequential ::
  "('s \<Rightarrow> go_error option \<times> 's) \<Rightarrow> 's runner \<Rightarrow> (go_error \<Rightarrow> string) \<Rightarrow> 's tool_runner" where
  "execute_sequential ctx r tx snk req = sequential_calls ctx r tx snk req 0 [] (tqCalls req)"

subsection \<open>Parallel batches\<close>

type_synonym outcome_table = "nat \<rightharpoonup> tool_outcome"

primrec prepare_all ::
  "('s \<Rightarrow> go_error option \<times> 's) \<Rightarrow> 's runner \<Rightarrow> (go_error \<Rightarrow> string) \<Rightarrow> 's event_sink
     \<Rightarrow> tool_run_request \<Rightarrow> nat \<Rightarrow> outcome_table \<Rightarrow> 's prepared_call list \<Rightarrow> tool_call_content list
     \<Rightarrow> ('s, outcome_table \<times> 's prepared_call list) io" where
  "prepare_all ctx r tx snk req i table ready [] = io_return (table, ready)"
| "prepare_all ctx r tx snk req i table ready (call # calls) =
     io_bind (io_call ctx) (\<lambda>cancelled.
     case cancelled of
       Some err \<Rightarrow> io_fail err
     | None \<Rightarrow>
         io_bind (prepare_call r tx snk req i call) (\<lambda>p.
         case p of
           Inr outcome \<Rightarrow> prepare_all ctx r tx snk req (Suc i) (table(i \<mapsto> outcome)) ready calls
         | Inl item \<Rightarrow> prepare_all ctx r tx snk req (Suc i) table (ready @ [item]) calls))"

text \<open>The goroutines in the order they ran: each one runs, whatever the others did.\<close>

primrec run_ready ::
  "('s \<Rightarrow> go_error option \<times> 's) \<Rightarrow> 's runner \<Rightarrow> (go_error \<Rightarrow> string) \<Rightarrow> 's event_sink
     \<Rightarrow> tool_run_request \<Rightarrow> outcome_table \<Rightarrow> go_error option \<Rightarrow> 's prepared_call list
     \<Rightarrow> 's \<Rightarrow> (outcome_table \<times> go_error option) \<times> 's" where
  "run_ready ctx r tx snk req table firstErr [] s = ((table, firstErr), s)"
| "run_ready ctx r tx snk req table firstErr (item # items) s =
     (case execute_prepared ctx r tx snk req item s of
        (Inl err, s1) \<Rightarrow>
          run_ready ctx r tx snk req table (if firstErr = None then Some err else firstErr) items s1
      | (Inr outcome, s1) \<Rightarrow>
          run_ready ctx r tx snk req (table(pcIndex item \<mapsto> outcome)) firstErr items s1)"

primrec emit_outcomes :: "'s event_sink \<Rightarrow> int \<Rightarrow> tool_outcome list \<Rightarrow> ('s, unit) io" where
  "emit_outcomes snk turn [] = io_return ()"
| "emit_outcomes snk turn (o1 # os) =
     io_bind (emit_tool_message snk turn (toMessage o1)) (\<lambda>_. emit_outcomes snk turn os)"

definition zero_outcome :: tool_outcome where
  "zero_outcome = \<lparr>toMessage = \<lparr>rmRole = '''', rmToolCallID = '''', rmToolName = '''', rmContent = [],
     rmDetails = None, rmIsError = False, rmTimestamp = 0\<rparr>, toTerminate = False\<rparr>"

definition table_outcomes :: "nat \<Rightarrow> outcome_table \<Rightarrow> tool_outcome list" where
  "table_outcomes n table =
     map (\<lambda>i. case table i of None \<Rightarrow> zero_outcome | Some x \<Rightarrow> x) [0..<n]"

type_synonym 's scheduler = "'s prepared_call list \<Rightarrow> 's \<Rightarrow> 's prepared_call list"

definition parallel_outcomes ::
  "'s scheduler \<Rightarrow> ('s \<Rightarrow> go_error option \<times> 's) \<Rightarrow> 's runner \<Rightarrow> (go_error \<Rightarrow> string) \<Rightarrow> 's event_sink
     \<Rightarrow> tool_run_request \<Rightarrow> ('s, tool_outcome list) io" where
  "parallel_outcomes sched ctx r tx snk req =
     io_bind (prepare_all ctx r tx snk req 0 Map.empty [] (tqCalls req)) (\<lambda>(table, ready).
     io_bind (io_call (\<lambda>s. run_ready ctx r tx snk req table None (sched ready s) s)) (\<lambda>(table', err).
     case err of
       Some e \<Rightarrow> io_fail e
     | None \<Rightarrow>
         io_bind (io_call ctx) (\<lambda>cancelled.
         case cancelled of
           Some e \<Rightarrow> io_fail e
         | None \<Rightarrow>
             (let os = table_outcomes (length (tqCalls req)) table' in
              io_bind (emit_outcomes snk (tqTurn req) os) (\<lambda>_. io_return os)))))"

definition execute_parallel ::
  "'s scheduler \<Rightarrow> ('s \<Rightarrow> go_error option \<times> 's) \<Rightarrow> 's runner \<Rightarrow> (go_error \<Rightarrow> string) \<Rightarrow> 's tool_runner" where
  "execute_parallel sched ctx r tx snk req s =
     (case parallel_outcomes sched ctx r tx snk req s of
        (Inl e, s') \<Rightarrow> ((empty_run_result, Some e), s')
      | (Inr os, s') \<Rightarrow>
          ((\<lparr>trrMessages = outcome_messages os, trrTerminate = all_terminate os\<rparr>, None), s'))"

text \<open>\<open>ExecuteTools\<close>; the nil runner is the model's absent runner, handled before it is called.\<close>

definition execute_tools ::
  "'s scheduler \<Rightarrow> ('s \<Rightarrow> go_error option \<times> 's) \<Rightarrow> 's runner \<Rightarrow> (go_error \<Rightarrow> string) \<Rightarrow> 's tool_runner" where
  "execute_tools sched ctx r tx snk req =
     (if tqCalls req = [] then (\<lambda>s. ((empty_run_result, None), s))
      else if batch_mode r (tqCalls req) = ExecutionModeSequential
      then execute_sequential ctx r tx snk req
      else execute_parallel sched ctx r tx snk req)"


end
