(* ===== verification/ToolRunnerResults.thy ===== *)
theory ToolRunnerResults
  imports ToolRunner MessageSequence
begin

text \<open>
  A batch that succeeds answers every call once, in the order of the calls, in either mode and
  under any schedule of the goroutines.
\<close>

definition answers :: "tool_call_content \<Rightarrow> tool_outcome \<Rightarrow> bool" where
  "answers call out \<longleftrightarrow> rmToolCallID (toMessage out) = ccID call \<and> rmToolName (toMessage out) = ccName call"

definition same_call :: "tool_call_content \<Rightarrow> tool_call_content \<Rightarrow> bool" where
  "same_call c d \<longleftrightarrow> ccID d = ccID c \<and> ccName d = ccName c"

lemma answers_same_call: "same_call c d \<Longrightarrow> answers d out \<Longrightarrow> answers c out"
  by (simp add: answers_def same_call_def)

lemma answers_make_outcome [simp]: "answers call (make_outcome call res e)"
  by (simp add: answers_def make_outcome_def)

lemma same_call_update [simp]: "same_call c (c\<lparr>ccArguments := x\<rparr>)" "same_call c c"
  by (simp_all add: same_call_def)

lemma refuse_call_Inr:
  "refuse_call snk turn call msg s = (Inr p, s') \<Longrightarrow> \<exists>out. p = Inr out \<and> answers call out"
  by (auto simp: refuse_call_def Let_def io_bind_Inr make_error_outcome_def)

definition prepared_for ::
  "nat \<Rightarrow> tool_call_content \<Rightarrow> 's prepared_call + tool_outcome \<Rightarrow> bool" where
  "prepared_for index call p =
     (case p of
        Inl item \<Rightarrow> pcIndex item = index \<and> same_call call (pcCall item)
      | Inr out \<Rightarrow> answers call out)"

lemma refuse_prepared: "refuse_call snk turn call msg s = (Inr p, s') \<Longrightarrow> prepared_for i call p"
  by (auto dest!: refuse_call_Inr simp: prepared_for_def)

lemma block_or_ready_prepared:
  "block_or_ready snk turn i call item h raw s = (Inr p, s') \<Longrightarrow> prepared_for i call p"
  by (auto simp: block_or_ready_def prepared_for_def dest: refuse_call_Inr split: if_splits)

lemma run_before_prepared:
  "run_before r tx snk req i call item raw s = (Inr p, s') \<Longrightarrow> prepared_for i call p"
  by (auto simp: run_before_def Let_def io_try_Inr prepared_for_def [of i call "Inl x" for x]
      dest: refuse_prepared block_or_ready_prepared split: option.splits if_splits)

lemma prepare_known_prepared:
  "prepare_known r tx snk req i call item s = (Inr p, s') \<Longrightarrow> prepared_for i call p"
  by (auto simp: prepare_known_def Let_def io_try_Inr
      dest: refuse_prepared run_before_prepared split: option.splits if_splits)

lemma prepare_call_prepared:
  assumes "prepare_call r tx snk req i call s = (Inr p, s')"
  shows "prepared_for i call p"
proof -
  have "prepared_for i (default_arguments call) p"
    using assms by (auto simp: prepare_call_def Let_def io_bind_Inr
        dest: refuse_prepared prepare_known_prepared split: option.splits)
  then show ?thesis
    by (auto simp: default_arguments_def prepared_for_def same_call_def answers_def
        split: sum.splits if_splits)
qed

lemma finish_call_answers: "finish_call snk turn call res e s = (Inr out, s') \<Longrightarrow> answers call out"
  by (auto simp: finish_call_def Let_def io_bind_Inr)

lemma after_execute_answers:
  "after_execute r tx snk req call res e s = (Inr out, s') \<Longrightarrow> answers call out"
  by (auto simp: after_execute_def Let_def io_try_Inr dest: finish_call_answers split: option.splits)

lemma execute_prepared_answers:
  "execute_prepared ctx r tx snk req item s = (Inr out, s') \<Longrightarrow> answers (pcCall item) out"
  by (auto simp: execute_prepared_def Let_def io_bind_Inr io_try_Inr dest: after_execute_answers
      split: option.splits)

lemma run_call_answers:
  assumes "run_call ctx r tx snk req i call s = (Inr out, s')"
  shows "answers call out"
proof -
  from assms obtain p s1 s2 where p: "prepare_call r tx snk req i call s = (Inr p, s1)"
    and e: "(case p of Inl item \<Rightarrow> execute_prepared ctx r tx snk req item
       | Inr outcome \<Rightarrow> io_return outcome) s1 = (Inr out, s2)"
    by (auto simp: run_call_def io_bind_Inr)
  from prepare_call_prepared [OF p] e show ?thesis
    by (cases p) (auto simp: prepared_for_def dest: execute_prepared_answers intro: answers_same_call)
qed

lemma sequential_calls_answers:
  "sequential_calls ctx r tx snk req i os calls s = ((res, None), s') \<Longrightarrow>
     \<exists>new. list_all2 answers calls new \<and> trrMessages res = outcome_messages (os @ new) \<and>
       trrTerminate res = all_terminate (os @ new)"
proof (induction calls arbitrary: i os s)
  case Nil
  then show ?case by auto
next
  case (Cons call calls)
  from Cons.prems obtain s1 out s2 where "run_call ctx r tx snk req i call s1 = (Inr out, s2)"
    and rest: "sequential_calls ctx r tx snk req (Suc i) (os @ [out]) calls s2 = ((res, None), s')"
    by (auto split: prod.splits option.splits sum.splits)
  then have "answers call out" by (blast dest: run_call_answers)
  moreover obtain new where "list_all2 answers calls new"
    "trrMessages res = outcome_messages ((os @ [out]) @ new)"
    "trrTerminate res = all_terminate ((os @ [out]) @ new)" using Cons.IH [OF rest] by blast
  ultimately show ?case by (intro exI [of _ "out # new"]) simp
qed

subsection \<open>Parallel batches\<close>

definition slot_ready ::
  "outcome_table \<Rightarrow> 's prepared_call set \<Rightarrow> nat \<Rightarrow> tool_call_content \<Rightarrow> bool" where
  "slot_ready table items k call \<longleftrightarrow>
     (\<exists>item \<in> items. pcIndex item = k) \<and>
       (\<forall>item \<in> items. pcIndex item = k \<longrightarrow> same_call call (pcCall item)) \<or>
     \<not> (\<exists>item \<in> items. pcIndex item = k) \<and> (\<exists>out. table k = Some out \<and> answers call out)"

lemma slot_shift:
  assumes "slot_ready table items i call"
    and "\<forall>j < length calls. slot_ready table items (Suc i + j) (calls ! j)"
  shows "\<forall>j < length (call # calls). slot_ready table items (i + j) ((call # calls) ! j)"
proof (intro allI impI)
  fix j
  assume "j < length (call # calls)"
  then show "slot_ready table items (i + j) ((call # calls) ! j)" using assms by (cases j) auto
qed

lemma prepare_all_slots:
  assumes "prepare_all ctx r tx snk req i table ready calls s = (Inr (table', ready'), s')"
    and "\<forall>item \<in> set ready. pcIndex item < i"
  shows "(\<forall>j < length calls. slot_ready table' (set ready') (i + j) (calls ! j)) \<and>
    (\<forall>item \<in> set ready'. pcIndex item < i + length calls) \<and>
    (\<forall>k < i. table' k = table k) \<and>
    (\<forall>item. item \<in> set ready \<longleftrightarrow> item \<in> set ready' \<and> pcIndex item < i)"
  using assms
proof (induction calls arbitrary: i table ready s)
  case Nil
  then show ?case by auto
next
  case (Cons call calls)
  from Cons.prems(1) obtain s1 p s2 where p: "prepare_call r tx snk req i call s1 = (Inr p, s2)"
    and rest: "(case p of
        Inr outcome \<Rightarrow> prepare_all ctx r tx snk req (Suc i) (table(i \<mapsto> outcome)) ready calls
      | Inl item \<Rightarrow> prepare_all ctx r tx snk req (Suc i) table (ready @ [item]) calls) s2
        = (Inr (table', ready'), s')"
    by (auto simp: io_bind_Inr split: option.splits)
  note prep = prepare_call_prepared [OF p]
  show ?case
  proof (cases p)
    case (Inl item)
    then have item: "pcIndex item = i" "same_call call (pcCall item)" using prep
      by (simp_all add: prepared_for_def)
    have before: "\<forall>x \<in> set (ready @ [item]). pcIndex x < Suc i" using Cons.prems(2) item by auto
    have "prepare_all ctx r tx snk req (Suc i) table (ready @ [item]) calls s2 = (Inr (table', ready'), s')"
      using rest Inl by simp
    note ih0 = Cons.IH [OF this before]
    then have ih: "\<forall>j < length calls. slot_ready table' (set ready') (Suc i + j) (calls ! j)"
      "\<forall>x \<in> set ready'. pcIndex x < Suc i + length calls" "\<forall>k < Suc i. table' k = table k"
      "\<And>x. x \<in> set (ready @ [item]) \<longleftrightarrow> x \<in> set ready' \<and> pcIndex x < Suc i" by blast+
    have at_i: "x = item" if "x \<in> set ready'" "pcIndex x = i" for x
    proof -
      from that ih(4) [of x] have "x \<in> set (ready @ [item])" by simp
      with Cons.prems(2) that(2) show ?thesis by auto
    qed
    have "item \<in> set ready'" using ih(4) [of item] by simp
    with at_i item have slot: "slot_ready table' (set ready') i call" unfolding slot_ready_def by blast
    have old: "x \<in> set ready \<longleftrightarrow> x \<in> set ready' \<and> pcIndex x < i" for x
    proof
      assume x: "x \<in> set ready"
      with Cons.prems(2) have "pcIndex x < i" by blast
      moreover have "x \<in> set ready'" using ih(4) [of x] x by simp
      ultimately show "x \<in> set ready' \<and> pcIndex x < i" by simp
    next
      assume x: "x \<in> set ready' \<and> pcIndex x < i"
      then have "x \<in> set (ready @ [item])" using ih(4) [of x] by simp
      moreover have "x \<noteq> item" using x item(1) by auto
      ultimately show "x \<in> set ready" by simp
    qed
    show ?thesis
    proof (intro conjI)
      show "\<forall>j < length (call # calls). slot_ready table' (set ready') (i + j) ((call # calls) ! j)"
        by (rule slot_shift [OF slot ih(1)])
      show "\<forall>x \<in> set ready'. pcIndex x < i + length (call # calls)" using ih(2) by simp
      show "\<forall>k < i. table' k = table k" using ih(3) by simp
      show "\<forall>x. x \<in> set ready \<longleftrightarrow> x \<in> set ready' \<and> pcIndex x < i" using old by blast
    qed
  next
    case (Inr out)
    then have out: "answers call out" using prep by (simp add: prepared_for_def)
    have before: "\<forall>x \<in> set ready. pcIndex x < Suc i" using Cons.prems(2) by auto
    have "prepare_all ctx r tx snk req (Suc i) (table(i \<mapsto> out)) ready calls s2 = (Inr (table', ready'), s')"
      using rest Inr by simp
    note ih0 = Cons.IH [OF this before]
    then have ih: "\<forall>j < length calls. slot_ready table' (set ready') (Suc i + j) (calls ! j)"
      "\<forall>x \<in> set ready'. pcIndex x < Suc i + length calls"
      "\<forall>k < Suc i. table' k = (table(i \<mapsto> out)) k"
      "\<And>x. x \<in> set ready \<longleftrightarrow> x \<in> set ready' \<and> pcIndex x < Suc i" by blast+
    have none: "pcIndex x \<noteq> i" if "x \<in> set ready'" for x
      using that ih(4) [of x] Cons.prems(2) by fastforce
    then have slot: "slot_ready table' (set ready') i call"
      using ih(3) out by (auto simp: slot_ready_def)
    have old: "x \<in> set ready \<longleftrightarrow> x \<in> set ready' \<and> pcIndex x < i" for x
      using ih(4) [of x] none [of x] by (auto simp: less_Suc_eq)
    show ?thesis
    proof (intro conjI)
      show "\<forall>j < length (call # calls). slot_ready table' (set ready') (i + j) ((call # calls) ! j)"
        by (rule slot_shift [OF slot ih(1)])
      show "\<forall>x \<in> set ready'. pcIndex x < i + length (call # calls)" using ih(2) by simp
      show "\<forall>k < i. table' k = table k" using ih(3) by simp
      show "\<forall>x. x \<in> set ready \<longleftrightarrow> x \<in> set ready' \<and> pcIndex x < i" using old by blast
    qed
  qed
qed

lemma run_ready_error: "run_ready ctx r tx snk req table (Some e) items s \<noteq> ((table', None), s')"
  by (induction items arbitrary: table s) (auto split: prod.splits sum.splits)

lemma run_ready_slots:
  "run_ready ctx r tx snk req table None items s = ((table', None), s') \<Longrightarrow>
     (\<forall>k \<in> pcIndex ` set items. \<exists>item \<in> set items. pcIndex item = k \<and>
        (\<exists>out. table' k = Some out \<and> answers (pcCall item) out)) \<and>
     (\<forall>k. k \<notin> pcIndex ` set items \<longrightarrow> table' k = table k)"
proof (induction items arbitrary: table s)
  case Nil
  then show ?case by simp
next
  case (Cons item items)
  then obtain out s1 where out: "execute_prepared ctx r tx snk req item s = (Inr out, s1)"
    and rest: "run_ready ctx r tx snk req (table(pcIndex item \<mapsto> out)) None items s1 = ((table', None), s')"
    by (auto simp: run_ready_error split: prod.splits sum.splits)
  from execute_prepared_answers [OF out] Cons.IH [OF rest] show ?case
    by (cases "pcIndex item \<in> pcIndex ` set items") auto
qed

definition fair_schedule :: "'s scheduler \<Rightarrow> bool" where
  "fair_schedule sched \<longleftrightarrow> (\<forall>items s. set (sched items s) = set items)"

lemma parallel_outcomes_answers:
  assumes "fair_schedule sched" "parallel_outcomes sched ctx r tx snk req s = (Inr os, s')"
  shows "list_all2 answers (tqCalls req) os"
proof -
  let ?calls = "tqCalls req"
  from assms(2) obtain table ready s1 table' s2 where
    prep: "prepare_all ctx r tx snk req 0 Map.empty [] ?calls s = (Inr (table, ready), s1)"
    and run: "run_ready ctx r tx snk req table None (sched ready s1) s1 = ((table', None), s2)"
    and os: "os = table_outcomes (length ?calls) table'"
    by (auto simp: parallel_outcomes_def io_bind_Inr Let_def split: option.splits prod.splits)
  have slots: "\<forall>j < length ?calls. slot_ready table (set ready) j (?calls ! j)"
    using prepare_all_slots [OF prep] by simp
  have sched: "set (sched ready s1) = set ready" using assms(1) by (simp add: fair_schedule_def)
  have "\<exists>out. table' j = Some out \<and> answers (?calls ! j) out" if j: "j < length ?calls" for j
  proof (cases "j \<in> pcIndex ` set ready")
    case True
    then obtain item out where item: "item \<in> set ready" "pcIndex item = j" "table' j = Some out"
      "answers (pcCall item) out"
      using run_ready_slots [OF run] sched by auto
    moreover have "same_call (?calls ! j) (pcCall item)"
      using slots j item(1,2) unfolding slot_ready_def by blast
    ultimately show ?thesis by (blast intro: answers_same_call)
  next
    case False
    then have "table' j = table j" using run_ready_slots [OF run] sched by simp
    moreover have "\<exists>out. table j = Some out \<and> answers (?calls ! j) out"
      using slots j False unfolding slot_ready_def by blast
    ultimately show ?thesis by simp
  qed
  then show ?thesis
    unfolding os table_outcomes_def list_all2_conv_all_nth by fastforce
qed

lemma execute_tools_answers:
  assumes "fair_schedule sched" "execute_tools sched ctx r tx snk req s = ((res, None), s')"
  shows "\<exists>os. list_all2 answers (tqCalls req) os \<and> trrMessages res = outcome_messages os \<and>
    trrTerminate res = all_terminate os"
proof (cases "tqCalls req = []")
  case True
  with assms show ?thesis
    by (auto simp: execute_tools_def empty_run_result_def outcome_messages_def all_terminate_def)
next
  case calls: False
  show ?thesis
  proof (cases "batch_mode r (tqCalls req) = ExecutionModeSequential")
    case True
    with calls assms(2) have "sequential_calls ctx r tx snk req 0 [] (tqCalls req) s = ((res, None), s')"
      by (simp add: execute_tools_def execute_sequential_def)
    from sequential_calls_answers [OF this] show ?thesis by simp
  next
    case False
    with calls assms(2) have "execute_parallel sched ctx r tx snk req s = ((res, None), s')"
      by (simp add: execute_tools_def)
    then obtain os where "parallel_outcomes sched ctx r tx snk req s = (Inr os, s')"
      "trrMessages res = outcome_messages os" "trrTerminate res = all_terminate os"
      by (auto simp: execute_parallel_def split: prod.splits sum.splits)
    with parallel_outcomes_answers [OF assms(1)] show ?thesis by blast
  qed
qed

lemma answers_ids:
  "list_all2 answers calls os \<Longrightarrow> map rmToolCallID (outcome_messages os) = map ccID calls"
  by (induction rule: list_all2_induct) (simp_all add: outcome_messages_def answers_def)


subsection \<open>The tool unit of a successful batch\<close>

lemma complete_items_append:
  "complete_items xs \<Longrightarrow> complete_items ys \<Longrightarrow> \<not> starts_with_result ys \<Longrightarrow> complete_items (xs @ ys)"
proof (induction rule: complete_items.induct)
  case (complete_unit m a expected rs ids rest i)
  then have "\<not> starts_with_result (rest @ ys)" by simp
  with complete_unit show ?case
    using complete_items.complete_unit [of m a expected rs ids "rest @ ys" i] by simp
qed (simp_all add: complete_items.complete_plain)

lemma items_results:
  "message_sequence_items (map ToolResultMessage rs) = enumerate 0 (map ToolResultMessage rs)"
proof -
  have "include_message_in_sequence m \<and> \<not> empty_assistant_message m"
    if "(i, m) \<in> set (enumerate 0 (map ToolResultMessage rs))" for i m
    using that by (auto simp: in_set_enumerate_eq include_message_in_sequence_def
        empty_assistant_message_def)
  then show ?thesis unfolding message_sequence_items_def by (intro filter_True) auto
qed

lemma result_ids_results:
  "result_ids (map (\<lambda>(i, m). (i + k, m)) (enumerate j (map ToolResultMessage rs))) =
     Some (map rmToolCallID rs)"
  by (induction rs arbitrary: j) (simp_all add: result_ids_Cons)

lemma visible_of_calls: "tool_calls_of_content cs \<noteq> [] \<Longrightarrow> list_ex visible_content cs"
  by (induction cs rule: tool_calls_of_content.induct) auto

lemma tool_unit_complete:
  assumes "validate_message_sequence ms = None" "\<not> failed_message m"
    and "tool_calls_of_content (amContent m) \<noteq> []"
    and "distinct (map ccID (tool_calls_of_content (amContent m)))"
    and "map rmToolCallID rs = map ccID (tool_calls_of_content (amContent m))"
  shows "validate_message_sequence (ms @ AssistantMessage m # map ToolResultMessage rs) = None"
proof -
  let ?n = "length ms"
  have pre: "complete_items (message_sequence_items ms)"
    using assms(1) by (simp add: validate_message_sequence_None analyze_complete_iff)
  have self: "message_sequence_items [AssistantMessage m] = [(0, AssistantMessage m)]"
    using assms(2) visible_of_calls [OF assms(3)]
    by (simp add: message_sequence_items_def include_message_in_sequence_def failed_message_def
        empty_assistant_message_def)
  have items: "message_sequence_items (AssistantMessage m # map ToolResultMessage rs) =
      (0, AssistantMessage m) # map (\<lambda>(i, m). (i + 1, m)) (enumerate 0 (map ToolResultMessage rs))"
    using items_append [of "[AssistantMessage m]" "map ToolResultMessage rs"]
    by (simp add: self items_results)
  have ids: "tool_call_id_set (amContent m) = map ccID (tool_calls_of_content (amContent m))"
    using assms(4) by (simp add: tool_call_id_set_def distinct_remdups_id)
  have "complete_items ((0, AssistantMessage m) #
      map (\<lambda>(i, m). (i + 1, m)) (enumerate 0 (map ToolResultMessage rs)) @ [])"
  proof (rule complete_unit)
    show "as_assistant_message (AssistantMessage m) = Some m" by simp
    show "tool_call_id_set (amContent m) = tool_call_id_set (amContent m)" ..
    show "tool_call_id_set (amContent m) \<noteq> []" using assms(3) by (simp add: ids)
    show "result_ids (map (\<lambda>(i, m). (i + 1, m)) (enumerate 0 (map ToolResultMessage rs))) =
        Some (map rmToolCallID rs)" by (rule result_ids_results)
  qed (use assms(4,5) ids in \<open>simp_all add: complete_Nil\<close>)
  then have "complete_items (map (\<lambda>(i, m). (i + ?n, m))
      (message_sequence_items (AssistantMessage m # map ToolResultMessage rs)))"
    unfolding items by (intro complete_items_shift) simp
  then have "complete_items (message_sequence_items (ms @ AssistantMessage m # map ToolResultMessage rs))"
    unfolding items_append using pre by (intro complete_items_append) (simp_all add: items)
  then show ?thesis by (simp add: validate_message_sequence_None analyze_complete_iff)
qed


end
