(* ===== verification/LoopTrace.thy ===== *)
theory LoopTrace
  imports AgentLoop "HOL-Library.Sublist"
begin

text \<open>
  The events a run publishes. An automaton reads the log of events: one \<open>agent_start\<close>, turns
  numbered from 1 one after the other, messages and tools inside a turn, a message ended only after
  it was started, one \<open>agent_end\<close> after the last turn and nothing after it. It also collects the
  messages that were ended, which is what a listener that stores the conversation has seen.
\<close>

record trace_state =
  trStarted :: bool
  trEnded :: bool
  trTurn :: int
  trInTurn :: bool
  trOpen :: bool
  trMessages :: message_list

definition trace_start :: trace_state where
  "trace_start = \<lparr>trStarted = False, trEnded = False, trTurn = 0, trInTurn = False, trOpen = False,
     trMessages = []\<rparr>"

definition in_turn :: "trace_state \<Rightarrow> agent_event \<Rightarrow> bool" where
  "in_turn q ev \<longleftrightarrow> trInTurn q \<and> evTurn ev = trTurn q"

definition event_step :: "trace_state \<Rightarrow> agent_event \<Rightarrow> trace_state option" where
  "event_step q ev =
     (case evType ev of
        AgentEventAgentStart \<Rightarrow> if \<not> trStarted q then Some (q\<lparr>trStarted := True\<rparr>) else None
      | AgentEventTurnStart \<Rightarrow>
          if trStarted q \<and> \<not> trEnded q \<and> \<not> trInTurn q \<and> evTurn ev = trTurn q + 1
          then Some (q\<lparr>trInTurn := True, trTurn := evTurn ev\<rparr>) else None
      | AgentEventMessageStart \<Rightarrow> if in_turn q ev then Some (q\<lparr>trOpen := True\<rparr>) else None
      | AgentEventMessageUpdate \<Rightarrow> if in_turn q ev \<and> trOpen q then Some q else None
      | AgentEventMessageEnd \<Rightarrow>
          if in_turn q ev \<and> trOpen q
          then Some (q\<lparr>trOpen := False, trMessages := trMessages q @ [evMessage ev]\<rparr>) else None
      | AgentEventToolExecutionStart \<Rightarrow> if in_turn q ev \<and> \<not> trOpen q then Some q else None
      | AgentEventToolExecutionUpdate \<Rightarrow> if in_turn q ev \<and> \<not> trOpen q then Some q else None
      | AgentEventToolExecutionEnd \<Rightarrow> if in_turn q ev \<and> \<not> trOpen q then Some q else None
      | AgentEventTurnEnd \<Rightarrow>
          if in_turn q ev \<and> \<not> trOpen q then Some (q\<lparr>trInTurn := False\<rparr>) else None
      | AgentEventAgentEnd \<Rightarrow>
          if trStarted q \<and> \<not> trEnded q \<and> \<not> trInTurn q then Some (q\<lparr>trEnded := True\<rparr>) else None)"

fun scan_events :: "trace_state \<Rightarrow> agent_event list \<Rightarrow> trace_state option" where
  "scan_events q [] = Some q"
| "scan_events q (ev # evs) =
     (case event_step q ev of None \<Rightarrow> None | Some q' \<Rightarrow> scan_events q' evs)"

lemma scan_events_append:
  "scan_events q (xs @ ys) =
     (case scan_events q xs of None \<Rightarrow> None | Some q' \<Rightarrow> scan_events q' ys)"
  by (induction xs arbitrary: q) (auto split: option.splits)

subsection \<open>What is asked of a stream\<close>

text \<open>
  A provider opens its answer with one start event, and the channel is closed after a terminal
  event only. The reading may stop at any point, at an event that does not validate or with the
  context.
\<close>

fun reading_ok :: "bool \<Rightarrow> assistant_event list \<Rightarrow> stream_end \<Rightarrow> bool" where
  "reading_ok started [] ending = (case ending of StreamClosed (Inr (Some m)) \<Rightarrow> False | _ \<Rightarrow> True)"
| "reading_ok started (e # es) ending =
     (validate_assistant_event e \<noteq> None \<or> terminal_event e \<or>
      (if aeType e = AssistantEventStart then reading_ok True es ending
       else started \<and> reading_ok started es ending))"

subsection \<open>Rules for effects\<close>

definition triple ::
  "('s \<Rightarrow> bool) \<Rightarrow> ('s, 'a) io \<Rightarrow> ('a \<Rightarrow> 's \<Rightarrow> bool) \<Rightarrow> (go_error \<Rightarrow> 's \<Rightarrow> bool) \<Rightarrow> bool" where
  "triple P m Q E \<longleftrightarrow> (\<forall>s r s'. P s \<longrightarrow> m s = (r, s') \<longrightarrow>
     (case r of Inr x \<Rightarrow> Q x s' | Inl e \<Rightarrow> E e s'))"

text \<open>A triple that does not ask which error it was.\<close>

abbreviation striple ::
  "('s \<Rightarrow> bool) \<Rightarrow> ('s, 'a) io \<Rightarrow> ('a \<Rightarrow> 's \<Rightarrow> bool) \<Rightarrow> ('s \<Rightarrow> bool) \<Rightarrow> bool" where
  "striple P m Q E \<equiv> triple P m Q (\<lambda>_. E)"

named_theorems triples

lemma triple_return: "(\<And>s. P s \<Longrightarrow> Q x s) \<Longrightarrow> triple P (io_return x) Q E"
  by (auto simp: triple_def io_return_def)

lemma triple_fail: "(\<And>s. P s \<Longrightarrow> E e s) \<Longrightarrow> triple P (io_fail e) Q E"
  by (auto simp: triple_def io_fail_def)

lemma triple_bind:
  "triple P m R E \<Longrightarrow> (\<And>x. triple (R x) (f x) Q E) \<Longrightarrow> triple P (io_bind m f) Q E"
  by (fastforce simp: triple_def io_bind_def split: prod.splits sum.splits)

lemma triple_try:
  "triple P m R F \<Longrightarrow> (\<And>e. triple (F e) (h e) Q E) \<Longrightarrow> (\<And>x. triple (R x) (f x) Q E) \<Longrightarrow>
     triple P (io_try m h f) Q E"
  by (fastforce simp: triple_def io_try_def split: prod.splits sum.splits)

lemma triple_weaken:
  "triple P m Q E \<Longrightarrow> (\<And>s. P' s \<Longrightarrow> P s) \<Longrightarrow> (\<And>x s. Q x s \<Longrightarrow> Q' x s) \<Longrightarrow> (\<And>e s. E e s \<Longrightarrow> E' e s) \<Longrightarrow>
     triple P' m Q' E'"
  by (fastforce simp: triple_def split: sum.splits)

lemma triple_pre: "triple P m Q E \<Longrightarrow> (\<And>s. P' s \<Longrightarrow> P s) \<Longrightarrow> triple P' m Q E"
  by (auto simp: triple_def)

lemma tripleD:
  "triple P m Q E \<Longrightarrow> P s \<Longrightarrow> m s = (Inr x, s') \<Longrightarrow> Q x s'"
  "triple P m Q E \<Longrightarrow> P s \<Longrightarrow> m s = (Inl e, s') \<Longrightarrow> E e s'"
  by (fastforce simp: triple_def)+

subsection \<open>The surroundings of a run\<close>

text \<open>
  The contract between a run and what it calls: the sink logs what it is given, even when it
  fails, and nothing else touches the log. A state that has no log is not a state of the run. \<open>rel\<close> says how far the messages a run returns agree with
  those that were ended; runners differ in that.
\<close>

definition keeps_log :: "('s \<Rightarrow> agent_event list option) \<Rightarrow> ('s \<Rightarrow> 'a \<times> 's) \<Rightarrow> bool" where
  "keeps_log log m \<longleftrightarrow> (\<forall>s l. log s = Some l \<longrightarrow> log (snd (m s)) = Some l)"

definition q_turn ::
  "(message_list \<Rightarrow> message_list \<Rightarrow> bool) \<Rightarrow> int \<Rightarrow> bool \<Rightarrow> message_list \<Rightarrow> trace_state \<Rightarrow> bool" where
  "q_turn rel t opened new q \<longleftrightarrow> trStarted q \<and> \<not> trEnded q \<and> trInTurn q \<and> trTurn q = t \<and>
     (trOpen q \<longrightarrow> opened) \<and> rel new (trMessages q)"

definition q_open ::
  "(message_list \<Rightarrow> message_list \<Rightarrow> bool) \<Rightarrow> int \<Rightarrow> message_list \<Rightarrow> trace_state \<Rightarrow> bool" where
  "q_open rel t new q \<longleftrightarrow> q_turn rel t True new q \<and> trOpen q"

definition q_between ::
  "(message_list \<Rightarrow> message_list \<Rightarrow> bool) \<Rightarrow> int \<Rightarrow> message_list \<Rightarrow> trace_state \<Rightarrow> bool" where
  "q_between rel t new q \<longleftrightarrow> trStarted q \<and> \<not> trEnded q \<and> \<not> trInTurn q \<and> trTurn q = t \<and>
     \<not> trOpen q \<and> rel new (trMessages q)"

definition q_ended ::
  "(message_list \<Rightarrow> message_list \<Rightarrow> bool) \<Rightarrow> int \<Rightarrow> message_list \<Rightarrow> trace_state \<Rightarrow> bool" where
  "q_ended rel t new q \<longleftrightarrow> trEnded q \<and> \<not> trInTurn q \<and> trTurn q = t \<and> rel new (trMessages q)"

definition sees ::
  "('s \<Rightarrow> agent_event list option) \<Rightarrow> (trace_state \<Rightarrow> bool) \<Rightarrow> 's \<Rightarrow> bool" where
  "sees log P s \<longleftrightarrow> (\<exists>l q. log s = Some l \<and> scan_events trace_start l = Some q \<and> P q)"

text \<open>
  The contract of a tool runner: called inside a turn with no message open it stays in the turn, and
  ends the messages it returns; when it fails it may have ended more than it returns, and the failure
  is one of the sink's (\<open>serr\<close>) or comes from a context that is gone.
\<close>

definition runner_errors_ok ::
  "(go_error \<Rightarrow> bool) \<Rightarrow> ('s \<Rightarrow> bool) \<Rightarrow> 's event_sink \<Rightarrow> 's tool_runner \<Rightarrow> bool" where
  "runner_errors_ok serr gone snk run \<longleftrightarrow>
     (\<forall>req s batch e s'. run snk req s = ((batch, Some e), s') \<longrightarrow> serr e \<or> gone s')"

definition runner_ok ::
  "(message_list \<Rightarrow> message_list \<Rightarrow> bool) \<Rightarrow> (go_error \<Rightarrow> bool) \<Rightarrow> ('s \<Rightarrow> bool)
     \<Rightarrow> ('s \<Rightarrow> agent_event list option) \<Rightarrow> 's event_sink \<Rightarrow> 's tool_runner \<Rightarrow> bool" where
  "runner_ok rel serr gone log snk run \<longleftrightarrow> runner_errors_ok serr gone snk run \<and>
     (\<forall>req s batch err s' new.
        sees log (q_turn rel (tqTurn req) False new) s \<longrightarrow> run snk req s = ((batch, err), s') \<longrightarrow>
        sees log (q_turn rel (tqTurn req) (err \<noteq> None)
          (new @ map ToolResultMessage (trrMessages batch))) s')"

definition stream_ok :: "('s \<Rightarrow> agent_event list option) \<Rightarrow> 's loop_config \<Rightarrow> bool" where
  "stream_ok log cfg \<longleftrightarrow> cfStream cfg \<noteq> None \<and>
     (\<forall>f req. cfStream cfg = Some f \<longrightarrow> keeps_log log (f req) \<and>
        (\<forall>s events ending s'. f req s = (Inr (Some (events, ending)), s') \<longrightarrow>
           reading_ok False events ending))"

definition prepare_ok ::
  "(message_list \<Rightarrow> message_list \<Rightarrow> bool) \<Rightarrow> (go_error \<Rightarrow> bool) \<Rightarrow> ('s \<Rightarrow> bool) \<Rightarrow> ('s \<Rightarrow> agent_event list option) \<Rightarrow> 's event_sink
     \<Rightarrow> 's loop_config \<Rightarrow> bool" where
  "prepare_ok rel serr gone log snk cfg \<longleftrightarrow>
     (\<forall>f tc. cfPrepareNextTurn cfg = Some f \<longrightarrow> keeps_log log (f tc) \<and>
        (\<forall>s u s' run. f tc s = (Inr u, s') \<longrightarrow> tuRunner u = Some run \<longrightarrow> runner_ok rel serr gone log snk run))"

definition hooks_ok :: "('s \<Rightarrow> agent_event list option) \<Rightarrow> 's loop_config \<Rightarrow> bool" where
  "hooks_ok log cfg \<longleftrightarrow>
     (\<forall>f ms. cfTransformContext cfg = Some f \<longrightarrow> keeps_log log (f ms)) \<and>
     (\<forall>f ms. cfConvertToLLM cfg = Some f \<longrightarrow> keeps_log log (f ms)) \<and>
     (\<forall>f tc. cfShouldStop cfg = Some f \<longrightarrow> keeps_log log (f tc)) \<and>
     (\<forall>f. cfSteering cfg = Some f \<longrightarrow> keeps_log log f) \<and>
     (\<forall>f. cfFollowUp cfg = Some f \<longrightarrow> keeps_log log f)"

definition active_runner :: "'s loop_config \<Rightarrow> 's tool_runner" where
  "active_runner cfg = (case cfRunner cfg of None \<Rightarrow> missing_runner | Some run \<Rightarrow> run)"

definition config_ok ::
  "(message_list \<Rightarrow> message_list \<Rightarrow> bool) \<Rightarrow> (go_error \<Rightarrow> bool) \<Rightarrow> ('s \<Rightarrow> bool) \<Rightarrow> ('s \<Rightarrow> agent_event list option) \<Rightarrow> 's event_sink
     \<Rightarrow> 's loop_config \<Rightarrow> bool" where
  "config_ok rel serr gone log snk cfg \<longleftrightarrow> stream_ok log cfg \<and> runner_ok rel serr gone log snk (active_runner cfg) \<and>
     prepare_ok rel serr gone log snk cfg \<and> hooks_ok log cfg"

lemma config_okD:
  assumes "config_ok rel serr gone log snk cfg"
  shows "stream_ok log cfg" "runner_ok rel serr gone log snk (active_runner cfg)" "prepare_ok rel serr gone log snk cfg"
    "hooks_ok log cfg"
  using assms by (simp_all add: config_ok_def)

lemma hooks_okD:
  assumes "hooks_ok log cfg"
  shows "cfTransformContext cfg = Some g \<Longrightarrow> keeps_log log (g ms)"
    "cfConvertToLLM cfg = Some g \<Longrightarrow> keeps_log log (g ms)"
    "cfShouldStop cfg = Some h \<Longrightarrow> keeps_log log (h tc)"
    "cfSteering cfg = Some q \<Longrightarrow> keeps_log log q"
    "cfFollowUp cfg = Some q \<Longrightarrow> keeps_log log q"
  using assms by (simp_all add: hooks_ok_def)

lemma stream_okD:
  assumes "stream_ok log cfg" "cfStream cfg = Some f"
  shows "keeps_log log (f req)"
    "f req s = (Inr (Some (events, ending)), s') \<Longrightarrow> reading_ok False events ending"
  using assms unfolding stream_ok_def by blast+

lemma prepare_okD:
  assumes "prepare_ok rel serr gone log snk cfg" "cfPrepareNextTurn cfg = Some f"
  shows "keeps_log log (f tc)"
    "f tc s = (Inr u, s') \<Longrightarrow> tuRunner u = Some run \<Longrightarrow> runner_ok rel serr gone log snk run"
  using assms unfolding prepare_ok_def by blast+

lemma keeps_log_triple: "keeps_log log m \<Longrightarrow> striple (sees log P) m (\<lambda>x. sees log P) (sees log P)"
proof -
  assume keeps: "keeps_log log m"
  have "sees log P s'" if "sees log P s" "m s = (r, s')" for s r s'
  proof -
    have "log s' = Some l" if "log s = Some l" for l
      using keeps \<open>m s = (r, s')\<close> that unfolding keeps_log_def by (metis snd_conv)
    with that(1) show ?thesis by (auto simp: sees_def)
  qed
  then show ?thesis by (auto simp: triple_def split: sum.splits)
qed

text \<open>A run that ends with an error: the sink's, after a log that keeps to the protocol.\<close>

definition accepted ::
  "(go_error \<Rightarrow> bool) \<Rightarrow> ('s \<Rightarrow> agent_event list option) \<Rightarrow> go_error \<Rightarrow> 's \<Rightarrow> bool" where
  "accepted serr log e s \<longleftrightarrow> sees log (\<lambda>q. True) s \<and> serr e"

lemma sees_accepted: "sees log P s \<Longrightarrow> serr e \<Longrightarrow> accepted serr log e s"
  by (auto simp: sees_def accepted_def)

lemma sees_mono: "sees log P s \<Longrightarrow> (\<And>q. P q \<Longrightarrow> Q q) \<Longrightarrow> sees log Q s"
  by (auto simp: sees_def)

locale logged_run =
  fixes env :: "'s loop_env" and log :: "'s \<Rightarrow> agent_event list option"
    and sink :: "agent_event \<Rightarrow> ('s, unit) io"
    and rel :: "message_list \<Rightarrow> message_list \<Rightarrow> bool"
    and serr :: "go_error \<Rightarrow> bool" and gone :: "'s \<Rightarrow> bool"
  assumes has_sink: "evEmit env = Some sink"
    and ctx_log: "keeps_log log (evCtxErr env)"
    and sink_log: "log s = Some l \<Longrightarrow> log (snd (sink ev s)) = Some (l @ [ev])"
    and sink_err: "sink ev s = (Inl e, s') \<Longrightarrow> serr e"
    and ctx_gone: "gone s \<Longrightarrow> fst (evCtxErr env s) \<noteq> None"
    and rel_refl: "rel ms ms"
    and rel_append: "rel as bs \<Longrightarrow> rel cs ds \<Longrightarrow> rel (as @ cs) (bs @ ds)"
begin

lemma emit_triple_strong:
  assumes "\<And>q. P q \<Longrightarrow> \<exists>q'. event_step q ev = Some q' \<and> Q q'"
  shows "triple (sees log P) (emit_event (evEmit env) ev) (\<lambda>_. sees log Q)
    (\<lambda>e s. sees log Q s \<and> serr e)"
proof -
  have step: "sees log Q (snd (sink ev s))" if P: "sees log P s" for s
  proof -
    from P obtain l q where l: "log s = Some l" and q: "scan_events trace_start l = Some q" "P q"
      by (auto simp: sees_def)
    from assms [OF q(2)] obtain q' where "event_step q ev = Some q'" "Q q'" by blast
    with q(1) show ?thesis by (simp add: sees_def sink_log [OF l] scan_events_append)
  qed
  show ?thesis
    unfolding triple_def emit_event_def has_sink
  proof (intro allI impI)
    fix s r s'
    assume "sees log P s" "(case Some sink of None \<Rightarrow> io_return () | Some f \<Rightarrow> f ev) s = (r, s')"
    with step [of s] have "sees log Q s'" by simp
    with \<open>(case Some sink of None \<Rightarrow> io_return () | Some f \<Rightarrow> f ev) s = (r, s')\<close>
    show "case r of Inl e \<Rightarrow> sees log Q s' \<and> serr e | Inr x \<Rightarrow> sees log Q s'"
      using sink_err by (auto split: sum.splits)
  qed
qed

lemma emit_triple:
  assumes "\<And>q. P q \<Longrightarrow> \<exists>q'. event_step q ev = Some q' \<and> Q q'"
  shows "triple (sees log P) (emit_event (evEmit env) ev) (\<lambda>_. sees log Q) (accepted serr log)"
  by (rule triple_weaken [OF emit_triple_strong [OF assms]]) (auto intro: sees_accepted)

lemma ctx_err_triple: "triple (sees log P) (ctx_err env) (\<lambda>_. sees log P) (accepted serr log)"
proof -
  have "keeps_log log (ctx_err env)"
    using ctx_log by (simp add: keeps_log_def ctx_err_def io_call_def split: prod.splits) (metis snd_conv)
  from keeps_log_triple [OF this] show ?thesis
    by (auto simp: triple_def ctx_err_def io_call_def split: sum.splits prod.splits)
qed

lemma fail_triple: "serr e \<Longrightarrow> triple (sees log P) (io_fail e) Q (accepted serr log)"
  by (rule triple_fail) (rule sees_accepted)

lemma rel_snoc: "rel as bs \<Longrightarrow> rel (as @ [m]) (bs @ [m])"
  by (rule rel_append [OF _ rel_refl])

lemmas phases = q_turn_def q_open_def q_between_def q_ended_def in_turn_def event_step_def
  agent_event_of_def rel_snoc

lemma message_start_triple:
  "triple (sees log (q_turn rel t b new)) (emit_message (evEmit env) AgentEventMessageStart t m)
     (\<lambda>_. sees log (q_open rel t new)) (accepted serr log)"
  unfolding emit_message_def by (rule emit_triple) (simp add: phases)

lemma message_end_triple:
  "triple (sees log (q_open rel t new)) (emit_message (evEmit env) AgentEventMessageEnd t m)
     (\<lambda>_. sees log (q_turn rel t False (new @ [m]))) (accepted serr log)"
  unfolding emit_message_def by (rule emit_triple) (simp add: phases)

lemma turn_end_triple:
  "triple (sees log (q_turn rel t False new)) (emit_turn_end env t m rs)
     (\<lambda>_. sees log (q_between rel t new)) (accepted serr log)"
  unfolding emit_turn_end_def by (rule emit_triple) (simp add: phases)

lemma turn_start_triple:
  "triple (sees log (q_between rel t new)) (emit_turn_start env (t + 1))
     (\<lambda>_. sees log (q_turn rel (t + 1) False new)) (accepted serr log)"
  unfolding emit_turn_start_def by (rule emit_triple) (simp add: phases)

lemma agent_end_triple:
  "triple (sees log (q_between rel t new)) (emit_agent_end env ms)
     (\<lambda>x s. x = ms \<and> sees log (q_ended rel t new) s) (accepted serr log)"
  unfolding emit_agent_end_def
  by (rule triple_bind [OF emit_triple [where Q = "q_ended rel t new"]])
    (auto simp: phases intro: triple_return)

end

end
