(* ===== verification/LoopSafety.thy ===== *)
theory LoopSafety
  imports LoopTrace
begin

text \<open>
  Every run of the loop keeps to the event protocol and returns the messages it published: the
  rules of \<open>LoopTrace\<close> carried through each step of \<open>AgentLoop\<close>, once, against the contract.
\<close>

definition q_stream ::
  "(message_list \<Rightarrow> message_list \<Rightarrow> bool) \<Rightarrow> int \<Rightarrow> bool \<Rightarrow> message_list \<Rightarrow> trace_state \<Rightarrow> bool" where
  "q_stream rel t started new = (if started then q_open rel t new else q_turn rel t True new)"

definition phase_post ::
  "(message_list \<Rightarrow> message_list \<Rightarrow> bool) \<Rightarrow> ('s \<Rightarrow> agent_event list option) \<Rightarrow> 's loop_state \<Rightarrow> 's tool_phase
     \<Rightarrow> 's \<Rightarrow> bool" where
  "phase_post rel log st phase s =
     (case phase of
        ToolsEnded ms \<Rightarrow> sees log (q_ended rel (lsTurn st) ms) s
      | ToolsRan st' rs \<Rightarrow> same_turn st st' \<and> lsConfig st' = lsConfig st \<and>
          sees log (q_turn rel (lsTurn st) False (lsNew st')) s)"

definition run_post ::
  "(message_list \<Rightarrow> message_list \<Rightarrow> bool) \<Rightarrow> ('s \<Rightarrow> agent_event list option) \<Rightarrow> int \<Rightarrow> message_list \<Rightarrow> 's \<Rightarrow> bool" where
  "run_post rel log bound ms s \<longleftrightarrow> (\<exists>t. t \<le> bound \<and> sees log (q_ended rel t ms) s)"

definition outcome_post ::
  "(message_list \<Rightarrow> message_list \<Rightarrow> bool) \<Rightarrow> (go_error \<Rightarrow> bool) \<Rightarrow> ('s \<Rightarrow> bool) \<Rightarrow> ('s \<Rightarrow> agent_event list option) \<Rightarrow> 's event_sink \<Rightarrow> int
     \<Rightarrow> 's turn_outcome \<Rightarrow> 's \<Rightarrow> bool" where
  "outcome_post rel serr gone log snk bound outcome s =
     (case outcome of
        Finished ms \<Rightarrow> run_post rel log (bound + 1) ms s
      | Running st \<Rightarrow> config_ok rel serr gone log snk (lsConfig st) \<and>
          sees log (q_between rel (lsTurn st) (lsNew st)) s)"

lemma outcome_post_simps [simp]:
  "outcome_post rel serr gone log snk bound (Finished ms) s = run_post rel log (bound + 1) ms s"
  "outcome_post rel serr gone log snk bound (Running st) s \<longleftrightarrow> config_ok rel serr gone log snk (lsConfig st) \<and>
     sees log (q_between rel (lsTurn st) (lsNew st)) s"
  by (simp_all add: outcome_post_def)

definition loop_pre ::
  "(message_list \<Rightarrow> message_list \<Rightarrow> bool) \<Rightarrow> ('s \<Rightarrow> agent_event list option) \<Rightarrow> 's loop_state \<Rightarrow> 's \<Rightarrow> bool" where
  "loop_pre rel log st =
     (if lsFirst st then sees log (q_turn rel (lsTurn st) False (lsNew st))
      else sees log (q_between rel (lsTurn st) (lsNew st)))"

lemma run_post_ended: "sees log (q_ended rel t ms) s \<Longrightarrow> t \<le> bound \<Longrightarrow> run_post rel log bound ms s"
  by (auto simp: run_post_def)

lemma q_turn_weaken: "q_turn rel t False new q \<Longrightarrow> q_turn rel t b new q"
  by (simp add: q_turn_def)

lemma triple_strengthen: "triple P m Q E \<Longrightarrow> (\<And>x s. Q x s \<Longrightarrow> Q' x s) \<Longrightarrow> triple P m Q' E"
  by (rule triple_weaken)

lemma triple_err: "triple P m Q E \<Longrightarrow> (\<And>e s. E e s \<Longrightarrow> E' e s) \<Longrightarrow> triple P m Q E'"
  by (rule triple_weaken)

lemma triple_result:
  assumes "triple P m (\<lambda>x. Q) E" "\<And>s x s'. m s = (Inr x, s') \<Longrightarrow> R x"
  shows "triple P m (\<lambda>x s. Q s \<and> R x) E"
  using assms by (fastforce simp: triple_def split: sum.splits)

lemma triple_same_conj: "striple P m (\<lambda>x. P) P \<Longrightarrow> P s \<Longrightarrow> m s = (r, s') \<Longrightarrow> P s'"
  by (cases r) (fastforce simp: triple_def)+

lemma triple_then_return:
  "triple P m Q E \<Longrightarrow> (\<And>x s. Q x s \<Longrightarrow> R (f x) s) \<Longrightarrow> triple P (io_bind m (\<lambda>x. io_return (f x))) R E"
  by (rule triple_bind, assumption, rule triple_return) simp

context logged_run
begin

lemma start_unless_triple:
  "triple (sees log (q_stream rel t started new))
     (if started then io_return () else emit_message (evEmit env) AgentEventMessageStart t m)
     (\<lambda>_. sees log (q_open rel t new)) (accepted serr log)"
  using message_start_triple by (simp add: q_stream_def triple_return)

lemma assistant_error_terminal_triple:
  "triple (sees log (q_stream rel t started new))
     (emit_assistant_error_terminal env t cfg txt reason started)
     (\<lambda>m. sees log (q_turn rel t False (new @ [AssistantMessage m]))) (accepted serr log)"
  unfolding emit_assistant_error_terminal_def Let_def
  by (rule triple_bind [OF start_unless_triple], rule triple_bind [OF message_end_triple],
      rule triple_return)

lemma assistant_error_triple:
  "triple (sees log (q_turn rel t b new)) (emit_assistant_error env t cfg txt reason)
     (\<lambda>m. sees log (q_turn rel t False (new @ [AssistantMessage m]))) (accepted serr log)"
  unfolding emit_assistant_error_def
  by (rule triple_pre [OF assistant_error_terminal_triple])
    (auto simp: q_stream_def q_turn_def elim: sees_mono)

lemma active_terminal_error_triple:
  "triple (sees log (q_turn rel t b new)) (emit_active_terminal_error env new t cfg txt reason)
     (\<lambda>ms. sees log (q_ended rel t ms)) (accepted serr log)"
  unfolding emit_active_terminal_error_def
  by (rule triple_bind [OF assistant_error_triple], rule triple_bind [OF turn_end_triple],
      rule triple_strengthen [OF agent_end_triple]) simp

lemma post_turn_hook_error_triple:
  "triple (sees log (q_between rel t new)) (emit_post_turn_hook_error env new t cfg txt)
     (\<lambda>ms. sees log (q_ended rel (t + 1) ms)) (accepted serr log)"
  unfolding emit_post_turn_hook_error_def
  by (rule triple_bind [OF turn_start_triple], rule active_terminal_error_triple)

lemma finish_streamed_triple:
  "triple (sees log (q_stream rel t started new)) (finish_streamed_message env t started m)
     (\<lambda>m. sees log (q_turn rel t False (new @ [AssistantMessage m]))) (accepted serr log)"
  unfolding finish_streamed_message_def
  by (rule triple_bind [OF start_unless_triple], rule triple_bind [OF message_end_triple],
      rule triple_return)

lemma assistant_update_triple:
  "triple (sees log (q_open rel t new)) (emit_assistant_update env t e)
     (\<lambda>_. sees log (q_open rel t new)) (accepted serr log)"
  unfolding emit_assistant_update_def
  by (cases "aePartial e") (auto intro!: triple_return emit_triple simp: phases)

lemma stream_events_triple:
  "reading_ok started events ending \<Longrightarrow>
   triple (sees log (q_stream rel t started new)) (stream_events env cfg t ending events started)
     (\<lambda>m. sees log (q_turn rel t False (new @ [AssistantMessage m]))) (accepted serr log)"
proof (induction events arbitrary: started)
  case Nil
  then show ?case
    by (auto intro!: assistant_error_terminal_triple triple_bind [OF ctx_err_triple]
        split: stream_end.splits sum.splits option.splits)
next
  case (Cons e es)
  show ?case
  proof (cases "validate_assistant_event e")
    case (Some err)
    then show ?thesis by (simp add: assistant_error_terminal_triple)
  next
    case None
    have start: "aeType e = AssistantEventStart \<Longrightarrow> reading_ok True es ending"
      using Cons.prems None by (simp add: terminal_event_def)
    have update: "\<not> terminal_event e \<Longrightarrow> aeType e \<noteq> AssistantEventStart \<Longrightarrow>
        started \<and> reading_ok True es ending"
      using Cons.prems None by (cases started) auto
    have opened: "triple (sees log (q_open rel t new)) (stream_events env cfg t ending es True)
        (\<lambda>m. sees log (q_turn rel t False (new @ [AssistantMessage m]))) (accepted serr log)"
      if "reading_ok True es ending"
      using Cons.IH [OF that] by (simp add: q_stream_def)
    have first: "triple (sees log (q_stream rel t started new))
        (emit_message (evEmit env) AgentEventMessageStart t m)
        (\<lambda>_. sees log (q_open rel t new)) (accepted serr log)" for m
      by (rule triple_pre [OF message_start_triple [where b = True]])
        (auto simp: q_stream_def q_open_def elim: sees_mono split: if_splits)
    have upd: "triple (sees log (q_stream rel t started new))
        (io_bind (emit_assistant_update env t e) (\<lambda>_. stream_events env cfg t ending es started))
        (\<lambda>m. sees log (q_turn rel t False (new @ [AssistantMessage m]))) (accepted serr log)"
      if "\<not> terminal_event e" "aeType e \<noteq> AssistantEventStart"
      using update [OF that] triple_bind [OF assistant_update_triple opened]
      by (simp add: q_stream_def)
    show ?thesis
      using None upd start
      by (auto simp: terminal_event_def finish_streamed_triple
          intro!: triple_bind [OF first] opened split: assistant_event_type.splits)
  qed
qed

lemma hook_triple:
  "keeps_log log m \<Longrightarrow> striple (sees log P) m (\<lambda>x. sees log P) (sees log P)"
  by (rule keeps_log_triple)

lemma transform_triple:
  assumes "\<And>f. hook = Some f \<Longrightarrow> keeps_log log (f ms)"
  shows "striple (sees log P) (transform_with hook ms) (\<lambda>_. sees log P) (sees log P)"
  using assms by (cases hook) (auto simp: transform_with_def intro: triple_return keeps_log_triple)

lemma request_stream_triple:
  assumes "config_ok rel serr gone log (Some sink) cfg"
  shows "triple (sees log (q_turn rel t False new)) (request_stream env ctx cfg t ms)
    (\<lambda>m. sees log (q_turn rel t False (new @ [AssistantMessage m]))) (accepted serr log)"
proof (cases "cfStream cfg")
  case None
  with config_okD(1) [OF assms] show ?thesis by (simp add: stream_ok_def)
next
  case (Some f)
  define req where "req = \<lparr>sqContext = \<lparr>lcSystemPrompt = acSystemPrompt ctx, lcMessages = ms,
    lcTools = acTools ctx\<rparr>, sqModel = cfModel cfg, sqProvider = cfProvider cfg,
    sqReasoning = cfReasoning cfg, sqSessionID = cfSessionID cfg, sqMaxTokens = 0\<rparr>"
  have keeps: "keeps_log log (f req)" and ok: "\<And>s events ending s'.
      f req s = (Inr (Some (events, ending)), s') \<Longrightarrow> reading_ok False events ending"
    using stream_okD [OF config_okD(1) [OF assms] Some] by blast+
  let ?Q = "\<lambda>m. sees log (q_turn rel t False (new @ [AssistantMessage m]))"
  have stream: "triple (sees log (q_turn rel t False new)) (stream_events env cfg t ending events False)
      ?Q (accepted serr log)" if "reading_ok False events ending" for events ending
    by (rule triple_pre [OF stream_events_triple [OF that]])
      (auto simp: q_stream_def q_turn_def elim: sees_mono)
  have call: "striple (sees log (q_turn rel t False new)) (f req)
      (\<lambda>reading s. sees log (q_turn rel t False new) s \<and>
         (\<forall>events ending. reading = Some (events, ending) \<longrightarrow> reading_ok False events ending))
      (sees log (q_turn rel t False new))"
    by (rule triple_result [OF keeps_log_triple [OF keeps]]) (use ok in blast)
  show ?thesis
    unfolding request_stream_def Some option.case req_def [symmetric]
  proof (rule triple_try [OF call])
    show "triple (sees log (q_turn rel t False new))
        (emit_assistant_error env t cfg (evErrorText env err) StopReasonError) ?Q (accepted serr log)" for err
      by (rule assistant_error_triple)
    show "triple (\<lambda>s. sees log (q_turn rel t False new) s \<and>
          (\<forall>events ending. reading = Some (events, ending) \<longrightarrow> reading_ok False events ending))
        (case reading of
           None \<Rightarrow> emit_assistant_error env t cfg ''stream returned nil'' StopReasonError
         | Some (events, ending) \<Rightarrow> stream_events env cfg t ending events False)
        ?Q (accepted serr log)" for reading
    proof (cases reading)
      case None
      then show ?thesis by (auto intro: triple_pre [OF assistant_error_triple])
    next
      case (Some r)
      obtain events ending where r: "r = (events, ending)" by (cases r)
      show ?thesis
      proof (cases "reading_ok False events ending")
        case True
        with Some r show ?thesis by (auto intro: triple_pre [OF stream])
      next
        case False
        with Some r show ?thesis by (auto simp: triple_def)
      qed
    qed
  qed
qed

lemma stream_assistant_triple:
  assumes "config_ok rel serr gone log (Some sink) cfg"
  shows "triple (sees log (q_turn rel t False new)) (stream_assistant_response env ctx cfg t)
    (\<lambda>m. sees log (q_turn rel t False (new @ [AssistantMessage m]))) (accepted serr log)"
proof -
  have hooks: "\<And>f ms. cfTransformContext cfg = Some f \<Longrightarrow> keeps_log log (f ms)"
    "\<And>f ms. cfConvertToLLM cfg = Some f \<Longrightarrow> keeps_log log (f ms)"
    by (rule hooks_okD [OF config_okD(4) [OF assms]], assumption)+
  have none: "triple (sees log (q_turn rel t False new))
      (io_try (transform_with (cfTransformContext cfg) (acMessages ctx))
        (\<lambda>err. emit_assistant_error env t cfg (evErrorText env err) StopReasonError) (\<lambda>ms.
       io_try (transform_with (cfConvertToLLM cfg) ms)
        (\<lambda>err. emit_assistant_error env t cfg (evErrorText env err) StopReasonError) (\<lambda>ms'.
       request_stream env ctx cfg t ms')))
      (\<lambda>m. sees log (q_turn rel t False (new @ [AssistantMessage m]))) (accepted serr log)"
    by (rule triple_try [OF transform_triple [OF hooks(1)] assistant_error_triple], assumption,
        rule triple_try [OF transform_triple [OF hooks(2)] assistant_error_triple], assumption,
        rule request_stream_triple [OF assms])
  show ?thesis
    unfolding stream_assistant_response_def Let_def
    by (rule triple_bind [OF ctx_err_triple])
      (auto intro: assistant_error_triple none split: option.splits)
qed

subsection \<open>Tools\<close>

lemma ctx_gone_triple:
  "triple (\<lambda>s. sees log P s \<and> (serr e \<or> gone s)) (ctx_err env)
     (\<lambda>after s. sees log P s \<and> (after = None \<longrightarrow> serr e)) E"
proof -
  have "sees log P s' \<and> (a = None \<longrightarrow> serr e)"
    if "evCtxErr env s = (a, s')" "sees log P s" "serr e \<or> gone s" for s a s'
    using that ctx_log ctx_gone [of s] unfolding sees_def keeps_log_def by (metis fst_conv snd_conv)
  then show ?thesis by (auto simp: triple_def ctx_err_def io_call_def split: prod.splits)
qed

lemma execute_tools_triple:
  assumes "config_ok rel serr gone log (Some sink) cfg"
  shows "triple (sees log (q_turn rel t False new)) (io_call (execute_tool_calls env ctx cfg t m calls))
    (\<lambda>answer s. sees log (q_turn rel t (snd answer \<noteq> None)
       (new @ map ToolResultMessage (trrMessages (fst answer)))) s \<and>
       (\<forall>e. snd answer = Some e \<longrightarrow> serr e \<or> gone s)) E"
proof -
  obtain req where req: "tqTurn req = t"
    "execute_tool_calls env ctx cfg t m calls = active_runner cfg (Some sink) req"
  proof (cases "cfRunner cfg")
    case None
    show ?thesis
      by (rule that [of "\<lparr>tqTurn = t, tqContext = \<lparr>acSystemPrompt = '''', acMessages = [], acTools = []\<rparr>,
            tqAssistant = zero_assistant, tqCalls = calls\<rparr>"])
        (simp_all add: execute_tool_calls_def active_runner_def has_sink None)
  next
    case (Some run)
    show ?thesis
      by (rule that [of "\<lparr>tqTurn = t, tqContext = ctx, tqAssistant = m, tqCalls = calls\<rparr>"])
        (simp_all add: execute_tool_calls_def active_runner_def has_sink Some)
  qed
  note ok = config_okD(2) [OF assms]
  show ?thesis
    unfolding triple_def io_call_def req(2)
  proof (intro allI impI)
    fix s and r :: "go_error + tool_run_result \<times> go_error option" and s'
    assume pre: "sees log (q_turn rel t False new) s"
      and run: "(case active_runner cfg (Some sink) req s of (x, s') \<Rightarrow> (Inr x, s')) = (r, s')"
    obtain batch err s1 where call: "active_runner cfg (Some sink) req s = ((batch, err), s1)"
      by (metis prod.collapse)
    then have r: "r = Inr (batch, err)" "s' = s1" using run by auto
    have "sees log (q_turn rel (tqTurn req) (err \<noteq> None) (new @ map ToolResultMessage (trrMessages batch))) s1"
      using ok pre call unfolding runner_ok_def req(1) [symmetric] by blast
    moreover have "serr e \<or> gone s1" if "err = Some e" for e
      using ok call that unfolding runner_ok_def runner_errors_ok_def by blast
    ultimately show "case r of Inl e \<Rightarrow> E e s' | Inr answer \<Rightarrow> sees log (q_turn rel t (snd answer \<noteq> None)
        (new @ map ToolResultMessage (trrMessages (fst answer)))) s' \<and>
        (\<forall>e. snd answer = Some e \<longrightarrow> serr e \<or> gone s')"
      by (simp add: r req(1))
  qed
qed

lemma run_tools_triple:
  assumes "config_ok rel serr gone log (Some sink) (lsConfig st)"
  shows "triple (sees log (q_turn rel (lsTurn st) False (lsNew st))) (run_tools env m st)
    (phase_post rel log st) (accepted serr log)"
proof -
  let ?t = "lsTurn st" and ?cfg = "lsConfig st"
  let ?calls = "tool_calls_from_assistant m"
  have ended: "triple (sees log (q_turn rel ?t b new))
      (io_bind (emit_active_terminal_error env new ?t ?cfg why reason) (\<lambda>ms. io_return (ToolsEnded ms)))
      (phase_post rel log st) (accepted serr log)" for b new why reason
    by (rule triple_then_return [OF active_terminal_error_triple]) (simp add: phase_post_def)
  have ran: "triple (sees log (q_turn rel ?t False (lsNew st'))) (io_return (ToolsRan st' rs))
      (phase_post rel log st) (accepted serr log)" if "same_turn st st'" "lsConfig st' = ?cfg" for st' rs
    using that by (intro triple_return) (simp add: phase_post_def)
  show ?thesis
  proof (cases "failed_message m \<or> ?calls = []")
    case True
    then show ?thesis
      using ran [of "st\<lparr>lsMore := False\<rparr>" "[]"] by (simp add: run_tools_def Let_def same_turn_def)
  next
    case False
    have after: "triple (\<lambda>s. sees log (q_turn rel ?t True new) s \<and> (serr e \<or> gone s))
        (io_bind (ctx_err env) (\<lambda>after. case after of
           Some ctxe \<Rightarrow> io_bind (emit_active_terminal_error env new ?t ?cfg (evErrorText env ctxe)
              StopReasonAborted) (\<lambda>ms. io_return (ToolsEnded ms))
         | None \<Rightarrow> io_fail e)) (phase_post rel log st) (accepted serr log)" for new e
    proof (rule triple_bind [OF ctx_gone_triple])
      fix after
      show "triple (\<lambda>s. sees log (q_turn rel ?t True new) s \<and> (after = None \<longrightarrow> serr e)) (case after of
           Some ctxe \<Rightarrow> io_bind (emit_active_terminal_error env new ?t ?cfg (evErrorText env ctxe)
              StopReasonAborted) (\<lambda>ms. io_return (ToolsEnded ms))
         | None \<Rightarrow> io_fail e) (phase_post rel log st) (accepted serr log)"
      proof (cases after)
        case None
        then show ?thesis by (auto intro!: triple_fail sees_accepted)
      next
        case (Some ctxe)
        then show ?thesis by (auto intro: triple_pre [OF ended])
      qed
    qed
    have batch: "triple (\<lambda>s. sees log (q_turn rel ?t (snd answer \<noteq> None)
          (lsNew st @ map ToolResultMessage (trrMessages (fst answer)))) s \<and>
          (\<forall>e. snd answer = Some e \<longrightarrow> serr e \<or> gone s))
        (let batch = fst answer;
             st1 = foldl (\<lambda>st r. add_message (ToolResultMessage r) st) st (trrMessages batch) in
         case snd answer of
           None \<Rightarrow> io_return (ToolsRan (st1\<lparr>lsMore := \<not> trrTerminate batch\<rparr>) (trrMessages batch))
         | Some e \<Rightarrow>
             io_bind (ctx_err env) (\<lambda>after. case after of
               Some ctxe \<Rightarrow> io_bind (emit_active_terminal_error env (lsNew st1) ?t ?cfg
                 (evErrorText env ctxe) StopReasonAborted) (\<lambda>ms. io_return (ToolsEnded ms))
             | None \<Rightarrow> io_fail e)) (phase_post rel log st) (accepted serr log)" for answer
    proof (cases "snd answer")
      case None
      define st1 where "st1 = foldl (\<lambda>st r. add_message (ToolResultMessage r) st) st (trrMessages (fst answer))"
      have "lsNew (st1\<lparr>lsMore := b\<rparr>) = lsNew st @ map ToolResultMessage (trrMessages (fst answer))"
        "same_turn st (st1\<lparr>lsMore := b\<rparr>)" "lsConfig (st1\<lparr>lsMore := b\<rparr>) = ?cfg" for b
        by (simp_all add: st1_def same_turn_def)
      with None ran [of "st1\<lparr>lsMore := \<not> trrTerminate (fst answer)\<rparr>"] show ?thesis
        by (simp add: Let_def st1_def)
    next
      case (Some e)
      with after show ?thesis by (simp add: Let_def)
    qed
    have tools: "triple (sees log (q_turn rel ?t False (lsNew st)))
        (io_bind (io_call (execute_tool_calls env (lsCurrent st) ?cfg ?t m ?calls)) (\<lambda>answer.
          let batch = fst answer;
             st1 = foldl (\<lambda>st r. add_message (ToolResultMessage r) st) st (trrMessages batch) in
          case snd answer of
           None \<Rightarrow> io_return (ToolsRan (st1\<lparr>lsMore := \<not> trrTerminate batch\<rparr>) (trrMessages batch))
         | Some e \<Rightarrow>
             io_bind (ctx_err env) (\<lambda>after. case after of
               Some ctxe \<Rightarrow> io_bind (emit_active_terminal_error env (lsNew st1) ?t ?cfg
                 (evErrorText env ctxe) StopReasonAborted) (\<lambda>ms. io_return (ToolsEnded ms))
             | None \<Rightarrow> io_fail e))) (phase_post rel log st) (accepted serr log)"
      by (rule triple_bind [OF execute_tools_triple [OF assms] batch])
    have "run_tools env m st = io_bind (ctx_err env) (\<lambda>cancelled. case cancelled of
        Some err \<Rightarrow> io_bind (emit_active_terminal_error env (lsNew st) ?t ?cfg (evErrorText env err)
          StopReasonAborted) (\<lambda>ms. io_return (ToolsEnded ms))
      | None \<Rightarrow> io_bind (io_call (execute_tool_calls env (lsCurrent st) ?cfg ?t m ?calls)) (\<lambda>answer.
          let batch = fst answer;
             st1 = foldl (\<lambda>st r. add_message (ToolResultMessage r) st) st (trrMessages batch) in
          case snd answer of
           None \<Rightarrow> io_return (ToolsRan (st1\<lparr>lsMore := \<not> trrTerminate batch\<rparr>) (trrMessages batch))
         | Some e \<Rightarrow>
             io_bind (ctx_err env) (\<lambda>after. case after of
               Some ctxe \<Rightarrow> io_bind (emit_active_terminal_error env (lsNew st1) ?t ?cfg
                 (evErrorText env ctxe) StopReasonAborted) (\<lambda>ms. io_return (ToolsEnded ms))
             | None \<Rightarrow> io_fail e)))"
      using False by (simp only: run_tools_def Let_def if_False)
    then show ?thesis
      by (simp only:) (rule triple_bind [OF ctx_err_triple], simp add: tools ended split: option.splits)
  qed
qed

subsection \<open>The end of a turn\<close>

lemma hook_failed_triple:
  assumes "lsTurn st \<le> bound"
  shows "triple (sees log (q_between rel (lsTurn st) (lsNew st))) (hook_failed env st err)
    (outcome_post rel serr gone log (Some sink) bound) (accepted serr log)"
  unfolding hook_failed_def
  by (rule triple_then_return [OF post_turn_hook_error_triple]) (use assms in \<open>auto intro: run_post_ended\<close>)

lemma finish_run_triple:
  assumes "lsTurn st \<le> bound"
  shows "triple (sees log (q_between rel (lsTurn st) (lsNew st))) (finish_run env st)
    (outcome_post rel serr gone log (Some sink) bound) (accepted serr log)"
  unfolding finish_run_def
  by (rule triple_then_return [OF agent_end_triple]) (use assms in \<open>auto intro: run_post_ended\<close>)

lemma queued_triple:
  "(\<And>g. get = Some g \<Longrightarrow> keeps_log log g) \<Longrightarrow>
     striple (sees log P) (get_queued_messages get) (\<lambda>_. sees log P) (sees log P)"
  by (cases get) (auto simp: get_queued_messages_def intro: triple_return keeps_log_triple)

lemma poll_steering_triple:
  assumes "config_ok rel serr gone log (Some sink) (lsConfig st)" "lsTurn st \<le> bound"
  shows "triple (sees log (q_between rel (lsTurn st) (lsNew st))) (poll_steering env st)
    (outcome_post rel serr gone log (Some sink) bound) (accepted serr log)"
  unfolding poll_steering_def
proof (rule triple_try [OF queued_triple hook_failed_triple [OF assms(2)]])
  show "triple (sees log (q_between rel (lsTurn st) (lsNew st))) (io_return (Running (st\<lparr>lsPending := ms\<rparr>)))
      (outcome_post rel serr gone log (Some sink) bound) (accepted serr log)" for ms
    using assms(1) by (intro triple_return) simp
qed (rule hooks_okD(4) [OF config_okD(4) [OF assms(1)]])

lemma check_stop_triple:
  assumes "config_ok rel serr gone log (Some sink) (lsConfig st)" "lsTurn st \<le> bound"
  shows "triple (sees log (q_between rel (lsTurn st) (lsNew st))) (check_stop env tc st)
    (outcome_post rel serr gone log (Some sink) bound) (accepted serr log)"
proof (cases "cfShouldStop (lsConfig st)")
  case None
  then show ?thesis by (simp add: check_stop_def poll_steering_triple assms)
next
  case (Some f)
  have "keeps_log log (f tc)" by (rule hooks_okD(3) [OF config_okD(4) [OF assms(1)] Some])
  then show ?thesis
    unfolding check_stop_def Some option.case
    by (rule triple_try [OF keeps_log_triple hook_failed_triple [OF assms(2)]])
      (simp add: finish_run_triple poll_steering_triple assms)
qed

lemma runner_update:
  assumes "config_ok rel serr gone log (Some sink) (lsConfig st)"
    and "\<And>run. tuRunner u = Some run \<Longrightarrow> runner_ok rel serr gone log (Some sink) run"
  shows "config_ok rel serr gone log (Some sink) (lsConfig (apply_turn_update u st))"
proof -
  let ?cfg = "lsConfig st" and ?cfg' = "lsConfig (apply_turn_update u st)"
  have same: "cfStream ?cfg' = cfStream ?cfg" "cfPrepareNextTurn ?cfg' = cfPrepareNextTurn ?cfg"
    "cfTransformContext ?cfg' = cfTransformContext ?cfg" "cfConvertToLLM ?cfg' = cfConvertToLLM ?cfg"
    "cfShouldStop ?cfg' = cfShouldStop ?cfg" "cfSteering ?cfg' = cfSteering ?cfg"
    "cfFollowUp ?cfg' = cfFollowUp ?cfg"
    "cfRunner ?cfg' = (if tuRunner u = None then cfRunner ?cfg else tuRunner u)"
    by (simp_all add: apply_turn_update_def Let_def)
  have "runner_ok rel serr gone log (Some sink) (active_runner ?cfg')"
    using assms config_okD(2) [OF assms(1)]
    by (cases "tuRunner u") (simp_all add: active_runner_def same)
  then show ?thesis
    using assms(1) unfolding config_ok_def stream_ok_def prepare_ok_def hooks_ok_def same by blast
qed

lemma after_turn_triple:
  assumes ok: "config_ok rel serr gone log (Some sink) (lsConfig st)" and bound: "lsTurn st \<le> bound"
  shows "triple (sees log (q_turn rel (lsTurn st) False (lsNew st))) (after_turn env m rs st)
    (outcome_post rel serr gone log (Some sink) bound) (accepted serr log)"
  unfolding after_turn_def
proof (rule triple_bind [OF turn_end_triple])
  let ?P = "sees log (q_between rel (lsTurn st) (lsNew st))"
  define tc where "tc = \<lparr>tcMessage = m, tcToolResults = rs, tcContext = lsCurrent st,
    tcNewMessages = lsNew st, tcTurn = lsTurn st\<rparr>"
  have hooks: "triple ?P (case cfPrepareNextTurn (lsConfig st) of None \<Rightarrow> check_stop env tc st
      | Some prepare \<Rightarrow> io_try (prepare tc) (hook_failed env st) (\<lambda>u.
          let st1 = apply_turn_update u st
          in check_stop env (tc\<lparr>tcContext := lsCurrent st1\<rparr>) st1))
      (outcome_post rel serr gone log (Some sink) bound) (accepted serr log)"
  proof (cases "cfPrepareNextTurn (lsConfig st)")
    case None
    then show ?thesis by (simp add: check_stop_triple ok bound)
  next
    case (Some f)
    note prep = prepare_okD [OF config_okD(3) [OF ok] Some]
    have call: "striple ?P (f tc) (\<lambda>u s. ?P s \<and>
        (\<forall>run. tuRunner u = Some run \<longrightarrow> runner_ok rel serr gone log (Some sink) run)) ?P"
      by (rule triple_result [OF keeps_log_triple [OF prep(1)]]) (use prep(2) in blast)
    have go: "triple (\<lambda>s. ?P s \<and> (\<forall>run. tuRunner u = Some run \<longrightarrow> runner_ok rel serr gone log (Some sink) run))
        (let st1 = apply_turn_update u st
          in check_stop env (tc\<lparr>tcContext := lsCurrent st1\<rparr>) st1)
        (outcome_post rel serr gone log (Some sink) bound) (accepted serr log)" for u
    proof (cases "\<forall>run. tuRunner u = Some run \<longrightarrow> runner_ok rel serr gone log (Some sink) run")
      case True
      then have "config_ok rel serr gone log (Some sink) (lsConfig (apply_turn_update u st))"
        by (intro runner_update [OF ok]) blast
      from check_stop_triple [OF this, of bound] bound show ?thesis
        by (auto simp: Let_def intro: triple_pre)
    qed (auto simp: triple_def)
    show ?thesis unfolding Some option.case
      by (rule triple_try [OF call hook_failed_triple [OF bound] go])
  qed
  show "triple ?P (if failed_message m then finish_run env st else
      (let tc = \<lparr>tcMessage = m, tcToolResults = rs, tcContext = lsCurrent st,
         tcNewMessages = lsNew st, tcTurn = lsTurn st\<rparr> in
       case cfPrepareNextTurn (lsConfig st) of None \<Rightarrow> check_stop env tc st
       | Some prepare \<Rightarrow> io_try (prepare tc) (hook_failed env st) (\<lambda>u.
          let st1 = apply_turn_update u st
          in check_stop env (tc\<lparr>tcContext := lsCurrent st1\<rparr>) st1)))
      (outcome_post rel serr gone log (Some sink) bound) (accepted serr log)"
  proof (cases "failed_message m")
    case True
    then show ?thesis by (simp only: if_True finish_run_triple [OF bound])
  next
    case False
    then show ?thesis using hooks by (simp only: if_False Let_def tc_def)
  qed
qed

subsection \<open>The whole run\<close>

lemma take_pending_triple:
  "triple (sees log (q_turn rel (lsTurn st) False (lsNew st))) (take_pending env ms st)
     (\<lambda>st' s. same_turn st st' \<and> lsConfig st' = lsConfig st \<and>
        sees log (q_turn rel (lsTurn st) False (lsNew st')) s) (accepted serr log)"
proof (induction ms arbitrary: st)
  case Nil
  show ?case unfolding take_pending.simps by (rule triple_return) (simp add: same_turn_def)
next
  case (Cons m ms)
  have rest: "triple (sees log (q_turn rel (lsTurn st) False (lsNew st @ [m])))
      (take_pending env ms (add_message m st))
      (\<lambda>st' s. same_turn st st' \<and> lsConfig st' = lsConfig st \<and>
        sees log (q_turn rel (lsTurn st) False (lsNew st')) s) (accepted serr log)"
    using Cons.IH [of "add_message m st"] by (simp add: same_turn_def)
  show ?case
    unfolding take_pending.simps
    by (rule triple_bind [OF message_start_triple], rule triple_bind [OF message_end_triple rest])
qed

lemma answer_turn_triple:
  assumes ok: "config_ok rel serr gone log (Some sink) (lsConfig st)" and bound: "lsTurn st \<le> bound"
  shows "triple (sees log (q_turn rel (lsTurn st) False (lsNew st))) (answer_turn env st)
    (outcome_post rel serr gone log (Some sink) bound) (accepted serr log)"
  unfolding answer_turn_def
proof (rule triple_bind [OF stream_assistant_triple [OF ok]])
  fix m
  let ?st = "add_message (AssistantMessage m) st"
  have tools: "triple (sees log (q_turn rel (lsTurn st) False (lsNew st @ [AssistantMessage m])))
      (run_tools env m ?st) (phase_post rel log ?st) (accepted serr log)"
    using run_tools_triple [of ?st m] ok by simp
  have finish: "triple (phase_post rel log ?st phase) (finish_phase env m phase)
      (outcome_post rel serr gone log (Some sink) bound) (accepted serr log)" for phase
  proof (cases phase)
    case (ToolsEnded ms)
    have "run_post rel log (bound + 1) ms s" if "phase_post rel log ?st (ToolsEnded ms) s" for s
      using that bound by (auto simp: phase_post_def intro: run_post_ended)
    then show ?thesis
      by (simp add: ToolsEnded finish_phase_def triple_return)
  next
    case (ToolsRan st' rs)
    show ?thesis
    proof (cases "same_turn ?st st' \<and> lsConfig st' = lsConfig st")
      case True
      then have same: "lsTurn st' = lsTurn st" "config_ok rel serr gone log (Some sink) (lsConfig st')"
        using ok by (simp_all add: same_turn_def)
      have "triple (sees log (q_turn rel (lsTurn st') False (lsNew st'))) (after_turn env m rs st')
          (outcome_post rel serr gone log (Some sink) bound) (accepted serr log)"
        using same bound by (intro after_turn_triple) simp_all
      then have "triple (phase_post rel log ?st phase) (after_turn env m rs st')
          (outcome_post rel serr gone log (Some sink) bound) (accepted serr log)"
        by (rule triple_pre) (simp add: phase_post_def ToolsRan same(1))
      then show ?thesis by (simp add: ToolsRan finish_phase_def)
    next
      case False
      then show ?thesis by (auto simp: triple_def phase_post_def ToolsRan)
    qed
  qed
  show "triple (sees log (q_turn rel (lsTurn st) False (lsNew st @ [AssistantMessage m])))
      (io_bind (run_tools env m ?st) (finish_phase env m))
      (outcome_post rel serr gone log (Some sink) bound) (accepted serr log)"
    by (rule triple_bind [OF tools finish])
qed

lemma begin_turn_triple:
  assumes "lsTurn st \<le> bound"
  shows "triple (loop_pre rel log st) (begin_turn env st)
    (\<lambda>st' s. lsConfig st' = lsConfig st \<and> lsTurn st' \<le> bound + 1 \<and>
       sees log (q_turn rel (lsTurn st') False (lsNew st')) s) (accepted serr log)"
proof (cases "lsFirst st")
  case True
  with assms show ?thesis by (auto simp: begin_turn_def loop_pre_def intro: triple_return)
next
  case False
  show ?thesis
    unfolding begin_turn_def loop_pre_def using False assms
    by (simp, intro triple_then_return [OF turn_start_triple]) simp
qed

lemma turn_body_triple:
  assumes ok: "config_ok rel serr gone log (Some sink) (lsConfig st0)" and bound: "lsTurn st0 \<le> bound"
  shows "triple (loop_pre rel log st0) (turn_body env bound st0)
    (outcome_post rel serr gone log (Some sink) bound) (accepted serr log)"
  unfolding turn_body_def
proof (rule triple_bind [OF begin_turn_triple [OF bound]])
  fix st :: "'s loop_state"
  let ?P = "\<lambda>s. lsConfig st = lsConfig st0 \<and> lsTurn st \<le> bound + 1 \<and>
    sees log (q_turn rel (lsTurn st) False (lsNew st)) s"
  let ?Q = "outcome_post rel serr gone log (Some sink) bound"
  show "triple ?P (if lsTurn st > bound
      then io_bind (emit_active_terminal_error env (lsNew st) (lsTurn st) (lsConfig st)
             ''max_turns_exceeded'' StopReasonError) (\<lambda>ms. io_return (Finished ms))
      else io_bind (take_pending env (lsPending st) st) (answer_turn env)) ?Q (accepted serr log)"
  proof (cases "lsConfig st = lsConfig st0 \<and> lsTurn st \<le> bound + 1")
    case False
    then show ?thesis by (auto simp: triple_def)
  next
    case True
    show ?thesis
    proof (cases "lsTurn st > bound")
      case over: True
      have "triple (sees log (q_turn rel (lsTurn st) False (lsNew st)))
          (io_bind (emit_active_terminal_error env (lsNew st) (lsTurn st) (lsConfig st)
             ''max_turns_exceeded'' StopReasonError) (\<lambda>ms. io_return (Finished ms))) ?Q (accepted serr log)"
        by (rule triple_then_return [OF active_terminal_error_triple])
          (use True in \<open>auto intro: run_post_ended\<close>)
      with over True show ?thesis by simp
    next
      case within: False
      have answer: "triple (\<lambda>s. same_turn st st1 \<and> lsConfig st1 = lsConfig st \<and>
          sees log (q_turn rel (lsTurn st) False (lsNew st1)) s) (answer_turn env st1) ?Q (accepted serr log)"
        for st1
      proof (cases "same_turn st st1 \<and> lsConfig st1 = lsConfig st")
        case same: True
        then have "config_ok rel serr gone log (Some sink) (lsConfig st1)" "lsTurn st1 \<le> bound"
          using True ok within by (simp_all add: same_turn_def)
        from answer_turn_triple [OF this] same show ?thesis by (simp add: same_turn_def)
      qed (auto simp: triple_def)
      from triple_bind [OF take_pending_triple answer] True within show ?thesis by simp
    qed
  qed
qed

end

lemma run_turns_post:
  assumes "logged_run env log sink rel serr gone"
  shows "config_ok rel serr gone log (Some sink) (lsConfig st) \<Longrightarrow> lsTurn st \<le> bound \<Longrightarrow> loop_pre rel log st s \<Longrightarrow>
     lsMore st \<or> lsPending st \<noteq> [] \<or> \<not> lsFirst st \<Longrightarrow> run_turns env bound st s = (r, s') \<Longrightarrow>
     (case r of Inr ms \<Rightarrow> run_post rel log (bound + 1) ms s' | Inl e \<Rightarrow> accepted serr log e s')"
  using assms
proof (induction env bound st s arbitrary: r s' rule: run_turns.induct)
  case (1 env bound st s)
  note env = \<open>logged_run env log sink rel serr gone\<close>
  note eq = run_turns.simps [of env bound st s]
  show ?case
  proof (cases "lsMore st \<or> lsPending st \<noteq> []")
    case True
    obtain r1 s1 where body: "turn_body env bound st s = (r1, s1)" by (cases "turn_body env bound st s")
    note triple = logged_run.turn_body_triple [OF env 1(3,4)]
    show ?thesis
    proof (cases r1)
      case (Inl e)
      then show ?thesis
        using tripleD(2) [OF triple 1(5)] body 1(7) eq True by auto
    next
      case (Inr outcome)
      then have post: "outcome_post rel serr gone log (Some sink) bound outcome s1"
        using tripleD(1) [OF triple 1(5)] body by simp
      show ?thesis
      proof (cases outcome)
        case (Finished ms)
        with post show ?thesis using body Inr 1(7) eq True by auto
      next
        case (Running st')
        note b = body [unfolded Inr Running]
        have cont: "run_turns env bound st' s1 = (r, s')" using eq True b 1(7) by simp
        note turn = turn_body_running [OF b]
        have "loop_pre rel log st' s1" using post turn(1) by (simp add: loop_pre_def Running)
        moreover have "config_ok rel serr gone log (Some sink) (lsConfig st')" using post by (simp add: Running)
        ultimately show ?thesis
          using 1(1) [OF True b [symmetric] refl refl] turn cont env by simp
      qed
    qed
  next
    case False
    then have first: "\<not> lsFirst st" using 1(6) by blast
    then have between: "sees log (q_between rel (lsTurn st) (lsNew st)) s"
      using 1(5) by (simp add: loop_pre_def)
    obtain r1 s1 where call: "get_queued_messages (cfFollowUp (lsConfig st)) s = (r1, s1)"
      by (cases "get_queued_messages (cfFollowUp (lsConfig st)) s")
    have keeps: "\<And>g. cfFollowUp (lsConfig st) = Some g \<Longrightarrow> keeps_log log g"
      by (rule hooks_okD(5) [OF config_okD(4) [OF 1(3)]])
    note queued = logged_run.queued_triple [OF env keeps, where P = "q_between rel (lsTurn st) (lsNew st)"]
    have s1: "sees log (q_between rel (lsTurn st) (lsNew st)) s1"
      using tripleD [OF queued between] call by (cases r1) auto
    show ?thesis
    proof (cases r1)
      case (Inl err)
      then have run: "emit_post_turn_hook_error env (lsNew st) (lsTurn st) (lsConfig st)
          (evErrorText env err) s1 = (r, s')" using eq False call 1(7) by simp
      note triple = logged_run.post_turn_hook_error_triple [OF env]
      show ?thesis
        using tripleD [OF triple s1] run 1(4) by (cases r) (auto intro!: run_post_ended)
    next
      case (Inr ms)
      show ?thesis
      proof (cases ms)
        case Nil
        then have run: "emit_agent_end env (lsNew st) s1 = (r, s')" using Inr eq False call 1(7) by simp
        note triple = logged_run.agent_end_triple [OF env]
        show ?thesis
        proof (cases r)
          case (Inl e)
          with tripleD(2) [OF triple s1] run show ?thesis by simp
        next
          case (Inr x)
          then have "x = lsNew st" "sees log (q_ended rel (lsTurn st) (lsNew st)) s'"
            using tripleD(1) [OF triple s1] run by blast+
          with Inr 1(4) show ?thesis by (auto intro: run_post_ended)
        qed
      next
        case (Cons m rest)
        let ?st = "st\<lparr>lsPending := m # rest, lsMore := True\<rparr>"
        have cont: "run_turns env bound ?st s1 = (r, s')" using Inr Cons eq False call 1(7) by simp
        have "loop_pre rel log ?st s1" using s1 first by (simp add: loop_pre_def)
        then show ?thesis
          using 1(2) [OF False call [symmetric, unfolded Inr Cons] refl refl] 1(3,4) cont env by simp
      qed
    qed
  qed
qed

lemma effective_max_turns_pos: "0 < effective_max_turns cfg"
  by (simp add: effective_max_turns_def default_max_turns_def)

text \<open>
  A run that fails: by the sink, or because the first poll of the steering messages did, in turn 1 with
  nothing but the prompts published.
\<close>

definition run_failed ::
  "(message_list \<Rightarrow> message_list \<Rightarrow> bool) \<Rightarrow> (go_error \<Rightarrow> bool) \<Rightarrow> ('s \<Rightarrow> agent_event list option)
     \<Rightarrow> 's loop_config \<Rightarrow> message_list \<Rightarrow> go_error \<Rightarrow> 's \<Rightarrow> bool" where
  "run_failed rel serr log cfg new e s \<longleftrightarrow>
     accepted serr log e s \<or>
     sees log (q_turn rel 1 False new) s \<and>
       (\<exists>s0. fst (get_queued_messages (cfSteering cfg) s0) = Inl e)"

lemma run_failed_accepted: "accepted serr log e s \<Longrightarrow> run_failed rel serr log cfg new e s"
  by (simp add: run_failed_def)

context logged_run
begin

lemma run_loop_triple:
  assumes "config_ok rel serr gone log (Some sink) cfg"
  shows "triple (sees log (q_turn rel 1 False new)) (run_loop env ctx cfg new 1)
    (run_post rel log (effective_max_turns cfg + 1)) (run_failed rel serr log cfg new)"
  unfolding run_loop_def
proof (rule triple_bind)
  have queued: "striple (sees log (q_turn rel 1 False new)) (get_queued_messages (cfSteering cfg))
      (\<lambda>_. sees log (q_turn rel 1 False new)) (sees log (q_turn rel 1 False new))"
    by (rule queued_triple) (rule hooks_okD(4) [OF config_okD(4) [OF assms]])
  show "triple (sees log (q_turn rel 1 False new)) (get_queued_messages (cfSteering cfg))
      (\<lambda>_. sees log (q_turn rel 1 False new)) (run_failed rel serr log cfg new)"
    unfolding triple_def
  proof (intro allI impI)
    fix s and r :: "go_error + message_list" and s'
    assume pre: "sees log (q_turn rel 1 False new) s"
      and call: "get_queued_messages (cfSteering cfg) s = (r, s')"
    have "fst (get_queued_messages (cfSteering cfg) s) = r" by (simp add: call)
    with triple_same_conj [OF queued pre call]
    show "case r of Inl e \<Rightarrow> run_failed rel serr log cfg new e s'
        | Inr x \<Rightarrow> sees log (q_turn rel 1 False new) s'"
      by (auto simp: run_failed_def split: sum.splits)
  qed
  have "triple (sees log (q_turn rel 1 False new)) (run_turns env (effective_max_turns cfg)
      \<lparr>lsCurrent = ctx, lsConfig = cfg, lsNew = new, lsTurn = 1, lsFirst = True,
       lsPending = pending, lsMore = True\<rparr>)
      (run_post rel log (effective_max_turns cfg + 1)) (accepted serr log)" for pending
    unfolding triple_def
    using run_turns_post [OF logged_run_axioms, of "\<lparr>lsCurrent = ctx, lsConfig = cfg, lsNew = new,
        lsTurn = 1, lsFirst = True, lsPending = pending, lsMore = True\<rparr>"]
      assms effective_max_turns_pos [of cfg]
    by (simp add: loop_pre_def)
  then show "triple (sees log (q_turn rel 1 False new)) (run_turns env (effective_max_turns cfg)
      \<lparr>lsCurrent = ctx, lsConfig = cfg, lsNew = new, lsTurn = 1, lsFirst = True,
       lsPending = pending, lsMore = True\<rparr>)
      (run_post rel log (effective_max_turns cfg + 1)) (run_failed rel serr log cfg new)" for pending
    by (rule triple_err) (rule run_failed_accepted)
qed

lemma emit_prompts_triple:
  "triple (sees log (q_turn rel 1 False new)) (emit_prompts env ms)
     (\<lambda>_. sees log (q_turn rel 1 False (new @ ms))) (accepted serr log)"
proof (induction ms arbitrary: new)
  case Nil
  show ?case unfolding emit_prompts.simps by (rule triple_return) simp
next
  case (Cons m ms)
  have "triple (sees log (q_turn rel 1 False new)) (emit_prompts env (m # ms))
      (\<lambda>_. sees log (q_turn rel 1 False ((new @ [m]) @ ms))) (accepted serr log)"
    unfolding emit_prompts.simps
    by (rule triple_bind [OF message_start_triple], rule triple_bind [OF message_end_triple],
        rule Cons.IH)
  then show ?case by simp
qed

lemma emit_run_start_triple:
  "triple (\<lambda>s. log s = Some []) (emit_run_start env) (\<lambda>_. sees log (q_turn rel 1 False [])) (accepted serr log)"
proof -
  have start: "triple (sees log (\<lambda>q. q = trace_start)) (emit_event (evEmit env) (agent_event_of AgentEventAgentStart))
      (\<lambda>_. sees log (q_between rel 0 [])) (accepted serr log)"
    by (rule emit_triple) (simp add: phases trace_start_def rel_refl)
  have "triple (sees log (\<lambda>q. q = trace_start)) (emit_run_start env)
      (\<lambda>_. sees log (q_turn rel (0 + 1) False [])) (accepted serr log)"
    unfolding emit_run_start_def
    by (rule triple_bind [OF start]) (use turn_start_triple [of 0 "[]"] in simp)
  then show ?thesis by (rule triple_weaken) (simp_all add: sees_def)
qed

theorem run_agent_loop_triple:
  assumes "config_ok rel serr gone log (Some sink) cfg"
  shows "triple (\<lambda>s. log s = Some []) (run_agent_loop env prompts ctx cfg)
    (run_post rel log (effective_max_turns cfg + 1)) (run_failed rel serr log cfg prompts)"
proof -
  have stream: "cfStream cfg \<noteq> None" using config_okD(1) [OF assms] by (simp add: stream_ok_def)
  note prompts = triple_err [OF emit_prompts_triple [of "[]" prompts, simplified] run_failed_accepted]
  note start = triple_err [OF emit_run_start_triple run_failed_accepted]
  show ?thesis
    unfolding run_agent_loop_def if_not_P [OF stream]
    by (rule triple_bind [OF start triple_bind [OF prompts run_loop_triple [OF assms]]])
qed

theorem run_agent_loop_continue_triple:
  assumes "config_ok rel serr gone log (Some sink) cfg"
    and "acMessages ctx \<noteq> []" "last (acMessages ctx) \<noteq> NilMessage"
      "message_role_of (last (acMessages ctx)) \<noteq> Some RoleAssistant"
  shows "triple (\<lambda>s. log s = Some []) (run_agent_loop_continue env ctx cfg)
    (run_post rel log (effective_max_turns cfg + 1)) (run_failed rel serr log cfg [])"
proof -
  have stream: "cfStream cfg \<noteq> None" using config_okD(1) [OF assms(1)] by (simp add: stream_ok_def)
  note start = triple_err [OF emit_run_start_triple run_failed_accepted]
  have "run_agent_loop_continue env ctx cfg = io_bind (emit_run_start env) (\<lambda>_. run_loop env ctx cfg [] 1)"
    using stream assms(2-4) by (simp add: run_agent_loop_continue_def del: not_None_eq)
  then show ?thesis
    by (simp only:) (rule triple_bind [OF start run_loop_triple [OF assms(1)]])
qed

end

end
