(* ===== verification/ToolRunnerSafety.thy ===== *)
theory ToolRunnerSafety
  imports ToolRunnerResults LoopSafety
begin

text \<open>
  The runner keeps the contract the loop asks of it. When it fails it may have ended messages it
  does not return, so the returned messages are a part of the ended ones: \<open>rel\<close> may drop messages.
\<close>

definition tool_ok :: "('s \<Rightarrow> agent_event list option) \<Rightarrow> 's tool \<Rightarrow> bool" where
  "tool_ok log tool \<longleftrightarrow>
     (\<forall>raw. keeps_log log (tlPrepare tool raw)) \<and>
     (\<forall>call upd Q. (\<forall>ev s. sees log Q s \<longrightarrow> sees log Q (snd (upd ev s))) \<longrightarrow>
        (\<forall>s. sees log Q s \<longrightarrow> sees log Q (snd (tlExecute tool call upd s))))"

definition runner_tools_ok :: "('s \<Rightarrow> agent_event list option) \<Rightarrow> 's runner \<Rightarrow> bool" where
  "runner_tools_ok log r \<longleftrightarrow>
     (\<forall>name item. registry_lookup (rnRegistry r) name = Some item \<longrightarrow> tool_ok log (rgTool item)) \<and>
     (\<forall>h c. rnBefore r = Some h \<longrightarrow> keeps_log log (h c)) \<and>
     (\<forall>h c. rnAfter r = Some h \<longrightarrow> keeps_log log (h c))"

lemma runner_tools_okD:
  assumes "runner_tools_ok log r"
  shows "registry_lookup (rnRegistry r) name = Some item \<Longrightarrow> tool_ok log (rgTool item)"
    "rnBefore r = Some h \<Longrightarrow> keeps_log log (h c)"
    "rnAfter r = Some g \<Longrightarrow> keeps_log log (g d)"
  using assms unfolding runner_tools_ok_def by blast+

lemma tool_okD:
  assumes "tool_ok log tool"
  shows "keeps_log log (tlPrepare tool raw)"
    "(\<And>ev s. sees log Q s \<Longrightarrow> sees log Q (snd (upd ev s))) \<Longrightarrow> sees log Q s \<Longrightarrow>
       sees log Q (snd (tlExecute tool call upd s))"
  using assms unfolding tool_ok_def by blast+

lemma triple_let: "triple P (f x) Q E \<Longrightarrow> triple P (Let x f) Q E"
  by simp

lemma triple_result_conj:
  assumes "triple P m (\<lambda>x. P) E" "\<And>s x s'. m s = (Inr x, s') \<Longrightarrow> R x"
    "\<And>x. R x \<Longrightarrow> triple P (f x) Q E"
  shows "triple P (io_bind m f) Q E"
proof (rule triple_bind [OF triple_result [OF assms(1,2)]], assumption)
  show "triple (\<lambda>s. P s \<and> R x) (f x) Q E" for x
    using assms(3) [of x] by (cases "R x") (auto simp: triple_def)
qed

lemma prepare_call_tool:
  assumes "prepare_call r tx snk req i call s = (Inr (Inl item), s')"
  shows "\<exists>name. registry_lookup (rnRegistry r) name = Some (pcTool item)"
proof -
  have refuse: "refuse_call snk t c m s1 \<noteq> (Inr (Inl item), s2)" for t c m s1 s2
    by (auto dest: refuse_call_Inr)
  have ready: "block_or_ready snk t i c it h raw s1 = (Inr (Inl item), s2) \<Longrightarrow> pcTool item = it"
    for t c it h raw s1 s2 by (auto simp: block_or_ready_def refuse split: if_splits)
  have before: "run_before r tx snk req i c it raw s1 = (Inr (Inl item), s2) \<Longrightarrow> pcTool item = it"
    for c it raw s1 s2
    by (auto simp: run_before_def Let_def io_try_Inr refuse dest: ready split: option.splits if_splits)
  have known: "prepare_known r tx snk req i c it s1 = (Inr (Inl item), s2) \<Longrightarrow> pcTool item = it"
    for c it s1 s2
    by (auto simp: prepare_known_def Let_def io_try_Inr refuse dest: before split: option.splits if_splits)
  from assms show ?thesis
    by (auto simp: prepare_call_def Let_def io_bind_Inr refuse split: option.splits dest!: known)
qed

locale lossy_run = logged_run env log sink rel serr gone
  for env :: "'s loop_env" and log :: "'s \<Rightarrow> agent_event list option"
    and sink :: "agent_event \<Rightarrow> ('s, unit) io"
    and rel :: "message_list \<Rightarrow> message_list \<Rightarrow> bool"
    and serr :: "go_error \<Rightarrow> bool" and gone :: "'s \<Rightarrow> bool" +
  assumes rel_drop: "rel (as @ bs) cs \<Longrightarrow> rel as cs"
begin

lemma emit_sink: "emit_event (Some sink) ev = emit_event (evEmit env) ev"
  by (simp add: has_sink)

lemma emit_striple:
  assumes "\<And>q. P q \<Longrightarrow> \<exists>q'. event_step q ev = Some q' \<and> Q q'"
  shows "striple (sees log P) (emit_event (evEmit env) ev) (\<lambda>_. sees log Q) (sees log Q)"
  by (rule triple_err [OF emit_triple_strong [OF assms]]) auto

lemma tool_event_triple:
  assumes "evType ev \<in> {AgentEventToolExecutionStart, AgentEventToolExecutionUpdate, AgentEventToolExecutionEnd}"
    and "evTurn ev = t"
  shows "striple (sees log (q_turn rel t False new)) (emit_event (Some sink) ev)
    (\<lambda>_. sees log (q_turn rel t False new)) (sees log (q_turn rel t False new))"
  unfolding emit_sink by (rule emit_striple) (use assms in \<open>auto simp: phases\<close>)

lemma ctx_call_triple:
  "striple (sees log P) (io_call (evCtxErr env)) (\<lambda>_. sees log P) (sees log P)"
proof -
  have "keeps_log log (io_call (evCtxErr env))"
    using ctx_log by (simp add: keeps_log_def io_call_def split: prod.splits) (metis snd_conv)
  then show ?thesis by (rule keeps_log_triple)
qed

lemma tool_end_triple:
  "striple (sees log (q_turn rel t False new)) (emit_tool_end (Some sink) t out)
     (\<lambda>_. sees log (q_turn rel t False new)) (sees log (q_turn rel t False new))"
  unfolding emit_tool_end_def Let_def by (rule tool_event_triple) (simp_all add: agent_event_of_def)

lemma refuse_call_triple:
  "striple (sees log (q_turn rel t False new)) (refuse_call (Some sink) t call msg)
     (\<lambda>_. sees log (q_turn rel t False new)) (sees log (q_turn rel t False new))"
  unfolding refuse_call_def Let_def
  by (rule triple_bind [OF tool_end_triple], rule triple_return)

lemma block_or_ready_triple:
  "striple (sees log (q_turn rel t False new)) (block_or_ready (Some sink) t i call item h raw)
     (\<lambda>_. sees log (q_turn rel t False new)) (sees log (q_turn rel t False new))"
  unfolding block_or_ready_def by (simp add: refuse_call_triple triple_return)

lemma run_before_triple:
  assumes ok: "runner_tools_ok log r"
  shows "striple (sees log (q_turn rel (tqTurn req) False new))
    (run_before r tx (Some sink) req i call item raw)
    (\<lambda>_. sees log (q_turn rel (tqTurn req) False new)) (sees log (q_turn rel (tqTurn req) False new))"
proof (cases "rnBefore r")
  case None
  then show ?thesis by (simp add: run_before_def triple_return)
next
  case (Some h)
  show ?thesis unfolding run_before_def Let_def Some option.case
  proof (rule triple_try [OF keeps_log_triple [OF runner_tools_okD(2) [OF ok Some]] refuse_call_triple])
    fix res
    show "striple (sees log (q_turn rel (tqTurn req) False new))
      (if brArguments res = [] then block_or_ready (Some sink) (tqTurn req) i call item res raw
       else (case check_arguments item (brArguments res) of
               Some e \<Rightarrow> refuse_call (Some sink) (tqTurn req) call (tx e)
             | None \<Rightarrow> block_or_ready (Some sink) (tqTurn req) i call item res (brArguments res)))
      (\<lambda>_. sees log (q_turn rel (tqTurn req) False new)) (sees log (q_turn rel (tqTurn req) False new))"
      by (cases "check_arguments item (brArguments res)")
        (simp_all add: block_or_ready_triple refuse_call_triple)
  qed
qed

lemma prepare_known_triple:
  assumes ok: "runner_tools_ok log r" and tool: "tool_ok log (rgTool item)"
  shows "striple (sees log (q_turn rel (tqTurn req) False new))
    (prepare_known r tx (Some sink) req i call item)
    (\<lambda>_. sees log (q_turn rel (tqTurn req) False new)) (sees log (q_turn rel (tqTurn req) False new))"
  unfolding prepare_known_def Let_def
proof (rule triple_try [OF keeps_log_triple [OF tool_okD(1) [OF tool]] refuse_call_triple])
  fix raw0 :: bytes
  show "striple (sees log (q_turn rel (tqTurn req) False new))
    (case check_arguments item (if raw0 = [] then ''{}'' else raw0) of
       Some e \<Rightarrow> refuse_call (Some sink) (tqTurn req) call (tx e)
     | None \<Rightarrow> run_before r tx (Some sink) req i call item (if raw0 = [] then ''{}'' else raw0))
    (\<lambda>_. sees log (q_turn rel (tqTurn req) False new)) (sees log (q_turn rel (tqTurn req) False new))"
    by (cases "check_arguments item (if raw0 = [] then ''{}'' else raw0)")
      (simp_all add: run_before_triple [OF ok] refuse_call_triple)
qed

lemma prepare_call_triple:
  assumes ok: "runner_tools_ok log r"
  shows "striple (sees log (q_turn rel (tqTurn req) False new)) (prepare_call r tx (Some sink) req i call)
    (\<lambda>_. sees log (q_turn rel (tqTurn req) False new)) (sees log (q_turn rel (tqTurn req) False new))"
  unfolding prepare_call_def Let_def
proof (rule triple_bind)
  show "striple (sees log (q_turn rel (tqTurn req) False new))
      (emit_tool_start (Some sink) (tqTurn req) (default_arguments call))
      (\<lambda>_. sees log (q_turn rel (tqTurn req) False new)) (sees log (q_turn rel (tqTurn req) False new))"
    unfolding emit_tool_start_def by (rule tool_event_triple) (simp_all add: agent_event_of_def)
  show "striple (sees log (q_turn rel (tqTurn req) False new))
      (case registry_lookup (rnRegistry r) (ccName (default_arguments call)) of
         None \<Rightarrow> refuse_call (Some sink) (tqTurn req) (default_arguments call)
           (tx (ErrUnknownTool (ccName (default_arguments call))))
       | Some item \<Rightarrow> prepare_known r tx (Some sink) req i (default_arguments call) item)
      (\<lambda>_. sees log (q_turn rel (tqTurn req) False new)) (sees log (q_turn rel (tqTurn req) False new))"
    by (cases "registry_lookup (rnRegistry r) (ccName (default_arguments call))")
      (simp_all add: refuse_call_triple prepare_known_triple [OF ok runner_tools_okD(1) [OF ok]])
qed

lemma finish_call_triple:
  "striple (sees log (q_turn rel t False new)) (finish_call (Some sink) t call res e)
     (\<lambda>_. sees log (q_turn rel t False new)) (sees log (q_turn rel t False new))"
  unfolding finish_call_def Let_def by (rule triple_bind [OF tool_end_triple], rule triple_return)

lemma after_execute_triple:
  assumes ok: "runner_tools_ok log r"
  shows "striple (sees log (q_turn rel (tqTurn req) False new))
    (after_execute r tx (Some sink) req call res e)
    (\<lambda>_. sees log (q_turn rel (tqTurn req) False new)) (sees log (q_turn rel (tqTurn req) False new))"
proof (cases "rnAfter r")
  case None
  then show ?thesis by (simp add: after_execute_def finish_call_triple)
next
  case (Some h)
  show ?thesis unfolding after_execute_def Let_def Some option.case
    by (rule triple_try [OF keeps_log_triple [OF runner_tools_okD(3) [OF ok Some]]])
      (rule finish_call_triple)+
qed

lemma update_sink_sees:
  assumes "sees log (q_turn rel t False new) s"
  shows "sees log (q_turn rel t False new) (snd (update_sink (Some sink) t call ev s))"
proof -
  let ?P = "sees log (q_turn rel t False new)"
  have "striple ?P (update_sink (Some sink) t call ev) (\<lambda>_. ?P) ?P"
    unfolding update_sink_def Let_def
    by (rule triple_try [OF tool_event_triple]) (simp_all add: triple_return triple_fail)
  from triple_same_conj [OF this assms] show ?thesis by (metis prod.collapse)
qed

lemma execute_prepared_triple:
  assumes ok: "runner_tools_ok log r" and tool: "tool_ok log (rgTool (pcTool item))"
  shows "striple (sees log (q_turn rel (tqTurn req) False new))
    (execute_prepared (evCtxErr env) r tx (Some sink) req item)
    (\<lambda>_. sees log (q_turn rel (tqTurn req) False new)) (sees log (q_turn rel (tqTurn req) False new))"
proof -
  let ?P = "sees log (q_turn rel (tqTurn req) False new)"
  have run: "striple ?P (tlExecute (rgTool (pcTool item)) call
      (update_sink (Some sink) (tqTurn req) (pcCall item))) (\<lambda>_. ?P) ?P" for call
  proof -
    have "?P s'" if "?P s" "tlExecute (rgTool (pcTool item)) call
        (update_sink (Some sink) (tqTurn req) (pcCall item)) s = (x, s')" for s x s'
    proof -
      have "?P (snd (tlExecute (rgTool (pcTool item)) call
          (update_sink (Some sink) (tqTurn req) (pcCall item)) s))"
        by (rule tool_okD(2) [OF tool _ that(1)]) (rule update_sink_sees)
      with that(2) show ?thesis by simp
    qed
    then show ?thesis by (auto simp: triple_def split: sum.splits)
  qed
  have err: "striple ?P (case as_update_error e of
         Some u \<Rightarrow> io_fail u
       | None \<Rightarrow> after_execute r tx (Some sink) req (pcCall item) (text_result (tx e)) True)
      (\<lambda>_. ?P) ?P" for e
    by (cases "as_update_error e") (simp_all add: triple_fail after_execute_triple [OF ok])
  show ?thesis
    unfolding execute_prepared_def Let_def
  proof (rule triple_bind [OF ctx_call_triple])
    fix cancelled
    show "striple ?P (case cancelled of
        Some err \<Rightarrow> io_fail err
      | None \<Rightarrow> io_try (tlExecute (rgTool (pcTool item)) \<lparr>tkID = ccID (pcCall item),
            tkName = ccName (pcCall item), tkArguments = ccArguments (pcCall item)\<rparr>
            (update_sink (Some sink) (tqTurn req) (pcCall item)))
          (\<lambda>e. case as_update_error e of Some u \<Rightarrow> io_fail u
             | None \<Rightarrow> after_execute r tx (Some sink) req (pcCall item) (text_result (tx e)) True)
          (\<lambda>res. after_execute r tx (Some sink) req (pcCall item) res False)) (\<lambda>_. ?P) ?P"
      by (cases cancelled) (simp_all add: triple_fail triple_try [OF run err after_execute_triple [OF ok]])
  qed
qed

lemma q_turn_drop: "q_turn rel t b (xs @ ys) q \<Longrightarrow> q_turn rel t True xs q"
  by (auto simp: q_turn_def dest: rel_drop)

lemma sees_drop:
  "sees log (q_turn rel t b (xs @ ys)) s \<Longrightarrow> sees log (q_turn rel t True xs) s"
  by (erule sees_mono) (rule q_turn_drop)

lemma sees_drop_all: "sees log (q_turn rel t b xs) s \<Longrightarrow> sees log (q_turn rel t True xs) s"
  using sees_drop [of t b xs "[]"] by simp

lemma tool_message_triple:
  "striple (sees log (q_turn rel t False new)) (emit_tool_message (Some sink) t m)
     (\<lambda>_. sees log (q_turn rel t False (new @ [ToolResultMessage m])))
     (sees log (q_turn rel t True new))"
proof -
  have start: "striple (sees log (q_turn rel t False new))
      (emit_message (Some sink) AgentEventMessageStart t (ToolResultMessage m))
      (\<lambda>_. sees log (q_open rel t new)) (sees log (q_open rel t new))"
    unfolding emit_message_def emit_sink by (rule emit_striple) (simp add: phases)
  have finish: "striple (sees log (q_open rel t new))
      (emit_message (Some sink) AgentEventMessageEnd t (ToolResultMessage m))
      (\<lambda>_. sees log (q_turn rel t False (new @ [ToolResultMessage m])))
      (sees log (q_turn rel t False (new @ [ToolResultMessage m])))"
    unfolding emit_message_def emit_sink by (rule emit_striple) (simp add: phases)
  have open_turn: "sees log (q_open rel t new) s \<Longrightarrow> sees log (q_turn rel t True new) s" for s
    by (erule sees_mono) (simp add: q_open_def)
  show ?thesis
    unfolding emit_tool_message_def
    by (rule triple_bind [OF triple_weaken [OF start _ _ open_turn]
          triple_weaken [OF finish _ _ sees_drop]])
qed

lemma run_call_triple:
  assumes ok: "runner_tools_ok log r"
  shows "striple (sees log (q_turn rel (tqTurn req) False new))
    (run_call (evCtxErr env) r tx (Some sink) req i call)
    (\<lambda>out. sees log (q_turn rel (tqTurn req) False (new @ [ToolResultMessage (toMessage out)])))
    (sees log (q_turn rel (tqTurn req) True new))"
proof -
  let ?P = "sees log (q_turn rel (tqTurn req) False new)"
  let ?E = "sees log (q_turn rel (tqTurn req) True new)"
  have known: "tool_ok log (rgTool (pcTool item))"
    if "prepare_call r tx (Some sink) req i call s = (Inr (Inl item), s')" for item s s'
    using prepare_call_tool [OF that] runner_tools_okD(1) [OF ok] by blast
  have step: "striple ?P (io_bind (case p of Inl item \<Rightarrow> execute_prepared (evCtxErr env) r tx (Some sink) req item
        | Inr out \<Rightarrow> io_return out) (\<lambda>out.
      io_bind (emit_tool_message (Some sink) (tqTurn req) (toMessage out)) (\<lambda>_. io_return out)))
      (\<lambda>out. sees log (q_turn rel (tqTurn req) False (new @ [ToolResultMessage (toMessage out)]))) ?E"
    if "case p of Inl item \<Rightarrow> tool_ok log (rgTool (pcTool item)) | Inr out \<Rightarrow> True" for p
  proof (rule triple_bind [where R = "\<lambda>_. ?P"])
    show "striple ?P (case p of Inl item \<Rightarrow> execute_prepared (evCtxErr env) r tx (Some sink) req item
        | Inr out \<Rightarrow> io_return out) (\<lambda>_. ?P) ?E"
    proof (cases p)
      case (Inl item)
      with that have "tool_ok log (rgTool (pcTool item))" by simp
      from triple_weaken [OF execute_prepared_triple [OF ok this] _ _ sees_drop_all] Inl
      show ?thesis by simp
    qed (simp add: triple_return)
    show "striple ?P (io_bind (emit_tool_message (Some sink) (tqTurn req) (toMessage out)) (\<lambda>_. io_return out))
        (\<lambda>out. sees log (q_turn rel (tqTurn req) False (new @ [ToolResultMessage (toMessage out)]))) ?E"
      for out
      by (rule triple_bind [OF tool_message_triple], rule triple_return)
  qed
  show ?thesis
    unfolding run_call_def
  proof (rule triple_result_conj [where R = "\<lambda>p. case p of
      Inl item \<Rightarrow> tool_ok log (rgTool (pcTool item)) | Inr out \<Rightarrow> True"])
    show "striple ?P (prepare_call r tx (Some sink) req i call) (\<lambda>_. ?P) ?E"
      by (rule triple_weaken [OF prepare_call_triple [OF ok] _ _ sees_drop_all])
    show "case p of Inl item \<Rightarrow> tool_ok log (rgTool (pcTool item)) | Inr out \<Rightarrow> True"
      if "prepare_call r tx (Some sink) req i call s = (Inr p, s')" for s p s'
      using known that by (cases p) auto
  qed (rule step)
qed

lemma sequential_calls_sees:
  assumes ok: "runner_tools_ok log r"
  shows "sees log (q_turn rel (tqTurn req) False (base @ map ToolResultMessage (outcome_messages os))) s \<Longrightarrow>
    sequential_calls (evCtxErr env) r tx (Some sink) req i os calls s = ((res, err), s') \<Longrightarrow>
    sees log (q_turn rel (tqTurn req) (err \<noteq> None)
      (base @ map ToolResultMessage (trrMessages res))) s'"
proof (induction calls arbitrary: i os s)
  case Nil
  then show ?case by auto
next
  case (Cons call calls)
  let ?ms = "\<lambda>os. base @ map ToolResultMessage (outcome_messages os)"
  obtain c s1 where c: "evCtxErr env s = (c, s1)" by (cases "evCtxErr env s")
  then have s1: "sees log (q_turn rel (tqTurn req) False (?ms os)) s1"
    using triple_same_conj [OF ctx_call_triple Cons.prems(1)] by (auto simp: io_call_def)
  show ?case
  proof (cases c)
    case (Some e)
    with Cons.prems(2) c sees_drop_all [OF s1] show ?thesis by auto
  next
    case None
    obtain x s2 where run: "run_call (evCtxErr env) r tx (Some sink) req i call s1 = (x, s2)"
      by (cases "run_call (evCtxErr env) r tx (Some sink) req i call s1")
    note triple = tripleD [OF run_call_triple [OF ok] s1]
    show ?thesis
    proof (cases x)
      case (Inl e)
      with run triple(2) have "sees log (q_turn rel (tqTurn req) True (?ms os)) s2" by blast
      then have "sees log (q_turn rel (tqTurn req) True base) s2" by (rule sees_drop)
      with Cons.prems(2) c None run Inl show ?thesis by (auto simp: empty_run_result_def)
    next
      case (Inr out)
      with run triple(1) have "sees log (q_turn rel (tqTurn req) False (?ms (os @ [out]))) s2"
        by (fastforce simp: outcome_messages_def)
      then show ?thesis using Cons.IH Cons.prems(2) c None run Inr by simp
    qed
  qed
qed

lemma prepare_all_triple:
  assumes ok: "runner_tools_ok log r"
  shows "\<forall>item \<in> set ready. tool_ok log (rgTool (pcTool item)) \<Longrightarrow>
    striple (sees log (q_turn rel (tqTurn req) False new))
      (prepare_all (evCtxErr env) r tx (Some sink) req i table ready calls)
      (\<lambda>x s. sees log (q_turn rel (tqTurn req) False new) s \<and>
         (\<forall>item \<in> set (snd x). tool_ok log (rgTool (pcTool item))))
      (sees log (q_turn rel (tqTurn req) False new))"
proof (induction calls arbitrary: i table ready)
  case Nil
  then show ?case unfolding prepare_all.simps by (intro triple_return) simp
next
  case (Cons call calls)
  let ?P = "sees log (q_turn rel (tqTurn req) False new)"
  let ?Q = "\<lambda>x s. ?P s \<and> (\<forall>item \<in> set (snd x). tool_ok log (rgTool (pcTool item)))"
  have step: "striple ?P (case p of
        Inr out \<Rightarrow> prepare_all (evCtxErr env) r tx (Some sink) req (Suc i) (table(i \<mapsto> out)) ready calls
      | Inl item \<Rightarrow> prepare_all (evCtxErr env) r tx (Some sink) req (Suc i) table (ready @ [item]) calls)
      ?Q ?P" if "case p of Inl item \<Rightarrow> tool_ok log (rgTool (pcTool item)) | Inr out \<Rightarrow> True" for p
    using that Cons.IH [of "ready @ [item]" for item] Cons.IH [of ready] Cons.prems by (cases p) auto
  have prep: "striple ?P (io_bind (prepare_call r tx (Some sink) req i call) (\<lambda>p. case p of
        Inr out \<Rightarrow> prepare_all (evCtxErr env) r tx (Some sink) req (Suc i) (table(i \<mapsto> out)) ready calls
      | Inl item \<Rightarrow> prepare_all (evCtxErr env) r tx (Some sink) req (Suc i) table (ready @ [item]) calls))
      ?Q ?P"
  proof (rule triple_result_conj [OF prepare_call_triple [OF ok] _ step])
    fix s p s'
    assume p: "prepare_call r tx (Some sink) req i call s = (Inr p, s')"
    show "case p of Inl item \<Rightarrow> tool_ok log (rgTool (pcTool item)) | Inr out \<Rightarrow> True"
      using p prepare_call_tool [of r tx "Some sink" req i call s] runner_tools_okD(1) [OF ok]
      by (cases p) auto
  qed
  show ?case
    unfolding prepare_all.simps
  proof (rule triple_bind [OF ctx_call_triple])
    fix cancelled
    show "striple ?P (case cancelled of
        Some err \<Rightarrow> io_fail err
      | None \<Rightarrow> io_bind (prepare_call r tx (Some sink) req i call) (\<lambda>p. case p of
          Inr out \<Rightarrow> prepare_all (evCtxErr env) r tx (Some sink) req (Suc i) (table(i \<mapsto> out)) ready calls
        | Inl item \<Rightarrow> prepare_all (evCtxErr env) r tx (Some sink) req (Suc i) table (ready @ [item]) calls))
        ?Q ?P"
      by (cases cancelled) (simp_all add: triple_fail prep)
  qed
qed

lemma run_ready_sees:
  assumes ok: "runner_tools_ok log r"
  shows "\<forall>item \<in> set items. tool_ok log (rgTool (pcTool item)) \<Longrightarrow>
    sees log (q_turn rel (tqTurn req) False new) s \<Longrightarrow>
    run_ready (evCtxErr env) r tx (Some sink) req table firstErr items s = (x, s') \<Longrightarrow>
    sees log (q_turn rel (tqTurn req) False new) s'"
proof (induction items arbitrary: table firstErr s)
  case Nil
  then show ?case by simp
next
  case (Cons item items)
  obtain y s1 where y: "execute_prepared (evCtxErr env) r tx (Some sink) req item s = (y, s1)"
    by (cases "execute_prepared (evCtxErr env) r tx (Some sink) req item s")
  have "tool_ok log (rgTool (pcTool item))" using Cons.prems(1) by simp
  from triple_same_conj [OF execute_prepared_triple [OF ok this] Cons.prems(2) y]
  show ?case using Cons.IH Cons.prems(1,3) y by (auto split: sum.splits)
qed

lemma emit_outcomes_triple:
  "striple (sees log (q_turn rel t False new)) (emit_outcomes (Some sink) t os)
     (\<lambda>_. sees log (q_turn rel t False (new @ map ToolResultMessage (outcome_messages os))))
     (sees log (q_turn rel t True new))"
proof (induction os arbitrary: new)
  case Nil
  show ?case unfolding emit_outcomes.simps by (rule triple_return) (simp add: outcome_messages_def)
next
  case (Cons o1 os)
  have ms: "new @ map ToolResultMessage (outcome_messages (o1 # os)) =
      (new @ [ToolResultMessage (toMessage o1)]) @ map ToolResultMessage (outcome_messages os)"
    by (simp add: outcome_messages_def)
  have "striple (sees log (q_turn rel t False (new @ [ToolResultMessage (toMessage o1)])))
      (emit_outcomes (Some sink) t os)
      (\<lambda>_. sees log (q_turn rel t False (new @ map ToolResultMessage (outcome_messages (o1 # os)))))
      (sees log (q_turn rel t True new))"
    unfolding ms by (rule triple_weaken [OF Cons.IH _ _ sees_drop])
  then show ?case
    unfolding emit_outcomes.simps by (rule triple_bind [OF tool_message_triple])
qed

lemma parallel_outcomes_triple:
  assumes ok: "runner_tools_ok log r" and fair: "fair_schedule sched"
  shows "striple (sees log (q_turn rel (tqTurn req) False new))
    (parallel_outcomes sched (evCtxErr env) r tx (Some sink) req)
    (\<lambda>os. sees log (q_turn rel (tqTurn req) False (new @ map ToolResultMessage (outcome_messages os))))
    (sees log (q_turn rel (tqTurn req) True new))"
proof -
  let ?P = "sees log (q_turn rel (tqTurn req) False new)"
  let ?E = "sees log (q_turn rel (tqTurn req) True new)"
  let ?Q = "\<lambda>os. sees log (q_turn rel (tqTurn req) False (new @ map ToolResultMessage (outcome_messages os)))"
  let ?T = "\<lambda>ready. \<forall>item \<in> set ready. tool_ok log (rgTool (pcTool item))"
  have prep: "striple ?P (prepare_all (evCtxErr env) r tx (Some sink) req 0 Map.empty [] (tqCalls req))
      (\<lambda>x s. ?P s \<and> ?T (snd x)) ?E"
    by (rule triple_weaken [OF prepare_all_triple [OF ok] _ _ sees_drop_all]) simp_all
  have run: "striple (\<lambda>s. ?P s \<and> ?T ready) (io_call (\<lambda>s. run_ready (evCtxErr env) r tx (Some sink) req
      table None (sched ready s) s)) (\<lambda>_. ?P) ?E" for table ready
  proof -
    have "?P s'" if "?P s" "?T ready"
      "run_ready (evCtxErr env) r tx (Some sink) req table None (sched ready s) s = (x, s')" for s x s'
      by (rule run_ready_sees [OF ok _ that(1,3)])
        (use that(2) fair in \<open>simp add: fair_schedule_def\<close>)
    then show ?thesis by (auto simp: triple_def io_call_def split: prod.splits sum.splits)
  qed
  have emit: "striple ?P (let os = table_outcomes n table in
      io_bind (emit_outcomes (Some sink) (tqTurn req) os) (\<lambda>_. io_return os)) ?Q ?E" for n table
    unfolding Let_def by (rule triple_bind [OF emit_outcomes_triple], rule triple_return)
  have fail: "striple ?P (io_fail e) ?Q ?E" for e
    by (rule triple_fail) (rule sees_drop_all)
  have after: "striple ?P (case err of
       Some e \<Rightarrow> io_fail e
     | None \<Rightarrow> io_bind (io_call (evCtxErr env)) (\<lambda>cancelled. case cancelled of
         Some e \<Rightarrow> io_fail e
       | None \<Rightarrow> (let os = table_outcomes n table in
           io_bind (emit_outcomes (Some sink) (tqTurn req) os) (\<lambda>_. io_return os)))) ?Q ?E"
    for err n table
  proof (cases err)
    case None
    have "striple ?P (io_call (evCtxErr env)) (\<lambda>_. ?P) ?E"
      by (rule triple_weaken [OF ctx_call_triple _ _ sees_drop_all])
    then show ?thesis
      unfolding None option.case
    proof (rule triple_bind)
      fix cancelled
      show "striple ?P (case cancelled of
         Some e \<Rightarrow> io_fail e
       | None \<Rightarrow> (let os = table_outcomes n table in
           io_bind (emit_outcomes (Some sink) (tqTurn req) os) (\<lambda>_. io_return os))) ?Q ?E"
        by (cases cancelled) (simp_all only: option.case emit fail)
    qed
  qed (simp add: fail)
  show ?thesis
    unfolding parallel_outcomes_def
  proof (rule triple_bind [OF prep])
    fix x
    show "striple (\<lambda>s. ?P s \<and> ?T (snd x)) (case x of (table, ready) \<Rightarrow>
        io_bind (io_call (\<lambda>s. run_ready (evCtxErr env) r tx (Some sink) req table None (sched ready s) s))
          (\<lambda>(table', err). case err of
             Some e \<Rightarrow> io_fail e
           | None \<Rightarrow> io_bind (io_call (evCtxErr env)) (\<lambda>cancelled. case cancelled of
               Some e \<Rightarrow> io_fail e
             | None \<Rightarrow> (let os = table_outcomes (length (tqCalls req)) table' in
                 io_bind (emit_outcomes (Some sink) (tqTurn req) os) (\<lambda>_. io_return os))))) ?Q ?E"
    proof (cases x)
      case (Pair table ready)
      show ?thesis
        unfolding Pair prod.case snd_conv
        by (rule triple_bind [OF run]) (simp only: case_prod_beta after)
    qed
  qed
qed

lemma execute_tools_runner_ok:
  assumes ok: "runner_tools_ok log r" and fair: "fair_schedule sched"
    and errors: "runner_errors_ok serr gone (Some sink) (execute_tools sched (evCtxErr env) r tx)"
  shows "runner_ok rel serr gone log (Some sink) (execute_tools sched (evCtxErr env) r tx)"
  unfolding runner_ok_def
proof (intro conjI errors allI impI)
  fix req s batch err s' new
  assume pre: "sees log (q_turn rel (tqTurn req) False new) s"
    and run: "execute_tools sched (evCtxErr env) r tx (Some sink) req s = ((batch, err), s')"
  consider "tqCalls req = []" | "tqCalls req \<noteq> []" "batch_mode r (tqCalls req) = ExecutionModeSequential"
    | "tqCalls req \<noteq> []" "batch_mode r (tqCalls req) \<noteq> ExecutionModeSequential" by blast
  then show "sees log (q_turn rel (tqTurn req) (err \<noteq> None)
      (new @ map ToolResultMessage (trrMessages batch))) s'"
  proof cases
    case 1
    with run pre show ?thesis by (auto simp: execute_tools_def empty_run_result_def)
  next
    case 2
    with run have "sequential_calls (evCtxErr env) r tx (Some sink) req 0 [] (tqCalls req) s =
        ((batch, err), s')" by (simp add: execute_tools_def execute_sequential_def)
    from sequential_calls_sees [OF ok _ this] pre show ?thesis by (simp add: outcome_messages_def)
  next
    case 3
    with run have par: "execute_parallel sched (evCtxErr env) r tx (Some sink) req s = ((batch, err), s')"
      by (simp add: execute_tools_def)
    obtain x s1 where x: "parallel_outcomes sched (evCtxErr env) r tx (Some sink) req s = (x, s1)"
      by (cases "parallel_outcomes sched (evCtxErr env) r tx (Some sink) req s")
    note triple = tripleD [OF parallel_outcomes_triple [OF ok fair] pre]
    show ?thesis
    proof (cases x)
      case (Inl e)
      with x triple(2) par show ?thesis by (auto simp: execute_parallel_def empty_run_result_def)
    next
      case (Inr os)
      with x triple(1) par show ?thesis by (auto simp: execute_parallel_def)
    qed
  qed
qed

subsection \<open>The absent runner\<close>

lemma missing_call_triple:
  "striple (sees log (q_turn rel t False new)) (missing_runner_call (Some sink) t call)
     (\<lambda>m. sees log (q_turn rel t False (new @ [ToolResultMessage m])))
     (sees log (q_turn rel t True new))"
proof -
  let ?P = "sees log (q_turn rel t False new)"
  have tool: "striple ?P (emit_event (Some sink) ev) (\<lambda>_. ?P) (sees log (q_turn rel t True new))"
    if "evType ev \<in> {AgentEventToolExecutionStart, AgentEventToolExecutionUpdate, AgentEventToolExecutionEnd}"
      "evTurn ev = t" for ev
    by (rule triple_weaken [OF tool_event_triple [OF that] _ _ sees_drop_all])
  have message: "striple ?P (io_bind (emit_message (Some sink) AgentEventMessageStart t (ToolResultMessage m)) (\<lambda>_.
      io_bind (emit_message (Some sink) AgentEventMessageEnd t (ToolResultMessage m)) (\<lambda>_. io_return m)))
      (\<lambda>m. sees log (q_turn rel t False (new @ [ToolResultMessage m])))
      (sees log (q_turn rel t True new))" for m
    unfolding io_bind_assoc [symmetric] emit_tool_message_def [symmetric]
    by (rule triple_bind [OF tool_message_triple], rule triple_return)
  show ?thesis
    unfolding missing_runner_call_def Let_def emit_tool_start_def
    by (rule triple_bind [OF tool], simp_all add: agent_event_of_def,
        rule triple_bind [OF tool], simp_all add: agent_event_of_def, rule message)
qed

lemma missing_calls_triple:
  "striple (sees log (q_turn rel t False new)) (missing_runner_calls (Some sink) t calls)
     (\<lambda>ms. sees log (q_turn rel t False (new @ map ToolResultMessage ms)))
     (sees log (q_turn rel t True new))"
proof (induction calls arbitrary: new)
  case Nil
  show ?case unfolding missing_runner_calls.simps by (rule triple_return) simp
next
  case (Cons call calls)
  have rest: "striple (sees log (q_turn rel t False (new @ [ToolResultMessage m])))
      (io_bind (missing_runner_calls (Some sink) t calls) (\<lambda>ms. io_return (m # ms)))
      (\<lambda>ms. sees log (q_turn rel t False (new @ map ToolResultMessage ms)))
      (sees log (q_turn rel t True new))" for m
  proof (rule triple_bind)
    show "striple (sees log (q_turn rel t False (new @ [ToolResultMessage m])))
        (missing_runner_calls (Some sink) t calls)
        (\<lambda>ms. sees log (q_turn rel t False ((new @ [ToolResultMessage m]) @ map ToolResultMessage ms)))
        (sees log (q_turn rel t True new))"
      by (rule triple_weaken [OF Cons.IH _ _ sees_drop])
    show "striple (sees log (q_turn rel t False ((new @ [ToolResultMessage m]) @ map ToolResultMessage ms)))
        (io_return (m # ms)) (\<lambda>ms. sees log (q_turn rel t False (new @ map ToolResultMessage ms)))
        (sees log (q_turn rel t True new))" for ms
      by (rule triple_return) simp
  qed
  show ?case unfolding missing_runner_calls.simps by (rule triple_bind [OF missing_call_triple rest])
qed

lemma missing_runner_ok:
  assumes errors: "runner_errors_ok serr gone (Some sink) missing_runner"
  shows "runner_ok rel serr gone log (Some sink) missing_runner"
  unfolding runner_ok_def
proof (intro conjI errors allI impI)
  fix req s batch err s' new
  assume pre: "sees log (q_turn rel (tqTurn req) False new) s"
    and run: "missing_runner (Some sink) req s = ((batch, err), s')"
  obtain x s1 where x: "missing_runner_calls (Some sink) (tqTurn req) (tqCalls req) s = (x, s1)"
    by (cases "missing_runner_calls (Some sink) (tqTurn req) (tqCalls req) s")
  note triple = tripleD [OF missing_calls_triple pre]
  show "sees log (q_turn rel (tqTurn req) (err \<noteq> None)
      (new @ map ToolResultMessage (trrMessages batch))) s'"
    using triple run x by (cases x) (auto simp: missing_runner_def empty_run_result_def)
qed

end

end
