(* ===== verification/ToolRunnerErrors.thy ===== *)
theory ToolRunnerErrors
  imports ToolRunnerSafety
begin

text \<open>
  The errors of the runner: one of the event sink's, or the run's context is gone. A context that is
  gone stays gone, whatever the tools and the hooks do after it.
\<close>

definition keeps_gone :: "('s \<Rightarrow> bool) \<Rightarrow> ('s \<Rightarrow> 'a \<times> 's) \<Rightarrow> bool" where
  "keeps_gone gone m \<longleftrightarrow> (\<forall>s. gone s \<longrightarrow> gone (snd (m s)))"

definition tool_errors_ok :: "(go_error \<Rightarrow> bool) \<Rightarrow> ('s \<Rightarrow> bool) \<Rightarrow> 's tool \<Rightarrow> bool" where
  "tool_errors_ok serr gone tool \<longleftrightarrow>
     (\<forall>call upd. (\<forall>ev. keeps_gone gone (upd ev)) \<longrightarrow> keeps_gone gone (tlExecute tool call upd)) \<and>
     (\<forall>call upd. (\<forall>ev s e s'. upd ev s = (Inl e, s') \<longrightarrow> (\<exists>u. e = ErrUpdateEmit u \<and> serr u)) \<longrightarrow>
        (\<forall>s e s' u. tlExecute tool call upd s = (Inl e, s') \<longrightarrow> as_update_error e = Some u \<longrightarrow> serr u))"

definition runner_hooks_ok :: "(go_error \<Rightarrow> bool) \<Rightarrow> ('s \<Rightarrow> bool) \<Rightarrow> 's runner \<Rightarrow> bool" where
  "runner_hooks_ok serr gone r \<longleftrightarrow>
     (\<forall>name item. registry_lookup (rnRegistry r) name = Some item \<longrightarrow>
        tool_errors_ok serr gone (rgTool item)) \<and>
     (\<forall>h c. rnAfter r = Some h \<longrightarrow> keeps_gone gone (h c))"

lemma runner_hooks_okD:
  assumes "runner_hooks_ok serr gone r"
  shows "registry_lookup (rnRegistry r) name = Some item \<Longrightarrow> tool_errors_ok serr gone (rgTool item)"
    "rnAfter r = Some h \<Longrightarrow> keeps_gone gone (h c)"
  using assms unfolding runner_hooks_ok_def by blast+

lemma keeps_gone_striple: "keeps_gone gone m \<longleftrightarrow> striple gone m (\<lambda>_. gone) gone"
  by (auto simp: keeps_gone_def triple_def split: sum.splits) (metis prod.collapse sum.exhaust snd_conv)+

abbreviation fails_with :: "(go_error \<Rightarrow> 's \<Rightarrow> bool) \<Rightarrow> ('s, 'a) io \<Rightarrow> bool" where
  "fails_with E m \<equiv> triple (\<lambda>_. True) m (\<lambda>_ _. True) E"

lemma fails_with_return: "fails_with E (io_return x)"
  by (rule triple_return) simp

lemma fails_with_handled: "(\<And>e. fails_with E (h e)) \<Longrightarrow> (\<And>x. fails_with E (f x)) \<Longrightarrow> fails_with E (io_try m h f)"
  by (rule triple_try [where F = "\<lambda>_ _. True"]) (auto simp: triple_def split: sum.splits)

lemma fails_with_bind: "fails_with E m \<Longrightarrow> (\<And>x. fails_with E (f x)) \<Longrightarrow> fails_with E (io_bind m f)"
  by (rule triple_bind)

locale cancellable_run = lossy_run env log sink rel serr gone
  for env :: "'s loop_env" and log :: "'s \<Rightarrow> agent_event list option"
    and sink :: "agent_event \<Rightarrow> ('s, unit) io"
    and rel :: "message_list \<Rightarrow> message_list \<Rightarrow> bool"
    and serr :: "go_error \<Rightarrow> bool" and gone :: "'s \<Rightarrow> bool" +
  assumes ctx_sets_gone: "evCtxErr env s = (Some e, s') \<Longrightarrow> gone s'"
    and ctx_keeps_gone: "keeps_gone gone (evCtxErr env)"
    and sink_keeps_gone: "keeps_gone gone (sink ev)"
begin

lemma emit_fails: "fails_with (\<lambda>e s. serr e) (emit_event (Some sink) ev)"
  using sink_err by (auto simp: triple_def emit_event_def split: sum.splits)

lemma emit_keeps: "striple gone (emit_event (Some sink) ev) (\<lambda>_. gone) gone"
  using sink_keeps_gone by (simp add: keeps_gone_striple emit_event_def)

lemma ctx_triple: "triple P (io_call (evCtxErr env)) (\<lambda>c s. c \<noteq> None \<longrightarrow> gone s) E"
  using ctx_sets_gone by (fastforce simp: triple_def io_call_def split: prod.splits)

lemma ctx_keeps: "striple gone (io_call (evCtxErr env)) (\<lambda>_. gone) gone"
  using ctx_keeps_gone by (auto simp: triple_def io_call_def keeps_gone_def split: prod.splits sum.splits)

lemma tool_end_fails: "fails_with (\<lambda>e s. serr e) (emit_tool_end (Some sink) t out)"
  unfolding emit_tool_end_def Let_def by (rule emit_fails)

lemma refuse_call_fails: "fails_with (\<lambda>e s. serr e) (refuse_call (Some sink) t call msg)"
  unfolding refuse_call_def Let_def by (rule fails_with_bind [OF tool_end_fails fails_with_return])

lemma block_or_ready_fails:
  "fails_with (\<lambda>e s. serr e) (block_or_ready (Some sink) t i call item h raw)"
  unfolding block_or_ready_def by (simp add: refuse_call_fails fails_with_return)

lemma run_before_fails: "fails_with (\<lambda>e s. serr e) (run_before r tx (Some sink) req i call item raw)"
  unfolding run_before_def Let_def
  by (auto intro!: fails_with_return fails_with_handled refuse_call_fails block_or_ready_fails
      split: option.splits)

lemma prepare_known_fails: "fails_with (\<lambda>e s. serr e) (prepare_known r tx (Some sink) req i call item)"
  unfolding prepare_known_def Let_def
  by (rule fails_with_handled, rule refuse_call_fails)
    (auto intro: refuse_call_fails run_before_fails split: option.splits)

lemma prepare_call_fails: "fails_with (\<lambda>e s. serr e) (prepare_call r tx (Some sink) req i call)"
  unfolding prepare_call_def Let_def emit_tool_start_def
  by (rule fails_with_bind [OF emit_fails])
    (auto intro: refuse_call_fails prepare_known_fails split: option.splits)

lemma finish_call_fails: "fails_with (\<lambda>e s. serr e) (finish_call (Some sink) t call res e1)"
  unfolding finish_call_def Let_def by (rule fails_with_bind [OF tool_end_fails fails_with_return])

lemma after_execute_fails: "fails_with (\<lambda>e s. serr e) (after_execute r tx (Some sink) req call res e1)"
  unfolding after_execute_def Let_def
  by (auto intro: finish_call_fails fails_with_handled split: option.splits)

lemma update_sink_fails:
  "update_sink (Some sink) t call ev s = (Inl e, s') \<Longrightarrow> \<exists>u. e = ErrUpdateEmit u \<and> serr u"
  using sink_err by (auto simp: update_sink_def Let_def io_try_def emit_event_def split: prod.splits sum.splits)

lemma update_sink_keeps: "keeps_gone gone (update_sink (Some sink) t call ev)"
  unfolding keeps_gone_striple update_sink_def Let_def
  by (rule triple_try [OF emit_keeps]) (simp_all add: triple_fail triple_return)

lemma execute_prepared_fails:
  assumes tool: "tool_errors_ok serr gone (rgTool (pcTool item))"
  shows "fails_with (\<lambda>e s. serr e \<or> gone s) (execute_prepared (evCtxErr env) r tx (Some sink) req item)"
proof -
  have err: "triple (\<lambda>s. \<forall>u. as_update_error e = Some u \<longrightarrow> serr u) (case as_update_error e of
        Some u \<Rightarrow> io_fail u
      | None \<Rightarrow> after_execute r tx (Some sink) req call (text_result (tx e)) True)
      (\<lambda>_ _. True) (\<lambda>e s. serr e)" for e call
    by (cases "as_update_error e") (auto intro: triple_fail triple_pre [OF after_execute_fails])
  have run: "triple (\<lambda>_. True) (tlExecute (rgTool (pcTool item)) c (update_sink (Some sink) t call))
      (\<lambda>_ _. True) (\<lambda>e s. \<forall>u. as_update_error e = Some u \<longrightarrow> serr u)" for c t call
  proof -
    have "serr u" if "tlExecute (rgTool (pcTool item)) c (update_sink (Some sink) t call) s = (Inl e, s')"
      "as_update_error e = Some u" for s e s' u
      using tool that update_sink_fails unfolding tool_errors_ok_def by blast
    then show ?thesis by (auto simp: triple_def split: sum.splits)
  qed
  have go: "fails_with (\<lambda>e s. serr e \<or> gone s) (io_try (tlExecute (rgTool (pcTool item)) c
        (update_sink (Some sink) (tqTurn req) call))
      (\<lambda>e. case as_update_error e of
             Some u \<Rightarrow> io_fail u
           | None \<Rightarrow> after_execute r tx (Some sink) req call (text_result (tx e)) True)
      (\<lambda>res. after_execute r tx (Some sink) req call res False))" for c call
    by (rule triple_err [OF triple_try [OF run err after_execute_fails]]) simp
  show ?thesis
    unfolding execute_prepared_def Let_def
  proof (rule triple_bind [OF ctx_triple])
    fix cancelled
    show "triple (\<lambda>s. cancelled \<noteq> None \<longrightarrow> gone s) (case cancelled of
        Some err \<Rightarrow> io_fail err
      | None \<Rightarrow> io_try (tlExecute (rgTool (pcTool item)) \<lparr>tkID = ccID (pcCall item),
            tkName = ccName (pcCall item), tkArguments = ccArguments (pcCall item)\<rparr>
            (update_sink (Some sink) (tqTurn req) (pcCall item)))
          (\<lambda>e. case as_update_error e of Some u \<Rightarrow> io_fail u
             | None \<Rightarrow> after_execute r tx (Some sink) req (pcCall item) (text_result (tx e)) True)
          (\<lambda>res. after_execute r tx (Some sink) req (pcCall item) res False))
      (\<lambda>_ _. True) (\<lambda>e s. serr e \<or> gone s)"
      by (cases cancelled) (auto intro: triple_fail triple_pre [OF go])
  qed
qed

lemma after_execute_keeps:
  assumes hooks: "runner_hooks_ok serr gone r"
  shows "striple gone (after_execute r tx (Some sink) req call res e) (\<lambda>_. gone) gone"
proof -
  have finish: "striple gone (finish_call (Some sink) t call res e) (\<lambda>_. gone) gone" for t call res e
    unfolding finish_call_def Let_def emit_tool_end_def
    by (rule triple_bind [OF emit_keeps], rule triple_return)
  show ?thesis
  proof (cases "rnAfter r")
    case None
    then show ?thesis by (simp add: after_execute_def finish)
  next
    case (Some h)
    have hook: "striple gone (h c) (\<lambda>_. gone) gone" for c
      using runner_hooks_okD(2) [OF hooks Some] by (simp add: keeps_gone_striple)
    show ?thesis unfolding after_execute_def Let_def Some option.case
      by (rule triple_try [OF hook]) (rule finish)+
  qed
qed

lemma execute_prepared_keeps:
  assumes hooks: "runner_hooks_ok serr gone r" and tool: "tool_errors_ok serr gone (rgTool (pcTool item))"
  shows "striple gone (execute_prepared (evCtxErr env) r tx (Some sink) req item) (\<lambda>_. gone) gone"
proof -
  have run: "striple gone (tlExecute (rgTool (pcTool item)) c (update_sink (Some sink) t call)) (\<lambda>_. gone) gone"
    for c t call
    using tool update_sink_keeps by (simp add: tool_errors_ok_def keeps_gone_striple [symmetric])
  have err: "striple gone (case as_update_error e of
         Some u \<Rightarrow> io_fail u
       | None \<Rightarrow> after_execute r tx (Some sink) req call (text_result (tx e)) True)
      (\<lambda>_. gone) gone" for e call
    by (cases "as_update_error e") (simp_all add: triple_fail after_execute_keeps [OF hooks])
  show ?thesis
    unfolding execute_prepared_def Let_def
  proof (rule triple_bind [OF ctx_keeps])
    fix cancelled
    show "striple gone (case cancelled of
        Some err \<Rightarrow> io_fail err
      | None \<Rightarrow> io_try (tlExecute (rgTool (pcTool item)) \<lparr>tkID = ccID (pcCall item),
            tkName = ccName (pcCall item), tkArguments = ccArguments (pcCall item)\<rparr>
            (update_sink (Some sink) (tqTurn req) (pcCall item)))
          (\<lambda>e. case as_update_error e of Some u \<Rightarrow> io_fail u
             | None \<Rightarrow> after_execute r tx (Some sink) req (pcCall item) (text_result (tx e)) True)
          (\<lambda>res. after_execute r tx (Some sink) req (pcCall item) res False)) (\<lambda>_. gone) gone"
      by (cases cancelled) (simp_all add: triple_fail triple_try [OF run err after_execute_keeps [OF hooks]])
  qed
qed

lemma tool_message_fails: "fails_with (\<lambda>e s. serr e) (emit_tool_message (Some sink) t m)"
  unfolding emit_tool_message_def emit_message_def by (rule fails_with_bind) (rule emit_fails)+

subsection \<open>Batches\<close>

lemma run_call_fails:
  assumes hooks: "runner_hooks_ok serr gone r"
  shows "fails_with (\<lambda>e s. serr e \<or> gone s) (run_call (evCtxErr env) r tx (Some sink) req i call)"
proof -
  have weaken: "fails_with (\<lambda>e s. serr e) m \<Longrightarrow> fails_with (\<lambda>e s. serr e \<or> gone s) m" for m :: "('s, 'b) io"
    by (erule triple_err) simp
  have message: "fails_with (\<lambda>e s. serr e \<or> gone s)
      (io_bind (emit_tool_message (Some sink) t (toMessage out)) (\<lambda>_. io_return out))" for t out
    by (rule fails_with_bind [OF triple_err [OF tool_message_fails] fails_with_return]) simp
  have execute: "fails_with (\<lambda>e s. serr e \<or> gone s) (case p of
      Inl item \<Rightarrow> execute_prepared (evCtxErr env) r tx (Some sink) req item
    | Inr out \<Rightarrow> io_return out)"
    if "case p of Inl item \<Rightarrow> tool_errors_ok serr gone (rgTool (pcTool item)) | Inr out \<Rightarrow> True" for p
    using that execute_prepared_fails by (cases p) (auto intro: fails_with_return)
  show ?thesis
    unfolding run_call_def
  proof (rule triple_result_conj [where R = "\<lambda>p. case p of
      Inl item \<Rightarrow> tool_errors_ok serr gone (rgTool (pcTool item)) | Inr out \<Rightarrow> True"])
    show "fails_with (\<lambda>e s. serr e \<or> gone s) (prepare_call r tx (Some sink) req i call)"
      by (rule triple_err [OF prepare_call_fails]) simp
    show "case p of Inl item \<Rightarrow> tool_errors_ok serr gone (rgTool (pcTool item)) | Inr out \<Rightarrow> True"
      if "prepare_call r tx (Some sink) req i call s = (Inr p, s')" for s p s'
      using prepare_call_tool [of r tx "Some sink" req i call s _ s'] that runner_hooks_okD(1) [OF hooks]
      by (cases p) auto
  qed (rule fails_with_bind [OF execute message])
qed

lemma sequential_calls_errors:
  assumes hooks: "runner_hooks_ok serr gone r"
  shows "sequential_calls (evCtxErr env) r tx (Some sink) req i os calls s = ((res, Some e), s') \<Longrightarrow>
    serr e \<or> gone s'"
proof (induction calls arbitrary: i os s)
  case (Cons call calls)
  obtain c s1 where c: "evCtxErr env s = (c, s1)" by (cases "evCtxErr env s")
  show ?case
  proof (cases c)
    case (Some e1)
    with Cons.prems c ctx_sets_gone show ?thesis by auto
  next
    case None
    obtain x s2 where run: "run_call (evCtxErr env) r tx (Some sink) req i call s1 = (x, s2)"
      by (cases "run_call (evCtxErr env) r tx (Some sink) req i call s1")
    show ?thesis
    proof (cases x)
      case (Inl e1)
      with tripleD(2) [OF run_call_fails [OF hooks] TrueI] run Cons.prems c None show ?thesis by auto
    next
      case (Inr out)
      with Cons.IH Cons.prems c None run show ?thesis by simp
    qed
  qed
qed simp

lemma prepare_all_fails:
  assumes hooks: "runner_hooks_ok serr gone r"
  shows "\<forall>item \<in> set ready. tool_errors_ok serr gone (rgTool (pcTool item)) \<Longrightarrow>
    triple (\<lambda>_. True) (prepare_all (evCtxErr env) r tx (Some sink) req i table ready calls)
      (\<lambda>x s. \<forall>item \<in> set (snd x). tool_errors_ok serr gone (rgTool (pcTool item)))
      (\<lambda>e s. serr e \<or> gone s)"
proof (induction calls arbitrary: i table ready)
  case Nil
  then show ?case unfolding prepare_all.simps by (intro triple_return) simp
next
  case (Cons call calls)
  let ?Q = "\<lambda>x s. \<forall>item \<in> set (snd x). tool_errors_ok serr gone (rgTool (pcTool item))"
  have step: "triple (\<lambda>_. True) (case p of
        Inr out \<Rightarrow> prepare_all (evCtxErr env) r tx (Some sink) req (Suc i) (table(i \<mapsto> out)) ready calls
      | Inl item \<Rightarrow> prepare_all (evCtxErr env) r tx (Some sink) req (Suc i) table (ready @ [item]) calls)
      ?Q (\<lambda>e s. serr e \<or> gone s)"
    if "case p of Inl item \<Rightarrow> tool_errors_ok serr gone (rgTool (pcTool item)) | Inr out \<Rightarrow> True" for p
    using that Cons.IH [of "ready @ [item]" for item] Cons.IH [of ready] Cons.prems by (cases p) auto
  have prep: "triple (\<lambda>_. True) (io_bind (prepare_call r tx (Some sink) req i call) (\<lambda>p. case p of
        Inr out \<Rightarrow> prepare_all (evCtxErr env) r tx (Some sink) req (Suc i) (table(i \<mapsto> out)) ready calls
      | Inl item \<Rightarrow> prepare_all (evCtxErr env) r tx (Some sink) req (Suc i) table (ready @ [item]) calls))
      ?Q (\<lambda>e s. serr e \<or> gone s)"
  proof (rule triple_result_conj [OF _ _ step])
    show "fails_with (\<lambda>e s. serr e \<or> gone s) (prepare_call r tx (Some sink) req i call)"
      by (rule triple_err [OF prepare_call_fails]) simp
    show "case p of Inl item \<Rightarrow> tool_errors_ok serr gone (rgTool (pcTool item)) | Inr out \<Rightarrow> True"
      if "prepare_call r tx (Some sink) req i call s = (Inr p, s')" for s p s'
      using prepare_call_tool [of r tx "Some sink" req i call s _ s'] that runner_hooks_okD(1) [OF hooks]
      by (cases p) auto
  qed
  show ?case
    unfolding prepare_all.simps
  proof (rule triple_bind [OF ctx_triple])
    fix cancelled
    show "triple (\<lambda>s. cancelled \<noteq> None \<longrightarrow> gone s) (case cancelled of
        Some err \<Rightarrow> io_fail err
      | None \<Rightarrow> io_bind (prepare_call r tx (Some sink) req i call) (\<lambda>p. case p of
          Inr out \<Rightarrow> prepare_all (evCtxErr env) r tx (Some sink) req (Suc i) (table(i \<mapsto> out)) ready calls
        | Inl item \<Rightarrow> prepare_all (evCtxErr env) r tx (Some sink) req (Suc i) table (ready @ [item]) calls))
        ?Q (\<lambda>e s. serr e \<or> gone s)"
      by (cases cancelled) (auto intro: triple_fail triple_pre [OF prep])
  qed
qed

lemma run_ready_errors:
  assumes hooks: "runner_hooks_ok serr gone r"
  shows "\<forall>item \<in> set items. tool_errors_ok serr gone (rgTool (pcTool item)) \<Longrightarrow>
    (\<forall>e. firstErr = Some e \<longrightarrow> serr e \<or> gone s) \<Longrightarrow>
    run_ready (evCtxErr env) r tx (Some sink) req table firstErr items s = ((table', Some e), s') \<Longrightarrow>
    serr e \<or> gone s'"
proof (induction items arbitrary: table firstErr s)
  case Nil
  then show ?case by simp
next
  case (Cons item items)
  have tool: "tool_errors_ok serr gone (rgTool (pcTool item))" using Cons.prems(1) by simp
  obtain y s1 where y: "execute_prepared (evCtxErr env) r tx (Some sink) req item s = (y, s1)"
    by (cases "execute_prepared (evCtxErr env) r tx (Some sink) req item s")
  have gone: "gone s \<Longrightarrow> gone s1"
    using triple_same_conj [OF execute_prepared_keeps [OF hooks tool] _ y] .
  have err: "y = Inl e1 \<Longrightarrow> serr e1 \<or> gone s1" for e1
    using tripleD(2) [OF execute_prepared_fails [OF tool] TrueI] y by blast
  have tools: "\<forall>item \<in> set items. tool_errors_ok serr gone (rgTool (pcTool item))" using Cons.prems(1) by simp
  have first: "\<forall>e. firstErr = Some e \<longrightarrow> serr e \<or> gone s1" using Cons.prems(2) gone by blast
  show ?case
  proof (cases y)
    case (Inl e1)
    let ?first = "if firstErr = None then Some e1 else firstErr"
    have "\<forall>e. ?first = Some e \<longrightarrow> serr e \<or> gone s1" using first err Inl by simp
    with Cons.IH [OF tools this] Cons.prems(3) y Inl show ?thesis by simp
  next
    case (Inr out)
    with Cons.IH [OF tools first] Cons.prems(3) y show ?thesis by simp
  qed
qed

lemma emit_outcomes_fails: "fails_with (\<lambda>e s. serr e) (emit_outcomes (Some sink) t os)"
proof (induction os)
  case Nil
  show ?case unfolding emit_outcomes.simps by (rule fails_with_return)
next
  case (Cons o1 os)
  then show ?case unfolding emit_outcomes.simps by (rule fails_with_bind [OF tool_message_fails])
qed

lemma parallel_outcomes_fails:
  assumes hooks: "runner_hooks_ok serr gone r" and fair: "fair_schedule sched"
  shows "fails_with (\<lambda>e s. serr e \<or> gone s) (parallel_outcomes sched (evCtxErr env) r tx (Some sink) req)"
proof -
  let ?T = "\<lambda>ready. \<forall>item \<in> set ready. tool_errors_ok serr gone (rgTool (pcTool item))"
  let ?E = "\<lambda>e s. serr e \<or> gone s"
  have run: "triple (\<lambda>s. ?T ready) (io_call (\<lambda>s. run_ready (evCtxErr env) r tx (Some sink) req
      table None (sched ready s) s)) (\<lambda>x s. \<forall>e. snd x = Some e \<longrightarrow> ?E e s) ?E" for table ready
  proof -
    have "?E e s'" if "?T ready"
      "run_ready (evCtxErr env) r tx (Some sink) req table None (sched ready s) s = ((t', Some e), s')"
      for s t' e s'
      by (rule run_ready_errors [OF hooks _ _ that(2)])
        (use that(1) fair in \<open>simp_all add: fair_schedule_def\<close>)
    then show ?thesis by (auto simp: triple_def io_call_def split: prod.splits sum.splits)
  qed
  have emit: "fails_with ?E (let os = table_outcomes n table in
      io_bind (emit_outcomes (Some sink) (tqTurn req) os) (\<lambda>_. io_return os))" for n table
    unfolding Let_def
    by (rule fails_with_bind [OF triple_err [OF emit_outcomes_fails] fails_with_return]) simp
  have ends: "triple (\<lambda>s. cancelled \<noteq> None \<longrightarrow> gone s) (case cancelled of
         Some e \<Rightarrow> io_fail e
       | None \<Rightarrow> (let os = table_outcomes n table in
           io_bind (emit_outcomes (Some sink) (tqTurn req) os) (\<lambda>_. io_return os))) (\<lambda>_ _. True) ?E"
    for cancelled n table
    by (cases cancelled) (auto intro: triple_fail triple_pre [OF emit])
  have after: "triple (\<lambda>s. \<forall>e. err = Some e \<longrightarrow> ?E e s) (case err of
       Some e \<Rightarrow> io_fail e
     | None \<Rightarrow> io_bind (io_call (evCtxErr env)) (\<lambda>cancelled. case cancelled of
         Some e \<Rightarrow> io_fail e
       | None \<Rightarrow> (let os = table_outcomes n table in
           io_bind (emit_outcomes (Some sink) (tqTurn req) os) (\<lambda>_. io_return os)))) (\<lambda>_ _. True) ?E"
    for err n table
    by (cases err) (auto intro: triple_fail triple_bind [OF ctx_triple ends])
  show ?thesis
    unfolding parallel_outcomes_def
  proof (rule triple_bind [OF prepare_all_fails [OF hooks]])
    fix x
    show "triple (\<lambda>s. ?T (snd x)) (case x of (table, ready) \<Rightarrow>
        io_bind (io_call (\<lambda>s. run_ready (evCtxErr env) r tx (Some sink) req table None (sched ready s) s))
          (\<lambda>(table', err). case err of
             Some e \<Rightarrow> io_fail e
           | None \<Rightarrow> io_bind (io_call (evCtxErr env)) (\<lambda>cancelled. case cancelled of
               Some e \<Rightarrow> io_fail e
             | None \<Rightarrow> (let os = table_outcomes (length (tqCalls req)) table' in
                 io_bind (emit_outcomes (Some sink) (tqTurn req) os) (\<lambda>_. io_return os)))))
        (\<lambda>_ _. True) ?E"
    proof (cases x)
      case (Pair table ready)
      show ?thesis
        unfolding Pair prod.case snd_conv
        by (rule triple_bind [OF run]) (simp only: case_prod_beta after)
    qed
  qed simp
qed

lemma execute_tools_errors_ok:
  assumes hooks: "runner_hooks_ok serr gone r" and fair: "fair_schedule sched"
  shows "runner_errors_ok serr gone (Some sink) (execute_tools sched (evCtxErr env) r tx)"
  unfolding runner_errors_ok_def
proof (intro allI impI)
  fix req s batch e s'
  assume run: "execute_tools sched (evCtxErr env) r tx (Some sink) req s = ((batch, Some e), s')"
  show "serr e \<or> gone s'"
  proof (cases "tqCalls req = [] \<or> batch_mode r (tqCalls req) = ExecutionModeSequential")
    case True
    with run sequential_calls_errors [OF hooks] show ?thesis
      by (auto simp: execute_tools_def execute_sequential_def split: if_splits)
  next
    case False
    with run have "parallel_outcomes sched (evCtxErr env) r tx (Some sink) req s = (Inl e, s')"
      by (auto simp: execute_tools_def execute_parallel_def split: prod.splits sum.splits)
    from tripleD(2) [OF parallel_outcomes_fails [OF hooks fair] TrueI this] show ?thesis .
  qed
qed

lemma missing_calls_fails: "fails_with (\<lambda>e s. serr e) (missing_runner_calls (Some sink) t calls)"
proof (induction calls)
  case Nil
  show ?case unfolding missing_runner_calls.simps by (rule fails_with_return)
next
  case (Cons call calls)
  have "fails_with (\<lambda>e s. serr e) (missing_runner_call (Some sink) t call)"
    unfolding missing_runner_call_def Let_def emit_tool_start_def emit_message_def
    by (intro fails_with_bind emit_fails fails_with_return)
  then show ?case
    unfolding missing_runner_calls.simps
    by (rule fails_with_bind) (rule fails_with_bind [OF Cons.IH fails_with_return])
qed

lemma missing_runner_errors_ok: "runner_errors_ok serr gone (Some sink) missing_runner"
  using tripleD(2) [OF missing_calls_fails TrueI]
  by (auto simp: runner_errors_ok_def missing_runner_def split: prod.splits sum.splits)

end

end
