(* ===== verification/AgentSafety.thy ===== *)
theory AgentSafety
  imports Agent ToolRunnerErrors
begin

text \<open>
  A run of the agent keeps the contract of the loop and of the tool runner: the agent's own event sink
  and context are an interpretation of \<open>cancellable_run\<close>, whatever the listeners and the parent
  context do. \<open>run_inv\<close> ties the agent's state to the events it has published.
\<close>

subsection \<open>The state of a run\<close>

definition end_observed :: "agent_event list \<Rightarrow> bool" where
  "end_observed evs \<longleftrightarrow> (\<exists>ev \<in> set evs. evType ev = AgentEventAgentEnd)"

definition run_inv :: "message_list \<Rightarrow> ('l, 'w) agent \<Rightarrow> bool" where
  "run_inv base a \<longleftrightarrow>
     (case agActive a of
        None \<Rightarrow> False
      | Some run \<Rightarrow> arObserved run = end_observed (agLog a)) \<and>
     stMessages (agState a) = base @ ended_messages (agLog a)"

definition run_log :: "message_list \<Rightarrow> ('l, 'w) agent \<Rightarrow> agent_event list option" where
  "run_log base a = (if run_inv base a then Some (agLog a) else None)"

definition run_gone :: "('l, 'w) agent \<Rightarrow> bool" where
  "run_gone a \<longleftrightarrow> (case agActive a of None \<Rightarrow> True | Some run \<Rightarrow> arCtxErr run \<noteq> None)"

definition calls_only :: "(('l, 'w) agent \<Rightarrow> 'a \<times> ('l, 'w) agent) \<Rightarrow> bool" where
  "calls_only m \<longleftrightarrow> (\<forall>a. \<exists>cs. snd (m a) = apply_calls cs a)"

lemma cancel_run_simps [simp]:
  "arObserved (cancel_run e run) = arObserved run"
  "arCtxErr (cancel_run e run) \<noteq> None"
  by (simp_all add: cancel_run_def)

lemma run_log_Some: "run_log base a = Some l \<longleftrightarrow> run_inv base a \<and> agLog a = l"
  by (auto simp: run_log_def)

lemmas method_defs = agent_steer_def agent_follow_up_def clear_steering_queue_def
  clear_follow_up_queue_def clear_all_queues_def set_steering_mode_def set_follow_up_mode_def
  agent_listen_def agent_unsubscribe_def agent_abort_def agent_reset_def queue_take_all_def

lemma apply_call_log: "agLog (apply_call c a) = agLog a"
  by (cases c) (simp_all add: method_defs Let_def split: prod.split option.split)

lemma apply_call_active:
  "agActive (apply_call c a) =
     (if c = CallAbort then map_option (cancel_run ErrContextCanceled) (agActive a) else agActive a)"
  by (cases c) (simp_all add: method_defs Let_def split: prod.split option.split)

lemma apply_call_messages:
  "agActive a \<noteq> None \<Longrightarrow> stMessages (agState (apply_call c a)) = stMessages (agState a)"
  by (cases c) (simp_all add: method_defs Let_def split: prod.split option.split)

lemma apply_call_run:
  "agLog (apply_call c a) = agLog a"
  "run_inv base a \<Longrightarrow> run_inv base (apply_call c a)"
  "run_gone a \<Longrightarrow> run_gone (apply_call c a)"
proof -
  show "agLog (apply_call c a) = agLog a" by (rule apply_call_log)
  show "run_inv base a \<Longrightarrow> run_inv base (apply_call c a)"
    using apply_call_messages [of a c]
    by (cases "agActive a") (simp_all add: run_inv_def apply_call_active apply_call_log del: apply_call.simps)
  show "run_gone a \<Longrightarrow> run_gone (apply_call c a)"
    by (cases "agActive a") (simp_all add: run_gone_def apply_call_active cancel_run_def del: apply_call.simps)
qed

lemma apply_calls_run:
  "agLog (apply_calls cs a) = agLog a"
  "run_inv base a \<Longrightarrow> run_inv base (apply_calls cs a)"
  "run_gone a \<Longrightarrow> run_gone (apply_calls cs a)"
  by (induction cs arbitrary: a) (simp_all add: apply_calls_def apply_call_run)

lemma apply_calls_log: "run_log base a = Some l \<Longrightarrow> run_log base (apply_calls cs a) = Some l"
  by (simp add: run_log_Some apply_calls_run)

lemma calls_only_log: "calls_only m \<Longrightarrow> keeps_log (run_log base) m"
  by (auto simp: calls_only_def keeps_log_def) (metis apply_calls_log)

lemma calls_only_gone: "calls_only m \<Longrightarrow> keeps_gone run_gone m"
  by (auto simp: calls_only_def keeps_gone_def) (metis apply_calls_run(3))

subsection \<open>The sink and the context\<close>

lemma notify_run:
  "notify su ev st ls a = (errs, a') \<Longrightarrow> \<exists>cs. a' = apply_calls cs a"
proof (induction ls arbitrary: a errs a')
  case Nil
  then show ?case by (auto simp: apply_calls_def intro: exI [of _ "[]"])
next
  case (Cons l ls)
  obtain err cs where l: "suListener su l ev st a = (err, cs)" by (cases "suListener su l ev st a")
  obtain errs1 a1 where ls: "notify su ev st ls (apply_calls cs a) = (errs1, a1)"
    by (cases "notify su ev st ls (apply_calls cs a)")
  from Cons.IH [OF ls] obtain cs' where "a1 = apply_calls cs' (apply_calls cs a)" by blast
  then have "a1 = apply_calls (cs @ cs') a" by (simp add: apply_calls_def)
  with Cons.prems l ls show ?case by (auto split: option.splits)
qed

lemma reduce_locked_run:
  "run_inv base a \<Longrightarrow> run_inv base ((reduce_agent_event_locked ev a)\<lparr>agLog := agLog a @ [ev]\<rparr>)"
  using ended_messages_simps(2) [of "[]" ev]
  by (auto simp: run_inv_def reduce_agent_event_locked_def reduce_messages end_observed_def
      split: option.splits)

lemma reduce_locked_gone:
  "run_gone a \<Longrightarrow> run_gone ((reduce_agent_event_locked ev a)\<lparr>agLog := l\<rparr>)"
  by (auto simp: run_gone_def reduce_agent_event_locked_def split: option.splits)

lemma process_event_calls:
  "\<exists>cs. snd (process_event su ev a) =
     apply_calls cs ((reduce_agent_event_locked ev a)\<lparr>agLog := agLog a @ [ev]\<rparr>)"
proof -
  let ?a = "(reduce_agent_event_locked ev a)\<lparr>agLog := agLog a @ [ev]\<rparr>"
  obtain errs a2 where n: "notify su ev (agState ?a) (listener_snapshot ?a) ?a = (errs, a2)"
    by (cases "notify su ev (agState ?a) (listener_snapshot ?a) ?a")
  with notify_run [OF n] show ?thesis by (auto simp: process_event_def Let_def)
qed

lemma process_event_log:
  "run_log base a = Some l \<Longrightarrow> run_log base (snd (process_event su ev a)) = Some (l @ [ev])"
  using process_event_calls [of su ev a] reduce_locked_run [of base a ev]
  by (auto simp: run_log_Some apply_calls_run)

lemma process_event_gone: "keeps_gone run_gone (process_event su ev)"
  unfolding keeps_gone_def
proof (intro allI impI)
  fix a :: "('a, 'b) agent"
  assume gone: "run_gone a"
  obtain cs where "snd (process_event su ev a) =
      apply_calls cs ((reduce_agent_event_locked ev a)\<lparr>agLog := agLog a @ [ev]\<rparr>)"
    using process_event_calls by blast
  with reduce_locked_gone [OF gone] show "run_gone (snd (process_event su ev a))"
    by (simp add: apply_calls_run(3))
qed

lemma process_event_err: "process_event su ev a = (Inl e, a') \<Longrightarrow> is_listener_error e"
  by (auto simp: process_event_def Let_def split: prod.splits if_splits)

lemma cancel_state:
  assumes "agActive a = Some run"
  shows "run_inv base a \<Longrightarrow> run_inv base (a\<lparr>agActive := Some (cancel_run e run)\<rparr>)"
    "run_gone (a\<lparr>agActive := Some (cancel_run e run)\<rparr>)"
  using assms cancel_run_simps(2) [of e run] by (simp_all add: run_inv_def run_gone_def del: not_None_eq)

lemma run_ctx_err_log: "keeps_log (run_log base) (run_ctx_err su)"
  unfolding keeps_log_def
proof (intro allI impI)
  fix a :: "('a, 'b) agent" and l
  assume l: "run_log base a = Some l"
  obtain run where run: "agActive a = Some run"
    using l by (cases "agActive a") (simp_all add: run_log_Some run_inv_def)
  note cancelled = cancel_state(1) [OF run]
  show "run_log base (snd (run_ctx_err su a)) = Some l"
    using l cancelled by (auto simp: run_ctx_err_def run run_log_Some apply_calls_run
        split: option.splits prod.splits)
qed

lemma run_ctx_err_gone:
  "run_gone a \<Longrightarrow> fst (run_ctx_err su a) \<noteq> None"
  "run_ctx_err su a = (Some e, a') \<Longrightarrow> run_gone a'"
  "keeps_gone run_gone (run_ctx_err su)"
proof -
  show "run_gone a \<Longrightarrow> fst (run_ctx_err su a) \<noteq> None"
    by (auto simp: run_ctx_err_def run_gone_def split: option.splits prod.splits)
  show "run_ctx_err su a = (Some e, a') \<Longrightarrow> run_gone a'"
    by (auto simp: run_ctx_err_def run_gone_def [of a] intro!: apply_calls_run(3) cancel_state(2)
        split: option.splits prod.splits)
      (simp_all add: run_gone_def)
  show "keeps_gone run_gone (run_ctx_err su)"
    unfolding keeps_gone_def
    by (auto simp: run_ctx_err_def split: option.splits prod.splits
        intro!: apply_calls_run(3) cancel_state(2))
qed

interpretation agent_run: cancellable_run "agent_env su" "run_log base" "process_event su" subseq
  is_listener_error run_gone for su :: "('l, 'w) agent_setup" and base
proof
  show "evEmit (agent_env su) = Some (process_event su)" by (simp add: agent_env_def)
  show "keeps_log (run_log base) (evCtxErr (agent_env su))"
    by (simp add: agent_env_def run_ctx_err_log)
  show "run_log base s = Some l \<Longrightarrow> run_log base (snd (process_event su ev s)) = Some (l @ [ev])"
    for s l ev by (rule process_event_log)
  show "process_event su ev s = (Inl e, s') \<Longrightarrow> is_listener_error e" for ev s e s'
    by (rule process_event_err)
  show "run_gone s \<Longrightarrow> fst (evCtxErr (agent_env su) s) \<noteq> None" for s
    by (simp add: agent_env_def run_ctx_err_gone(1) del: not_None_eq)
  show "subseq ms ms" for ms :: message_list by simp
  show "subseq as bs \<Longrightarrow> subseq cs ds \<Longrightarrow> subseq (as @ cs) (bs @ ds)" for as bs cs ds :: message_list
    by (rule list_emb_append_mono)
  show "subseq (as @ bs) cs \<Longrightarrow> subseq as cs" for as bs cs :: message_list
    by (meson prefix_order.dual_order.refl subseq_order.order_trans subseq_append prefixI prefix_imp_subseq)
  show "evCtxErr (agent_env su) s = (Some e, s') \<Longrightarrow> run_gone s'" for s e s'
    by (simp add: agent_env_def) (rule run_ctx_err_gone(2))
  show "keeps_gone run_gone (evCtxErr (agent_env su))" by (simp add: agent_env_def run_ctx_err_gone(3))
  show "keeps_gone run_gone (process_event su ev)" for ev by (rule process_event_gone)
qed

text \<open>When no listener fails, no event of the run does.\<close>

definition quiet_listeners :: "('l, 'w) agent_setup \<Rightarrow> bool" where
  "quiet_listeners su \<longleftrightarrow> (\<forall>l ev st a. fst (suListener su l ev st a) = None)"

lemma notify_quiet: "quiet_listeners su \<Longrightarrow> fst (notify su ev st ls a) = []"
proof (induction ls arbitrary: a)
  case (Cons l ls)
  obtain err cs where l: "suListener su l ev st a = (err, cs)" by (cases "suListener su l ev st a")
  with Cons.prems have "err = None" unfolding quiet_listeners_def by (metis fst_conv)
  with l Cons show ?case by (simp add: split_beta)
qed simp

lemma quiet_run:
  assumes quiet: "quiet_listeners su"
  shows "cancellable_run (agent_env su) (run_log base) (process_event su) subseq (\<lambda>_. False) run_gone"
proof unfold_locales
  show "False" if "process_event su ev a = (Inl e, a')" for ev a e a'
    using that notify_quiet [OF quiet] by (auto simp: process_event_def Let_def split: prod.splits if_splits)
      (metis fst_conv)
qed (rule agent_run.has_sink agent_run.ctx_log agent_run.sink_log agent_run.ctx_gone agent_run.rel_refl
  agent_run.rel_append agent_run.rel_drop agent_run.ctx_sets_gone agent_run.ctx_keeps_gone
  agent_run.sink_keeps_gone; assumption?)+

subsection \<open>The surroundings of a run\<close>

text \<open>What a tool may do while it executes: call the agent's methods and send updates.\<close>

inductive tool_steps ::
  "(agent_event \<Rightarrow> (('l, 'w) agent, unit) io) \<Rightarrow> ('l, 'w) agent \<Rightarrow> ('l, 'w) agent \<Rightarrow> bool" for upd where
  steps_none: "tool_steps upd a a"
| steps_calls: "tool_steps upd a b \<Longrightarrow> tool_steps upd a (apply_calls cs b)"
| steps_update: "tool_steps upd a b \<Longrightarrow> tool_steps upd a (snd (upd ev b))"

text \<open>An error of the update sink is returned only if the sink gave it.\<close>

definition update_errors :: "'s tool \<Rightarrow> bool" where
  "update_errors tool \<longleftrightarrow>
     (\<forall>call upd P. (\<forall>ev s e s'. upd ev s = (Inl e, s') \<longrightarrow> (\<exists>u. e = ErrUpdateEmit u \<and> P u)) \<longrightarrow>
        (\<forall>s e s' u. tlExecute tool call upd s = (Inl e, s') \<longrightarrow> as_update_error e = Some u \<longrightarrow> P u))"

definition tool_behaves :: "('l, 'w) agent tool \<Rightarrow> bool" where
  "tool_behaves tool \<longleftrightarrow>
     (\<forall>raw. calls_only (tlPrepare tool raw)) \<and>
     (\<forall>call upd a. tool_steps upd a (snd (tlExecute tool call upd a))) \<and>
     update_errors tool"

definition runner_behaves :: "('l, 'w) agent runner \<Rightarrow> bool" where
  "runner_behaves r \<longleftrightarrow>
     (\<forall>name item. registry_lookup (rnRegistry r) name = Some item \<longrightarrow> tool_behaves (rgTool item)) \<and>
     (\<forall>h c. rnBefore r = Some h \<longrightarrow> calls_only (h c)) \<and>
     (\<forall>h c. rnAfter r = Some h \<longrightarrow> calls_only (h c))"

lemma update_errorsD:
  assumes "update_errors tool" "\<And>ev s e s'. upd ev s = (Inl e, s') \<Longrightarrow> \<exists>u. e = ErrUpdateEmit u \<and> P u"
    and "tlExecute tool call upd s = (Inl e, s')" "as_update_error e = Some u"
  shows "P u"
  by (rule assms(1) [unfolded update_errors_def, rule_format, OF assms(2) assms(3,4)])

lemma tool_behaves_ok:
  assumes "tool_behaves tool"
  shows "tool_ok (run_log base) tool" "tool_errors_ok serr run_gone tool"
proof -
  have prepare: "calls_only (tlPrepare tool raw)"
    and steps: "tool_steps upd a (snd (tlExecute tool call upd a))"
    and errors: "update_errors tool" for raw upd a call
    using assms by (simp_all add: tool_behaves_def)
  have sees: "sees (run_log base) Q b"
    if "tool_steps upd a b" "\<And>ev s. sees (run_log base) Q s \<Longrightarrow> sees (run_log base) Q (snd (upd ev s))"
      "sees (run_log base) Q a" for upd :: "agent_event \<Rightarrow> (('a, 'b) agent, unit) io" and a b Q
    using that
  proof (induction rule: tool_steps.induct)
    case (steps_calls a b cs)
    then show ?case by (auto simp: sees_def dest: apply_calls_log)
  qed auto
  have gone: "run_gone b" if "tool_steps upd a b" "\<And>ev. keeps_gone run_gone (upd ev)" "run_gone a"
    for upd :: "agent_event \<Rightarrow> (('a, 'b) agent, unit) io" and a b
    using that
  proof (induction rule: tool_steps.induct)
    case (steps_calls a b cs)
    then show ?case by (simp add: apply_calls_run(3))
  next
    case (steps_update a b ev)
    then show ?case by (simp add: keeps_gone_def)
  qed
  show "tool_ok (run_log base) tool"
    unfolding tool_ok_def using calls_only_log [OF prepare] sees [OF steps] by blast
  show "tool_errors_ok serr run_gone tool"
    unfolding tool_errors_ok_def
  proof (intro conjI allI impI)
    fix call and upd :: "agent_event \<Rightarrow> (('a, 'b) agent, unit) io"
    assume "\<forall>ev. keeps_gone run_gone (upd ev)"
    then show "keeps_gone run_gone (tlExecute tool call upd)"
      using gone [OF steps] unfolding keeps_gone_def [of _ "tlExecute tool call upd"] by blast
  next
    fix call and upd :: "agent_event \<Rightarrow> (('a, 'b) agent, unit) io" and s e s' u
    assume upd: "\<forall>ev s e s'. upd ev s = (Inl e, s') \<longrightarrow> (\<exists>u. e = ErrUpdateEmit u \<and> serr u)"
      and run: "tlExecute tool call upd s = (Inl e, s')" "as_update_error e = Some u"
    show "serr u" by (rule update_errorsD [OF errors upd [rule_format] run])
  qed
qed

definition agent_runner :: "('l, 'w) agent_setup \<Rightarrow> ('l, 'w) agent tool_runner \<Rightarrow> bool" where
  "agent_runner su run \<longleftrightarrow>
     (\<exists>sched r tx. fair_schedule sched \<and> runner_behaves r \<and>
        run = execute_tools sched (run_ctx_err su) r tx)"

lemma agent_runner_ok:
  fixes su :: "('l, 'w) agent_setup"
  assumes env: "cancellable_run (agent_env su) (run_log base) (process_event su) subseq serr run_gone"
    and "agent_runner su run"
  shows "runner_ok subseq serr run_gone (run_log base) (Some (process_event su)) run"
proof -
  obtain sched r tx where fair: "fair_schedule sched" and r: "runner_behaves r"
    and run: "run = execute_tools sched (evCtxErr (agent_env su)) r tx"
    using assms(2) by (auto simp: agent_runner_def agent_env_def)
  have "runner_tools_ok (run_log base) r" "runner_hooks_ok serr run_gone r"
    using r
    unfolding runner_behaves_def runner_tools_ok_def runner_hooks_ok_def
    by (blast intro: tool_behaves_ok calls_only_log calls_only_gone)+
  then show ?thesis
    unfolding run
    by (intro lossy_run.execute_tools_runner_ok [OF cancellable_run.axioms(1) [OF env]]
        cancellable_run.execute_tools_errors_ok [OF env] fair)
qed

lemma missing_runner_agent_ok:
  assumes env: "cancellable_run (agent_env su) (run_log base) (process_event su) subseq serr run_gone"
  shows "runner_ok subseq serr run_gone (run_log base) (Some (process_event su)) missing_runner"
  by (rule lossy_run.missing_runner_ok [OF cancellable_run.axioms(1) [OF env]
      cancellable_run.missing_runner_errors_ok [OF env]])

text \<open>
  The provider answers with a stream that opens before it streams; the hooks, the provider and the
  queue fallbacks reach the agent by its methods only.
\<close>

definition hook_calls :: "('x \<Rightarrow> ('l, 'w) agent \<Rightarrow> 'a \<times> ('l, 'w) agent) option \<Rightarrow> bool" where
  "hook_calls h \<longleftrightarrow> (\<forall>f x. h = Some f \<longrightarrow> calls_only (f x))"

definition opens_first :: "(stream_request \<Rightarrow> ('s, stream_reading option) io) \<Rightarrow> bool" where
  "opens_first f \<longleftrightarrow> (\<forall>req s events ending s'. f req s = (Inr (Some (events, ending)), s') \<longrightarrow>
     reading_ok False events ending)"

definition gives_runners ::
  "('l, 'w) agent_setup \<Rightarrow> (turn_context \<Rightarrow> (('l, 'w) agent, ('l, 'w) agent turn_update) io) \<Rightarrow> bool" where
  "gives_runners su f \<longleftrightarrow>
     (\<forall>tc s u s' run. f tc s = (Inr u, s') \<longrightarrow> tuRunner u = Some run \<longrightarrow> agent_runner su run)"

definition setup_ok :: "('l, 'w) agent_setup \<Rightarrow> bool" where
  "setup_ok su \<longleftrightarrow>
     (let cfg = suConfig su in
      cfStream cfg \<noteq> None \<and> hook_calls (cfStream cfg) \<and> opens_first (the (cfStream cfg)) \<and>
      (case cfRunner cfg of None \<Rightarrow> True | Some run \<Rightarrow> agent_runner su run) \<and>
      hook_calls (cfPrepareNextTurn cfg) \<and>
      (case cfPrepareNextTurn cfg of None \<Rightarrow> True | Some f \<Rightarrow> gives_runners su f) \<and>
      hook_calls (cfTransformContext cfg) \<and> hook_calls (cfConvertToLLM cfg) \<and>
      hook_calls (cfShouldStop cfg) \<and>
      (case cfSteering cfg of None \<Rightarrow> True | Some f \<Rightarrow> calls_only f) \<and>
      (case cfFollowUp cfg of None \<Rightarrow> True | Some f \<Rightarrow> calls_only f))"

lemma hook_callsD: "hook_calls h \<Longrightarrow> h = Some f \<Longrightarrow> keeps_log (run_log base) (f x)"
  unfolding hook_calls_def by (rule calls_only_log) simp

lemma setup_okD:
  assumes "setup_ok su"
  shows "cfStream (suConfig su) \<noteq> None" "hook_calls (cfStream (suConfig su))"
    "cfStream (suConfig su) = Some f \<Longrightarrow> opens_first f"
    "cfRunner (suConfig su) = Some run \<Longrightarrow> agent_runner su run"
    "hook_calls (cfPrepareNextTurn (suConfig su))"
    "cfPrepareNextTurn (suConfig su) = Some g \<Longrightarrow> gives_runners su g"
    "hook_calls (cfTransformContext (suConfig su))" "hook_calls (cfConvertToLLM (suConfig su))"
    "hook_calls (cfShouldStop (suConfig su))"
    "cfSteering (suConfig su) = Some m \<Longrightarrow> calls_only m"
    "cfFollowUp (suConfig su) = Some m \<Longrightarrow> calls_only m"
  using assms by (simp_all add: setup_ok_def Let_def)

lemma queue_field_run [simp]:
  "run_inv base (a\<lparr>agSteering := q\<rparr>) = run_inv base a"
  "run_inv base (a\<lparr>agFollowUp := q\<rparr>) = run_inv base a"
  by (cases "agActive a"; simp add: run_inv_def)+

lemma source_log:
  fixes fallback :: "(('l, 'w) agent, message_list) io option"
  assumes "\<And>f. fallback = Some f \<Longrightarrow> calls_only f"
  shows "keeps_log (run_log base) (steering_source fallback)"
    "keeps_log (run_log base) (follow_up_source fallback)"
proof -
  have fallback: "run_log base (snd (f a)) = Some l" if "fallback = Some f" "run_log base a = Some l"
    for f and a :: "('l, 'w) agent" and l
    using calls_only_log [OF assms [OF that(1)]] that(2) unfolding keeps_log_def by blast
  have skip: "run_inv base a \<Longrightarrow>
      run_inv base (a\<lparr>agActive := map_option (\<lambda>run. run\<lparr>arSkipSteering := False\<rparr>) (agActive a)\<rparr>)"
    for a :: "('l, 'w) agent"
    by (auto simp: run_inv_def split: option.splits)
  show "keeps_log (run_log base) (steering_source fallback)"
    unfolding keeps_log_def
  proof (intro allI impI)
    fix a :: "('l, 'w) agent" and l
    assume a: "run_log base a = Some l"
    then have q: "run_log base (a\<lparr>agSteering := q\<rparr>) = Some l" for q by (simp add: run_log_Some)
    show "run_log base (snd (steering_source fallback a)) = Some l"
      unfolding steering_source_def
      using a q fallback [OF _ q] skip
      by (cases fallback) (auto simp: run_log_Some split: prod.split)
  qed
  show "keeps_log (run_log base) (follow_up_source fallback)"
    unfolding keeps_log_def
  proof (intro allI impI)
    fix a :: "('l, 'w) agent" and l
    assume a: "run_log base a = Some l"
    then have q: "run_log base (a\<lparr>agFollowUp := q\<rparr>) = Some l" for q by (simp add: run_log_Some)
    show "run_log base (snd (follow_up_source fallback a)) = Some l"
      unfolding follow_up_source_def
      using a q fallback [OF _ q]
      by (cases fallback) (auto simp: run_log_Some split: prod.split)
  qed
qed

lemma run_config_ok:
  assumes env: "cancellable_run (agent_env su) (run_log base) (process_event su) subseq serr run_gone"
    and su_ok: "setup_ok su"
  shows "config_ok subseq serr run_gone (run_log base) (Some (process_event su))
    (loop_config_for_run su a)"
proof -
  let ?cfg = "loop_config_for_run su a"
  have same: "cfStream ?cfg = cfStream (suConfig su)" "cfPrepareNextTurn ?cfg = cfPrepareNextTurn (suConfig su)"
    "cfTransformContext ?cfg = cfTransformContext (suConfig su)"
    "cfConvertToLLM ?cfg = cfConvertToLLM (suConfig su)" "cfShouldStop ?cfg = cfShouldStop (suConfig su)"
    "cfSteering ?cfg = Some (steering_source (cfSteering (suConfig su)))"
    "cfFollowUp ?cfg = Some (follow_up_source (cfFollowUp (suConfig su)))"
    "cfRunner ?cfg = cfRunner (suConfig su)"
    by (simp_all add: loop_config_for_run_def Let_def)
  note ok = setup_okD [OF su_ok]
  have "stream_ok (run_log base) ?cfg"
    unfolding stream_ok_def same using ok(1,3) hook_callsD [OF ok(2)] unfolding opens_first_def by blast
  moreover have "runner_ok subseq serr run_gone (run_log base) (Some (process_event su))
      (active_runner ?cfg)"
    unfolding active_runner_def same
    using ok(4) agent_runner_ok [OF env] missing_runner_agent_ok [OF env] by (cases "cfRunner (suConfig su)") auto
  moreover have "prepare_ok subseq serr run_gone (run_log base) (Some (process_event su)) ?cfg"
    unfolding prepare_ok_def same using ok(6) hook_callsD [OF ok(5)] agent_runner_ok [OF env]
    unfolding gives_runners_def by blast
  moreover have "hooks_ok (run_log base) ?cfg"
    unfolding hooks_ok_def same
    using hook_callsD [OF ok(7)] hook_callsD [OF ok(8)] hook_callsD [OF ok(9)]
      source_log(1) [OF ok(10)] source_log(2) [OF ok(11)] by simp
  ultimately show ?thesis by (simp add: config_ok_def)
qed

end
