(* ===== verification/AgentRuns.thy ===== *)
theory AgentRuns
  imports AgentSafety
begin

text \<open>
  What a caller of \<open>Prompt\<close> and \<open>Continue\<close> gets: the published events keep to the protocol, the run is
  over when the call returns, the agent is idle again and its history has grown by exactly the
  messages that were published as ended.
\<close>

definition run_answer :: "int \<Rightarrow> message_list \<times> go_error option \<Rightarrow> agent_event list \<Rightarrow> bool" where
  "run_answer bound ans evs \<longleftrightarrow>
     (\<exists>q. scan_events trace_start evs = Some q \<and>
        (case snd ans of
           None \<Rightarrow> trEnded q \<and> \<not> trInTurn q \<and> trTurn q \<le> bound \<and> subseq (fst ans) (trMessages q)
         | Some e \<Rightarrow> is_listener_error e \<or> trEnded q))"

definition idle_after :: "message_list \<Rightarrow> ('l, 'w) agent \<Rightarrow> bool" where
  "idle_after base a \<longleftrightarrow> agActive a = None \<and> stPhase (agState a) = AgentPhaseIdle \<and>
     \<not> stIsStreaming (agState a) \<and> stStreamingMessage (agState a) = NilMessage \<and>
     stPendingToolCalls (agState a) = [] \<and>
     stMessages (agState a) = base @ ended_messages (agLog a)"

lemma event_step_ended:
  "event_step q ev = Some q' \<Longrightarrow> trEnded q' \<longleftrightarrow> trEnded q \<or> evType ev = AgentEventAgentEnd"
  by (auto simp: event_step_def split: agent_event_type.splits if_splits)

lemma scan_ended: "scan_events q evs = Some q' \<Longrightarrow> trEnded q' \<longleftrightarrow> trEnded q \<or> end_observed evs"
proof (induction evs arbitrary: q)
  case (Cons ev evs)
  then show ?case
    by (auto simp: end_observed_def dest: event_step_ended split: option.splits)
qed (simp add: end_observed_def)

lemma event_step_messages:
  "event_step q ev = Some q' \<Longrightarrow>
     trMessages q' = trMessages q @ (if evType ev = AgentEventMessageEnd then [evMessage ev] else [])"
  by (auto simp: event_step_def split: agent_event_type.splits if_splits)

lemma scan_messages:
  "scan_events q evs = Some q' \<Longrightarrow>
     trMessages q' = trMessages q @ map evMessage (filter (\<lambda>ev. evType ev = AgentEventMessageEnd) evs)"
proof (induction evs arbitrary: q)
  case (Cons ev evs)
  then show ?case by (auto dest: event_step_messages split: option.splits)
qed simp

lemma scan_not_ended:
  "scan_events trace_start evs = Some q \<Longrightarrow> \<not> trEnded q \<Longrightarrow> \<not> end_observed evs"
  by (simp add: scan_ended)

lemma sees_run:
  "sees (run_log base) P a \<longleftrightarrow>
     run_inv base a \<and> (\<exists>q. scan_events trace_start (agLog a) = Some q \<and> P q)"
  by (auto simp: sees_def run_log_Some)

lemma emit_failure_triple:
  fixes su :: "('l, 'w) agent_setup"
  shows "triple (sees (run_log base) (q_turn subseq 1 False new)) (emit_failure su cfg err reason)
     (\<lambda>_. sees (run_log base) trEnded) (accepted is_listener_error (run_log base))"
  unfolding emit_failure_def Let_def
proof (rule triple_bind [OF agent_run.message_start_triple], rule triple_bind [OF agent_run.message_end_triple],
    rule triple_bind [OF agent_run.turn_end_triple], rule triple_strengthen [OF agent_run.agent_end_triple])
qed (auto simp: q_ended_def elim: sees_mono)

lemma run_ctx_err_sees:
  "run_ctx_err su a = (e, a') \<Longrightarrow> sees (run_log base) P a \<Longrightarrow> sees (run_log base) P a'"
  using run_ctx_err_log [of base su] unfolding keeps_log_def sees_def by (metis snd_conv)

lemma failed_run_answer:
  fixes su :: "('l, 'w) agent_setup"
  assumes turn: "sees (run_log base) (q_turn subseq 1 False new) a"
    and err: "\<not> is_listener_error err"
    and answer: "maybe_emit_failure su cfg (Inl err) a = (ans, a')"
  shows "run_answer bound ans (agLog a') \<and> run_inv base a'"
proof -
  from turn obtain q where q: "scan_events trace_start (agLog a) = Some q" "\<not> trEnded q"
    and inv: "run_inv base a" by (auto simp: sees_run q_turn_def)
  then obtain run where run: "agActive a = Some run" "\<not> arObserved run"
    using scan_not_ended [OF q] by (auto simp: run_inv_def split: option.splits)
  define step where "step = (if is_canceled err then (True, a)
    else (case run_ctx_err su a of (e, a1) \<Rightarrow> (e \<noteq> None, a1)))"
  obtain gone a1 where step1: "step = (gone, a1)" by (cases step)
  have a1: "sees (run_log base) (q_turn subseq 1 False new) a1"
    using step1 turn run_ctx_err_sees [of su a _ a1 base]
    by (auto simp: step_def split: if_splits prod.splits)
  let ?reason = "if gone then StopReasonAborted else StopReasonError"
  obtain r a2 where r: "emit_failure su cfg err ?reason a1 = (r, a2)"
    by (cases "emit_failure su cfg err ?reason a1")
  have ans: "(ans, a') = (case r of Inl err2 \<Rightarrow> (([], Some err2), a2) | Inr ms \<Rightarrow> ((ms, Some err), a2))"
    using answer err run step1 r
    by (simp add: maybe_emit_failure_def step_def [symmetric] Let_def)
  show ?thesis
  proof (cases r)
    case (Inl err2)
    with tripleD(2) [OF emit_failure_triple a1] r
    have "accepted is_listener_error (run_log base) err2 a2" by blast
    with ans Inl show ?thesis by (auto simp: accepted_def sees_run run_answer_def)
  next
    case (Inr ms)
    with tripleD(1) [OF emit_failure_triple a1] r have "sees (run_log base) trEnded a2" by blast
    with ans Inr show ?thesis by (auto simp: sees_run run_answer_def)
  qed
qed

lemma finished_answer:
  fixes su :: "('l, 'w) agent_setup"
  assumes result: "case r of Inr ms \<Rightarrow> run_post subseq (run_log base) bound ms a
      | Inl e \<Rightarrow> run_failed subseq is_listener_error (run_log base) cfg1 new e a"
    and answer: "maybe_emit_failure su cfg r a = (ans, a')"
  shows "run_answer bound ans (agLog a') \<and> run_inv base a'"
proof (cases r)
  case (Inr ms)
  with result obtain t where "t \<le> bound" "sees (run_log base) (q_ended subseq t ms) a"
    by (auto simp: run_post_def)
  with Inr answer show ?thesis
    by (auto simp: maybe_emit_failure_def sees_run run_answer_def q_ended_def)
next
  case (Inl e)
  show ?thesis
  proof (cases "is_listener_error e")
    case True
    have "sees (run_log base) (\<lambda>q. True) a"
      using result Inl by (auto simp: run_failed_def accepted_def elim: sees_mono)
    with True Inl answer show ?thesis
      by (auto simp: maybe_emit_failure_def sees_run run_answer_def)
  next
    case False
    then have "sees (run_log base) (q_turn subseq 1 False new) a"
      using result Inl by (auto simp: run_failed_def accepted_def)
    from failed_run_answer [OF this False] Inl answer show ?thesis by blast
  qed
qed

lemma finish_idle: "run_inv base a \<Longrightarrow> idle_after base (finish_agent_run a)"
  by (simp add: idle_after_def finish_agent_run_def run_inv_def)

lemma begin_run_log: "run_log (stMessages (agState a)) (begin_run skip a) = Some []"
  by (simp add: run_log_Some run_inv_def begin_run_def end_observed_def)

lemma effective_run_config [simp]:
  "effective_max_turns (loop_config_for_run su a) = effective_max_turns (suConfig su)"
  by (simp add: effective_max_turns_def loop_config_for_run_def Let_def)

lemma locked_prompt:
  fixes su :: "('l, 'w) agent_setup"
  assumes ok: "setup_ok su" and answer: "run_prompt_locked su ms skip a = (ans, a')"
  shows "run_answer (effective_max_turns (suConfig su) + 1) ans (agLog a') \<and>
    idle_after (stMessages (agState a)) a'"
proof -
  let ?a1 = "begin_run skip a" and ?base = "stMessages (agState a)"
  let ?cfg = "loop_config_for_run su ?a1"
  obtain r a2 where r: "run_agent_loop (agent_env su) ms (context_snapshot ?a1) ?cfg ?a1 = (r, a2)"
    by (cases "run_agent_loop (agent_env su) ms (context_snapshot ?a1) ?cfg ?a1")
  obtain a3 where a3: "maybe_emit_failure su ?cfg r a2 = (ans, a3)" "a' = finish_agent_run a3"
    using answer r by (auto simp: run_prompt_locked_def Let_def split: prod.splits)
  have triple: "triple (\<lambda>s. run_log ?base s = Some [])
      (run_agent_loop (agent_env su) ms (context_snapshot ?a1) ?cfg)
      (run_post subseq (run_log ?base) (effective_max_turns (suConfig su) + 1))
      (run_failed subseq is_listener_error (run_log ?base) ?cfg ms)"
    by (rule agent_run.run_agent_loop_triple [OF run_config_ok [OF agent_run.cancellable_run_axioms ok], unfolded effective_run_config])
  have "case r of Inr ms \<Rightarrow> run_post subseq (run_log ?base) (effective_max_turns (suConfig su) + 1) ms a2
      | Inl e \<Rightarrow> run_failed subseq is_listener_error (run_log ?base) ?cfg ms e a2"
    using triple begin_run_log r unfolding triple_def by (fastforce split: sum.splits)
  from finished_answer [OF this a3(1)] have "run_answer (effective_max_turns (suConfig su) + 1) ans (agLog a3)"
    "run_inv ?base a3" by simp_all
  with finish_idle [of ?base a3] show ?thesis by (simp add: a3(2)) (simp add: finish_agent_run_def)
qed

lemma locked_continue:
  fixes su :: "('l, 'w) agent_setup"
  assumes ok: "setup_ok su" and answer: "run_continue_locked su a = (ans, a')"
    and last: "stMessages (agState a) \<noteq> []" "last (stMessages (agState a)) \<noteq> NilMessage"
      "message_role_of (last (stMessages (agState a))) \<noteq> Some RoleAssistant"
  shows "run_answer (effective_max_turns (suConfig su) + 1) ans (agLog a') \<and>
    idle_after (stMessages (agState a)) a'"
proof -
  let ?a1 = "begin_run False a" and ?base = "stMessages (agState a)"
  let ?cfg = "loop_config_for_run su ?a1" and ?ctx = "context_snapshot (begin_run False a)"
  obtain r a2 where r: "run_agent_loop_continue (agent_env su) ?ctx ?cfg ?a1 = (r, a2)"
    by (cases "run_agent_loop_continue (agent_env su) ?ctx ?cfg ?a1")
  obtain a3 where a3: "maybe_emit_failure su ?cfg r a2 = (ans, a3)" "a' = finish_agent_run a3"
    using answer r by (auto simp: run_continue_locked_def Let_def split: prod.splits)
  have ctx: "acMessages ?ctx = ?base" by (simp add: context_snapshot_def begin_run_def)
  have triple: "triple (\<lambda>s. run_log ?base s = Some []) (run_agent_loop_continue (agent_env su) ?ctx ?cfg)
      (run_post subseq (run_log ?base) (effective_max_turns (suConfig su) + 1))
      (run_failed subseq is_listener_error (run_log ?base) ?cfg [])"
    by (rule agent_run.run_agent_loop_continue_triple [OF run_config_ok [OF agent_run.cancellable_run_axioms ok], unfolded effective_run_config])
      (simp_all only: ctx last not_False_eq_True)
  have "case r of Inr ms \<Rightarrow> run_post subseq (run_log ?base) (effective_max_turns (suConfig su) + 1) ms a2
      | Inl e \<Rightarrow> run_failed subseq is_listener_error (run_log ?base) ?cfg [] e a2"
    using triple begin_run_log r unfolding triple_def by (fastforce split: sum.splits)
  from finished_answer [OF this a3(1)] have "run_answer (effective_max_turns (suConfig su) + 1) ans (agLog a3)"
    "run_inv ?base a3" by simp_all
  with finish_idle [of ?base a3] show ?thesis by (simp add: a3(2)) (simp add: finish_agent_run_def)
qed


subsection \<open>Runs that no listener disturbs\<close>

lemma steering_source_quiet: "fst (steering_source None a) \<noteq> Inl e"
  by (simp add: steering_source_def split: prod.split)

lemma no_quiet_failure:
  assumes "cfSteering (suConfig su) = None"
  shows "\<not> run_failed rel (\<lambda>_. False) log (loop_config_for_run su a) new e s"
  using assms
  by (simp add: run_failed_def accepted_def get_queued_messages_def loop_config_for_run_def Let_def
      steering_source_quiet)

lemma quiet_prompt:
  fixes su :: "('l, 'w) agent_setup"
  assumes ok: "setup_ok su" and quiet: "quiet_listeners su" and "cfSteering (suConfig su) = None"
    and answer: "run_prompt_locked su ms skip a = (ans, a')"
  shows "snd ans = None"
proof -
  let ?a1 = "begin_run skip a" and ?base = "stMessages (agState a)"
  let ?cfg = "loop_config_for_run su ?a1"
  note env = quiet_run [OF quiet]
  note run = logged_run.run_agent_loop_triple
    [OF lossy_run.axioms(1) [OF cancellable_run.axioms(1) [OF env]] run_config_ok [OF env ok]]
  obtain r a2 where r: "run_agent_loop (agent_env su) ms (context_snapshot ?a1) ?cfg ?a1 = (r, a2)"
    by (cases "run_agent_loop (agent_env su) ms (context_snapshot ?a1) ?cfg ?a1")
  have "r \<noteq> Inl e" for e
    using tripleD(2) [OF run begin_run_log] r no_quiet_failure [OF assms(3)] by blast
  then obtain res where "r = Inr res" by (cases r) blast+
  with answer r show ?thesis
    by (auto simp: run_prompt_locked_def Let_def maybe_emit_failure_def)
qed

end
