(* ===== verification/AssistantStream.thy ===== *)
theory AssistantStream
  imports Events
begin

text \<open>
  The event stream between a provider and the agent loop, \<open>internal/agent/ai/stream.go\<close>. \<open>Push\<close>
  runs under the mutex; the pump goroutine takes an event from the queue under the mutex and then
  sends it on the channel, so the two are separate steps. The state keeps what was accepted by
  \<open>Push\<close> and what was sent on the channel, in order.
\<close>

datatype push_error = ErrStreamClosed | ErrPushInvalid validate_error

datatype result_error = ErrStreamEndedWithoutResult | ErrResultNotReady

record event_stream =
  asQueue :: "assistant_event list"
  asClosed :: bool
  asResult :: "assistant_message option"
  asInFlight :: "(assistant_event \<times> bool) option"
  asSent :: "assistant_event list"
  asEventsClosed :: bool

definition new_event_stream :: event_stream where
  "new_event_stream = \<lparr>asQueue = [], asClosed = False, asResult = None, asInFlight = None,
     asSent = [], asEventsClosed = False\<rparr>"

definition push_event :: "event_stream \<Rightarrow> assistant_event \<Rightarrow> push_error option \<times> event_stream" where
  "push_event s e =
     (if asClosed s then (Some ErrStreamClosed, s)
      else (case validate_assistant_event e of
              Some err \<Rightarrow> (Some (ErrPushInvalid err), s)
            | None \<Rightarrow>
                (let s1 = (if aeType e = AssistantEventDone \<or> aeType e = AssistantEventError
                           then s\<lparr>asResult := final_message e, asClosed := True\<rparr> else s)
                 in (None, s1\<lparr>asQueue := asQueue s1 @ [e]\<rparr>))))"

text \<open>\<open>Result\<close> once \<open>done\<close> is closed; before that it blocks on the channel.\<close>

definition stream_result :: "event_stream \<Rightarrow> result_error + assistant_message" where
  "stream_result s =
     (if \<not> asClosed s then Inl ErrResultNotReady
      else (case asResult s of None \<Rightarrow> Inl ErrStreamEndedWithoutResult | Some m \<Rightarrow> Inr m))"

text \<open>One turn of the pump: wait, take, send. \<open>None\<close> means the goroutine has nothing it can do.\<close>

definition pump_take :: "event_stream \<Rightarrow> event_stream option" where
  "pump_take s =
     (if asInFlight s \<noteq> None \<or> asEventsClosed s then None
      else (case asQueue s of
              [] \<Rightarrow> if asClosed s then Some (s\<lparr>asEventsClosed := True\<rparr>) else None
            | e # rest \<Rightarrow>
                Some (s\<lparr>asQueue := rest, asInFlight := Some (e, asClosed s \<and> rest = [])\<rparr>)))"

definition pump_send :: "event_stream \<Rightarrow> event_stream option" where
  "pump_send s =
     (case asInFlight s of
        None \<Rightarrow> None
      | Some (e, close_after) \<Rightarrow>
          Some (s\<lparr>asInFlight := None, asSent := asSent s @ [e],
                  asEventsClosed := (asEventsClosed s \<or> close_after)\<rparr>))"

text \<open>The runs of a stream, with the events \<open>Push\<close> accepted so far.\<close>

inductive stream_run :: "event_stream \<Rightarrow> assistant_event list \<Rightarrow> bool" where
  run_new: "stream_run new_event_stream []"
| run_push: "stream_run s acc \<Longrightarrow> push_event s e = (None, s') \<Longrightarrow> stream_run s' (acc @ [e])"
| run_take: "stream_run s acc \<Longrightarrow> pump_take s = Some s' \<Longrightarrow> stream_run s' acc"
| run_send: "stream_run s acc \<Longrightarrow> pump_send s = Some s' \<Longrightarrow> stream_run s' acc"

inductive_cases stream_runE: "stream_run s acc"

definition flight_events :: "event_stream \<Rightarrow> assistant_event list" where
  "flight_events s = (case asInFlight s of None \<Rightarrow> [] | Some (e, b) \<Rightarrow> [e])"

lemma flight_events_simps [simp]:
  "asInFlight s = None \<Longrightarrow> flight_events s = []"
  "asInFlight s = Some (e, b) \<Longrightarrow> flight_events s = [e]"
  by (simp_all add: flight_events_def)

definition closed_by_terminal :: "event_stream \<Rightarrow> assistant_event list \<Rightarrow> bool" where
  "closed_by_terminal s acc \<longleftrightarrow>
     (if asClosed s
      then \<exists>pre e. acc = pre @ [e] \<and> terminal_event e \<and> (\<forall>x \<in> set pre. \<not> terminal_event x) \<and>
        asResult s = final_message e \<and> asResult s \<noteq> None
      else (\<forall>x \<in> set acc. \<not> terminal_event x) \<and> asResult s = None)"

definition stream_inv :: "event_stream \<Rightarrow> assistant_event list \<Rightarrow> bool" where
  "stream_inv s acc \<longleftrightarrow>
     acc = asSent s @ flight_events s @ asQueue s \<and> closed_by_terminal s acc \<and>
     (\<forall>x \<in> set acc. validate_assistant_event x = None) \<and>
     (asEventsClosed s \<longrightarrow> asClosed s \<and> asInFlight s = None \<and> asQueue s = []) \<and>
     (\<forall>e. asInFlight s = Some (e, True) \<longrightarrow> asClosed s \<and> asQueue s = [])"

lemma push_event_accepted:
  "push_event s e = (None, s') \<longleftrightarrow>
     \<not> asClosed s \<and> validate_assistant_event e = None \<and>
     s' = (if terminal_event e
           then s\<lparr>asResult := final_message e, asClosed := True, asQueue := asQueue s @ [e]\<rparr>
           else s\<lparr>asQueue := asQueue s @ [e]\<rparr>)"
  by (auto simp: push_event_def terminal_event_def Let_def split: option.splits)

lemma closed_by_terminal_pump [simp]:
  "closed_by_terminal (s\<lparr>asQueue := q\<rparr>) acc = closed_by_terminal s acc"
  "closed_by_terminal (s\<lparr>asInFlight := f\<rparr>) acc = closed_by_terminal s acc"
  "closed_by_terminal (s\<lparr>asSent := t\<rparr>) acc = closed_by_terminal s acc"
  "closed_by_terminal (s\<lparr>asEventsClosed := b\<rparr>) acc = closed_by_terminal s acc"
  by (simp_all add: closed_by_terminal_def)

lemma pump_take_inv: "stream_inv s acc \<Longrightarrow> pump_take s = Some s' \<Longrightarrow> stream_inv s' acc"
  by (cases "asInFlight s"; cases "asQueue s")
    (auto simp: stream_inv_def pump_take_def split: if_splits)

lemma pump_send_inv: "stream_inv s acc \<Longrightarrow> pump_send s = Some s' \<Longrightarrow> stream_inv s' acc"
  by (cases "asInFlight s") (auto simp: stream_inv_def pump_send_def)

lemma push_event_inv:
  assumes inv: "stream_inv s acc" and push: "push_event s e = (None, s')"
  shows "stream_inv s' (acc @ [e])"
proof -
  from push have e: "\<not> asClosed s" "validate_assistant_event e = None"
    and s': "s' = (if terminal_event e
       then s\<lparr>asResult := final_message e, asClosed := True, asQueue := asQueue s @ [e]\<rparr>
       else s\<lparr>asQueue := asQueue s @ [e]\<rparr>)"
    unfolding push_event_accepted by blast+
  have flight: "flight_events s' = flight_events s" by (simp add: s' flight_events_def)
  have "closed_by_terminal s' (acc @ [e])"
    using inv e validate_terminal_final [OF e(2)]
    by (simp add: s' stream_inv_def closed_by_terminal_def)
  with inv e flight show ?thesis by (simp add: stream_inv_def s')
qed

lemma stream_run_inv: "stream_run s acc \<Longrightarrow> stream_inv s acc"
proof (induction rule: stream_run.induct)
  case run_new
  show ?case by (simp add: stream_inv_def new_event_stream_def closed_by_terminal_def)
qed (blast intro: push_event_inv pump_take_inv pump_send_inv)+

end
