(* ===== verification/CoreProperties.thy ===== *)
theory CoreProperties
  imports SessionProperties AgentRuns AssistantStream
begin

text \<open>
  The properties of the agent core: a run and the agent around it, the tool runner, the provider's
  stream, the queues and the reducer, with a concrete agent on which each can be read.
\<close>

subsection \<open>A sample agent\<close>

text \<open>A provider that asks for a tool first and answers then; \<open>agWorld\<close> counts its requests.\<close>

definition sample_call_message :: assistant_message where
  "sample_call_message = \<lparr>amRole = ''assistant'', amContent = [ToolCallContent
     \<lparr>ccType = ''toolCall'', ccID = ''t1'', ccName = ''ls'', ccArguments = ''{}'',
       ccThoughtSignature = ''''\<rparr>],
     amProvider = '''', amModel = ''m'', amResponseModel = '''', amResponseID = '''',
     amUsage = zero_usage, amStopReason = StopReasonToolUse, amErrorMessage = '''', amTimestamp = 2\<rparr>"

definition sample_answer :: assistant_message where
  "sample_answer = sample_call_message\<lparr>amContent := [sample_text ''done''], amStopReason := StopReasonStop\<rparr>"

definition done_event :: "assistant_message \<Rightarrow> assistant_event" where
  "done_event m = zero_assistant_event\<lparr>aeType := AssistantEventDone, aeReason := amStopReason m,
     aeMessage := Some m\<rparr>"

definition sample_provider :: "stream_request \<Rightarrow> ((unit, nat) agent, stream_reading option) io" where
  "sample_provider req a =
     (Inr (Some ([done_event (if agWorld a = 0 then sample_call_message else sample_answer)],
        StreamClosed (Inr None))),
      apply_calls [CallWorld (agWorld a + 1)] a)"

text \<open>Its listener steers the run once, when the first turn ends.\<close>

definition sample_setup :: "(unit, nat) agent_setup" where
  "sample_setup =
     \<lparr>suConfig = \<lparr>cfModel = ''m'', cfProvider = ''p'', cfReasoning = '''', cfSessionID = ''s'',
        cfMaxTurns = 0, cfStream = Some sample_provider, cfRunner = None, cfTransformContext = None,
        cfConvertToLLM = None, cfPrepareNextTurn = None, cfShouldStop = None, cfSteering = None,
        cfFollowUp = None\<rparr>,
      suListener = (\<lambda>l ev st a. (None,
        if evType ev = AgentEventTurnEnd \<and> evTurn ev = 1 then [CallSteer [sample_user]] else [])),
      suParent = (\<lambda>a. (None, [])), suErrorText = (\<lambda>e. ''failed'')\<rparr>"

definition sample_agent :: "(unit, nat) agent" where
  "sample_agent = apply_call (CallListen (Some ()))
     (new_agent \<lparr>acSystemPrompt = '''', acMessages = [], acTools = []\<rparr> sample_setup QueueModeAll
       QueueModeAll 0)"

lemma sample_setup_ok: "setup_ok sample_setup"
proof -
  have "calls_only (sample_provider req)" for req
    unfolding calls_only_def sample_provider_def by (metis snd_conv)
  moreover have "opens_first sample_provider"
    by (auto simp: opens_first_def sample_provider_def terminal_event_def done_event_def)
  ultimately show ?thesis by (simp add: setup_ok_def sample_setup_def Let_def hook_calls_def)
qed

lemma sample_agent_idle: "agActive sample_agent = None" "stMessages (agState sample_agent) = []"
  by (simp_all add: sample_agent_def new_agent_def agent_listen_def Let_def)

lemma sample_prompt_valid: "check_messages [sample_user] = None"
  by code_simp

subsection \<open>Runs\<close>

text \<open>
  C9: a prompt on an idle agent publishes events that keep to the protocol (one start, numbered turns,
  messages and tools inside a turn, one end, nothing after it), whatever the listeners, the tools,
  the hooks and other goroutines do to the agent meanwhile. When the call returns the run is over,
  the agent idle and its history grown by exactly the messages published as ended; without an error
  the run has ended, within the turn bound, and returns messages it has published, in their order;
  with an error that is not a listener's the end was published too.
\<close>

theorem agent_prompt_run:
  assumes "setup_ok su" "agActive a = None" "check_messages ms = None"
    and "agent_prompt su ms a = (ans, a')"
  shows "run_answer (effective_max_turns (suConfig su) + 1) ans (agLog a') \<and>
    idle_after (stMessages (agState a)) a'"
proof (rule locked_prompt [OF assms(1)])
  show "run_prompt_locked su ms False a = (ans, a')"
    using assms by (simp add: agent_prompt_def clone_validated_messages_def run_prompt_def)
qed

theorem agent_prompt_run_witness:
  "run_answer 16 (fst (agent_prompt sample_setup [sample_user] sample_agent))
     (agLog (snd (agent_prompt sample_setup [sample_user] sample_agent))) \<and>
   idle_after [] (snd (agent_prompt sample_setup [sample_user] sample_agent))"
proof -
  have "effective_max_turns (suConfig sample_setup) + 1 = 16"
    by (simp add: effective_max_turns_def default_max_turns_def sample_setup_def)
  with agent_prompt_run [OF sample_setup_ok sample_agent_idle(1) sample_prompt_valid
      prod.collapse [symmetric]] show ?thesis
    by (simp add: sample_agent_idle(2))
qed





text \<open>
  C12: one run at a time. While a run is active, and through anything its surroundings do to the
  agent, \<open>Continue\<close> and \<open>Reset\<close> are refused as busy, \<open>Prompt\<close> is refused, and none of them changes
  the agent or its history.
\<close>

theorem busy_agent:
  assumes "agActive a \<noteq> None"
  shows "agent_continue su (apply_calls cs a) = (([], Some ErrAgentBusy), apply_calls cs a) \<and>
    agent_reset (apply_calls cs a) = (Some ErrAgentBusy, apply_calls cs a) \<and>
    agent_prompt su ms (apply_calls cs a) =
      (([], Some (case check_messages ms of None \<Rightarrow> ErrAgentBusy | Some e \<Rightarrow> e)), apply_calls cs a) \<and>
    stMessages (agState (apply_calls cs a)) = stMessages (agState a)"
proof -
  have calls: "agActive (apply_calls cs a) \<noteq> None \<and>
      stMessages (agState (apply_calls cs a)) = stMessages (agState a)"
    using assms
  proof (induction cs arbitrary: a)
    case (Cons c cs)
    have "agActive (apply_call c a) \<noteq> None" using Cons.prems by (simp add: apply_call_active)
    from Cons.IH [OF this] apply_call_messages [OF Cons.prems, of c] show ?case
      by (simp add: apply_calls_def)
  qed (simp add: apply_calls_def)
  then have busy: "agActive (apply_calls cs a) \<noteq> None" ..
  with calls show ?thesis
    by (simp add: agent_continue_def agent_reset_def agent_prompt_def run_prompt_def
        clone_validated_messages_def Let_def del: not_None_eq split: option.split)
qed

theorem busy_agent_witness:
  "agent_reset (apply_calls [CallAbort, CallReset] (begin_run False sample_agent)) =
     (Some ErrAgentBusy, apply_calls [CallAbort, CallReset] (begin_run False sample_agent))"
proof -
  have "agActive (begin_run False sample_agent) \<noteq> None" by (simp add: begin_run_def)
  from busy_agent [OF this] show ?thesis by blast
qed

subsection \<open>Tools\<close>

text \<open>
  C13: a batch of tool calls that succeeds gives one result per call, in the order of the calls and
  naming the call it answers, in both execution modes and for every order in which the goroutines
  of a parallel batch run; a batch without a call never ends the run.
\<close>

theorem tool_batch_answers:
  assumes "fair_schedule sched" "execute_tools sched ctx r tx snk req s = ((res, None), s')"
  shows "map rmToolCallID (trrMessages res) = map ccID (tqCalls req) \<and>
    map rmToolName (trrMessages res) = map ccName (tqCalls req) \<and>
    \<not> (trrTerminate res \<and> tqCalls req = [])"
proof -
  obtain os where os: "list_all2 answers (tqCalls req) os" "trrMessages res = outcome_messages os"
      "trrTerminate res = all_terminate os"
    using execute_tools_answers [OF assms] by blast
  have names: "map rmToolName (map toMessage os) = map ccName (tqCalls req)"
    using os(1) by (induction rule: list_all2_induct) (simp_all add: answers_def)
  have "\<not> (all_terminate os \<and> tqCalls req = [])" using os(1) by (auto simp: all_terminate_def)
  with answers_ids [OF os(1)] os(2,3) names show ?thesis by (simp add: outcome_messages_def)
qed

text \<open>A registry with one tool, whose executions are counted in the state.\<close>

definition counting_tool :: "nat tool" where
  "counting_tool = \<lparr>tlDefinition = \<lparr>tdName = ''ls'', tdDescription = '''', tdParameters = []\<rparr>,
     tlMode = ExecutionModeUnset, tlPrepare = (\<lambda>raw. io_return raw),
     tlExecute = (\<lambda>call upd n. (Inr (text_result ''ok''), n + 1))\<rparr>"

definition counting_runner :: "nat runner" where
  "counting_runner = \<lparr>rnRegistry = \<lparr>rgOrder = [''ls''], rgTools = [''ls'' \<mapsto>
       \<lparr>rgTool = counting_tool, rgDefinition = tlDefinition counting_tool, rgSchema = None\<rparr>]\<rparr>,
     rnMode = ExecutionModeParallel, rnBefore = None, rnAfter = None\<rparr>"

definition counting_calls :: "tool_call_content list" where
  "counting_calls = map (\<lambda>(i, name). \<lparr>ccType = '''', ccID = i, ccName = name, ccArguments = [],
     ccThoughtSignature = ''''\<rparr>) [(''t1'', ''ls''), (''t2'', ''rm''), (''t3'', ''ls'')]"

definition counting_request :: tool_run_request where
  "counting_request = \<lparr>tqTurn = 1, tqContext = \<lparr>acSystemPrompt = '''', acMessages = [], acTools = []\<rparr>,
     tqAssistant = zero_assistant, tqCalls = counting_calls\<rparr>"

definition counting_batch :: "(tool_run_result \<times> go_error option) \<times> nat" where
  "counting_batch = execute_tools (\<lambda>items s. rev items) (\<lambda>s. (None, s)) counting_runner
     (\<lambda>e. ''error'') None counting_request 0"

lemma counting_batch_runs: "snd (fst counting_batch) = None \<and> snd counting_batch = 2"
  by code_simp

theorem tool_batch_answers_witness:
  "map rmToolCallID (trrMessages (fst (fst counting_batch))) = [''t1'', ''t2'', ''t3'']"
proof -
  have sched: "fair_schedule (\<lambda>items (s :: nat). rev items)" by (simp add: fair_schedule_def)
  have run: "execute_tools (\<lambda>items s. rev items) (\<lambda>s. (None, s)) counting_runner (\<lambda>e. ''error'') None
      counting_request 0 = ((fst (fst counting_batch), None), snd counting_batch)"
    using counting_batch_runs by (simp add: counting_batch_def prod_eq_iff)
  have calls: "map ccID (tqCalls counting_request) = [''t1'', ''t2'', ''t3'']" by code_simp
  from tool_batch_answers [OF sched run] show ?thesis unfolding calls by simp
qed




text \<open>
  A batch whose context is cancelled while its second tool is about to run. The state is the number of
  times the context was asked and the published events.
\<close>

definition cancelling_batch :: "(tool_run_result \<times> go_error option) \<times> (nat \<times> agent_event list)" where
  "cancelling_batch =
     execute_tools (\<lambda>items s. items)
       (\<lambda>(n, log). (if 3 \<le> n then Some ErrContextCanceled else None, (n + 1, log)))
       \<lparr>rnRegistry = \<lparr>rgOrder = [''ls''], rgTools = [''ls'' \<mapsto>
           \<lparr>rgTool = \<lparr>tlDefinition = tlDefinition counting_tool, tlMode = ExecutionModeUnset,
              tlPrepare = (\<lambda>raw. io_return raw),
              tlExecute = (\<lambda>call upd. io_return (text_result ''ok''))\<rparr>,
            rgDefinition = tlDefinition counting_tool, rgSchema = None\<rparr>]\<rparr>,
        rnMode = ExecutionModeSequential, rnBefore = None, rnAfter = None\<rparr>
       (\<lambda>e. ''error'') (Some (\<lambda>ev (n, log). (Inr (), (n, log @ [ev]))))
       (counting_request\<lparr>tqCalls := [counting_calls ! 0, counting_calls ! 2]\<rparr>) (0, [])"

subsection \<open>The stream of an answer\<close>




subsection \<open>Queues and state\<close>

text \<open>
  C16: the steering and follow-up queues are first in, first out, whatever is queued, drained, taken
  and switched between the two modes: nothing is lost, doubled or reordered. Draining until nothing
  comes gives all that was queued, one message at a time or all at once.
\<close>

theorem queue_refines_fifo:
  assumes "buffer_steps (buffer_step queue_enqueue queue_drain queue_take_all queue_set_mode) xs
    (new_message_queue mode) = ((ins, outs), q)"
  shows "ins = outs @ mqMessages q \<and> poll queue_drain (length (mqMessages q)) q = mqMessages q"
proof
  from mq.buffer_fifo [OF assms] show "ins = outs @ mqMessages q"
    by (simp add: new_message_queue_def)
  show "poll queue_drain (length (mqMessages q)) q = mqMessages q"
    by (rule mq.poll_all) simp
qed

theorem queue_refines_fifo_witness:
  "snd (fst (buffer_steps (buffer_step queue_enqueue queue_drain queue_take_all queue_set_mode)
     [StepPut [sample_user, sample_call], StepTake, StepMode QueueModeAll, StepPut [sample_result]]
     (new_message_queue QueueModeOneAtATime))) = [sample_user]"
proof -
  let ?run = "buffer_steps (buffer_step queue_enqueue queue_drain queue_take_all queue_set_mode)
     [StepPut [sample_user, sample_call], StepTake, StepMode QueueModeAll, StepPut [sample_result]]
     (new_message_queue QueueModeOneAtATime)"
  have "fst (fst ?run) = [sample_user, sample_call, sample_result] \<and>
      mqMessages (snd ?run) = [sample_call, sample_result]" by code_simp
  moreover obtain ins outs q where run: "?run = ((ins, outs), q)" by (metis prod.collapse)
  ultimately have "ins = [sample_user] @ mqMessages q" by (simp del: buffer_steps.simps)
  with queue_refines_fifo [OF run] have "outs = [sample_user]" by simp
  then show ?thesis by (simp only: run fst_conv snd_conv)
qed

text \<open>
  C17: the state the agent shows refines the events it has published: its messages are the ended
  ones in order, its pending tool calls are exactly those started and not ended since, each once,
  and an abort stays visible until the run is finished.
\<close>

theorem state_refines_events:
  assumes "stPendingToolCalls st = []"
  shows "stMessages (foldl (\<lambda>st ev. reduce_agent_event ev st) st evs) = stMessages st @ ended_messages evs \<and>
    distinct (stPendingToolCalls (foldl (\<lambda>st ev. reduce_agent_event ev st) st evs)) \<and>
    set (stPendingToolCalls (foldl (\<lambda>st ev. reduce_agent_event ev st) st evs)) =
      running_calls (rev evs) - {''''} \<and>
    (stPhase st = AgentPhaseAborted \<longrightarrow>
       stPhase (foldl (\<lambda>st ev. reduce_agent_event ev st) st evs) = AgentPhaseAborted)"
proof -
  have "pending_ok st" using assms by (simp add: pending_ok_def)
  from reduce_all_pending [OF this assms, of evs] reduce_all_messages [of st evs]
  have pending: "distinct (stPendingToolCalls (foldl (\<lambda>st ev. reduce_agent_event ev st) st evs))"
    "set (stPendingToolCalls (foldl (\<lambda>st ev. reduce_agent_event ev st) st evs)) =
      running_calls (rev evs) - {''''}"
    "stMessages (foldl (\<lambda>st ev. reduce_agent_event ev st) st evs) = stMessages st @ ended_messages evs"
    by (simp_all add: pending_ok_def)
  have "stPhase (foldl (\<lambda>st ev. reduce_agent_event ev st) st evs) = AgentPhaseAborted"
    if "stPhase st = AgentPhaseAborted"
    using that by (induction evs rule: rev_induct) (simp_all add: reduce_keeps_abort)
  with pending show ?thesis by blast
qed

theorem state_refines_events_witness:
  "set (stPendingToolCalls (foldl (\<lambda>st ev. reduce_agent_event ev st) (agState sample_agent)
     [(agent_event_of AgentEventToolExecutionStart)\<lparr>evToolCallID := ''t1''\<rparr>,
      (agent_event_of AgentEventToolExecutionStart)\<lparr>evToolCallID := ''t2''\<rparr>,
      (agent_event_of AgentEventToolExecutionEnd)\<lparr>evToolCallID := ''t1''\<rparr>])) = {''t2''}"
proof -
  have "stPendingToolCalls (agState sample_agent) = []"
    by (simp add: sample_agent_def new_agent_def agent_listen_def Let_def)
  from state_refines_events [OF this, of "[(agent_event_of AgentEventToolExecutionStart)\<lparr>evToolCallID := ''t1''\<rparr>,
      (agent_event_of AgentEventToolExecutionStart)\<lparr>evToolCallID := ''t2''\<rparr>,
      (agent_event_of AgentEventToolExecutionEnd)\<lparr>evToolCallID := ''t1''\<rparr>]"]
  show ?thesis by (auto simp: agent_event_of_def)
qed

subsection \<open>A cancelled batch\<close>

text \<open>
  A sequential batch that is cancelled between the preparation and the execution of a later call
  returns no result at all, although the result of the first call was already published as ended.
\<close>

theorem sequential_cancel_drops_results:
  "fst cancelling_batch = (empty_run_result, Some ErrContextCanceled) \<and>
   ended_messages (snd (snd cancelling_batch)) =
     [ToolResultMessage (toMessage (make_outcome (counting_calls ! 0) (text_result ''ok'') False))]"
  by code_simp

end
