(* ===== verification/TransformMessages.thy ===== *)
theory TransformMessages
  imports MessageSequence "HOL-Library.Sublist"
begin

text \<open>
  Replaying a stored history to a model, \<open>internal/agent/ai/api/transform_messages.go\<close>: thinking,
  signatures, images and tool call ids are adapted when the model has changed, and every tool call
  left open gets an error result. The map from old to new call ids is threaded through the messages;
  \<open>NormalizeToolCallID\<close> is a field of the options, and \<open>time.Now\<close> a clock read at each insertion.
\<close>

record transform_options =
  toProvider :: string
  toModel :: string
  toSupportsImages :: bool
  toNormalize :: "(string \<Rightarrow> assistant_message \<Rightarrow> string) option"

definition non_vision_user_image_placeholder :: string where
  "non_vision_user_image_placeholder = ''(image omitted: model does not support images)''"

definition non_vision_tool_image_placeholder :: string where
  "non_vision_tool_image_placeholder = ''(tool image omitted: model does not support images)''"

definition missing_tool_result_text :: string where
  "missing_tool_result_text = ''No result provided''"

fun is_image :: "content \<Rightarrow> bool" where
  "is_image (ImageContent c) = True"
| "is_image _ = False"

fun text_equals :: "content \<Rightarrow> string \<Rightarrow> bool" where
  "text_equals (TextContent c) v = (tcText c = v)"
| "text_equals _ v = False"

fun replace_images :: "string \<Rightarrow> bool \<Rightarrow> content_list \<Rightarrow> content_list" where
  "replace_images placeholder previous [] = []"
| "replace_images placeholder previous (c # cs) =
     (if is_image c
      then (if previous then [] else [new_text_content placeholder]) @ replace_images placeholder True cs
      else c # replace_images placeholder (text_equals c placeholder) cs)"

definition transform_input_images :: "content_list \<Rightarrow> string \<Rightarrow> bool \<Rightarrow> content_list" where
  "transform_input_images cs placeholder supports =
     (if supports then cs else replace_images placeholder False cs)"

definition transform_thinking :: "thinking_content \<Rightarrow> bool \<Rightarrow> content option" where
  "transform_thinking t same =
     (if thRedacted t then (if same then Some (ThinkingContent t) else None)
      else if same \<and> thThinkingSignature t \<noteq> '''' then Some (ThinkingContent t)
      else if trim_space (thThinking t) = '''' then None
      else if same then Some (ThinkingContent t)
      else Some (new_text_content (thThinking t)))"

type_synonym id_map = "string \<rightharpoonup> string"

definition transform_tool_call ::
  "tool_call_content \<Rightarrow> assistant_message \<Rightarrow> bool \<Rightarrow> transform_options \<Rightarrow> id_map
     \<Rightarrow> tool_call_content \<times> id_map" where
  "transform_tool_call call source same opts ids =
     (if same then (call, ids)
      else (let call1 = call\<lparr>ccThoughtSignature := ''''\<rparr> in
        case toNormalize opts of
          None \<Rightarrow> (call1, ids)
        | Some rewrite_id \<Rightarrow>
            (let normalized = rewrite_id (ccID call) source in
             if normalized \<noteq> ccID call
             then (call1\<lparr>ccID := normalized\<rparr>, ids(ccID call \<mapsto> normalized))
             else (call1, ids))))"

fun transform_assistant_content ::
  "assistant_message \<Rightarrow> bool \<Rightarrow> transform_options \<Rightarrow> id_map \<Rightarrow> content_list \<Rightarrow> content_list \<times> id_map" where
  "transform_assistant_content source same opts ids [] = ([], ids)"
| "transform_assistant_content source same opts ids (c # cs) =
     (let (out, ids1) = (case c of
          ThinkingContent t \<Rightarrow> (case transform_thinking t same of None \<Rightarrow> [] | Some x \<Rightarrow> [x], ids)
        | TextContent t \<Rightarrow> ([if same then TextContent t else new_text_content (tcText t)], ids)
        | ToolCallContent call \<Rightarrow>
            (case transform_tool_call call source same opts ids of
               (call1, ids1) \<Rightarrow> ([ToolCallContent call1], ids1))
        | _ \<Rightarrow> ([c], ids));
       (rest, ids2) = transform_assistant_content source same opts ids1 cs
      in (out @ rest, ids2))"

definition same_model :: "transform_options \<Rightarrow> assistant_message \<Rightarrow> bool" where
  "same_model opts m \<longleftrightarrow> amProvider m = toProvider opts \<and> amModel m = toModel opts"

definition transform_assistant_history ::
  "assistant_message \<Rightarrow> transform_options \<Rightarrow> id_map \<Rightarrow> assistant_message \<times> id_map" where
  "transform_assistant_history m opts ids =
     (case transform_assistant_content m (same_model opts m) opts ids (amContent m) of
        (content, ids1) \<Rightarrow> (m\<lparr>amContent := content\<rparr>, ids1))"

fun transform_message :: "agent_message \<Rightarrow> transform_options \<Rightarrow> id_map \<Rightarrow> agent_message \<times> id_map" where
  "transform_message NilMessage opts ids = (NilMessage, ids)"
| "transform_message (UserMessage m) opts ids =
     (UserMessage (m\<lparr>umContent := transform_input_images (umContent m)
        non_vision_user_image_placeholder (toSupportsImages opts)\<rparr>), ids)"
| "transform_message (ToolResultMessage m) opts ids =
     (ToolResultMessage (m\<lparr>rmContent := transform_input_images (rmContent m)
          non_vision_tool_image_placeholder (toSupportsImages opts),
        rmToolCallID := (case ids (rmToolCallID m) of None \<Rightarrow> rmToolCallID m | Some n \<Rightarrow> n)\<rparr>), ids)"
| "transform_message (AssistantMessage m) opts ids =
     (case transform_assistant_history m opts ids of (m1, ids1) \<Rightarrow> (AssistantMessage m1, ids1))"

fun transform_all :: "transform_options \<Rightarrow> id_map \<Rightarrow> message_list \<Rightarrow> message_list" where
  "transform_all opts ids [] = []"
| "transform_all opts ids (m # ms) =
     (case transform_message m opts ids of (m1, ids1) \<Rightarrow> m1 # transform_all opts ids1 ms)"

subsection \<open>Completing the tool results\<close>

definition missing_result :: "(nat \<Rightarrow> int) \<Rightarrow> message_list \<Rightarrow> tool_call_content \<Rightarrow> agent_message" where
  "missing_result clock result call =
     ToolResultMessage \<lparr>rmRole = '''', rmToolCallID = ccID call, rmToolName = ccName call,
       rmContent = [new_text_content missing_tool_result_text], rmDetails = None, rmIsError = True,
       rmTimestamp = clock (length result)\<rparr>"

fun insert_missing ::
  "(nat \<Rightarrow> int) \<Rightarrow> string set \<Rightarrow> message_list \<Rightarrow> tool_call_content list \<Rightarrow> message_list" where
  "insert_missing clock existing result [] = result"
| "insert_missing clock existing result (call # calls) =
     insert_missing clock existing
       (if ccID call \<in> existing then result else result @ [missing_result clock result call]) calls"

definition is_user_message :: "agent_message \<Rightarrow> bool" where
  "is_user_message m \<longleftrightarrow> as_user_message m \<noteq> None"

definition is_failed :: "assistant_message \<Rightarrow> bool" where
  "is_failed m \<longleftrightarrow> amStopReason m = StopReasonError \<or> amStopReason m = StopReasonAborted"

fun complete_results ::
  "(nat \<Rightarrow> int) \<Rightarrow> message_list \<Rightarrow> tool_call_content list \<Rightarrow> string set \<Rightarrow> message_list \<Rightarrow> message_list" where
  "complete_results clock result pending existing [] = insert_missing clock existing result pending"
| "complete_results clock result pending existing (m # ms) =
     (case as_assistant_message m of
        Some a \<Rightarrow>
          (let result1 = insert_missing clock existing result pending in
           if is_failed a then complete_results clock result1 [] {} ms
           else complete_results clock (result1 @ [m]) (tool_calls_from_assistant a) {} ms)
      | None \<Rightarrow>
          (case as_tool_result_message m of
             Some r \<Rightarrow>
               complete_results clock (result @ [m]) pending (insert (rmToolCallID r) existing) ms
           | None \<Rightarrow>
               if is_user_message m
               then complete_results clock (insert_missing clock existing result pending @ [m]) [] {} ms
               else complete_results clock (result @ [m]) pending existing ms))"

definition complete_tool_result_history :: "(nat \<Rightarrow> int) \<Rightarrow> message_list \<Rightarrow> message_list" where
  "complete_tool_result_history clock ms = complete_results clock [] [] {} ms"

definition transform_messages ::
  "(nat \<Rightarrow> int) \<Rightarrow> transform_options \<Rightarrow> message_list \<Rightarrow> message_list" where
  "transform_messages clock opts ms =
     complete_tool_result_history clock (transform_all opts Map.empty ms)"

subsection \<open>Every call is answered\<close>

text \<open>
  The ids no result has answered yet, reading a history from its start; \<open>None\<close> for a history in
  which a user or assistant message comes while a call is open, or a failed answer is kept.
\<close>

fun open_calls :: "string set \<Rightarrow> message_list \<Rightarrow> string set option" where
  "open_calls ids [] = Some ids"
| "open_calls ids (m # ms) =
     (case m of
        AssistantMessage a \<Rightarrow>
          if ids = {} \<and> \<not> is_failed a
          then open_calls (set (map ccID (tool_calls_from_assistant a))) ms else None
      | UserMessage u \<Rightarrow> if ids = {} then open_calls {} ms else None
      | ToolResultMessage r \<Rightarrow> open_calls (ids - {rmToolCallID r}) ms
      | NilMessage \<Rightarrow> open_calls ids ms)"

definition all_answered :: "message_list \<Rightarrow> bool" where
  "all_answered ms \<longleftrightarrow> open_calls {} ms = Some {}"

lemma open_calls_append:
  "open_calls ids (xs @ ys) =
     (case open_calls ids xs of None \<Rightarrow> None | Some ids' \<Rightarrow> open_calls ids' ys)"
  by (induction xs arbitrary: ids) (auto split: agent_message.splits)

lemma insert_missing_closes:
  "open_calls ids result = Some S \<Longrightarrow> S \<subseteq> ccID ` set calls - existing \<Longrightarrow>
     open_calls ids (insert_missing clock existing result calls) = Some {}"
proof (induction calls arbitrary: result S)
  case (Cons call calls)
  show ?case
  proof (cases "ccID call \<in> existing")
    case True
    with Cons.prems show ?thesis by (auto intro: Cons.IH)
  next
    case False
    have "open_calls ids (result @ [missing_result clock result call]) = Some (S - {ccID call})"
      using Cons.prems(1) by (simp add: open_calls_append missing_result_def)
    moreover have "S - {ccID call} \<subseteq> ccID ` set calls - existing" using Cons.prems(2) by auto
    ultimately show ?thesis using Cons.IH False by simp
  qed
qed simp

lemma open_calls_snoc_result:
  "open_calls ids ms = Some S \<Longrightarrow> as_tool_result_message m = Some r \<Longrightarrow>
     open_calls ids (ms @ [m]) = Some (S - {rmToolCallID r})"
  by (simp add: open_calls_append as_tool_result_message_iff)

lemma complete_results_answered:
  "open_calls {} result = Some S \<Longrightarrow> S \<subseteq> ccID ` set pending - existing \<Longrightarrow>
     open_calls {} (complete_results clock result pending existing ms) = Some {}"
proof (induction ms arbitrary: result S pending existing)
  case Nil
  then show ?case by (simp add: insert_missing_closes)
next
  case (Cons m ms)
  note closed = insert_missing_closes [OF Cons.prems, of clock]
  show ?case
  proof (cases m)
    case (AssistantMessage a)
    have failed: "open_calls {} (complete_results clock (insert_missing clock existing result pending) [] {} ms) = Some {}"
      by (rule Cons.IH [OF closed]) simp
    have kept: "open_calls {} (complete_results clock (insert_missing clock existing result pending @ [m])
        (tool_calls_from_assistant a) {} ms) = Some {}" if "\<not> is_failed a"
      by (rule Cons.IH [of _ "ccID ` set (tool_calls_from_assistant a)"])
        (use closed that AssistantMessage in \<open>simp_all add: open_calls_append\<close>)
    show ?thesis using failed kept AssistantMessage by (simp add: Let_def)
  next
    case (ToolResultMessage r)
    then have "open_calls {} (result @ [m]) = Some (S - {rmToolCallID r})"
      using Cons.prems(1) by (simp add: open_calls_append)
    moreover have "S - {rmToolCallID r} \<subseteq> ccID ` set pending - insert (rmToolCallID r) existing"
      using Cons.prems(2) by auto
    ultimately show ?thesis using Cons.IH ToolResultMessage by simp
  next
    case (UserMessage u)
    then have "open_calls {} (insert_missing clock existing result pending @ [m]) = Some {}"
      using closed by (simp add: open_calls_append)
    from Cons.IH [OF this] UserMessage show ?thesis by (simp add: is_user_message_def)
  next
    case NilMessage
    then have "open_calls {} (result @ [m]) = Some S"
      using Cons.prems(1) by (simp add: open_calls_append)
    from Cons.IH [OF this Cons.prems(2)] NilMessage show ?thesis by (simp add: is_user_message_def)
  qed
qed

lemma complete_history_answered: "all_answered (complete_tool_result_history clock ms)"
  unfolding all_answered_def complete_tool_result_history_def
  by (rule complete_results_answered) simp_all

text \<open>Nothing is lost but the failed answers, and what was answered stays as it is.\<close>

definition kept_message :: "agent_message \<Rightarrow> bool" where
  "kept_message m = (case m of AssistantMessage a \<Rightarrow> \<not> is_failed a | _ \<Rightarrow> True)"

lemma insert_missing_prefix: "\<exists>extra. insert_missing clock existing result calls = result @ extra"
proof (induction calls arbitrary: result)
  case (Cons call calls)
  obtain e1 e2 where "insert_missing clock existing result calls = result @ e1"
    "insert_missing clock existing (result @ [missing_result clock result call]) calls =
       (result @ [missing_result clock result call]) @ e2"
    using Cons.IH by blast
  then show ?case by simp
qed simp

definition grows_with :: "message_list \<Rightarrow> message_list \<Rightarrow> message_list \<Rightarrow> bool" where
  "grows_with start ms out \<longleftrightarrow> (\<exists>extra. out = start @ extra \<and> subseq ms extra)"

lemma grows_with_after: "grows_with (start @ e) ms out \<Longrightarrow> grows_with start ms out"
  unfolding grows_with_def using list_emb_append2 by fastforce

lemma grows_with_snoc: "grows_with (start @ [m]) ms out \<Longrightarrow> grows_with start (m # ms) out"
  unfolding grows_with_def by fastforce

lemma grows_with_missing:
  "grows_with (insert_missing clock existing start calls) ms out \<Longrightarrow> grows_with start ms out"
  using insert_missing_prefix [of clock existing start calls] grows_with_after by metis

lemma complete_results_keeps:
  "grows_with result (filter kept_message ms) (complete_results clock result pending existing ms)"
proof (induction ms arbitrary: result pending existing)
  case Nil
  show ?case using insert_missing_prefix [of clock existing result pending] by (simp add: grows_with_def)
next
  case (Cons m ms)
  note missing = grows_with_missing [of clock existing result pending]
  show ?case
  proof (cases m)
    case (AssistantMessage a)
    show ?thesis
    proof (cases "is_failed a")
      case True
      with AssistantMessage missing [OF Cons.IH [of _ "[]" "{}"]] show ?thesis
        by (simp add: kept_message_def Let_def)
    next
      case False
      with AssistantMessage missing [OF grows_with_snoc [OF Cons.IH]] show ?thesis
        by (simp add: kept_message_def Let_def)
    qed
  next
    case (UserMessage u)
    with missing [OF grows_with_snoc [OF Cons.IH]] show ?thesis
      by (simp add: kept_message_def is_user_message_def)
  next
    case (ToolResultMessage r)
    with grows_with_snoc [OF Cons.IH] show ?thesis by (simp add: kept_message_def)
  next
    case NilMessage
    with grows_with_snoc [OF Cons.IH] show ?thesis by (simp add: kept_message_def is_user_message_def)
  qed
qed

lemma insert_missing_none: "ccID ` set calls \<subseteq> existing \<Longrightarrow> insert_missing clock existing result calls = result"
  by (induction calls arbitrary: result) auto

lemma complete_results_same:
  "open_calls (ccID ` set pending - existing) ms = Some {} \<Longrightarrow>
     complete_results clock result pending existing ms = result @ ms"
proof (induction ms arbitrary: result pending existing)
  case Nil
  then show ?case by (simp add: insert_missing_none)
next
  case (Cons m ms)
  show ?case
  proof (cases m)
    case (AssistantMessage a)
    with Cons.prems have closed: "ccID ` set pending \<subseteq> existing" "\<not> is_failed a"
      and rest: "open_calls (ccID ` set (tool_calls_from_assistant a) - {}) ms = Some {}"
      by (simp_all split: if_splits)
    show ?thesis using AssistantMessage closed Cons.IH [OF rest] by (simp add: insert_missing_none Let_def)
  next
    case (UserMessage u)
    with Cons.prems have closed: "ccID ` set pending \<subseteq> existing" and rest: "open_calls (ccID ` set [] - {}) ms = Some {}"
      by (simp_all split: if_splits)
    show ?thesis using UserMessage closed Cons.IH [OF rest] by (simp add: insert_missing_none is_user_message_def)
  next
    case (ToolResultMessage r)
    then have "open_calls (ccID ` set pending - insert (rmToolCallID r) existing) ms = Some {}"
      using Cons.prems by (simp add: Diff_insert [of _ "rmToolCallID r" existing])
    from Cons.IH [OF this] ToolResultMessage show ?thesis by simp
  next
    case NilMessage
    with Cons show ?thesis by (simp add: is_user_message_def)
  qed
qed

lemma complete_history_same: "all_answered ms \<Longrightarrow> complete_tool_result_history clock ms = ms"
  by (simp add: all_answered_def complete_tool_result_history_def complete_results_same)

subsection \<open>Call ids\<close>

definition renamed_id :: "transform_options \<Rightarrow> assistant_message \<Rightarrow> string \<Rightarrow> string" where
  "renamed_id opts source i =
     (if same_model opts source then i
      else (case toNormalize opts of None \<Rightarrow> i | Some rewrite_id \<Rightarrow> rewrite_id i source))"

text \<open>The renamings one message adds, as an update of the map.\<close>

definition add_renamings :: "transform_options \<Rightarrow> assistant_message \<Rightarrow> string list \<Rightarrow> id_map \<Rightarrow> id_map" where
  "add_renamings opts source is ids =
     foldl (\<lambda>ids i. if renamed_id opts source i \<noteq> i then ids(i \<mapsto> renamed_id opts source i) else ids) ids is"

lemma add_renamings_apply:
  "add_renamings opts source is ids i =
     (if i \<in> set is \<and> renamed_id opts source i \<noteq> i then Some (renamed_id opts source i) else ids i)"
  unfolding add_renamings_def by (induction "is" arbitrary: ids) auto

lemma transform_call_id:
  "transform_tool_call call source (same_model opts source) opts ids = (call', ids') \<Longrightarrow>
     ccID call' = renamed_id opts source (ccID call) \<and> ids' = add_renamings opts source [ccID call] ids"
  by (auto simp: transform_tool_call_def renamed_id_def add_renamings_def Let_def split: if_splits option.splits)

lemma transform_content_calls:
  "transform_assistant_content source (same_model opts source) opts ids cs = (cs', ids') \<Longrightarrow>
     map ccID (tool_calls_of_content cs') = map (renamed_id opts source) (map ccID (tool_calls_of_content cs)) \<and>
     ids' = add_renamings opts source (map ccID (tool_calls_of_content cs)) ids"
proof (induction cs arbitrary: ids cs')
  case Nil
  then show ?case by (simp add: add_renamings_def)
next
  case (Cons c cs)
  have thinking: "transform_thinking t same = Some x \<Longrightarrow> tool_calls_of_content (x # ys) = tool_calls_of_content ys"
    for t same x ys by (auto simp: transform_thinking_def new_text_content_def split: if_splits)
  show ?case
  proof (cases c)
    case (ToolCallContent call)
    obtain call1 ids1 where call: "transform_tool_call call source (same_model opts source) opts ids = (call1, ids1)"
      by (cases "transform_tool_call call source (same_model opts source) opts ids")
    obtain rest where rest: "transform_assistant_content source (same_model opts source) opts ids1 cs = (rest, ids')"
      "cs' = ToolCallContent call1 # rest"
      using Cons.prems ToolCallContent call by (auto split: prod.splits)
    from Cons.IH [OF rest(1)] transform_call_id [OF call] ToolCallContent rest(2) show ?thesis
      by (simp add: add_renamings_def)
  next
    case (ThinkingContent t)
    with Cons thinking show ?thesis by (auto split: prod.splits option.splits)
  qed (use Cons in \<open>auto simp: new_text_content_def split: prod.splits\<close>)
qed

lemma transform_history_calls:
  "transform_assistant_history a opts ids = (a', ids') \<Longrightarrow>
     map ccID (tool_calls_from_assistant a') = map (renamed_id opts a) (map ccID (tool_calls_from_assistant a)) \<and>
     ids' = add_renamings opts a (map ccID (tool_calls_from_assistant a)) ids"
  using transform_content_calls [of a opts ids "amContent a"]
  by (auto simp: transform_assistant_history_def tool_calls_from_assistant_def split: prod.splits)

fun call_ids :: "agent_message \<Rightarrow> string list" where
  "call_ids (AssistantMessage a) = map ccID (tool_calls_from_assistant a)"
| "call_ids _ = []"

text \<open>The map after a stretch of the history.\<close>

definition ids_after :: "transform_options \<Rightarrow> id_map \<Rightarrow> message_list \<Rightarrow> id_map" where
  "ids_after opts ids ms = foldl (\<lambda>ids m. snd (transform_message m opts ids)) ids ms"

lemma transform_all_append:
  "transform_all opts ids (xs @ ys) = transform_all opts ids xs @ transform_all opts (ids_after opts ids xs) ys"
  by (induction xs arbitrary: ids) (auto simp: ids_after_def split: prod.splits)

lemma transform_all_length [simp]: "length (transform_all opts ids ms) = length ms"
  by (induction ms arbitrary: ids) (auto split: prod.splits)

lemma transform_message_other_id:
  "i \<notin> set (call_ids m) \<Longrightarrow> snd (transform_message m opts ids) i = ids i"
  by (cases m) (auto simp: add_renamings_apply split: prod.splits dest!: transform_history_calls)

lemma ids_after_other:
  "\<forall>m \<in> set ms. i \<notin> set (call_ids m) \<Longrightarrow> ids_after opts ids ms i = ids i"
  by (induction ms arbitrary: ids) (auto simp: ids_after_def transform_message_other_id)

text \<open>A result gets the id of its call when no other message up to it has a call with that id.\<close>

lemma transform_all_pairs:
  assumes "i \<in> set (call_ids (AssistantMessage a))" "rmToolCallID r = i"
    and other: "\<forall>m \<in> set (before @ between). i \<notin> set (call_ids m)"
  shows "\<exists>a' r'. transform_all opts Map.empty (before @ AssistantMessage a # between @ ToolResultMessage r # after)
      ! length before = AssistantMessage a' \<and>
    transform_all opts Map.empty (before @ AssistantMessage a # between @ ToolResultMessage r # after)
      ! (Suc (length before + length between)) = ToolResultMessage r' \<and>
    call_ids (AssistantMessage a') = map (renamed_id opts a) (call_ids (AssistantMessage a)) \<and>
    rmToolCallID r' = renamed_id opts a i"
proof -
  let ?m0 = "ids_after opts Map.empty before"
  obtain a' m1 where a: "transform_assistant_history a opts ?m0 = (a', m1)"
    by (cases "transform_assistant_history a opts ?m0")
  note renamed = transform_history_calls [OF a]
  have "?m0 i = None" using other by (simp add: ids_after_other)
  then have m1: "m1 i = (if renamed_id opts a i \<noteq> i then Some (renamed_id opts a i) else None)"
    using renamed assms(1) by (simp add: add_renamings_apply)
  have m2: "ids_after opts m1 between i = m1 i" using other by (simp add: ids_after_other)
  have all: "transform_all opts Map.empty (before @ AssistantMessage a # between @ ToolResultMessage r # after) =
      transform_all opts Map.empty before @ AssistantMessage a' # transform_all opts m1 between @
        fst (transform_message (ToolResultMessage r) opts (ids_after opts m1 between)) #
        transform_all opts (ids_after opts m1 between) after"
    by (simp add: transform_all_append a)
  show ?thesis unfolding all using renamed m1 m2 assms(2) by (auto simp: nth_append)
qed

subsection \<open>Histories of the same model\<close>

text \<open>What is replayed as it is: images are supported, the answers are of this model and have no blank thinking.\<close>

definition kept_thinking :: "content \<Rightarrow> bool" where
  "kept_thinking c = (case c of
     ThinkingContent t \<Rightarrow> thRedacted t \<or> thThinkingSignature t \<noteq> '''' \<or> trim_space (thThinking t) \<noteq> ''''
   | _ \<Rightarrow> True)"

fun replays :: "transform_options \<Rightarrow> agent_message \<Rightarrow> bool" where
  "replays opts (AssistantMessage a) \<longleftrightarrow> same_model opts a \<and> list_all kept_thinking (amContent a)"
| "replays opts _ \<longleftrightarrow> True"

lemma same_content_kept:
  "list_all kept_thinking cs \<Longrightarrow> transform_assistant_content source True opts ids cs = (cs, ids)"
  by (induction cs)
    (auto simp: kept_thinking_def transform_thinking_def transform_tool_call_def split: content.splits)

lemma same_history_kept:
  "toSupportsImages opts \<Longrightarrow> list_all (replays opts) ms \<Longrightarrow> transform_all opts Map.empty ms = ms"
proof (induction ms)
  case (Cons m ms)
  then have "transform_message m opts Map.empty = (m, Map.empty)"
    by (cases m) (auto simp: transform_input_images_def transform_assistant_history_def same_content_kept
        split: prod.splits)
  then show ?case using Cons by simp
qed simp

subsection \<open>Images\<close>

lemma replace_images_rest:
  "filter (\<lambda>c. \<not> text_equals c p) (replace_images p previous cs) =
     filter (\<lambda>c. \<not> is_image c \<and> \<not> text_equals c p) cs"
  by (induction cs arbitrary: previous) (auto simp: new_text_content_def)

lemma replace_images_none: "list_all (\<lambda>c. \<not> is_image c) (replace_images p previous cs)"
  by (induction cs arbitrary: previous) (auto simp: new_text_content_def)

lemma replace_images_shows:
  "list_ex is_image cs \<Longrightarrow> previous \<or> list_ex (\<lambda>c. text_equals c p) (replace_images p previous cs)"
  by (induction cs arbitrary: previous) (auto simp: new_text_content_def)

end
