(* ===== verification/TransformProperties.thy ===== *)
theory TransformProperties
  imports TransformMessages SessionProperties
begin

text \<open>
  The properties of replaying a history to a model: every call is answered and nothing but failed
  answers is lost, a history of the same model is replayed as it is, results follow the ids of
  their calls, and images are left out for a model that has none.
\<close>

definition other_model :: transform_options where
  "other_model = \<lparr>toProvider = ''q'', toModel = ''n'', toSupportsImages = False,
     toNormalize = Some (\<lambda>i a. ''new-'' @ i)\<rparr>"

definition sample_tool_call :: "string \<Rightarrow> string \<Rightarrow> assistant_message" where
  "sample_tool_call provider model = \<lparr>amRole = ''assistant'', amContent = [ToolCallContent
     \<lparr>ccType = ''toolCall'', ccID = ''t1'', ccName = ''ls'', ccArguments = ''{}'',
       ccThoughtSignature = ''sig''\<rparr>],
     amProvider = provider, amModel = model, amResponseModel = '''', amResponseID = '''',
     amUsage = zero_usage, amStopReason = StopReasonToolUse, amErrorMessage = '''', amTimestamp = 2\<rparr>"

definition sample_tool_result :: "string \<Rightarrow> tool_result_message" where
  "sample_tool_result i = \<lparr>rmRole = ''toolResult'', rmToolCallID = i, rmToolName = ''ls'',
     rmContent = [sample_text ''a''], rmDetails = None, rmIsError = False, rmTimestamp = 3\<rparr>"

definition reused_history :: message_list where
  "reused_history =
     [sample_user, AssistantMessage (sample_tool_call ''p'' ''m''), ToolResultMessage (sample_tool_result ''t1''),
      AssistantMessage (sample_tool_call ''q'' ''n''), ToolResultMessage (sample_tool_result ''t1'')]"

definition pair_history :: message_list where
  "pair_history = [sample_user, AssistantMessage (sample_tool_call ''p'' ''m''),
     ToolResultMessage (sample_tool_result ''t1'')]"

fun answer_of :: "agent_message \<Rightarrow> (string \<times> bool) option" where
  "answer_of (ToolResultMessage r) = Some (rmToolCallID r, rmIsError r)"
| "answer_of _ = None"

text \<open>
  C19. What is sent to a model is well formed: every tool call kept is answered before the next user
  or assistant message and before the end, no answer that failed or was aborted is kept, and every
  other message of the transformed history is sent, in its order.
\<close>

theorem transform_answers_calls:
  "all_answered (transform_messages clock opts ms) \<and>
   subseq (filter kept_message (transform_all opts Map.empty ms)) (transform_messages clock opts ms)"
proof
  show "all_answered (transform_messages clock opts ms)"
    unfolding transform_messages_def by (rule complete_history_answered)
  show "subseq (filter kept_message (transform_all opts Map.empty ms)) (transform_messages clock opts ms)"
    using complete_results_keeps [of "[]" "transform_all opts Map.empty ms" clock "[]" "{}"]
    by (simp add: transform_messages_def complete_tool_result_history_def grows_with_def)
qed



text \<open>
  Results follow their calls: when the model has changed, the calls of an answer get their
  rewritten ids, and a result whose call id no other message before it has used gets the id its
  call got, so that the pair stays a pair.
\<close>

theorem results_follow_calls:
  assumes "i \<in> set (call_ids (AssistantMessage a))" "rmToolCallID r = i"
    and "\<forall>m \<in> set (pre @ mid). i \<notin> set (call_ids m)"
    and "ms = pre @ AssistantMessage a # mid @ ToolResultMessage r # post"
  shows "\<exists>a' r'. transform_all opts Map.empty ms ! length pre = AssistantMessage a' \<and>
    transform_all opts Map.empty ms ! (Suc (length pre + length mid)) = ToolResultMessage r' \<and>
    call_ids (AssistantMessage a') = map (renamed_id opts a) (call_ids (AssistantMessage a)) \<and>
    rmToolCallID r' = renamed_id opts a i"
  unfolding assms(4) by (rule transform_all_pairs [OF assms(1-3)])

theorem results_follow_calls_witness:
  "\<exists>a' r'. transform_all other_model Map.empty pair_history ! 1 = AssistantMessage a' \<and>
     transform_all other_model Map.empty pair_history ! 2 = ToolResultMessage r' \<and>
     call_ids (AssistantMessage a') = [''new-t1''] \<and> rmToolCallID r' = ''new-t1''"
proof -
  have ids: "call_ids (AssistantMessage (sample_tool_call ''p'' ''m'')) = [''t1'']" "call_ids sample_user = []"
    "renamed_id other_model (sample_tool_call ''p'' ''m'') ''t1'' = ''new-t1''"
    by code_simp+
  have "\<exists>a' r'. transform_all other_model Map.empty pair_history ! length [sample_user] = AssistantMessage a' \<and>
     transform_all other_model Map.empty pair_history ! Suc (length [sample_user] + length ([] :: message_list)) =
       ToolResultMessage r' \<and>
     call_ids (AssistantMessage a') =
       map (renamed_id other_model (sample_tool_call ''p'' ''m'')) (call_ids (AssistantMessage (sample_tool_call ''p'' ''m''))) \<and>
     rmToolCallID r' = renamed_id other_model (sample_tool_call ''p'' ''m'') ''t1''"
  proof (rule results_follow_calls)
    show "''t1'' \<in> set (call_ids (AssistantMessage (sample_tool_call ''p'' ''m'')))" by (simp only: ids) simp
    show "rmToolCallID (sample_tool_result ''t1'') = ''t1''" by (simp add: sample_tool_result_def)
    show "\<forall>m \<in> set ([sample_user] @ []). ''t1'' \<notin> set (call_ids m)" by (simp add: ids)
    show "pair_history = [sample_user] @ AssistantMessage (sample_tool_call ''p'' ''m'') # [] @
        ToolResultMessage (sample_tool_result ''t1'') # []" by (simp add: pair_history_def)
  qed
  then show ?thesis unfolding ids by (simp add: ids numeral_2_eq_2 del: transform_all.simps)
qed

text \<open>
  The map of rewritten ids is never reset, so an id used by an older model and again by the
  model itself breaks the second pair: its call keeps the id, its result is given the rewritten one,
  and an error result is sent for a call that was answered.
\<close>

theorem reused_id_breaks_pair:
  "map call_ids (transform_messages (\<lambda>n. 0) other_model reused_history) =
     [[], [''new-t1''], [], [''t1''], [], []] \<and>
   map answer_of (transform_messages (\<lambda>n. 0) other_model reused_history) =
     [None, None, Some (''new-t1'', False), None, Some (''new-t1'', False), Some (''t1'', True)]"
  by code_simp

text \<open>
  For a model without images no image is left, everything but images and placeholders is kept in
  its order, and where an image was left out the placeholder tells so; with images nothing changes.
\<close>

theorem images_left_out:
  "transform_input_images cs p True = cs \<and>
   list_all (\<lambda>c. \<not> is_image c) (transform_input_images cs p False) \<and>
   filter (\<lambda>c. \<not> text_equals c p) (transform_input_images cs p False) =
     filter (\<lambda>c. \<not> is_image c \<and> \<not> text_equals c p) cs \<and>
   (if list_ex is_image cs then list_ex (\<lambda>c. text_equals c p) (transform_input_images cs p False)
    else transform_input_images cs p False = cs)"
proof -
  have "replace_images p previous cs = cs" if "\<not> list_ex is_image cs" for previous
    using that by (induction cs arbitrary: previous) auto
  then show ?thesis
    using replace_images_none [of p False cs] replace_images_rest [of p False cs]
      replace_images_shows [of cs False p]
    by (auto simp: transform_input_images_def)
qed

end
