(* ===== verification/Channels.thy ===== *)
theory Channels
  imports Prelude
begin

text \<open>
  Go's buffered channels as values: the queue, the capacity and whether the channel is closed. A send
  to a full channel is \<open>Full\<close> (a blocking send waits there, a \<open>select\<close> takes its default), a send to a
  closed one and a second close panic, and a receiver drains the queue before it sees the end.
\<close>

record 'a channel =
  chQueue :: "'a list"
  chCap :: nat
  chClosed :: bool

definition make_channel :: "nat \<Rightarrow> 'a channel" where
  "make_channel n = \<lparr>chQueue = [], chCap = n, chClosed = False\<rparr>"

datatype 'a sent = Sent "'a channel" | Full | SendPanic

definition chan_send :: "'a \<Rightarrow> 'a channel \<Rightarrow> 'a sent" where
  "chan_send v ch =
     (if chClosed ch then SendPanic
      else if length (chQueue ch) < chCap ch then Sent (ch\<lparr>chQueue := chQueue ch @ [v]\<rparr>) else Full)"

text \<open>\<open>None\<close> is the panic of closing a closed channel.\<close>

definition chan_close :: "'a channel \<Rightarrow> 'a channel option" where
  "chan_close ch = (if chClosed ch then None else Some (ch\<lparr>chClosed := True\<rparr>))"

datatype 'a received = Received 'a "'a channel" | ChannelEnd | NothingYet

definition chan_receive :: "'a channel \<Rightarrow> 'a received" where
  "chan_receive ch =
     (case chQueue ch of
        v # vs \<Rightarrow> Received v (ch\<lparr>chQueue := vs\<rparr>)
      | [] \<Rightarrow> if chClosed ch then ChannelEnd else NothingYet)"

text \<open>Sends that must not block: \<open>None\<close> when one would wait or panic.\<close>

fun chan_fill :: "'a list \<Rightarrow> 'a channel \<Rightarrow> 'a channel option" where
  "chan_fill [] ch = Some ch"
| "chan_fill (v # vs) ch = (case chan_send v ch of Sent ch' \<Rightarrow> chan_fill vs ch' | _ \<Rightarrow> None)"

lemma chan_fill_fits:
  "\<not> chClosed ch \<Longrightarrow> length (chQueue ch) + length vs \<le> chCap ch \<Longrightarrow>
     chan_fill vs ch = Some (ch\<lparr>chQueue := chQueue ch @ vs\<rparr>)"
  by (induction vs arbitrary: ch) (auto simp: chan_send_def)

lemma make_channel_sel [simp]:
  "chQueue (make_channel n) = []" "chCap (make_channel n) = n" "\<not> chClosed (make_channel n)"
  by (simp_all add: make_channel_def)

text \<open>The last \<open>n\<close> entries of a list.\<close>

definition last_n :: "nat \<Rightarrow> 'a list \<Rightarrow> 'a list" where
  "last_n n xs = drop (length xs - n) xs"

lemma last_n_length [simp]: "length (last_n n xs) = min n (length xs)"
  by (simp add: last_n_def)

lemma last_n_last_n: "last_n k (last_n n xs) = last_n (min k n) xs"
proof (cases "k \<le> n")
  case True
  then have "length xs - (length xs - n + k) + (length xs - n) = length xs - k" by arith
  with True show ?thesis by (simp add: last_n_def min_def)
qed (simp add: last_n_def min_def)

lemma last_n_snoc: "0 < n \<Longrightarrow> last_n n (last_n n xs @ [x]) = last_n n (xs @ [x])"
  by (cases "length xs < n") (auto simp: last_n_def Suc_diff_le drop_Suc_Cons)

lemma last_n_all: "length xs \<le> n \<Longrightarrow> last_n n xs = xs"
  by (simp add: last_n_def)

lemma last_n_zero [simp]: "last_n 0 xs = []"
  by (simp add: last_n_def)

end
