(* ===== verification/LogHub.thy ===== *)
theory LogHub
  imports Channels "HOL-Library.Sublist"
begin

text \<open>
  The bounded log hub, \<open>internal/loghub/hub.go\<close>: a ring of the last entries and live fan-out to
  subscribers through buffered channels. Every subscription ever made keeps its channel in
  \<open>hbChannels\<close>, under its position; \<open>hbSubscribers\<close> lists the keys of the map of live ones, in the order
  the map is ranged over. Each operation runs under the hub's lock, so an operation is one step;
  \<open>None\<close> is a panic, or a send that would wait with the lock held.
\<close>

record 'a hub =
  hbChannels :: "'a channel list"
  hbSubscribers :: "nat list"
  hbHistory :: "'a list"
  hbPos :: nat
  hbCount :: nat
  hbMaxSubscribers :: nat
  hbSubscriberQueue :: nat
  hbClosed :: bool

record hub_options =
  hoHistorySize :: int
  hoMaxSubscribers :: int
  hoSubscriberQueue :: int

datatype hub_error = ErrSubscriberLimit | ErrHubClosed

text \<open>\<open>zero\<close> is the zero value of the entries, which \<open>make\<close> fills the ring with.\<close>

definition new_hub :: "'a \<Rightarrow> hub_options \<Rightarrow> 'a hub" where
  "new_hub zero options =
     \<lparr>hbChannels = [], hbSubscribers = [],
      hbHistory = replicate (nat (if hoHistorySize options < 0 then 0 else hoHistorySize options)) zero,
      hbPos = 0, hbCount = 0,
      hbMaxSubscribers = nat (if hoMaxSubscribers options \<le> 0 then 1 else hoMaxSubscribers options),
      hbSubscriberQueue = nat (if hoSubscriberQueue options \<le> 0 then 1 else hoSubscriberQueue options),
      hbClosed = False\<rparr>"

definition hub_record :: "'a \<Rightarrow> 'a hub \<Rightarrow> 'a hub" where
  "hub_record e h =
     (if 0 < length (hbHistory h)
      then h\<lparr>hbHistory := (hbHistory h)[hbPos h mod length (hbHistory h) := e], hbPos := hbPos h + 1,
             hbCount := (if hbCount h < length (hbHistory h) then hbCount h + 1 else hbCount h)\<rparr>
      else h)"

definition hub_drop :: "nat \<Rightarrow> 'a hub \<Rightarrow> 'a hub option" where
  "hub_drop i h =
     (case chan_close (hbChannels h ! i) of
        None \<Rightarrow> None
      | Some ch \<Rightarrow> Some (h\<lparr>hbSubscribers := removeAll i (hbSubscribers h),
          hbChannels := (hbChannels h)[i := ch]\<rparr>))"

fun hub_offer :: "'a \<Rightarrow> nat list \<Rightarrow> 'a hub \<Rightarrow> 'a hub option" where
  "hub_offer e [] h = Some h"
| "hub_offer e (i # is) h =
     (case chan_send e (hbChannels h ! i) of
        Sent ch \<Rightarrow> hub_offer e is (h\<lparr>hbChannels := (hbChannels h)[i := ch]\<rparr>)
      | Full \<Rightarrow> (case hub_drop i h of None \<Rightarrow> None | Some h' \<Rightarrow> hub_offer e is h')
      | SendPanic \<Rightarrow> None)"

definition hub_push :: "'a \<Rightarrow> 'a hub \<Rightarrow> 'a hub option" where
  "hub_push e h = (if hbClosed h then Some h else hub_offer e (hbSubscribers h) (hub_record e h))"

definition hub_snapshot :: "int \<Rightarrow> 'a hub \<Rightarrow> 'a list" where
  "hub_snapshot tail h =
     (if hbCount h = 0 then []
      else (let n = (if tail \<le> 0 \<or> tail > int (hbCount h) then hbCount h else nat tail)
            in map (\<lambda>i. hbHistory h ! (i mod length (hbHistory h))) [hbPos h - n ..< hbPos h]))"

definition hub_subscribe :: "int \<Rightarrow> 'a hub \<Rightarrow> ((hub_error + nat) \<times> 'a hub) option" where
  "hub_subscribe tail h =
     (if hbClosed h then Some (Inl ErrHubClosed, h)
      else if length (hbSubscribers h) \<ge> hbMaxSubscribers h then Some (Inl ErrSubscriberLimit, h)
      else (let replay = hub_snapshot tail h in
        case chan_fill replay (make_channel (length replay + hbSubscriberQueue h)) of
          None \<Rightarrow> None
        | Some ch \<Rightarrow> Some (Inr (length (hbChannels h)),
            h\<lparr>hbChannels := hbChannels h @ [ch],
              hbSubscribers := hbSubscribers h @ [length (hbChannels h)]\<rparr>)))"

text \<open>The function that \<open>Subscribe\<close> returns for its subscription.\<close>

definition hub_cancel :: "nat \<Rightarrow> 'a hub \<Rightarrow> 'a hub option" where
  "hub_cancel i h = (if i \<in> set (hbSubscribers h) then hub_drop i h else Some h)"

fun hub_drop_all :: "nat list \<Rightarrow> 'a hub \<Rightarrow> 'a hub option" where
  "hub_drop_all [] h = Some h"
| "hub_drop_all (i # is) h = (case hub_drop i h of None \<Rightarrow> None | Some h' \<Rightarrow> hub_drop_all is h')"

definition hub_close :: "'a hub \<Rightarrow> 'a hub option" where
  "hub_close h =
     (if hbClosed h then Some h
      else (case hub_drop_all (hbSubscribers h) (h\<lparr>hbClosed := True\<rparr>) of
              None \<Rightarrow> None
            | Some h' \<Rightarrow> Some (h'\<lparr>hbHistory := [], hbCount := 0\<rparr>)))"

subsection \<open>The hub observed\<close>

text \<open>
  The hub with the whole log pushed to it and, for every subscription, where in the log its stream
  starts and what its consumer has received.
\<close>

record 'a view =
  vwStart :: nat
  vwRead :: "'a list"

record 'a watched =
  waHub :: "'a hub"
  waLog :: "'a list"
  waViews :: "'a view list"

datatype 'a hub_call = HubPush 'a | HubSubscribe int | HubCancel nat | HubReceive nat | HubClose

definition watched_on :: "'a watched \<Rightarrow> 'a hub \<Rightarrow> 'a watched" where
  "watched_on w h = w\<lparr>waHub := h\<rparr>"

fun watch_step :: "'a hub_call \<Rightarrow> 'a watched \<Rightarrow> 'a watched option" where
  "watch_step (HubPush e) w =
     (case hub_push e (waHub w) of
        None \<Rightarrow> None
      | Some h \<Rightarrow> Some ((watched_on w h)\<lparr>waLog := (if hbClosed (waHub w) then waLog w else waLog w @ [e])\<rparr>))"
| "watch_step (HubSubscribe tail) w =
     (case hub_subscribe tail (waHub w) of
        None \<Rightarrow> None
      | Some (Inl e, h) \<Rightarrow> Some (watched_on w h)
      | Some (Inr i, h) \<Rightarrow> Some ((watched_on w h)\<lparr>waViews := waViews w @
          [\<lparr>vwStart = length (waLog w) - length (hub_snapshot tail (waHub w)), vwRead = []\<rparr>]\<rparr>))"
| "watch_step (HubCancel i) w = map_option (watched_on w) (hub_cancel i (waHub w))"
| "watch_step (HubReceive i) w =
     (if i < length (hbChannels (waHub w))
      then (case chan_receive (hbChannels (waHub w) ! i) of
              Received v ch \<Rightarrow> Some (w\<lparr>waHub := (waHub w)\<lparr>hbChannels := (hbChannels (waHub w))[i := ch]\<rparr>,
                waViews := (waViews w)[i := (waViews w ! i)\<lparr>vwRead := vwRead (waViews w ! i) @ [v]\<rparr>]\<rparr>)
            | _ \<Rightarrow> Some w)
      else Some w)"
| "watch_step HubClose w = map_option (watched_on w) (hub_close (waHub w))"

fun watch_steps :: "'a hub_call list \<Rightarrow> 'a watched \<Rightarrow> 'a watched option" where
  "watch_steps [] w = Some w"
| "watch_steps (c # cs) w = (case watch_step c w of None \<Rightarrow> None | Some w' \<Rightarrow> watch_steps cs w')"

definition watch_new :: "'a \<Rightarrow> hub_options \<Rightarrow> 'a watched" where
  "watch_new zero options = \<lparr>waHub = new_hub zero options, waLog = [], waViews = []\<rparr>"

subsection \<open>The ring\<close>

text \<open>The ring of \<open>n\<close> slots holds the last \<open>n\<close> entries of the log.\<close>

definition ring_ok :: "nat \<Rightarrow> 'a list \<Rightarrow> 'a hub \<Rightarrow> bool" where
  "ring_ok n log h \<longleftrightarrow> length (hbHistory h) = n \<and>
     (if n = 0 then hbPos h = 0 \<and> hbCount h = 0
      else hbPos h = length log \<and> hbCount h = min n (length log) \<and>
        (\<forall>i. length log - min n (length log) \<le> i \<and> i < length log \<longrightarrow> hbHistory h ! (i mod n) = log ! i))"

lemma mod_differs: "(i :: nat) < j \<Longrightarrow> j - i < n \<Longrightarrow> i mod n \<noteq> j mod n"
  using mod_eq_dvd_iff_nat [of i j n] nat_dvd_not_less [of "j - i" n] by auto

lemma ring_record: "ring_ok n log h \<Longrightarrow> ring_ok n (log @ [e]) (hub_record e h)"
proof (cases "n = 0")
  case False
  assume ring: "ring_ok n log h"
  have old: "(hbHistory h)[length log mod n := e] ! (i mod n) = log ! i"
    if "Suc (length log) - min n (Suc (length log)) \<le> i" "i < length log" for i
  proof -
    have "i mod n \<noteq> length log mod n" by (rule mod_differs) (use that False in auto)
    moreover have "length log - min n (length log) \<le> i" using that by auto
    ultimately show ?thesis using ring that False by (simp add: ring_ok_def nth_list_update_neq)
  qed
  show ?thesis using ring old False
    by (auto simp: ring_ok_def hub_record_def nth_append less_Suc_eq)
qed (auto simp: ring_ok_def hub_record_def)

lemma ring_snapshot:
  assumes "ring_ok n log h"
  shows "hub_snapshot tail h = last_n (if tail \<le> 0 then n else min n (nat tail)) log"
proof (cases "hbCount h = 0")
  case True
  then show ?thesis using assms by (auto simp: hub_snapshot_def ring_ok_def last_n_def min_def split: if_splits)
next
  case False
  define k where "k = (if tail \<le> 0 \<or> tail > int (hbCount h) then hbCount h else nat tail)"
  have n: "0 < n" "hbPos h = length log" "hbCount h = min n (length log)" "length (hbHistory h) = n"
    using assms False by (auto simp: ring_ok_def split: if_splits)
  have k: "k \<le> hbCount h" by (auto simp: k_def)
  have "hub_snapshot tail h = map (\<lambda>i. hbHistory h ! (i mod n)) [length log - k ..< length log]"
    using False n by (simp add: hub_snapshot_def k_def Let_def)
  also have "\<dots> = map (\<lambda>i. log ! i) [length log - k ..< length log]"
    using assms n k by (auto simp: ring_ok_def)
  also have "\<dots> = last_n k log"
    using drop_map [of "length log - k" "(!) log" "[0..<length log]"] by (simp add: last_n_def map_nth)
  also have "\<dots> = last_n (if tail \<le> 0 then n else min n (nat tail)) log"
    using n by (auto simp: k_def last_n_def min_def nat_le_iff nat_less_iff le_nat_iff)
  finally show ?thesis .
qed

lemma ring_new: "ring_ok (nat (hoHistorySize options)) [] (new_hub zero options)"
  by (auto simp: ring_ok_def new_hub_def)

subsection \<open>The streams\<close>

text \<open>
  A subscription's stream, what was received and what is queued, is the log from its start, all of
  it while the subscription is live and a first part of it once it was dropped.
\<close>

definition view_ok :: "'a list \<Rightarrow> bool \<Rightarrow> 'a channel \<Rightarrow> 'a view \<Rightarrow> bool" where
  "view_ok log live ch v \<longleftrightarrow> live = (\<not> chClosed ch) \<and> length (chQueue ch) \<le> chCap ch \<and>
     vwStart v \<le> length log \<and> prefix (vwRead v @ chQueue ch) (drop (vwStart v) log) \<and>
     (live \<longrightarrow> vwRead v @ chQueue ch = drop (vwStart v) log)"

text \<open>Every view is right; the subscriptions in \<open>old\<close> have not been offered the last entry yet.\<close>

definition views_ok :: "'a list \<Rightarrow> 'a list \<Rightarrow> nat set \<Rightarrow> 'a view list \<Rightarrow> 'a hub \<Rightarrow> bool" where
  "views_ok log fresh old views h \<longleftrightarrow> length views = length (hbChannels h) \<and>
     distinct (hbSubscribers h) \<and> set (hbSubscribers h) \<subseteq> {..<length (hbChannels h)} \<and>
     (\<forall>i < length (hbChannels h). view_ok (if i \<in> old then log else log @ fresh)
        (i \<in> set (hbSubscribers h)) (hbChannels h ! i) (views ! i))"

lemma views_ok_at:
  "views_ok log fresh old views h \<Longrightarrow> i < length (hbChannels h) \<Longrightarrow> (i \<in> set (hbSubscribers h)) = live \<Longrightarrow>
     view_ok (if i \<in> old then log else log @ fresh) live (hbChannels h ! i) (views ! i)"
  unfolding views_ok_def by blast

definition hub_frame :: "'a hub \<Rightarrow> 'a hub \<Rightarrow> bool" where
  "hub_frame h h' \<longleftrightarrow> hbHistory h' = hbHistory h \<and> hbPos h' = hbPos h \<and> hbCount h' = hbCount h \<and>
     hbMaxSubscribers h' = hbMaxSubscribers h \<and> hbSubscriberQueue h' = hbSubscriberQueue h \<and>
     hbClosed h' = hbClosed h \<and> length (hbChannels h') = length (hbChannels h) \<and>
     length (hbSubscribers h') \<le> length (hbSubscribers h) \<and> map chCap (hbChannels h') = map chCap (hbChannels h)"

lemma hub_frame_refl [simp]: "hub_frame h h"
  by (simp add: hub_frame_def)

lemma hub_frame_trans [trans]: "hub_frame a b \<Longrightarrow> hub_frame b c \<Longrightarrow> hub_frame a c"
  by (simp add: hub_frame_def)

lemma hub_frame_ring: "hub_frame h h' \<Longrightarrow> ring_ok n log h' = ring_ok n log h"
  by (simp add: hub_frame_def ring_ok_def)

lemma view_ok_more: "view_ok log False ch v \<Longrightarrow> view_ok (log @ fresh) False ch v"
  by (auto simp: view_ok_def prefix_def)

lemma view_ok_send:
  "view_ok log True ch v \<Longrightarrow> chan_send e ch = Sent ch' \<Longrightarrow> view_ok (log @ [e]) True ch' v \<and> chCap ch' = chCap ch"
  by (auto simp: view_ok_def chan_send_def split: if_splits simp flip: append_assoc)

lemma view_ok_drop: "view_ok log True ch v \<Longrightarrow> view_ok (log @ fresh) False (ch\<lparr>chClosed := True\<rparr>) v"
  by (rule view_ok_more) (simp add: view_ok_def)

lemma view_ok_receive:
  "view_ok log live ch v \<Longrightarrow> chan_receive ch = Received e ch' \<Longrightarrow>
     view_ok log live ch' (v\<lparr>vwRead := vwRead v @ [e]\<rparr>)"
  by (auto simp: view_ok_def chan_receive_def split: list.splits if_splits)

lemma hub_drop_ok:
  assumes "views_ok log fresh old views h" "i \<in> set (hbSubscribers h)"
  shows "\<exists>h'. hub_drop i h = Some h' \<and> views_ok log fresh (old - {i}) views h' \<and> hub_frame h h' \<and>
    hbSubscribers h' = removeAll i (hbSubscribers h)"
proof -
  have i: "i < length (hbChannels h)" using assms by (auto simp: views_ok_def)
  then have v: "view_ok (if i \<in> old then log else log @ fresh) True (hbChannels h ! i) (views ! i)"
    using assms by (auto simp: views_ok_def)
  then have drop: "hub_drop i h = Some (h\<lparr>hbSubscribers := removeAll i (hbSubscribers h),
      hbChannels := (hbChannels h)[i := (hbChannels h ! i)\<lparr>chClosed := True\<rparr>]\<rparr>)"
    by (simp add: hub_drop_def chan_close_def view_ok_def)
  have closed: "view_ok (log @ fresh) False ((hbChannels h ! i)\<lparr>chClosed := True\<rparr>) (views ! i)"
    using v view_ok_drop [of log "hbChannels h ! i" "views ! i" fresh]
      view_ok_drop [of "log @ fresh" "hbChannels h ! i" "views ! i" "[]"] by (auto split: if_splits)
  show ?thesis unfolding drop using assms i closed
    by (auto simp: views_ok_def hub_frame_def nth_list_update distinct_removeAll list_update_id
        map_update length_removeAll_less_eq simp del: list_update_id intro!: nth_equalityI split: if_splits)
qed

lemma views_ok_send:
  assumes "views_ok log [e] old views h" "i \<in> old" "i \<in> set (hbSubscribers h)"
    "chan_send e (hbChannels h ! i) = Sent ch"
  shows "views_ok log [e] (old - {i}) views (h\<lparr>hbChannels := (hbChannels h)[i := ch]\<rparr>) \<and>
    hub_frame h (h\<lparr>hbChannels := (hbChannels h)[i := ch]\<rparr>)"
proof -
  have i: "i < length (hbChannels h)" using assms by (auto simp: views_ok_def)
  then have "view_ok log True (hbChannels h ! i) (views ! i)" using assms by (auto simp: views_ok_def)
  from view_ok_send [OF this assms(4)] have sent: "view_ok (log @ [e]) True ch (views ! i)"
    "chCap ch = chCap (hbChannels h ! i)" by auto
  show ?thesis using assms i sent
    by (auto simp: views_ok_def hub_frame_def nth_list_update map_update simp del: list_update_id
        intro!: nth_equalityI split: if_splits)
qed

lemma hub_offer_ok:
  "views_ok log [e] (set is) views h \<Longrightarrow> distinct is \<Longrightarrow> set is \<subseteq> set (hbSubscribers h) \<Longrightarrow>
     \<exists>h'. hub_offer e is h = Some h' \<and> views_ok log [e] {} views h' \<and> hub_frame h h'"
proof (induction "is" arbitrary: h)
  case (Cons i "is")
  have i: "i \<in> set (hbSubscribers h)" "i < length (hbChannels h)"
    using Cons.prems by (auto simp: views_ok_def)
  have rest: "set (i # is) - {i} = set is" using Cons.prems(2) by auto
  have live: "\<not> chClosed (hbChannels h ! i)" using Cons.prems i by (auto simp: views_ok_def view_ok_def)
  show ?case
  proof (cases "chan_send e (hbChannels h ! i)")
    case (Sent ch)
    from views_ok_send [OF Cons.prems(1) _ i(1) Sent] rest
    have ok: "views_ok log [e] (set is) views (h\<lparr>hbChannels := (hbChannels h)[i := ch]\<rparr>)"
      "hub_frame h (h\<lparr>hbChannels := (hbChannels h)[i := ch]\<rparr>)" by simp_all
    from Cons.IH [OF ok(1)] Cons.prems Sent ok(2) show ?thesis by (auto intro: hub_frame_trans)
  next
    case Full
    from hub_drop_ok [OF Cons.prems(1) i(1)] rest obtain h1 where drop: "hub_drop i h = Some h1"
      "views_ok log [e] (set is) views h1" "hub_frame h h1" "hbSubscribers h1 = removeAll i (hbSubscribers h)"
      by auto
    from Cons.IH [OF drop(2)] Cons.prems drop Full show ?thesis by (auto intro: hub_frame_trans)
  next
    case SendPanic
    with live show ?thesis by (simp add: chan_send_def split: if_splits)
  qed
qed auto

lemma hub_drop_all_ok:
  "views_ok log [] {} views h \<Longrightarrow> distinct is \<Longrightarrow> set is \<subseteq> set (hbSubscribers h) \<Longrightarrow>
     \<exists>h'. hub_drop_all is h = Some h' \<and> views_ok log [] {} views h' \<and> hub_frame h h' \<and>
       set (hbSubscribers h') = set (hbSubscribers h) - set is"
proof (induction "is" arbitrary: h)
  case (Cons i "is")
  from hub_drop_ok [OF Cons.prems(1)] Cons.prems(3) obtain h1 where drop: "hub_drop i h = Some h1"
    "views_ok log [] {} views h1" "hub_frame h h1" "hbSubscribers h1 = removeAll i (hbSubscribers h)"
    by auto
  from Cons.IH [OF drop(2)] Cons.prems drop show ?case by (auto intro: hub_frame_trans)
qed auto

subsection \<open>The hub keeps its bounds and is never stuck\<close>

definition watched_ok :: "nat \<Rightarrow> nat \<Rightarrow> nat \<Rightarrow> 'a watched \<Rightarrow> bool" where
  "watched_ok n most queue w \<longleftrightarrow>
     views_ok (waLog w) [] {} (waViews w) (waHub w) \<and>
     (if hbClosed (waHub w) then hbSubscribers (waHub w) = [] \<and> hbCount (waHub w) = 0
      else ring_ok n (waLog w) (waHub w)) \<and>
     hbMaxSubscribers (waHub w) = most \<and> hbSubscriberQueue (waHub w) = queue \<and>
     length (hbSubscribers (waHub w)) \<le> most \<and>
     (\<forall>ch \<in> set (hbChannels (waHub w)). chCap ch \<le> n + queue)"

lemma caps_frame:
  "hub_frame h h' \<Longrightarrow> (\<forall>ch \<in> set (hbChannels h'). chCap ch \<le> m) = (\<forall>ch \<in> set (hbChannels h). chCap ch \<le> m)"
proof -
  have "(\<forall>c \<in> set (map chCap cs). c \<le> m) = (\<forall>ch \<in> set cs. chCap ch \<le> m)" for cs :: "'a channel list"
    by simp
  then show "hub_frame h h' \<Longrightarrow> ?thesis" unfolding hub_frame_def by metis
qed

lemma watched_frame:
  assumes "watched_ok n most queue w" "hub_frame (waHub w) h" "views_ok (waLog w) [] {} (waViews w) h"
  shows "watched_ok n most queue (watched_on w h)"
  using assms caps_frame [OF assms(2)] hub_frame_ring [OF assms(2)]
  by (auto simp: watched_ok_def watched_on_def hub_frame_def)

lemma hub_record_frame:
  "views_ok log fresh old views (hub_record e h) = views_ok log fresh old views h"
  "hbSubscribers (hub_record e h) = hbSubscribers h" "hbChannels (hub_record e h) = hbChannels h"
  "hbMaxSubscribers (hub_record e h) = hbMaxSubscribers h" "hbClosed (hub_record e h) = hbClosed h"
  "hbSubscriberQueue (hub_record e h) = hbSubscriberQueue h"
  by (auto simp: hub_record_def views_ok_def)

lemma views_ok_push:
  assumes "views_ok log [] {} views h"
  shows "views_ok log [e] (set (hbSubscribers (hub_record e h))) views (hub_record e h)"
proof -
  have gone: "view_ok (log @ [e]) False (hbChannels h ! i) (views ! i)"
    if "i < length (hbChannels h)" "i \<notin> set (hbSubscribers h)" for i
    by (rule view_ok_more) (use views_ok_at [OF assms that(1), of False] that(2) in simp)
  show ?thesis unfolding hub_record_frame using assms gone by (auto simp: views_ok_def)
qed

lemma watch_push:
  assumes "watched_ok n most queue w"
  shows "\<exists>w'. watch_step (HubPush e) w = Some w' \<and> watched_ok n most queue w'"
proof (cases "hbClosed (waHub w)")
  case True
  with assms show ?thesis by (simp add: hub_push_def watched_on_def)
next
  case False
  let ?h = "hub_record e (waHub w)"
  have views: "views_ok (waLog w) [] {} (waViews w) (waHub w)" using assms by (simp add: watched_ok_def)
  from views_ok_push [OF this] have "views_ok (waLog w) [e] (set (hbSubscribers ?h)) (waViews w) ?h" .
  moreover have "distinct (hbSubscribers ?h)" using views by (simp add: views_ok_def hub_record_frame)
  ultimately obtain h where h: "hub_offer e (hbSubscribers ?h) ?h = Some h"
    "views_ok (waLog w) [e] {} (waViews w) h" "hub_frame ?h h"
    using hub_offer_ok [of "waLog w" e "hbSubscribers ?h" "waViews w" ?h] by auto
  have "ring_ok n (waLog w @ [e]) h"
    using assms False ring_record hub_frame_ring [OF h(3)] by (auto simp: watched_ok_def)
  moreover have "views_ok (waLog w @ [e]) [] {} (waViews w) h" using h(2) by (simp add: views_ok_def)
  moreover have "\<forall>ch \<in> set (hbChannels h). chCap ch \<le> n + queue"
    using assms caps_frame [OF h(3)] by (simp add: watched_ok_def hub_record_frame)
  ultimately show ?thesis using assms h False
    by (auto simp: hub_push_def watched_ok_def watched_on_def hub_frame_def hub_record_frame)
qed

lemma watch_subscribe:
  assumes "watched_ok n most queue w"
  shows "\<exists>w'. watch_step (HubSubscribe tail) w = Some w' \<and> watched_ok n most queue w'"
proof (cases "hbClosed (waHub w) \<or> length (hbSubscribers (waHub w)) \<ge> hbMaxSubscribers (waHub w)")
  case True
  with assms show ?thesis by (auto simp: hub_subscribe_def watched_on_def)
next
  case False
  let ?h = "waHub w" let ?replay = "hub_snapshot tail ?h" let ?k = "length (hbChannels ?h)"
  define ch where "ch = (make_channel (length ?replay + hbSubscriberQueue ?h) :: 'a channel)
    \<lparr>chQueue := ?replay\<rparr>"
  define h' where "h' = ?h\<lparr>hbChannels := hbChannels ?h @ [ch], hbSubscribers := hbSubscribers ?h @ [?k]\<rparr>"
  define v where "v = (\<lparr>vwStart = length (waLog w) - length ?replay, vwRead = []\<rparr> :: 'a view)"
  have fill: "chan_fill ?replay (make_channel (length ?replay + hbSubscriberQueue ?h)) = Some ch"
    by (simp add: chan_fill_fits ch_def)
  have step: "watch_step (HubSubscribe tail) w = Some ((watched_on w h')\<lparr>waViews := waViews w @ [v]\<rparr>)"
    using False by (simp add: hub_subscribe_def fill h'_def v_def)
  have ring: "ring_ok n (waLog w) ?h" using assms False by (simp add: watched_ok_def)
  have replay: "?replay = drop (length (waLog w) - length ?replay) (waLog w)" "length ?replay \<le> n"
    unfolding ring_snapshot [OF ring] by (auto simp: last_n_def min_def)
  have new: "view_ok (waLog w) True ch v"
    using replay(1) by (auto simp: view_ok_def ch_def v_def make_channel_def)
  have views: "views_ok (waLog w) [] {} (waViews w @ [v]) h'"
    using assms new by (auto simp: watched_ok_def views_ok_def h'_def nth_append less_Suc_eq)
  have "watched_ok n most queue ((watched_on w h')\<lparr>waViews := waViews w @ [v]\<rparr>)"
    using assms False views replay(2) ring
    by (auto simp: watched_ok_def watched_on_def h'_def ch_def make_channel_def ring_ok_def)
  with step show ?thesis by blast
qed

lemma watch_cancel:
  assumes "watched_ok n most queue w"
  shows "\<exists>w'. watch_step (HubCancel i) w = Some w' \<and> watched_ok n most queue w'"
proof (cases "i \<in> set (hbSubscribers (waHub w))")
  case False
  with assms show ?thesis by (simp add: hub_cancel_def watched_on_def)
next
  case True
  have views: "views_ok (waLog w) [] {} (waViews w) (waHub w)" using assms by (simp add: watched_ok_def)
  from hub_drop_ok [OF views True] obtain h where h: "hub_drop i (waHub w) = Some h"
    "views_ok (waLog w) [] {} (waViews w) h" "hub_frame (waHub w) h" by auto
  from watched_frame [OF assms h(3,2)] h(1) True show ?thesis by (simp add: hub_cancel_def)
qed

lemma watch_receive:
  assumes "watched_ok n most queue w"
  shows "\<exists>w'. watch_step (HubReceive i) w = Some w' \<and> watched_ok n most queue w'"
proof (cases "i < length (hbChannels (waHub w))")
  case False
  with assms show ?thesis by simp
next
  case True
  show ?thesis
  proof (cases "chan_receive (hbChannels (waHub w) ! i)")
    case (Received e ch)
    let ?h = "(waHub w)\<lparr>hbChannels := (hbChannels (waHub w))[i := ch]\<rparr>"
    let ?v = "(waViews w ! i)\<lparr>vwRead := vwRead (waViews w ! i) @ [e]\<rparr>"
    have "view_ok (waLog w) (i \<in> set (hbSubscribers (waHub w))) (hbChannels (waHub w) ! i) (waViews w ! i)"
      using assms True by (simp add: watched_ok_def views_ok_def)
    from view_ok_receive [OF this Received]
    have "views_ok (waLog w) [] {} ((waViews w)[i := ?v]) ?h"
      using assms True by (auto simp: watched_ok_def views_ok_def nth_list_update)
    moreover have cap: "chCap ch = chCap (hbChannels (waHub w) ! i)"
      using Received by (auto simp: chan_receive_def split: list.splits if_splits)
    have "\<forall>c \<in> set ((hbChannels (waHub w))[i := ch]). chCap c \<le> n + queue"
      using assms True cap set_update_subset_insert [of "hbChannels (waHub w)" i ch]
      by (auto simp: watched_ok_def)
    ultimately have "watched_ok n most queue (w\<lparr>waHub := ?h, waViews := (waViews w)[i := ?v]\<rparr>)"
      using assms by (auto simp: watched_ok_def ring_ok_def)
    with Received True show ?thesis by simp
  qed (use assms True in simp_all)
qed

lemma watch_close:
  assumes "watched_ok n most queue w"
  shows "\<exists>w'. watch_step HubClose w = Some w' \<and> watched_ok n most queue w'"
proof (cases "hbClosed (waHub w)")
  case True
  with assms show ?thesis by (simp add: hub_close_def watched_on_def)
next
  case False
  let ?h = "(waHub w)\<lparr>hbClosed := True\<rparr>"
  have views: "views_ok (waLog w) [] {} (waViews w) ?h" and dist: "distinct (hbSubscribers (waHub w))"
    using assms by (auto simp: watched_ok_def views_ok_def)
  from hub_drop_all_ok [OF views dist] obtain h where h: "hub_drop_all (hbSubscribers (waHub w)) ?h = Some h"
    "views_ok (waLog w) [] {} (waViews w) h" "hub_frame ?h h" "hbSubscribers h = []" by auto
  have "watched_ok n most queue (watched_on w (h\<lparr>hbHistory := [], hbCount := 0\<rparr>))"
    using assms h caps_frame [OF h(3)] by (auto simp: watched_ok_def watched_on_def hub_frame_def views_ok_def)
  then show ?thesis using h(1) False by (simp add: hub_close_def)
qed

lemma watch_step_ok:
  "watched_ok n most queue w \<Longrightarrow> \<exists>w'. watch_step c w = Some w' \<and> watched_ok n most queue w'"
  by (cases c) (simp_all only: watch_push watch_subscribe watch_cancel watch_receive watch_close)

lemma watch_steps_ok:
  "watched_ok n most queue w \<Longrightarrow> \<exists>w'. watch_steps cs w = Some w' \<and> watched_ok n most queue w'"
proof (induction cs arbitrary: w)
  case (Cons c cs)
  then show ?case using watch_step_ok [OF Cons.prems, of c] by auto
qed simp

definition history_bound :: "hub_options \<Rightarrow> nat" where
  "history_bound options = nat (hoHistorySize options)"

definition subscriber_bound :: "hub_options \<Rightarrow> nat" where
  "subscriber_bound options = nat (max 1 (hoMaxSubscribers options))"

definition queue_bound :: "hub_options \<Rightarrow> nat" where
  "queue_bound options = nat (max 1 (hoSubscriberQueue options))"

lemma watch_new_ok:
  "watched_ok (history_bound options) (subscriber_bound options) (queue_bound options) (watch_new zero options)"
  by (auto simp: watched_ok_def watch_new_def new_hub_def views_ok_def ring_ok_def history_bound_def
      subscriber_bound_def queue_bound_def)

subsection \<open>The contract of a bounded log\<close>

text \<open>
  What a log source relies on: an open log takes every entry, and \<open>recent\<close> gives the last ones
  taken, \<open>cap\<close> of them at most. \<open>holds log h\<close> says that \<open>h\<close> is open and was given \<open>log\<close>.
\<close>

fun put_all :: "('a \<Rightarrow> 'h \<Rightarrow> 'h option) \<Rightarrow> 'a list \<Rightarrow> 'h \<Rightarrow> 'h option" where
  "put_all put [] h = Some h"
| "put_all put (e # es) h = (case put e h of None \<Rightarrow> None | Some h' \<Rightarrow> put_all put es h')"

locale retained_log =
  fixes holds :: "'a list \<Rightarrow> 'h \<Rightarrow> bool"
    and put :: "'a \<Rightarrow> 'h \<Rightarrow> 'h option"
    and recent :: "int \<Rightarrow> 'h \<Rightarrow> 'a list"
    and cap :: nat
  assumes put_holds: "holds log h \<Longrightarrow> \<exists>h'. put e h = Some h' \<and> holds (log @ [e]) h'"
    and recent_holds: "holds log h \<Longrightarrow> recent tail h = last_n (if tail \<le> 0 then cap else min cap (nat tail)) log"
begin

lemma put_all_holds: "holds log h \<Longrightarrow> \<exists>h'. put_all put es h = Some h' \<and> holds (log @ es) h'"
proof (induction es arbitrary: log h)
  case (Cons e es)
  from put_holds [OF Cons.prems, of e] obtain h1 where h1: "put e h = Some h1" "holds (log @ [e]) h1" by auto
  from Cons.IH [OF h1(2)] h1(1) show ?case by simp
qed simp

lemma recent_after:
  "holds log h \<Longrightarrow> put_all put es h = Some h' \<Longrightarrow> recent 0 h' = last_n cap (log @ es)"
  using put_all_holds [of log h es] recent_holds [of "log @ es" h' 0] by auto

lemma recent_all:
  "holds log h \<Longrightarrow> list_all P log \<Longrightarrow> list_all P (recent tail h)"
  by (auto simp: recent_holds last_n_def list_all_iff dest: in_set_dropD)

end

text \<open>An open hub that was given \<open>log\<close>, whatever its subscribers have seen of it.\<close>

definition open_hub :: "nat \<Rightarrow> nat \<Rightarrow> nat \<Rightarrow> 'a list \<Rightarrow> 'a hub \<Rightarrow> bool" where
  "open_hub n most queue log h \<longleftrightarrow> \<not> hbClosed h \<and>
     (\<exists>views. watched_ok n most queue \<lparr>waHub = h, waLog = log, waViews = views\<rparr>)"

lemma hub_push_open:
  assumes "open_hub n most queue log h"
  shows "\<exists>h'. hub_push e h = Some h' \<and> open_hub n most queue (log @ [e]) h'"
proof -
  from assms obtain views where ok: "watched_ok n most queue \<lparr>waHub = h, waLog = log, waViews = views\<rparr>"
    and opened: "\<not> hbClosed h" by (auto simp: open_hub_def)
  from watch_push [OF ok, of e] opened obtain h' where h': "hub_push e h = Some h'"
    "watched_ok n most queue \<lparr>waHub = h', waLog = log @ [e], waViews = views\<rparr>"
    by (auto simp: watched_on_def split: option.splits)
  have "views_ok log [e] (set (hbSubscribers (hub_record e h))) views (hub_record e h)"
    "distinct (hbSubscribers (hub_record e h))"
    using hub_record_frame ok views_ok_push [of log views h e] by (auto simp: watched_ok_def views_ok_def)
  from hub_offer_ok [OF this subset_refl] h'(1) opened have "\<not> hbClosed h'"
    by (auto simp: hub_push_def hub_frame_def hub_record_frame)
  with h' show ?thesis by (auto simp: open_hub_def)
qed

lemma open_hub_snapshot:
  "open_hub n most queue log h \<Longrightarrow> hub_snapshot tail h = last_n (if tail \<le> 0 then n else min n (nat tail)) log"
  by (auto simp: open_hub_def watched_ok_def ring_snapshot)

lemma open_hub_new: "open_hub (history_bound options) (subscriber_bound options) (queue_bound options) [] (new_hub zero options)"
  unfolding open_hub_def using watch_new_ok [of options zero]
  by (auto simp: watch_new_def new_hub_def intro!: exI [of _ "[]"])

interpretation hub_log: retained_log "open_hub n most queue" hub_push hub_snapshot n for n most queue
  by unfold_locales (simp_all add: hub_push_open open_hub_snapshot)

end
