(* ===== verification/Texts.thy ===== *)
theory Texts
  imports Prelude
begin

text \<open>
  More of Go's \<open>strings\<close> over byte strings: trimming a cutset of ASCII characters, searching for an
  ASCII word, and the case folding such searches need. Two letters outside ASCII have a lower case
  or a fold inside it, the dotted capital I (\<open>C4 B0\<close>) and the Kelvin sign (\<open>E2 84 AA\<close>); the long s
  (\<open>C5 BF\<close>) folds to \<open>s\<close> but is a lower case letter itself.
\<close>

text \<open>\<open>strings.TrimRight\<close>.\<close>

definition trim_right_set :: "string \<Rightarrow> string \<Rightarrow> string" where
  "trim_right_set cs s = rev (dropWhile (\<lambda>c. c \<in> set cs) (rev s))"

definition newline :: char where
  "newline = byte 10"

definition carriage :: char where
  "carriage = byte 13"

definition ascii_lower :: "char \<Rightarrow> char" where
  "ascii_lower c = (if (65 :: nat) \<le> of_char c \<and> of_char c \<le> (90 :: nat) then byte (of_char c + 32) else c)"

definition ascii_upper :: "char \<Rightarrow> char" where
  "ascii_upper c = (if (97 :: nat) \<le> of_char c \<and> of_char c \<le> (122 :: nat) then byte (of_char c - 32) else c)"

definition dotted_i :: string where
  "dotted_i = [byte 196, byte 176]"

definition kelvin_sign :: string where
  "kelvin_sign = [byte 226, byte 132, byte 170]"

definition long_s :: string where
  "long_s = [byte 197, byte 191]"

text \<open>
  \<open>strings.ToLower\<close> as far as a search for ASCII words sees it: the lower case of every other
  letter lies outside ASCII, and is left as it is here.
\<close>

function to_lower :: "string \<Rightarrow> string" where
  "to_lower s =
     (case s of
        [] \<Rightarrow> []
      | c # r \<Rightarrow>
          (case strip_prefix dotted_i s of
             Some t \<Rightarrow> CHR ''i'' # to_lower t
           | None \<Rightarrow> (case strip_prefix kelvin_sign s of
               Some t \<Rightarrow> CHR ''k'' # to_lower t
             | None \<Rightarrow> ascii_lower c # to_lower r)))"
  by pat_completeness auto
termination
  by (relation "measure length") (auto simp: strip_prefix_Some_iff dotted_i_def kelvin_sign_def split: if_splits)

declare to_lower.simps [simp del]

text \<open>\<open>strings.Contains\<close>.\<close>

fun contains :: "string \<Rightarrow> string \<Rightarrow> bool" where
  "contains [] needle \<longleftrightarrow> needle = []"
| "contains (c # s) needle \<longleftrightarrow> strip_prefix needle (c # s) \<noteq> None \<or> contains s needle"

text \<open>\<open>strings.EqualFold(s, q)\<close> for a lower case ASCII word \<open>q\<close>.\<close>

definition fold_codes :: "char \<Rightarrow> string list" where
  "fold_codes c = [[c], [ascii_upper c]] @ (if c = CHR ''s'' then [long_s] else []) @
     (if c = CHR ''k'' then [kelvin_sign] else [])"

fun equal_fold :: "string \<Rightarrow> string \<Rightarrow> bool" where
  "equal_fold s [] \<longleftrightarrow> s = []"
| "equal_fold s (c # q) \<longleftrightarrow> (case strip_one (fold_codes c) s of None \<Rightarrow> False | Some r \<Rightarrow> equal_fold r q)"

lemma trim_right_set_length: "length (trim_right_set cs s) \<le> length s"
  using length_dropWhile_le [of "\<lambda>c. c \<in> set cs" "rev s"] by (simp add: trim_right_set_def)

lemma trim_right_set_prefix: "\<exists>t. s = trim_right_set cs s @ t \<and> set t \<subseteq> set cs"
proof -
  have "rev s = takeWhile (\<lambda>c. c \<in> set cs) (rev s) @ dropWhile (\<lambda>c. c \<in> set cs) (rev s)" by simp
  then have "s = trim_right_set cs s @ rev (takeWhile (\<lambda>c. c \<in> set cs) (rev s))"
    by (metis rev_append rev_rev_ident trim_right_set_def)
  moreover have "set (rev (takeWhile (\<lambda>c. c \<in> set cs) (rev s))) \<subseteq> set cs"
    by (auto dest: set_takeWhileD)
  ultimately show ?thesis by blast
qed

lemma trim_right_set_keeps: "s = [] \<or> last s \<notin> set cs \<Longrightarrow> trim_right_set cs s = s"
  by (cases s rule: rev_cases) (auto simp: trim_right_set_def)

end
