(* ===== verification/ConnectionLogs.thy ===== *)
theory ConnectionLogs
  imports LogHub Texts
begin

text \<open>
  The logs of an MCP connection, \<open>internal/mcp/logs.go\<close>: the hub of its entries and the writer that
  cuts the output of its process, arriving in chunks, into bounded lines. \<open>time.Now\<close> is a clock read
  once per entry; \<open>levelFromLogMessage\<close>, which needs the Unicode letter table, is the function
  \<open>clLevelOf\<close>.
\<close>

record log_entry =
  leTimestamp :: time
  leConnectionID :: string
  leStream :: string
  leMessage :: string
  leRawMessage :: string
  leLevel :: string

record connection_log =
  clConnectionID :: string
  clEntries :: "log_entry hub"
  clClock :: "nat \<Rightarrow> time"
  clReads :: nat
  clLevelOf :: "string \<Rightarrow> string"

definition connection_log_max_message_bytes :: nat where
  "connection_log_max_message_bytes = 16384"

text \<open>The marker starts with a space and an ellipsis, three bytes of UTF-8.\<close>

definition connection_log_truncated_marker :: string where
  "connection_log_truncated_marker = '' '' @ [byte 226, byte 128, byte 166] @ ''[truncated]''"

definition zero_log_entry :: log_entry where
  "zero_log_entry = \<lparr>leTimestamp = zero_time, leConnectionID = '''', leStream = '''', leMessage = '''',
     leRawMessage = '''', leLevel = ''''\<rparr>"

definition new_connection_log_with ::
  "string \<Rightarrow> (nat \<Rightarrow> time) \<Rightarrow> (string \<Rightarrow> string) \<Rightarrow> hub_options \<Rightarrow> connection_log" where
  "new_connection_log_with connection_id clock level options =
     \<lparr>clConnectionID = connection_id, clEntries = new_hub zero_log_entry options, clClock = clock, clReads = 0,
      clLevelOf = level\<rparr>"

definition new_connection_log :: "string \<Rightarrow> (nat \<Rightarrow> time) \<Rightarrow> (string \<Rightarrow> string) \<Rightarrow> connection_log" where
  "new_connection_log connection_id clock level = new_connection_log_with connection_id clock level
     \<lparr>hoHistorySize = 1000, hoMaxSubscribers = 32, hoSubscriberQueue = 128\<rparr>"

definition truncate_connection_log_message :: "string \<Rightarrow> string" where
  "truncate_connection_log_message m =
     (if length m \<le> connection_log_max_message_bytes then m
      else take (connection_log_max_message_bytes - length connection_log_truncated_marker) m @
        connection_log_truncated_marker)"

definition connection_append :: "string \<Rightarrow> string \<Rightarrow> string \<Rightarrow> connection_log \<Rightarrow> connection_log option" where
  "connection_append stream level message h =
     (let m = trim_right_set [carriage, newline] message in
      if m = '''' then Some h
      else (let m1 = truncate_connection_log_message m;
                l = (if level = '''' then clLevelOf h m1 else level)
            in map_option (\<lambda>es. h\<lparr>clEntries := es, clReads := clReads h + 1\<rparr>)
              (hub_push \<lparr>leTimestamp = clClock h (clReads h), leConnectionID = clConnectionID h,
                 leStream = stream, leMessage = m1, leRawMessage = m1, leLevel = l\<rparr> (clEntries h))))"

datatype connection_log_error = ErrConnectionLogSubscriberLimit | ErrConnectionLogClosed

definition connection_snapshot :: "int \<Rightarrow> connection_log \<Rightarrow> log_entry list" where
  "connection_snapshot tail h = hub_snapshot tail (clEntries h)"

definition connection_subscribe ::
  "int \<Rightarrow> connection_log \<Rightarrow> ((connection_log_error + nat) \<times> connection_log) option" where
  "connection_subscribe tail h =
     (case hub_subscribe tail (clEntries h) of
        None \<Rightarrow> None
      | Some (r, es) \<Rightarrow> Some (case r of
            Inl ErrSubscriberLimit \<Rightarrow> Inl ErrConnectionLogSubscriberLimit
          | Inl ErrHubClosed \<Rightarrow> Inl ErrConnectionLogClosed
          | Inr i \<Rightarrow> Inr i, h\<lparr>clEntries := es\<rparr>))"

definition connection_close :: "connection_log \<Rightarrow> connection_log option" where
  "connection_close h = map_option (\<lambda>es. h\<lparr>clEntries := es\<rparr>) (hub_close (clEntries h))"

definition connection_log_stream :: "string \<Rightarrow> string" where
  "connection_log_stream transport =
     (if equal_fold transport ''sse'' then ''sse'' else ''stderr'')"

subsection \<open>The line writer\<close>

record line_writer =
  lwHub :: connection_log
  lwStream :: string
  lwBuf :: string
  lwTruncated :: bool
  lwClosed :: bool

definition new_line_writer :: "connection_log \<Rightarrow> string \<Rightarrow> line_writer" where
  "new_line_writer h stream =
     \<lparr>lwHub = h, lwStream = stream, lwBuf = '''', lwTruncated = False, lwClosed = False\<rparr>"

definition max_content_bytes :: nat where
  "max_content_bytes = connection_log_max_message_bytes - length connection_log_truncated_marker"

definition append_chunk :: "string \<Rightarrow> line_writer \<Rightarrow> line_writer" where
  "append_chunk chunk w =
     (let remaining = int max_content_bytes - int (length (lwBuf w)) in
      if remaining \<le> 0 then (if 0 < length chunk then w\<lparr>lwTruncated := True\<rparr> else w)
      else if int (length chunk) > remaining
      then w\<lparr>lwBuf := lwBuf w @ take (nat remaining) chunk, lwTruncated := True\<rparr>
      else w\<lparr>lwBuf := lwBuf w @ chunk\<rparr>)"

definition emit_buffered :: "line_writer \<Rightarrow> line_writer option" where
  "emit_buffered w =
     (let line = trim_right_set [carriage] (lwBuf w) @
            (if lwTruncated w then connection_log_truncated_marker else '''');
          w1 = w\<lparr>lwBuf := '''', lwTruncated := False\<rparr>
      in if trim_space line = '''' then Some w1
         else map_option (\<lambda>h. w1\<lparr>lwHub := h\<rparr>) (connection_append (lwStream w) '''' line (lwHub w1)))"

text \<open>\<open>bytes.IndexByte\<close> cuts \<open>p\<close> at its first newline; the rest is what follows it.\<close>

definition before_newline :: "string \<Rightarrow> string" where
  "before_newline p = takeWhile (\<lambda>c. c \<noteq> newline) p"

definition after_newline :: "string \<Rightarrow> string option" where
  "after_newline p = (case dropWhile (\<lambda>c. c \<noteq> newline) p of [] \<Rightarrow> None | _ # rest \<Rightarrow> Some rest)"

lemma after_newline_shorter: "after_newline p = Some rest \<Longrightarrow> length rest < length p"
  using length_dropWhile_le [of "\<lambda>c. c \<noteq> newline" p]
  by (auto simp: after_newline_def split: list.splits)

function write_lines :: "string \<Rightarrow> line_writer \<Rightarrow> line_writer option" where
  "write_lines p w =
     (if p = [] then Some w
      else (case after_newline p of
          None \<Rightarrow> Some (append_chunk p w)
        | Some rest \<Rightarrow>
            (case emit_buffered (append_chunk (before_newline p) w) of
               None \<Rightarrow> None
             | Some w' \<Rightarrow> write_lines rest w')))"
  by pat_completeness auto
termination
  by (relation "measure (\<lambda>(p, w). length p)") (auto dest: after_newline_shorter)

declare write_lines.simps [simp del]

datatype write_error = ErrClosedPipe

definition line_write :: "string \<Rightarrow> line_writer \<Rightarrow> ((nat \<times> write_error option) \<times> line_writer) option" where
  "line_write p w =
     (if lwClosed w then Some ((0, Some ErrClosedPipe), w)
      else map_option (\<lambda>w'. ((length p, None), w')) (write_lines p w))"

definition line_close :: "line_writer \<Rightarrow> line_writer option" where
  "line_close w =
     (if lwClosed w then Some w else map_option (\<lambda>w'. w'\<lparr>lwClosed := True\<rparr>) (emit_buffered w))"

fun line_writes :: "string list \<Rightarrow> line_writer \<Rightarrow> line_writer option" where
  "line_writes [] w = Some w"
| "line_writes (p # ps) w = (case line_write p w of None \<Rightarrow> None | Some (r, w') \<Rightarrow> line_writes ps w')"

subsection \<open>Lines, however the output is cut into chunks\<close>

text \<open>What one line of output, as long as it may be, leaves in the log.\<close>

definition emit_line :: "string \<Rightarrow> string \<Rightarrow> connection_log \<Rightarrow> connection_log option" where
  "emit_line stream line h =
     (let shown = trim_right_set [carriage] (take max_content_bytes line) @
            (if max_content_bytes < length line then connection_log_truncated_marker else '''')
      in if trim_space shown = '''' then Some h else connection_append stream '''' shown h)"

text \<open>The writer has kept what may be shown of the line \<open>cur\<close> read so far.\<close>

definition line_so_far :: "string \<Rightarrow> line_writer \<Rightarrow> bool" where
  "line_so_far cur w \<longleftrightarrow> lwBuf w = take max_content_bytes cur \<and>
     lwTruncated w = (max_content_bytes < length cur)"

definition line_state :: "string \<Rightarrow> line_writer \<Rightarrow> connection_log \<Rightarrow> line_writer" where
  "line_state cur w h = w\<lparr>lwHub := h, lwBuf := take max_content_bytes cur,
     lwTruncated := max_content_bytes < length cur\<rparr>"

lemma line_state_so_far [simp]: "line_so_far cur (line_state cur w h)"
  by (simp add: line_so_far_def line_state_def)

lemma line_state_twice [simp]: "line_state cur (line_state cur' w h') = line_state cur w"
  by (simp add: line_state_def fun_eq_iff)

lemma line_state_sel [simp]:
  "lwHub (line_state cur w h) = h" "lwStream (line_state cur w h) = lwStream w"
  "lwClosed (line_state cur w h) = lwClosed w"
  by (simp_all add: line_state_def)

lemma append_chunk_line:
  "line_so_far cur w \<Longrightarrow> append_chunk chunk w = line_state (cur @ chunk) w (lwHub w)"
  by (cases w) (auto simp: append_chunk_def line_so_far_def line_state_def Let_def min_def nat_diff_distrib)

lemma emit_buffered_line:
  "line_so_far cur w \<Longrightarrow> emit_buffered w = map_option (line_state [] w) (emit_line (lwStream w) cur (lwHub w))"
  by (auto simp: emit_buffered_def line_so_far_def emit_line_def line_state_def Let_def
      intro!: arg_cong2 [where f = map_option])

lemma split_on_none: "c \<notin> set p \<Longrightarrow> split_on c p = [p]"
  by (induction p) auto

lemma split_on_some: "c \<notin> set p \<Longrightarrow> split_on c (p @ c # q) = p # split_on c q"
  by (induction p) auto

lemma after_newline_None: "after_newline p = None \<Longrightarrow> newline \<notin> set p"
  by (induction p) (auto simp: after_newline_def split: if_splits)

lemma after_newline_Some:
  "after_newline p = Some rest \<Longrightarrow> p = before_newline p @ newline # rest \<and> newline \<notin> set (before_newline p)"
  by (induction p) (auto simp: after_newline_def before_newline_def split: if_splits)

lemma split_on_last_clean: "c \<notin> set (last (split_on c p))"
  by (induction p) (auto split: list.splits dest: sym)

lemma put_all_append:
  "put_all put (xs @ ys) h = (case put_all put xs h of None \<Rightarrow> None | Some h' \<Rightarrow> put_all put ys h')"
  by (induction xs arbitrary: h) (auto split: option.splits)

lemma split_on_append:
  "split_on c (p @ q) = butlast (split_on c p) @ split_on c (last (split_on c p) @ q)"
proof (induction p)
  case (Cons x p)
  then show ?case
    by (cases "split_on c p") (auto split: list.splits)
qed simp

lemma write_lines_split:
  "line_so_far cur w \<Longrightarrow> newline \<notin> set cur \<Longrightarrow>
     write_lines p w = map_option (line_state (last (split_on newline (cur @ p))) w)
       (put_all (emit_line (lwStream w)) (butlast (split_on newline (cur @ p))) (lwHub w))"
proof (induction p w arbitrary: cur rule: write_lines.induct)
  case (1 p w)
  have keep: "line_state cur w (lwHub w) = w"
    using 1(2) by (cases w) (simp add: line_so_far_def line_state_def)
  note chunk = append_chunk_line [OF 1(2)]
  show ?case
  proof (cases "p = []")
    case True
    have "split_on newline cur = [cur]" using 1(3) by (rule split_on_none)
    then show ?thesis using True keep by (simp add: write_lines.simps)
  next
    case False
    show ?thesis
    proof (cases "after_newline p")
      case None
      then have "split_on newline (cur @ p) = [cur @ p]"
        using 1(3) after_newline_None [OF None] by (simp add: split_on_none)
      then show ?thesis using False None chunk by (simp add: write_lines.simps)
    next
      case (Some rest)
      let ?line = "cur @ before_newline p"
      have split: "split_on newline (cur @ p) = ?line # split_on newline rest"
        using after_newline_Some [OF Some] 1(3) split_on_some [of newline ?line rest] by (metis append.assoc Un_iff set_append)
      have emit: "emit_buffered (append_chunk (before_newline p) w) =
          map_option (line_state [] w) (emit_line (lwStream w) ?line (lwHub w))"
        unfolding chunk [of "before_newline p"]
        by (subst emit_buffered_line [OF line_state_so_far]) (simp add: option.map_comp o_def)
      show ?thesis
      proof (cases "emit_line (lwStream w) ?line (lwHub w)")
        case None
        with False Some emit split show ?thesis by (simp add: write_lines.simps)
      next
        case h: (Some h)
        have "write_lines rest (line_state [] w h) = map_option (line_state (last (split_on newline rest)) w)
            (put_all (emit_line (lwStream w)) (butlast (split_on newline rest)) h)"
          using 1(1) [OF False Some, of "line_state [] w h" "[]"] emit h by (simp add: option.map_comp o_def)
        with False Some emit split h show ?thesis by (simp add: write_lines.simps)
      qed
    qed
  qed
qed

lemma line_writes_split:
  "line_so_far cur w \<Longrightarrow> newline \<notin> set cur \<Longrightarrow> \<not> lwClosed w \<Longrightarrow>
     line_writes ps w = map_option (line_state (last (split_on newline (cur @ concat ps))) w)
       (put_all (emit_line (lwStream w)) (butlast (split_on newline (cur @ concat ps))) (lwHub w))"
proof (induction ps arbitrary: cur w)
  case Nil
  then have "line_state cur w (lwHub w) = w" by (cases w) (simp add: line_so_far_def line_state_def)
  with Nil show ?case by (simp add: split_on_none)
next
  case (Cons p ps)
  let ?cur = "last (split_on newline (cur @ p))"
  have split: "split_on newline (cur @ concat (p # ps)) =
      butlast (split_on newline (cur @ p)) @ split_on newline (?cur @ concat ps)"
    using split_on_append [of newline "cur @ p" "concat ps"] by simp
  note lines = write_lines_split [OF Cons.prems(1,2), of p]
  show ?case
  proof (cases "put_all (emit_line (lwStream w)) (butlast (split_on newline (cur @ p))) (lwHub w)")
    case None
    with lines Cons.prems(3) show ?thesis unfolding split by (simp add: line_write_def butlast_append put_all_append)
  next
    case (Some h)
    have "line_writes ps (line_state ?cur w h) =
        map_option (line_state (last (split_on newline (?cur @ concat ps))) w)
          (put_all (emit_line (lwStream w)) (butlast (split_on newline (?cur @ concat ps))) h)"
      using Cons.IH [OF line_state_so_far [of ?cur w h] split_on_last_clean] Cons.prems(3) by simp
    with Some lines Cons.prems(3) show ?thesis unfolding split
      by (simp add: line_write_def butlast_append put_all_append)
  qed
qed

lemma line_writer_lines:
  "\<not> lwClosed w \<Longrightarrow> line_so_far [] w \<Longrightarrow>
     (case line_writes ps w of None \<Rightarrow> None | Some w' \<Rightarrow> map_option lwHub (line_close w')) =
       put_all (emit_line (lwStream w)) (split_on newline (concat ps)) (lwHub w)"
proof -
  assume w: "\<not> lwClosed w" "line_so_far [] w"
  let ?ls = "split_on newline (concat ps)"
  have all: "put_all (emit_line (lwStream w)) ?ls (lwHub w) =
      put_all (emit_line (lwStream w)) (butlast ?ls @ [last ?ls]) (lwHub w)" by simp
  have close: "map_option lwHub (line_close (line_state cur w h)) = emit_line (lwStream w) cur h" for cur h
    using w(1) emit_buffered_line [OF line_state_so_far [of cur w h]]
    by (simp add: line_close_def option.map_comp o_def option.map_ident)
  show ?thesis
    unfolding all put_all_append using line_writes_split [OF w(2) _ w(1), of ps] close
    by (auto split: option.splits)
qed

lemma new_line_writer_empty [simp]:
  "line_so_far [] (new_line_writer h stream)" "\<not> lwClosed (new_line_writer h stream)"
  "lwStream (new_line_writer h stream) = stream" "lwHub (new_line_writer h stream) = h"
  by (simp_all add: new_line_writer_def line_so_far_def)

subsection \<open>Entries are bounded\<close>

definition entry_bounded :: "log_entry \<Rightarrow> bool" where
  "entry_bounded e \<longleftrightarrow> leMessage e \<noteq> '''' \<and> length (leMessage e) \<le> connection_log_max_message_bytes \<and>
     leRawMessage e = leMessage e"

text \<open>An open connection log that was given \<open>log\<close>, every entry of it bounded.\<close>

definition connection_holds :: "nat \<Rightarrow> nat \<Rightarrow> nat \<Rightarrow> log_entry list \<Rightarrow> connection_log \<Rightarrow> bool" where
  "connection_holds n most queue log h \<longleftrightarrow> open_hub n most queue log (clEntries h) \<and> list_all entry_bounded log"

lemma marker_length: "length connection_log_truncated_marker = 15"
  by (simp add: connection_log_truncated_marker_def)

lemma truncate_connection_bounded:
  "m \<noteq> '''' \<Longrightarrow> truncate_connection_log_message m \<noteq> '''' \<and>
     length (truncate_connection_log_message m) \<le> connection_log_max_message_bytes"
  by (auto simp: truncate_connection_log_message_def marker_length connection_log_max_message_bytes_def
      connection_log_truncated_marker_def)

lemma connection_append_holds:
  assumes "connection_holds n most queue log h"
  shows "\<exists>es h'. connection_append stream level message h = Some h' \<and>
    connection_holds n most queue (log @ es) h' \<and> length es \<le> 1"
proof (cases "trim_right_set [carriage, newline] message = ''''")
  case True
  with assms show ?thesis by (intro exI [of _ "[]"]) (simp add: connection_append_def)
next
  case False
  let ?m = "truncate_connection_log_message (trim_right_set [carriage, newline] message)"
  let ?e = "\<lparr>leTimestamp = clClock h (clReads h), leConnectionID = clConnectionID h, leStream = stream,
    leMessage = ?m, leRawMessage = ?m, leLevel = (if level = '''' then clLevelOf h ?m else level)\<rparr>"
  obtain hub where hub: "hub_push ?e (clEntries h) = Some hub" "open_hub n most queue (log @ [?e]) hub"
    using assms hub_log.put_holds [of n most queue log "clEntries h" ?e]
    by (auto simp: connection_holds_def)
  have "entry_bounded ?e" using truncate_connection_bounded [OF False] by (simp add: entry_bounded_def)
  with hub False assms show ?thesis
    by (intro exI [of _ "[?e]"]) (simp add: connection_append_def Let_def connection_holds_def)
qed

lemma emit_line_holds:
  "connection_holds n most queue log h \<Longrightarrow>
     \<exists>es h'. emit_line stream line h = Some h' \<and> connection_holds n most queue (log @ es) h' \<and> length es \<le> 1"
  using connection_append_holds [of n most queue log h stream "''''"]
  by (auto simp: emit_line_def Let_def intro: exI [of _ "[]"])

lemma emit_lines_hold:
  "connection_holds n most queue log h \<Longrightarrow>
     \<exists>es h'. put_all (emit_line stream) ls h = Some h' \<and> connection_holds n most queue (log @ es) h' \<and>
       length es \<le> length ls"
proof (induction ls arbitrary: log h)
  case (Cons l ls)
  from emit_line_holds [OF Cons.prems, of stream l] obtain es h1 where
    h1: "emit_line stream l h = Some h1" "connection_holds n most queue (log @ es) h1" "length es \<le> 1" by auto
  from Cons.IH [OF h1(2)] obtain es' h' where
    h': "put_all (emit_line stream) ls h1 = Some h'" "connection_holds n most queue (log @ es @ es') h'"
    "length es' \<le> length ls" by auto
  with h1 show ?case by (intro exI [of _ "es @ es'"] exI [of _ h']) simp
qed (auto intro: exI [of _ "[]"])

lemma connection_snapshot_bounded:
  "connection_holds n most queue log h \<Longrightarrow>
     connection_snapshot tail h = last_n (if tail \<le> 0 then n else min n (nat tail)) log \<and>
     list_all entry_bounded (connection_snapshot tail h)"
  using hub_log.recent_all [of n most queue log "clEntries h" entry_bounded tail]
    hub_log.recent_holds [of n most queue log "clEntries h" tail]
  by (simp add: connection_holds_def connection_snapshot_def)

end
