(* ===== verification/ConsoleHub.thy ===== *)
theory ConsoleHub
  imports LogHub Texts
begin

text \<open>
  The process console, \<open>internal/console/hub.go\<close>: every write becomes one bounded entry of a log
  hub, with a level read off its text. The formatted clock readings are \<open>coStamps\<close>, one per entry.
\<close>

record console_entry =
  ceTimestamp :: string
  ceLevel :: string
  ceMessage :: string

record console_options =
  optHistorySize :: int
  optMaxSubscribers :: int
  optSubscriberQueue :: int
  optMaxEntryBytes :: int

record console_hub =
  coEntries :: "console_entry hub"
  coMaxEntryBytes :: nat
  coStamps :: "nat \<Rightarrow> string"
  coReads :: nat

definition default_history_size :: int where
  "default_history_size = 200"

definition zero_console_entry :: console_entry where
  "zero_console_entry = \<lparr>ceTimestamp = '''', ceLevel = '''', ceMessage = ''''\<rparr>"

definition or_default :: "int \<Rightarrow> int \<Rightarrow> int" where
  "or_default v d = (if v \<le> 0 then d else v)"

definition new_console_hub_with :: "(nat \<Rightarrow> string) \<Rightarrow> console_options \<Rightarrow> console_hub" where
  "new_console_hub_with stamps options =
     \<lparr>coEntries = new_hub zero_console_entry
        \<lparr>hoHistorySize = or_default (optHistorySize options) default_history_size,
         hoMaxSubscribers = or_default (optMaxSubscribers options) 32,
         hoSubscriberQueue = or_default (optSubscriberQueue options) 128\<rparr>,
      coMaxEntryBytes = nat (or_default (optMaxEntryBytes options) 16384),
      coStamps = stamps, coReads = 0\<rparr>"

definition new_console_hub :: "(nat \<Rightarrow> string) \<Rightarrow> console_hub" where
  "new_console_hub stamps = new_console_hub_with stamps
     \<lparr>optHistorySize = 0, optMaxSubscribers = 0, optSubscriberQueue = 0, optMaxEntryBytes = 0\<rparr>"

definition console_marker :: string where
  "console_marker = '' '' @ [byte 226, byte 128, byte 166] @ ''[truncated]''"

definition truncate_message :: "string \<Rightarrow> nat \<Rightarrow> string" where
  "truncate_message message most =
     (if length message \<le> most then message
      else if most \<le> length console_marker then take most console_marker
      else take (most - length console_marker) message @ console_marker)"

definition level_from :: "string \<Rightarrow> string" where
  "level_from msg =
     (let lower = to_lower msg in
      if contains lower ''error'' \<or> contains lower ''fatal'' \<or> contains lower ''panic'' then ''error''
      else if contains lower ''warn'' \<or> contains lower ''fail'' then ''warn''
      else ''info'')"

definition console_entry_of :: "console_hub \<Rightarrow> string \<Rightarrow> console_entry" where
  "console_entry_of h msg = \<lparr>ceTimestamp = coStamps h (coReads h), ceLevel = level_from msg,
     ceMessage = truncate_message msg (coMaxEntryBytes h)\<rparr>"

text \<open>\<open>Write\<close>; a nil hub takes nothing and is not modelled.\<close>

definition console_write :: "string \<Rightarrow> console_hub \<Rightarrow> (nat \<times> console_hub) option" where
  "console_write p h =
     (let msg = trim_right_set [newline, carriage] p in
      if msg = '''' then Some (length p, h)
      else map_option (\<lambda>es. (length p, h\<lparr>coEntries := es, coReads := coReads h + 1\<rparr>))
        (hub_push (console_entry_of h msg) (coEntries h)))"

definition console_subscribe :: "console_hub \<Rightarrow> ((hub_error + nat) \<times> console_hub) option" where
  "console_subscribe h = map_option (map_prod (\<lambda>r. r) (\<lambda>es. h\<lparr>coEntries := es\<rparr>))
     (hub_subscribe default_history_size (coEntries h))"

definition console_close :: "console_hub \<Rightarrow> console_hub option" where
  "console_close h = map_option (\<lambda>es. h\<lparr>coEntries := es\<rparr>) (hub_close (coEntries h))"

fun console_writes :: "string list \<Rightarrow> console_hub \<Rightarrow> console_hub option" where
  "console_writes [] h = Some h"
| "console_writes (p # ps) h = (case console_write p h of None \<Rightarrow> None | Some (k, h') \<Rightarrow> console_writes ps h')"

subsection \<open>What the console shows\<close>

lemma truncate_message_bounded: "length (truncate_message message most) \<le> most"
  by (auto simp: truncate_message_def)

lemma truncate_message_short: "length message \<le> most \<Longrightarrow> truncate_message message most = message"
  by (simp add: truncate_message_def)

text \<open>The entries of a list of writes, blank ones left out, the first stamped with reading \<open>k\<close>.\<close>

fun console_log :: "console_hub \<Rightarrow> nat \<Rightarrow> string list \<Rightarrow> console_entry list" where
  "console_log h k [] = []"
| "console_log h k (p # ps) =
     (let msg = trim_right_set [newline, carriage] p in
      if msg = '''' then console_log h k ps
      else \<lparr>ceTimestamp = coStamps h k, ceLevel = level_from msg,
             ceMessage = truncate_message msg (coMaxEntryBytes h)\<rparr> # console_log h (k + 1) ps)"

lemma console_log_same:
  "coStamps h' = coStamps h \<Longrightarrow> coMaxEntryBytes h' = coMaxEntryBytes h \<Longrightarrow> console_log h' k ps = console_log h k ps"
  by (induction ps arbitrary: k) (simp_all add: Let_def)

lemma console_log_bounded: "list_all (\<lambda>e. length (ceMessage e) \<le> coMaxEntryBytes h) (console_log h k ps)"
  by (induction ps arbitrary: k) (simp_all add: Let_def truncate_message_bounded)

lemma console_writes_log:
  "open_hub n most queue log (coEntries h) \<Longrightarrow>
     \<exists>h'. console_writes ps h = Some h' \<and>
       open_hub n most queue (log @ console_log h (coReads h) ps) (coEntries h')"
proof (induction ps arbitrary: log h)
  case (Cons p ps)
  let ?msg = "trim_right_set [newline, carriage] p"
  show ?case
  proof (cases "?msg = ''''")
    case True
    with Cons.IH [OF Cons.prems] show ?thesis by (simp add: console_write_def)
  next
    case False
    from hub_log.put_holds [OF Cons.prems, of "console_entry_of h ?msg"] obtain es where
      es: "hub_push (console_entry_of h ?msg) (coEntries h) = Some es"
      "open_hub n most queue (log @ [console_entry_of h ?msg]) es" by auto
    let ?h1 = "h\<lparr>coEntries := es, coReads := coReads h + 1\<rparr>"
    from Cons.IH [of "log @ [console_entry_of h ?msg]" ?h1] es(2) obtain h' where
      "console_writes ps ?h1 = Some h'"
      "open_hub n most queue (log @ console_entry_of h ?msg # console_log ?h1 (coReads h + 1) ps) (coEntries h')"
      by auto
    with es(1) False console_log_same [of ?h1 h] show ?thesis
      by (simp add: console_write_def console_entry_of_def Let_def)
  qed
qed simp

end
