(* ===== verification/RunFrames.thy ===== *)
theory RunFrames
  imports SessionTypes Events CoreTypes Texts
begin

text \<open>
  What a run sends to its browser clients: the limits of \<open>internal/config/config.go\<close> and, of
  \<open>internal/api/run_manager.go\<close>, the server-sent-event frames and how a terminal frame is cut down to
  its size. \<open>json.Marshal\<close> of a payload is the argument \<open>marshal\<close>, \<open>None\<close> its error.
\<close>

subsection \<open>Limits\<close>

record run_limits =
  rlMaxActiveRuns :: int
  rlMaxRetainedEvents :: int
  rlMaxRetainedBytes :: int
  rlMaxTerminalBytes :: int
  rlMaxErrorTextBytes :: int
  rlMaxSubscribers :: int
  rlMaxSubscriberQueueEvents :: int
  rlMaxSubscriberQueueBytes :: int
  rlMaxLiveQueueBytes :: int
  rlCompletedTTL :: int
  rlRetryAfter :: int
  rlCloseTimeout :: int

definition min_run_terminal_bytes :: int where
  "min_run_terminal_bytes = 256"

definition second :: int where
  "second = 1000000000"

definition default_run_limits :: run_limits where
  "default_run_limits = \<lparr>rlMaxActiveRuns = 32, rlMaxRetainedEvents = 512, rlMaxRetainedBytes = 4 * 2 ^ 20,
     rlMaxTerminalBytes = 8 * 2 ^ 10, rlMaxErrorTextBytes = 2 * 2 ^ 10, rlMaxSubscribers = 16,
     rlMaxSubscriberQueueEvents = 64, rlMaxSubscriberQueueBytes = 512 * 2 ^ 10,
     rlMaxLiveQueueBytes = 8 * 2 ^ 20, rlCompletedTTL = 15 * 60 * second, rlRetryAfter = second,
     rlCloseTimeout = 15 * second\<rparr>"

definition with_defaults :: "run_limits \<Rightarrow> run_limits" where
  "with_defaults l =
     (let d = default_run_limits in
      \<lparr>rlMaxActiveRuns = (if rlMaxActiveRuns l \<le> 0 then rlMaxActiveRuns d else rlMaxActiveRuns l),
       rlMaxRetainedEvents = (if rlMaxRetainedEvents l \<le> 0 then rlMaxRetainedEvents d else rlMaxRetainedEvents l),
       rlMaxRetainedBytes = (if rlMaxRetainedBytes l \<le> 0 then rlMaxRetainedBytes d else rlMaxRetainedBytes l),
       rlMaxTerminalBytes = (if rlMaxTerminalBytes l < min_run_terminal_bytes
         then (if rlMaxTerminalBytes l > 0 then min_run_terminal_bytes else rlMaxTerminalBytes d)
         else rlMaxTerminalBytes l),
       rlMaxErrorTextBytes = (if rlMaxErrorTextBytes l \<le> 0 then rlMaxErrorTextBytes d else rlMaxErrorTextBytes l),
       rlMaxSubscribers = (if rlMaxSubscribers l \<le> 0 then rlMaxSubscribers d else rlMaxSubscribers l),
       rlMaxSubscriberQueueEvents = (if rlMaxSubscriberQueueEvents l \<le> 0
         then rlMaxSubscriberQueueEvents d else rlMaxSubscriberQueueEvents l),
       rlMaxSubscriberQueueBytes = (if rlMaxSubscriberQueueBytes l \<le> 0
         then rlMaxSubscriberQueueBytes d else rlMaxSubscriberQueueBytes l),
       rlMaxLiveQueueBytes = (if rlMaxLiveQueueBytes l \<le> 0 then rlMaxLiveQueueBytes d else rlMaxLiveQueueBytes l),
       rlCompletedTTL = (if rlCompletedTTL l \<le> 0 then rlCompletedTTL d else rlCompletedTTL l),
       rlRetryAfter = (if rlRetryAfter l \<le> 0 then rlRetryAfter d else rlRetryAfter l),
       rlCloseTimeout = (if rlCloseTimeout l \<le> 0 then rlCloseTimeout d else rlCloseTimeout l)\<rparr>)"

definition limits_ok :: "run_limits \<Rightarrow> bool" where
  "limits_ok l \<longleftrightarrow> 0 < rlMaxActiveRuns l \<and> 0 < rlMaxRetainedEvents l \<and> 0 < rlMaxRetainedBytes l \<and>
     min_run_terminal_bytes \<le> rlMaxTerminalBytes l \<and> 0 < rlMaxErrorTextBytes l \<and> 0 < rlMaxSubscribers l \<and>
     0 < rlMaxSubscriberQueueEvents l \<and> 0 < rlMaxSubscriberQueueBytes l \<and> 0 < rlMaxLiveQueueBytes l \<and>
     0 < rlCompletedTTL l \<and> 0 < rlRetryAfter l \<and> 0 < rlCloseTimeout l"

lemma with_defaults_ok [simp]: "limits_ok (with_defaults l)"
  by (simp add: limits_ok_def with_defaults_def default_run_limits_def min_run_terminal_bytes_def
      second_def Let_def)

lemma with_defaults_same: "limits_ok l \<Longrightarrow> with_defaults l = l"
  by (cases l) (simp add: limits_ok_def with_defaults_def min_run_terminal_bytes_def Let_def)

subsection \<open>Items and frames\<close>

record session_snapshot =
  snSessionID :: string
  snLeafID :: string
  snEditorText :: string
  snMessages :: message_list
  snEvents :: "agent_event list"
  snTools :: "tool_definition list"
  snEntries :: "entry list"

definition zero_snapshot :: session_snapshot where
  "zero_snapshot = \<lparr>snSessionID = '''', snLeafID = '''', snEditorText = '''', snMessages = [],
     snEvents = [], snTools = [], snEntries = []\<rparr>"

definition clear_snapshot_payload :: "session_snapshot \<Rightarrow> session_snapshot" where
  "clear_snapshot_payload s = s\<lparr>snEditorText := '''', snMessages := [], snEvents := [], snTools := [],
     snEntries := []\<rparr>"

record run_done_event =
  rdType :: string
  rdSession :: session_snapshot

record run_error_event =
  reType :: string
  reError :: string
  reSession :: session_snapshot

datatype 'e run_payload =
  RunDonePayload run_done_event
| RunErrorPayload run_error_event
| RunEventPayload 'e

record 'e run_stream_item =
  riName :: string
  riPayload :: "'e run_payload"

record run_frame =
  rfSequence :: "64 word"
  rfData :: string

definition frame_size :: "run_frame \<Rightarrow> int" where
  "frame_size f = int (length (rfData f))"

type_synonym 'e marshal = "'e run_payload \<Rightarrow> string option"

definition encode_run_frame :: "'e marshal \<Rightarrow> 'e run_stream_item \<Rightarrow> run_frame option" where
  "encode_run_frame marshal item =
     (case marshal (riPayload item) of
        None \<Rightarrow> None
      | Some data \<Rightarrow> Some \<lparr>rfSequence = 0,
          rfData = ''event: '' @ riName item @ [newline] @ ''data: '' @ data @ [newline, newline]\<rparr>)"

text \<open>\<open>utf8.RuneStart\<close>: not a continuation byte.\<close>

definition rune_start :: "char \<Rightarrow> bool" where
  "rune_start c \<longleftrightarrow> \<not> ((128 :: nat) \<le> of_char c \<and> of_char c < (192 :: nat))"

definition ellipsis :: string where
  "ellipsis = [byte 226, byte 128, byte 166]"

fun rune_cut :: "string \<Rightarrow> nat \<Rightarrow> nat" where
  "rune_cut value 0 = 0"
| "rune_cut value (Suc k) = (if rune_start (value ! Suc k) then Suc k else rune_cut value k)"

definition truncate_run_text :: "string \<Rightarrow> int \<Rightarrow> string" where
  "truncate_run_text value most =
     (if most < 0 \<or> int (length value) \<le> most then value
      else if most = 0 then ''''
      else if most \<le> int (length ellipsis) then ''''
      else take (rune_cut value (nat most - length ellipsis)) value @ ellipsis)"

definition bounded_run_snapshot :: "session_snapshot \<Rightarrow> int \<Rightarrow> int \<Rightarrow> session_snapshot" where
  "bounded_run_snapshot s id_limit leaf_limit =
     (let s1 = (if id_limit \<ge> 0 then s\<lparr>snSessionID := truncate_run_text (snSessionID s) id_limit\<rparr> else s);
          s2 = (if leaf_limit \<ge> 0 then s1\<lparr>snLeafID := truncate_run_text (snLeafID s1) leaf_limit\<rparr> else s1)
      in clear_snapshot_payload s2)"

definition terminal_item_with_error_limit :: "'e run_stream_item \<Rightarrow> int \<Rightarrow> 'e run_stream_item" where
  "terminal_item_with_error_limit item limit =
     (case riPayload item of
        RunErrorPayload p \<Rightarrow>
          \<lparr>riName = riName item, riPayload = RunErrorPayload (p\<lparr>reError := truncate_run_text (reError p) limit\<rparr>)\<rparr>
      | _ \<Rightarrow> item)"

definition bounded_terminal_item :: "'e run_stream_item \<Rightarrow> int \<Rightarrow> int \<Rightarrow> int \<Rightarrow> 'e run_stream_item" where
  "bounded_terminal_item item error_limit id_limit leaf_limit =
     (let item1 = terminal_item_with_error_limit item error_limit in
      case riPayload item1 of
        RunDonePayload p \<Rightarrow> \<lparr>riName = riName item1,
          riPayload = RunDonePayload (p\<lparr>rdSession := bounded_run_snapshot (rdSession p) id_limit leaf_limit\<rparr>)\<rparr>
      | RunErrorPayload p \<Rightarrow> \<lparr>riName = riName item1,
          riPayload = RunErrorPayload (p\<lparr>reSession := bounded_run_snapshot (reSession p) id_limit leaf_limit\<rparr>)\<rparr>
      | RunEventPayload e \<Rightarrow> item1)"

text \<open>
  The loop that halves the longer of the two id limits; each turn lowers their sum until both are 0.
\<close>

function shrink_terminal :: "'e marshal \<Rightarrow> run_limits \<Rightarrow> nat \<Rightarrow> nat \<Rightarrow> 'e run_stream_item \<Rightarrow> run_frame option" where
  "shrink_terminal marshal limits id_limit leaf_limit item =
     (let item1 = bounded_terminal_item item (rlMaxErrorTextBytes limits) (int id_limit) (int leaf_limit) in
      case encode_run_frame marshal item1 of
        Some f \<Rightarrow>
          if frame_size f \<le> rlMaxTerminalBytes limits then Some f
          else if id_limit = 0 \<and> leaf_limit = 0 then None
          else if id_limit \<ge> leaf_limit \<and> id_limit > 0
          then shrink_terminal marshal limits (id_limit div 2) leaf_limit item1
          else if leaf_limit > 0 then shrink_terminal marshal limits id_limit (leaf_limit div 2) item1
          else None
      | None \<Rightarrow>
          if id_limit = 0 \<and> leaf_limit = 0 then None
          else if id_limit \<ge> leaf_limit \<and> id_limit > 0
          then shrink_terminal marshal limits (id_limit div 2) leaf_limit item1
          else if leaf_limit > 0 then shrink_terminal marshal limits id_limit (leaf_limit div 2) item1
          else None)"
  by pat_completeness auto
termination
  by (relation "measure (\<lambda>(m, l, id_limit, leaf_limit, item). id_limit + leaf_limit)") auto

declare shrink_terminal.simps [simp del]

definition encode_terminal_run_frame :: "'e marshal \<Rightarrow> run_limits \<Rightarrow> 'e run_stream_item \<Rightarrow> run_frame option" where
  "encode_terminal_run_frame marshal limits item =
     (let item1 = terminal_item_with_error_limit item (rlMaxErrorTextBytes limits) in
      case encode_run_frame marshal item1 of
        None \<Rightarrow> None
      | Some f \<Rightarrow> if frame_size f \<le> rlMaxTerminalBytes limits then Some f
          else shrink_terminal marshal limits 256 256 item1)"

subsection \<open>Frames keep to their size\<close>

lemma shrink_terminal_fits:
  "shrink_terminal marshal limits id_limit leaf_limit item = Some f \<Longrightarrow> frame_size f \<le> rlMaxTerminalBytes limits"
proof (induction marshal limits id_limit leaf_limit item rule: shrink_terminal.induct)
  case (1 marshal limits id_limit leaf_limit item)
  define item1 where "item1 = bounded_terminal_item item (rlMaxErrorTextBytes limits) (int id_limit) (int leaf_limit)"
  show ?case
  proof (cases "\<exists>g. encode_run_frame marshal item1 = Some g \<and> frame_size g \<le> rlMaxTerminalBytes limits")
    case True
    with 1(5) show ?thesis
      by (subst (asm) shrink_terminal.simps) (auto simp: Let_def item1_def)
  next
    case False
    from 1(5) have next_turn: "(id_limit \<ge> leaf_limit \<and> id_limit > 0 \<and>
          shrink_terminal marshal limits (id_limit div 2) leaf_limit item1 = Some f) \<or>
        (\<not> (id_limit \<ge> leaf_limit \<and> id_limit > 0) \<and> leaf_limit > 0 \<and>
          shrink_terminal marshal limits id_limit (leaf_limit div 2) item1 = Some f)"
      by (subst (asm) shrink_terminal.simps)
        (use False in \<open>auto simp: Let_def simp flip: item1_def split: option.splits if_splits\<close>)
    show ?thesis
    proof (cases "encode_run_frame marshal item1")
      case None
      with next_turn 1(1-4) [OF item1_def] show ?thesis by auto
    next
      case (Some g)
      with next_turn False 1(1-4) [OF item1_def] show ?thesis by auto
    qed
  qed
qed

lemma encode_terminal_fits:
  "encode_terminal_run_frame marshal limits item = Some f \<Longrightarrow> frame_size f \<le> rlMaxTerminalBytes limits"
  by (auto simp: encode_terminal_run_frame_def Let_def dest: shrink_terminal_fits split: option.splits if_splits)

lemma rune_cut_le: "rune_cut value k \<le> k"
  by (induction k) auto

lemma rune_cut_boundary: "rune_cut value k = 0 \<or> rune_start (value ! rune_cut value k)"
  by (induction k) auto

lemma truncate_run_text_fits: "0 \<le> most \<Longrightarrow> int (length (truncate_run_text value most)) \<le> most"
  using rune_cut_le [of "value" "nat most - length ellipsis"]
  by (auto simp: truncate_run_text_def ellipsis_def)

text \<open>A text is cut between two characters, never inside one.\<close>

lemma truncate_run_text_cut:
  "truncate_run_text value most = value \<or> truncate_run_text value most = '''' \<or>
     (\<exists>k < length value. truncate_run_text value most = take k value @ ellipsis \<and>
        (k = 0 \<or> rune_start (value ! k)))"
proof (cases "most < 0 \<or> int (length value) \<le> most \<or> most \<le> int (length ellipsis)")
  case True
  then show ?thesis by (auto simp: truncate_run_text_def)
next
  case False
  let ?k = "rune_cut value (nat most - length ellipsis)"
  have "?k < length value"
    using rune_cut_le [of "value" "nat most - length ellipsis"] False by linarith
  moreover have "truncate_run_text value most = take ?k value @ ellipsis"
    using False by (simp add: truncate_run_text_def)
  ultimately show ?thesis using rune_cut_boundary [of "value" "nat most - length ellipsis"] by blast
qed

end
