(* ===== verification/RunState.thy ===== *)
theory RunState
  imports RunFrames Channels
begin

text \<open>
  One run as its HTTP clients see it, the \<open>runState\<close> of \<open>internal/api/run_manager.go\<close>: numbered frames,
  a bounded replay history and subscribers with bounded queues. Subscribers keep their position in
  \<open>rnTable\<close> as identity; \<open>rnSubscribers\<close> lists the keys of the map of attached ones. Every operation
  holds the run's lock; \<open>None\<close> is a panic or a send that would wait with the lock held.
\<close>

record run_subscriber =
  rsQueue :: "run_frame channel"
  rsPendingEvents :: int
  rsPendingBytes :: int
  rsAttached :: bool

record run_state =
  rnLimits :: run_limits
  rnID :: string
  rnSessionID :: string
  rnProjectID :: string
  rnCancel :: bool
  rnCancelled :: bool
  rnNextSequence :: "64 word"
  rnHistory :: "run_frame list"
  rnNormalEvents :: int
  rnNormalBytes :: int
  rnLiveQueueBytes :: int
  rnTable :: "run_subscriber list"
  rnSubscribers :: "nat list"
  rnDone :: bool

text \<open>\<open>rnCancel\<close>: the cancel function is still held; \<open>rnCancelled\<close>: the run's context was cancelled.\<close>

definition new_run_state :: "run_limits \<Rightarrow> string \<Rightarrow> string \<Rightarrow> string \<Rightarrow> run_state" where
  "new_run_state limits run_id session_id project_id =
     \<lparr>rnLimits = limits, rnID = run_id, rnSessionID = session_id, rnProjectID = project_id,
      rnCancel = True, rnCancelled = False, rnNextSequence = 0, rnHistory = [], rnNormalEvents = 0,
      rnNormalBytes = 0, rnLiveQueueBytes = 0, rnTable = [], rnSubscribers = [], rnDone = False\<rparr>"

definition put_subscriber :: "nat \<Rightarrow> run_subscriber \<Rightarrow> run_state \<Rightarrow> run_state" where
  "put_subscriber i s r = r\<lparr>rnTable := (rnTable r)[i := s]\<rparr>"

text \<open>\<open>removeSubscriberLocked\<close>; its \<open>closeOnce\<close> has run exactly when the channel is closed.\<close>

definition remove_subscriber :: "nat \<Rightarrow> run_state \<Rightarrow> run_state option" where
  "remove_subscriber i r =
     (let s = rnTable r ! i in
      if \<not> rsAttached s then Some r
      else (let r1 = r\<lparr>rnSubscribers := removeAll i (rnSubscribers r),
                 rnLiveQueueBytes := (if rsPendingBytes s > rnLiveQueueBytes r then 0
                   else rnLiveQueueBytes r - rsPendingBytes s)\<rparr>;
                s1 = s\<lparr>rsAttached := False, rsPendingBytes := 0, rsPendingEvents := 0\<rparr>
            in if chClosed (rsQueue s) then Some (put_subscriber i s1 r1)
               else map_option (\<lambda>ch. put_subscriber i (s1\<lparr>rsQueue := ch\<rparr>) r1) (chan_close (rsQueue s))))"

definition enqueue_subscriber :: "nat \<Rightarrow> run_frame \<Rightarrow> run_state \<Rightarrow> run_state option" where
  "enqueue_subscriber i f r =
     (let s = rnTable r ! i in
      if \<not> rsAttached s then Some r
      else if rsPendingEvents s + 1 > rlMaxSubscriberQueueEvents (rnLimits r) \<or>
              rsPendingBytes s + frame_size f > rlMaxSubscriberQueueBytes (rnLimits r) \<or>
              rnLiveQueueBytes r + frame_size f > rlMaxLiveQueueBytes (rnLimits r)
      then remove_subscriber i r
      else (case chan_send f (rsQueue s) of
              Sent ch \<Rightarrow> Some (put_subscriber i
                (s\<lparr>rsPendingEvents := rsPendingEvents s + 1, rsPendingBytes := rsPendingBytes s + frame_size f,
                   rsQueue := ch\<rparr>)
                (r\<lparr>rnLiveQueueBytes := rnLiveQueueBytes r + frame_size f\<rparr>))
            | _ \<Rightarrow> None))"

fun enqueue_all :: "nat list \<Rightarrow> run_frame \<Rightarrow> run_state \<Rightarrow> run_state option" where
  "enqueue_all [] f r = Some r"
| "enqueue_all (i # is) f r =
     (case enqueue_subscriber i f r of None \<Rightarrow> None | Some r' \<Rightarrow> enqueue_all is f r')"

text \<open>Frames are dropped from the front until the new one fits; an empty history would panic.\<close>

fun evict :: "run_limits \<Rightarrow> int \<Rightarrow> run_frame list \<Rightarrow> int \<Rightarrow> int \<Rightarrow> (run_frame list \<times> int \<times> int) option" where
  "evict limits sz [] events bytes =
     (if events + 1 > rlMaxRetainedEvents limits \<or> bytes + sz > rlMaxRetainedBytes limits then None
      else Some ([], events, bytes))"
| "evict limits sz (f # fs) events bytes =
     (if events + 1 > rlMaxRetainedEvents limits \<or> bytes + sz > rlMaxRetainedBytes limits
      then evict limits sz fs (events - 1) (bytes - frame_size f)
      else Some (f # fs, events, bytes))"

definition retain :: "run_frame \<Rightarrow> run_state \<Rightarrow> run_state option" where
  "retain f r =
     (if frame_size f \<le> rlMaxRetainedBytes (rnLimits r)
      then (case evict (rnLimits r) (frame_size f) (rnHistory r) (rnNormalEvents r) (rnNormalBytes r) of
              None \<Rightarrow> None
            | Some (fs, events, bytes) \<Rightarrow> Some (r\<lparr>rnHistory := fs @ [f], rnNormalEvents := events + 1,
                rnNormalBytes := bytes + frame_size f\<rparr>))
      else Some r)"

definition number_frame :: "run_frame \<Rightarrow> run_state \<Rightarrow> run_frame \<times> run_state" where
  "number_frame f r =
     (let n = rnNextSequence r + 1 in (f\<lparr>rfSequence := n\<rparr>, r\<lparr>rnNextSequence := n\<rparr>))"

definition publish_frame :: "run_frame \<Rightarrow> run_state \<Rightarrow> run_state option" where
  "publish_frame f r =
     (if rnDone r then Some r
      else (case number_frame f r of (f1, r1) \<Rightarrow>
        (case retain f1 r1 of
           None \<Rightarrow> None
         | Some r2 \<Rightarrow> enqueue_all (rnSubscribers r2) f1 r2)))"

fun finish_subscribers :: "nat list \<Rightarrow> run_frame \<Rightarrow> run_state \<Rightarrow> run_state option" where
  "finish_subscribers [] f r = Some r"
| "finish_subscribers (i # is) f r =
     (case enqueue_subscriber i f r of
        None \<Rightarrow> None
      | Some r1 \<Rightarrow> (case remove_subscriber i r1 of None \<Rightarrow> None | Some r2 \<Rightarrow> finish_subscribers is f r2))"

text \<open>The part of \<open>publishTerminal\<close> after the frame is encoded, without the manager's bookkeeping.\<close>

definition publish_terminal_frame :: "run_frame \<Rightarrow> run_state \<Rightarrow> run_state option" where
  "publish_terminal_frame f r =
     (if rnDone r then Some r
      else (case number_frame f r of (f1, r1) \<Rightarrow>
        map_option (\<lambda>r3. if rnCancel r then r3\<lparr>rnCancelled := True\<rparr> else r3)
          (finish_subscribers (rnSubscribers r1) f1
            (r1\<lparr>rnHistory := rnHistory r1 @ [f1], rnDone := True, rnCancel := False\<rparr>))))"

definition terminal_frame :: "'e marshal \<Rightarrow> 'e run_stream_item \<Rightarrow> run_state \<Rightarrow> run_frame option" where
  "terminal_frame marshal item r =
     (case encode_terminal_run_frame marshal (rnLimits r) item of
        Some f \<Rightarrow> Some f
      | None \<Rightarrow> encode_terminal_run_frame marshal (rnLimits r)
          \<lparr>riName = ''run_error'', riPayload = RunErrorPayload
             \<lparr>reType = ''run_error'', reError = ''run terminal event could not be encoded'',
              reSession = bounded_run_snapshot (zero_snapshot\<lparr>snSessionID := rnSessionID r\<rparr>) 0 0\<rparr>\<rparr>)"

definition publish_terminal :: "'e marshal \<Rightarrow> 'e run_stream_item \<Rightarrow> run_state \<Rightarrow> run_state option" where
  "publish_terminal marshal item r =
     (case terminal_frame marshal item r of None \<Rightarrow> Some r | Some f \<Rightarrow> publish_terminal_frame f r)"

definition run_abort :: "run_state \<Rightarrow> bool \<times> run_state" where
  "run_abort r = (if rnDone r \<or> \<not> rnCancel r then (False, r) else (True, r\<lparr>rnCancelled := True\<rparr>))"

definition run_fail :: "'e marshal \<Rightarrow> string \<Rightarrow> run_state \<Rightarrow> run_state option" where
  "run_fail marshal message r =
     publish_terminal marshal
       \<lparr>riName = ''run_error'', riPayload = RunErrorPayload
          \<lparr>reType = ''run_error'', reError = message,
           reSession = zero_snapshot\<lparr>snSessionID := rnSessionID r\<rparr>\<rparr>\<rparr>
       (snd (run_abort r))"

text \<open>\<open>message\<close> is the text of the encoding error.\<close>

definition run_publish :: "'e marshal \<Rightarrow> string \<Rightarrow> 'e run_stream_item \<Rightarrow> run_state \<Rightarrow> run_state option" where
  "run_publish marshal message item r =
     (case encode_run_frame marshal item of
        None \<Rightarrow> run_fail marshal (''encode run event: '' @ message) r
      | Some f \<Rightarrow> publish_frame f r)"

datatype run_subscribe_error = ErrRunSubscriberLimit

record run_subscription =
  suHistory :: "run_frame list"
  suHistoryNext :: nat
  suSubscriber :: "nat option"

definition run_subscribe :: "run_state \<Rightarrow> (run_subscribe_error + run_subscription) \<times> run_state" where
  "run_subscribe r =
     (if rnDone r
      then (Inr \<lparr>suHistory = rnHistory r, suHistoryNext = 0, suSubscriber = None\<rparr>, r)
      else if int (length (rnSubscribers r)) \<ge> rlMaxSubscribers (rnLimits r)
      then (Inl ErrRunSubscriberLimit, r)
      else (Inr \<lparr>suHistory = rnHistory r, suHistoryNext = 0, suSubscriber = Some (length (rnTable r))\<rparr>,
            r\<lparr>rnTable := rnTable r @ [\<lparr>rsQueue = make_channel (nat (rlMaxSubscriberQueueEvents (rnLimits r))),
                rsPendingEvents = 0, rsPendingBytes = 0, rsAttached = True\<rparr>],
              rnSubscribers := rnSubscribers r @ [length (rnTable r)]\<rparr>))"

definition run_acknowledge :: "nat \<Rightarrow> int \<Rightarrow> run_state \<Rightarrow> run_state" where
  "run_acknowledge i sz r =
     (let s = rnTable r ! i in
      if \<not> rsAttached s then r
      else (let sz1 = (if sz > rsPendingBytes s then rsPendingBytes s else sz) in
        put_subscriber i
          (s\<lparr>rsPendingEvents := (if rsPendingEvents s > 0 then rsPendingEvents s - 1 else rsPendingEvents s),
             rsPendingBytes := rsPendingBytes s - sz1\<rparr>)
          (r\<lparr>rnLiveQueueBytes := (if sz1 > rnLiveQueueBytes r then 0 else rnLiveQueueBytes r - sz1)\<rparr>)))"

end
