(* ===== verification/RunStreams.thy ===== *)
theory RunStreams
  imports RunState "HOL-Library.Sublist"
begin

text \<open>
  What a run promises its clients: its queues and its history keep to their limits, publishing never
  waits for a client, and a client's stream is the replay and then every frame published since.
\<close>

subsection \<open>A run observed\<close>

text \<open>
  The run with every frame it numbered and, for every subscription, how many frames came before it,
  the frames its client took from the queue and those of them not acknowledged yet.
\<close>

record run_view =
  rvStart :: nat
  rvReplay :: "run_frame list"
  rvRead :: "run_frame list"
  rvUnacked :: "run_frame list"

record run_watch =
  rwRun :: run_state
  rwLog :: "run_frame list"
  rwViews :: "run_view list"

datatype run_call =
  RunPublish run_frame | RunTerminal run_frame | RunSubscribe | RunTake nat | RunAck nat | RunLeave nat
| RunAbort

definition logged :: "run_frame \<Rightarrow> run_watch \<Rightarrow> run_state \<Rightarrow> run_watch" where
  "logged f w r = w\<lparr>rwRun := r, rwLog := (if rnDone (rwRun w) then rwLog w
     else rwLog w @ [fst (number_frame f (rwRun w))])\<rparr>"

fun run_step :: "run_call \<Rightarrow> run_watch \<Rightarrow> run_watch option" where
  "run_step (RunPublish f) w = map_option (logged f w) (publish_frame f (rwRun w))"
| "run_step (RunTerminal f) w = map_option (logged f w) (publish_terminal_frame f (rwRun w))"
| "run_step RunSubscribe w =
     (case run_subscribe (rwRun w) of
        (Inr s, r) \<Rightarrow> Some (w\<lparr>rwRun := r, rwViews := (case suSubscriber s of None \<Rightarrow> rwViews w
          | Some i \<Rightarrow> rwViews w @ [\<lparr>rvStart = length (rwLog w), rvReplay = suHistory s, rvRead = [],
              rvUnacked = []\<rparr>])\<rparr>)
      | (Inl e, r) \<Rightarrow> Some (w\<lparr>rwRun := r\<rparr>))"
| "run_step (RunTake i) w =
     (if i < length (rnTable (rwRun w))
      then (let s = rnTable (rwRun w) ! i; v = rwViews w ! i in
        case chan_receive (rsQueue s) of
          Received f ch \<Rightarrow> Some (w\<lparr>rwRun := put_subscriber i (s\<lparr>rsQueue := ch\<rparr>) (rwRun w),
            rwViews := (rwViews w)[i := v\<lparr>rvRead := rvRead v @ [f], rvUnacked := rvUnacked v @ [f]\<rparr>]\<rparr>)
        | _ \<Rightarrow> Some w)
      else Some w)"
| "run_step (RunAck i) w =
     (if i < length (rnTable (rwRun w))
      then (let v = rwViews w ! i in
        case rvUnacked v of
          f # fs \<Rightarrow> Some (w\<lparr>rwRun := run_acknowledge i (frame_size f) (rwRun w),
            rwViews := (rwViews w)[i := v\<lparr>rvUnacked := fs\<rparr>]\<rparr>)
        | [] \<Rightarrow> Some w)
      else Some w)"
| "run_step (RunLeave i) w =
     (if i < length (rnTable (rwRun w))
      then map_option (\<lambda>r. w\<lparr>rwRun := r\<rparr>) (remove_subscriber i (rwRun w)) else Some w)"
| "run_step RunAbort w = Some (w\<lparr>rwRun := snd (run_abort (rwRun w))\<rparr>)"

fun run_steps :: "run_call list \<Rightarrow> run_watch \<Rightarrow> run_watch option" where
  "run_steps [] w = Some w"
| "run_steps (c # cs) w = (case run_step c w of None \<Rightarrow> None | Some w' \<Rightarrow> run_steps cs w')"

definition watch_run :: "run_limits \<Rightarrow> string \<Rightarrow> string \<Rightarrow> string \<Rightarrow> run_watch" where
  "watch_run limits run_id session_id project_id =
     \<lparr>rwRun = new_run_state limits run_id session_id project_id, rwLog = [], rwViews = []\<rparr>"

subsection \<open>The subscribers\<close>

definition total_bytes :: "run_frame list \<Rightarrow> int" where
  "total_bytes fs = sum_list (map frame_size fs)"

lemma total_bytes_simps [simp]:
  "total_bytes [] = 0" "total_bytes (f # fs) = frame_size f + total_bytes fs"
  "total_bytes (fs @ gs) = total_bytes fs + total_bytes gs"
  by (simp_all add: total_bytes_def)

lemma frame_size_nonneg [simp]: "0 \<le> frame_size f"
  by (simp add: frame_size_def)

lemma total_bytes_nonneg [simp]: "0 \<le> total_bytes fs"
  by (induction fs) simp_all

definition sub_ok :: "run_limits \<Rightarrow> run_frame list \<Rightarrow> run_subscriber \<Rightarrow> run_view \<Rightarrow> bool" where
  "sub_ok limits log s v \<longleftrightarrow> chCap (rsQueue s) = nat (rlMaxSubscriberQueueEvents limits) \<and>
     rsAttached s = (\<not> chClosed (rsQueue s)) \<and> rvStart v \<le> length log \<and>
     prefix (rvRead v @ chQueue (rsQueue s)) (drop (rvStart v) log) \<and>
     (rsAttached s \<longrightarrow> rvRead v @ chQueue (rsQueue s) = drop (rvStart v) log \<and>
        rsPendingEvents s = int (length (rvUnacked v @ chQueue (rsQueue s))) \<and>
        rsPendingBytes s = total_bytes (rvUnacked v @ chQueue (rsQueue s)) \<and>
        rsPendingEvents s \<le> rlMaxSubscriberQueueEvents limits \<and>
        rsPendingBytes s \<le> rlMaxSubscriberQueueBytes limits)"

definition live_bytes :: "run_state \<Rightarrow> int" where
  "live_bytes r = (\<Sum>i \<in> set (rnSubscribers r). rsPendingBytes (rnTable r ! i))"

text \<open>The subscribers in \<open>old\<close> have not been given the last frames \<open>fresh\<close> yet.\<close>

definition subs_ok :: "run_frame list \<Rightarrow> run_frame list \<Rightarrow> nat set \<Rightarrow> run_view list \<Rightarrow> run_state \<Rightarrow> bool" where
  "subs_ok log fresh old views r \<longleftrightarrow> length views = length (rnTable r) \<and> distinct (rnSubscribers r) \<and>
     set (rnSubscribers r) = {i. i < length (rnTable r) \<and> rsAttached (rnTable r ! i)} \<and>
     (\<forall>i < length (rnTable r). sub_ok (rnLimits r) (if i \<in> old then log else log @ fresh) (rnTable r ! i) (views ! i)) \<and>
     rnLiveQueueBytes r = live_bytes r \<and> live_bytes r \<le> rlMaxLiveQueueBytes (rnLimits r)"

lemma subs_okD:
  assumes "subs_ok log fresh old views r"
  shows "length views = length (rnTable r)" "distinct (rnSubscribers r)"
    "i < length (rnTable r) \<Longrightarrow> i \<in> set (rnSubscribers r) \<longleftrightarrow> rsAttached (rnTable r ! i)"
    "i < length (rnTable r) \<Longrightarrow> sub_ok (rnLimits r) (if i \<in> old then log else log @ fresh) (rnTable r ! i) (views ! i)"
    "rnLiveQueueBytes r = live_bytes r" "live_bytes r \<le> rlMaxLiveQueueBytes (rnLimits r)"
    "i \<in> set (rnSubscribers r) \<Longrightarrow> i < length (rnTable r)"
  using assms unfolding subs_ok_def by auto

text \<open>Operations on the subscribers change nothing else of the run.\<close>

definition same_run :: "run_state \<Rightarrow> run_state \<Rightarrow> bool" where
  "same_run r r' \<longleftrightarrow> rnLimits r' = rnLimits r \<and> rnID r' = rnID r \<and> rnSessionID r' = rnSessionID r \<and>
     rnProjectID r' = rnProjectID r \<and> rnCancel r' = rnCancel r \<and> rnCancelled r' = rnCancelled r \<and>
     rnNextSequence r' = rnNextSequence r \<and> rnHistory r' = rnHistory r \<and>
     rnNormalEvents r' = rnNormalEvents r \<and> rnNormalBytes r' = rnNormalBytes r \<and> rnDone r' = rnDone r \<and>
     length (rnTable r') = length (rnTable r) \<and> length (rnSubscribers r') \<le> length (rnSubscribers r) \<and>
     set (rnSubscribers r') \<subseteq> set (rnSubscribers r)"

lemma same_run_refl [simp]: "same_run r r"
  by (simp add: same_run_def)

lemma same_run_trans [trans]: "same_run a b \<Longrightarrow> same_run b c \<Longrightarrow> same_run a c"
  unfolding same_run_def by auto

lemma sub_ok_gone:
  "sub_ok limits log s v \<Longrightarrow> \<not> rsAttached s \<Longrightarrow> sub_ok limits (log @ fresh) s v"
  by (auto simp: sub_ok_def prefix_def)

lemma live_bytes_update:
  assumes "i \<in> set (rnSubscribers r)" "i < length (rnTable r)"
  shows "live_bytes (r\<lparr>rnTable := (rnTable r)[i := s]\<rparr>) = live_bytes r - rsPendingBytes (rnTable r ! i) + rsPendingBytes s"
    "live_bytes (r\<lparr>rnSubscribers := removeAll i (rnSubscribers r)\<rparr>) = live_bytes r - rsPendingBytes (rnTable r ! i)"
proof -
  let ?S = "set (rnSubscribers r)"
  have split: "live_bytes r = rsPendingBytes (rnTable r ! i) + (\<Sum>j \<in> ?S - {i}. rsPendingBytes (rnTable r ! j))"
    unfolding live_bytes_def using assms(1) by (simp add: sum.remove)
  have "live_bytes (r\<lparr>rnTable := (rnTable r)[i := s]\<rparr>) =
      rsPendingBytes s + (\<Sum>j \<in> ?S - {i}. rsPendingBytes ((rnTable r)[i := s] ! j))"
    unfolding live_bytes_def using assms by (simp add: sum.remove)
  also have "(\<Sum>j \<in> ?S - {i}. rsPendingBytes ((rnTable r)[i := s] ! j)) = (\<Sum>j \<in> ?S - {i}. rsPendingBytes (rnTable r ! j))"
    by (rule sum.cong) auto
  finally show "live_bytes (r\<lparr>rnTable := (rnTable r)[i := s]\<rparr>) = live_bytes r - rsPendingBytes (rnTable r ! i) + rsPendingBytes s"
    using split by simp
  show "live_bytes (r\<lparr>rnSubscribers := removeAll i (rnSubscribers r)\<rparr>) = live_bytes r - rsPendingBytes (rnTable r ! i)"
    using split by (simp add: live_bytes_def)
qed

lemma sub_ok_leave:
  assumes "sub_ok limits log s v" "chan_close (rsQueue s) = Some ch"
  shows "sub_ok limits (log @ fresh) (s\<lparr>rsAttached := False, rsPendingBytes := 0, rsPendingEvents := 0, rsQueue := ch\<rparr>) v"
  by (rule sub_ok_gone) (use assms in \<open>auto simp: sub_ok_def chan_close_def split: if_splits\<close>)

lemma put_subscriber_sel [simp]:
  "rnTable (put_subscriber i s r) = (rnTable r)[i := s]" "rnSubscribers (put_subscriber i s r) = rnSubscribers r"
  "rnLimits (put_subscriber i s r) = rnLimits r" "rnLiveQueueBytes (put_subscriber i s r) = rnLiveQueueBytes r"
  "rnDone (put_subscriber i s r) = rnDone r" "rnHistory (put_subscriber i s r) = rnHistory r"
  by (simp_all add: put_subscriber_def)

lemma live_bytes_cong:
  "rnSubscribers r = rnSubscribers r' \<Longrightarrow> rnTable r = rnTable r' \<Longrightarrow> live_bytes r = live_bytes r'"
  by (simp add: live_bytes_def)

lemma pending_le_live:
  assumes "subs_ok log fresh old views r" "i \<in> set (rnSubscribers r)"
  shows "rsPendingBytes (rnTable r ! i) \<le> live_bytes r"
proof -
  have "0 \<le> rsPendingBytes (rnTable r ! j)" if "j \<in> set (rnSubscribers r)" for j
    using subs_okD(3,4,7) [OF assms(1), of j] that by (auto simp: sub_ok_def)
  then show ?thesis unfolding live_bytes_def using assms(2) by (intro member_le_sum) auto
qed

lemma remove_subscriber_ok:
  assumes ok: "subs_ok log fresh old views r" and i: "i < length (rnTable r)"
  shows "\<exists>r'. remove_subscriber i r = Some r' \<and> subs_ok log fresh (old - {i}) views r' \<and> same_run r r' \<and>
    set (rnSubscribers r') = set (rnSubscribers r) - {i}"
proof (cases "rsAttached (rnTable r ! i)")
  case False
  have "sub_ok (rnLimits r) (log @ fresh) (rnTable r ! i) (views ! i)"
    using subs_okD(4) [OF ok i] False sub_ok_gone [of _ log] by (auto split: if_splits)
  with False ok i subs_okD(3) [OF ok i] show ?thesis
    by (auto simp: remove_subscriber_def subs_ok_def)
next
  case True
  let ?s = "rnTable r ! i"
  have mem: "i \<in> set (rnSubscribers r)" using subs_okD(3) [OF ok i] True by simp
  note sub = subs_okD(4) [OF ok i]
  obtain ch where ch: "chan_close (rsQueue ?s) = Some ch" "\<not> chClosed (rsQueue ?s)"
    using sub True by (auto simp: sub_ok_def chan_close_def)
  let ?s1 = "?s\<lparr>rsAttached := False, rsPendingBytes := 0, rsPendingEvents := 0, rsQueue := ch\<rparr>"
  define r' where "r' = put_subscriber i ?s1 (r\<lparr>rnSubscribers := removeAll i (rnSubscribers r),
    rnLiveQueueBytes := live_bytes r - rsPendingBytes ?s\<rparr>)"
  have remove: "remove_subscriber i r = Some r'"
    using True ch pending_le_live [OF ok mem] subs_okD(5) [OF ok]
    by (simp add: remove_subscriber_def Let_def r'_def)
  have left: "sub_ok (rnLimits r) (log @ fresh) ?s1 (views ! i)"
    using sub sub_ok_leave [OF _ ch(1), of _ log, of _ _ fresh] sub_ok_leave [OF _ ch(1), of _ "log @ fresh", of _ _ "[]"]
    by (auto split: if_splits)
  have live: "live_bytes r' = live_bytes r - rsPendingBytes ?s"
  proof -
    have "live_bytes r' = (\<Sum>j \<in> set (rnSubscribers r) - {i}. rsPendingBytes ((rnTable r)[i := ?s1] ! j))"
      by (simp add: live_bytes_def r'_def)
    also have "\<dots> = (\<Sum>j \<in> set (rnSubscribers r) - {i}. rsPendingBytes (rnTable r ! j))"
      by (rule sum.cong) auto
    finally show ?thesis using live_bytes_update(2) [OF mem i] by (simp add: live_bytes_def)
  qed
  have pos: "0 \<le> rsPendingBytes ?s" using sub True by (auto simp: sub_ok_def)
  have "subs_ok log fresh (old - {i}) views r'"
    unfolding subs_ok_def live using ok left live pos i
    by (auto simp: r'_def subs_ok_def nth_list_update distinct_removeAll split: if_splits)
  moreover have "same_run r r'" "set (rnSubscribers r') = set (rnSubscribers r) - {i}"
    by (auto simp: same_run_def r'_def put_subscriber_def length_removeAll_less_eq)
  ultimately show ?thesis using remove by blast
qed

text \<open>A send goes through because the queue is never longer than the pending count.\<close>

lemma enqueue_subscriber_ok:
  assumes ok: "subs_ok log [f] old views r" and i: "i \<in> set (rnSubscribers r)" "i \<in> old"
  shows "\<exists>r'. enqueue_subscriber i f r = Some r' \<and> subs_ok log [f] (old - {i}) views r' \<and> same_run r r'"
proof -
  let ?s = "rnTable r ! i"
  have len: "i < length (rnTable r)" using subs_okD(7) [OF ok i(1)] .
  have att: "rsAttached ?s" using subs_okD(3) [OF ok len] i(1) by simp
  have sub: "sub_ok (rnLimits r) log ?s (views ! i)" using subs_okD(4) [OF ok len] i(2) by simp
  show ?thesis
  proof (cases "rsPendingEvents ?s + 1 > rlMaxSubscriberQueueEvents (rnLimits r) \<or>
      rsPendingBytes ?s + frame_size f > rlMaxSubscriberQueueBytes (rnLimits r) \<or>
      rnLiveQueueBytes r + frame_size f > rlMaxLiveQueueBytes (rnLimits r)")
    case True
    then show ?thesis using remove_subscriber_ok [OF ok len] att by (auto simp: enqueue_subscriber_def Let_def)
  next
    case False
    let ?ch = "rsQueue ?s\<lparr>chQueue := chQueue (rsQueue ?s) @ [f]\<rparr>"
    let ?s1 = "?s\<lparr>rsPendingEvents := rsPendingEvents ?s + 1, rsPendingBytes := rsPendingBytes ?s + frame_size f,
      rsQueue := ?ch\<rparr>"
    let ?r' = "put_subscriber i ?s1 (r\<lparr>rnLiveQueueBytes := rnLiveQueueBytes r + frame_size f\<rparr>)"
    have "int (length (chQueue (rsQueue ?s))) < rlMaxSubscriberQueueEvents (rnLimits r)"
      using sub att False by (auto simp: sub_ok_def)
    then have send: "chan_send f (rsQueue ?s) = Sent ?ch"
      using sub att by (auto simp: chan_send_def sub_ok_def)
    have step: "enqueue_subscriber i f r = Some ?r'"
      using False att send by (simp add: enqueue_subscriber_def Let_def)
    have sent: "sub_ok (rnLimits r) (log @ [f]) ?s1 (views ! i)"
      using sub att False by (auto simp: sub_ok_def simp flip: append_assoc)
    have live: "live_bytes ?r' = live_bytes r + frame_size f"
      using live_bytes_update(1) [OF i(1) len, of ?s1]
        live_bytes_cong [of ?r' "r\<lparr>rnTable := (rnTable r)[i := ?s1]\<rparr>"] by simp
    have "subs_ok log [f] (old - {i}) views ?r'"
      unfolding subs_ok_def live using ok len sent att False i
      by (auto simp: subs_ok_def nth_list_update split: if_splits)
    moreover have "same_run r ?r'" by (auto simp: same_run_def put_subscriber_def)
    ultimately show ?thesis using step by blast
  qed
qed

lemma remove_keeps:
  "remove_subscriber i r = Some r' \<Longrightarrow> j \<noteq> i \<Longrightarrow> j \<in> set (rnSubscribers r) \<Longrightarrow> j \<in> set (rnSubscribers r')"
  by (auto simp: remove_subscriber_def Let_def split: if_splits option.splits)

lemma enqueue_keeps:
  "enqueue_subscriber i f r = Some r' \<Longrightarrow> j \<noteq> i \<Longrightarrow> j \<in> set (rnSubscribers r) \<Longrightarrow> j \<in> set (rnSubscribers r')"
  by (auto simp: enqueue_subscriber_def Let_def dest: remove_keeps split: if_splits sent.splits)

lemma enqueue_all_ok:
  "subs_ok log [f] (set is) views r \<Longrightarrow> distinct is \<Longrightarrow> set is \<subseteq> set (rnSubscribers r) \<Longrightarrow>
     \<exists>r'. enqueue_all is f r = Some r' \<and> subs_ok log [f] {} views r' \<and> same_run r r'"
proof (induction "is" arbitrary: r)
  case (Cons i "is")
  have rest: "set (i # is) - {i} = set is" using Cons.prems(2) by auto
  from enqueue_subscriber_ok [OF Cons.prems(1), of i] Cons.prems(3) rest obtain r1 where
    r1: "enqueue_subscriber i f r = Some r1" "subs_ok log [f] (set is) views r1" "same_run r r1" by auto
  have keep: "set is \<subseteq> set (rnSubscribers r1)"
  proof
    fix j assume j: "j \<in> set is"
    then have "j \<noteq> i" "j \<in> set (rnSubscribers r)" using Cons.prems by auto
    then show "j \<in> set (rnSubscribers r1)"
      using r1(1) enqueue_keeps [of i f r r1 j] by simp
  qed
  from Cons.IH [OF r1(2) _ keep] Cons.prems(2) r1(1,3) show ?case by (auto intro: same_run_trans)
qed auto

lemma finish_subscribers_ok:
  "subs_ok log [f] (set is) views r \<Longrightarrow> distinct is \<Longrightarrow> set is = set (rnSubscribers r) \<Longrightarrow>
     \<exists>r'. finish_subscribers is f r = Some r' \<and> subs_ok log [f] {} views r' \<and> same_run r r' \<and>
       rnSubscribers r' = []"
proof (induction "is" arbitrary: r)
  case (Cons i "is")
  have rest: "set (i # is) - {i} = set is" "set is - {i} = set is" using Cons.prems(2) by auto
  from enqueue_subscriber_ok [OF Cons.prems(1), of i] Cons.prems(3) rest obtain r1 where
    r1: "enqueue_subscriber i f r = Some r1" "subs_ok log [f] (set is) views r1" "same_run r r1" by auto
  have "i < length (rnTable r1)" using subs_okD(7) [OF Cons.prems(1), of i] Cons.prems(3) r1(3) by (auto simp: same_run_def)
  from remove_subscriber_ok [OF r1(2) this] rest obtain r2 where
    r2: "remove_subscriber i r1 = Some r2" "subs_ok log [f] (set is) views r2" "same_run r1 r2"
    "set (rnSubscribers r2) = set (rnSubscribers r1) - {i}" by auto
  have "j \<in> set (rnSubscribers r1)" if "j \<in> set is" for j
  proof -
    from that have "j \<noteq> i" "j \<in> set (rnSubscribers r)" using Cons.prems by auto
    then show ?thesis using enqueue_keeps [OF r1(1)] by simp
  qed
  then have "set is = set (rnSubscribers r2)"
    using r2(4) r1(3) Cons.prems(2,3) by (auto simp: same_run_def)
  from Cons.IH [OF r2(2) _ this] Cons.prems(2) r1(1) r2(1) same_run_trans [OF r1(3) r2(3)]
  show ?case by (auto intro: same_run_trans)
qed auto

subsection \<open>The history\<close>

definition retained_ok :: "run_limits \<Rightarrow> run_frame list \<Rightarrow> int \<Rightarrow> int \<Rightarrow> bool" where
  "retained_ok limits hs events bytes \<longleftrightarrow> events = int (length hs) \<and> bytes = total_bytes hs \<and>
     events \<le> rlMaxRetainedEvents limits \<and> bytes \<le> rlMaxRetainedBytes limits"

lemma evict_ok:
  "limits_ok limits \<Longrightarrow> 0 \<le> sz \<Longrightarrow> sz \<le> rlMaxRetainedBytes limits \<Longrightarrow>
     \<exists>fs. evict limits sz hs (int (length hs)) (total_bytes hs) = Some (fs, int (length fs), total_bytes fs) \<and>
       suffix fs hs \<and> int (length fs) + 1 \<le> rlMaxRetainedEvents limits \<and>
       total_bytes fs + sz \<le> rlMaxRetainedBytes limits"
proof (induction hs)
  case Nil
  then show ?case by (auto simp: limits_ok_def)
next
  case (Cons h hs)
  then show ?case by (cases "int (length (h # hs)) + 1 > rlMaxRetainedEvents limits \<or>
      total_bytes (h # hs) + sz > rlMaxRetainedBytes limits") (auto intro: suffix_ConsI)
qed

lemma retain_ok:
  assumes "limits_ok (rnLimits r)" "retained_ok (rnLimits r) (rnHistory r) (rnNormalEvents r) (rnNormalBytes r)"
    "subseq (rnHistory r) log"
  shows "\<exists>r'. retain f r = Some r' \<and>
    retained_ok (rnLimits r) (rnHistory r') (rnNormalEvents r') (rnNormalBytes r') \<and>
    subseq (rnHistory r') (log @ [f]) \<and>
    r' = r\<lparr>rnHistory := rnHistory r', rnNormalEvents := rnNormalEvents r', rnNormalBytes := rnNormalBytes r'\<rparr>"
proof (cases "frame_size f \<le> rlMaxRetainedBytes (rnLimits r)")
  case False
  with assms show ?thesis by (auto simp: retain_def intro: list_emb_append2)
next
  case True
  from evict_ok [OF assms(1) frame_size_nonneg True, of "rnHistory r"] obtain fs where
    fs: "evict (rnLimits r) (frame_size f) (rnHistory r) (rnNormalEvents r) (rnNormalBytes r) =
      Some (fs, int (length fs), total_bytes fs)" "suffix fs (rnHistory r)"
    "int (length fs) + 1 \<le> rlMaxRetainedEvents (rnLimits r)"
    "total_bytes fs + frame_size f \<le> rlMaxRetainedBytes (rnLimits r)"
    using assms(2) by (auto simp: retained_ok_def)
  have "subseq fs log" using fs(2) assms(3) by (meson suffix_imp_subseq subseq_order.order_trans)
  then have "subseq (fs @ [f]) (log @ [f])" by (simp add: list_emb_append_mono)
  with True fs show ?thesis by (simp add: retain_def retained_ok_def)
qed

subsection \<open>The invariant of a run\<close>

definition numbered :: "run_frame list \<Rightarrow> bool" where
  "numbered log \<longleftrightarrow> (\<forall>k < length log. rfSequence (log ! k) = of_nat (Suc k))"

definition replay_ok :: "run_frame list \<Rightarrow> run_view \<Rightarrow> bool" where
  "replay_ok log v \<longleftrightarrow> rvStart v \<le> length log \<and> subseq (rvReplay v) (take (rvStart v) log)"

definition run_ok :: "run_watch \<Rightarrow> bool" where
  "run_ok w \<longleftrightarrow> (let r = rwRun w; log = rwLog w in
     limits_ok (rnLimits r) \<and> subs_ok log [] {} (rwViews w) r \<and>
     int (length (rnSubscribers r)) \<le> rlMaxSubscribers (rnLimits r) \<and>
     (\<exists>hs. rnHistory r = hs @ (if rnDone r then [last log] else []) \<and>
        retained_ok (rnLimits r) hs (rnNormalEvents r) (rnNormalBytes r)) \<and>
     subseq (rnHistory r) log \<and> rnNextSequence r = of_nat (length log) \<and> numbered log \<and>
     (rnDone r \<longrightarrow> rnSubscribers r = [] \<and> \<not> rnCancel r) \<and> list_all (replay_ok log) (rwViews w))"

lemma numbered_snoc: "numbered log \<Longrightarrow> rfSequence f = of_nat (Suc (length log)) \<Longrightarrow> numbered (log @ [f])"
  by (auto simp: numbered_def nth_append less_Suc_eq)

lemma replay_ok_more: "replay_ok log v \<Longrightarrow> replay_ok (log @ fresh) v"
  by (auto simp: replay_ok_def)

lemma subs_ok_offered:
  assumes "subs_ok log [] {} views r"
  shows "subs_ok log [f] (set (rnSubscribers r)) views r"
proof -
  have "sub_ok (rnLimits r) (log @ [f]) (rnTable r ! i) (views ! i)"
    if "i < length (rnTable r)" "i \<notin> set (rnSubscribers r)" for i
    using subs_okD(3,4) [OF assms that(1)] that(2) by (auto intro: sub_ok_gone)
  with assms show ?thesis by (auto simp: subs_ok_def)
qed

lemma subs_ok_settled: "subs_ok log fresh {} views r \<Longrightarrow> subs_ok (log @ fresh) [] {} views r"
  by (simp add: subs_ok_def)

lemma subs_ok_cong:
  "rnTable r' = rnTable r \<Longrightarrow> rnSubscribers r' = rnSubscribers r \<Longrightarrow> rnLimits r' = rnLimits r \<Longrightarrow>
     rnLiveQueueBytes r' = rnLiveQueueBytes r \<Longrightarrow> subs_ok log fresh old views r' = subs_ok log fresh old views r"
  by (simp add: subs_ok_def live_bytes_def)

lemma run_publish_ok:
  assumes "run_ok w"
  shows "\<exists>w'. run_step (RunPublish f) w = Some w' \<and> run_ok w'"
proof (cases "rnDone (rwRun w)")
  case True
  then have "run_step (RunPublish f) w = Some w" by (simp add: publish_frame_def logged_def)
  with assms show ?thesis by blast
next
  case False
  let ?r = "rwRun w" let ?log = "rwLog w"
  define f1 where "f1 = f\<lparr>rfSequence := rnNextSequence ?r + 1\<rparr>"
  define r1 where "r1 = ?r\<lparr>rnNextSequence := rnNextSequence ?r + 1\<rparr>"
  have number: "number_frame f ?r = (f1, r1)" by (simp add: number_frame_def f1_def r1_def Let_def)
  note inv = assms [unfolded run_ok_def Let_def]
  from inv False have kept: "limits_ok (rnLimits r1)"
    "retained_ok (rnLimits r1) (rnHistory r1) (rnNormalEvents r1) (rnNormalBytes r1)"
    "subseq (rnHistory r1) ?log" by (auto simp: r1_def)
  from retain_ok [OF kept, of f1] obtain r2 where r2: "retain f1 r1 = Some r2"
    "retained_ok (rnLimits r1) (rnHistory r2) (rnNormalEvents r2) (rnNormalBytes r2)"
    "subseq (rnHistory r2) (?log @ [f1])"
    and same: "r2 = r1\<lparr>rnHistory := rnHistory r2, rnNormalEvents := rnNormalEvents r2, rnNormalBytes := rnNormalBytes r2\<rparr>"
    by auto
  have r2_sel: "rnTable r2 = rnTable ?r" "rnSubscribers r2 = rnSubscribers ?r" "rnLimits r2 = rnLimits ?r"
    "rnLiveQueueBytes r2 = rnLiveQueueBytes ?r" "rnNextSequence r2 = rnNextSequence ?r + 1" "rnDone r2 = rnDone ?r"
    by (simp_all only: same [THEN arg_cong [where f = rnTable]] same [THEN arg_cong [where f = rnSubscribers]]
        same [THEN arg_cong [where f = rnLimits]] same [THEN arg_cong [where f = rnLiveQueueBytes]]
        same [THEN arg_cong [where f = rnNextSequence]] same [THEN arg_cong [where f = rnDone]])
      (simp_all add: r1_def)
  have subs: "subs_ok ?log [f1] (set (rnSubscribers r2)) (rwViews w) r2"
    using inv subs_ok_offered [of ?log "rwViews w" ?r f1] subs_ok_cong [OF r2_sel(1-4)] by (simp add: r2_sel)
  have dist: "distinct (rnSubscribers r2)" using subs by (simp add: subs_ok_def)
  from enqueue_all_ok [OF subs dist subset_refl] obtain r3 where r3: "enqueue_all (rnSubscribers r2) f1 r2 = Some r3"
    "subs_ok ?log [f1] {} (rwViews w) r3" "same_run r2 r3" by auto
  have step: "run_step (RunPublish f) w = Some (w\<lparr>rwRun := r3, rwLog := ?log @ [f1]\<rparr>)"
    using False number r2(1) r3(1) by (simp add: publish_frame_def logged_def)
  have "numbered (?log @ [f1])" using inv by (intro numbered_snoc) (auto simp: f1_def)
  then have "run_ok (w\<lparr>rwRun := r3, rwLog := ?log @ [f1]\<rparr>)"
    using inv False r2(2,3) r3(2,3) r2_sel subs_ok_settled [OF r3(2)] replay_ok_more
    by (auto simp: run_ok_def Let_def same_run_def r1_def list_all_iff)
  with step show ?thesis by blast
qed

lemma run_terminal_ok:
  assumes "run_ok w"
  shows "\<exists>w'. run_step (RunTerminal f) w = Some w' \<and> run_ok w' \<and> rnDone (rwRun w')"
proof (cases "rnDone (rwRun w)")
  case True
  then have "run_step (RunTerminal f) w = Some w" by (simp add: publish_terminal_frame_def logged_def)
  with assms True show ?thesis by blast
next
  case False
  let ?r = "rwRun w" let ?log = "rwLog w"
  define f1 where "f1 = f\<lparr>rfSequence := rnNextSequence ?r + 1\<rparr>"
  define r1 where "r1 = ?r\<lparr>rnNextSequence := rnNextSequence ?r + 1\<rparr>"
  define r2 where "r2 = r1\<lparr>rnHistory := rnHistory r1 @ [f1], rnDone := True, rnCancel := False\<rparr>"
  have number: "number_frame f ?r = (f1, r1)" by (simp add: number_frame_def f1_def r1_def Let_def)
  note inv = assms [unfolded run_ok_def Let_def]
  have subs: "subs_ok ?log [f1] (set (rnSubscribers r2)) (rwViews w) r2"
    using inv subs_ok_offered [of ?log "rwViews w" ?r f1]
      subs_ok_cong [of r2 ?r] by (simp add: r2_def r1_def)
  have dist: "distinct (rnSubscribers r2)" using subs by (simp add: subs_ok_def)
  from finish_subscribers_ok [OF subs dist refl] obtain r3 where
    r3: "finish_subscribers (rnSubscribers r2) f1 r2 = Some r3"
    "subs_ok ?log [f1] {} (rwViews w) r3" "same_run r2 r3" "rnSubscribers r3 = []" by auto
  define r4 where "r4 = (if rnCancel ?r then r3\<lparr>rnCancelled := True\<rparr> else r3)"
  have fin: "finish_subscribers (rnSubscribers r1) f1
      (r1\<lparr>rnHistory := rnHistory r1 @ [f1], rnDone := True, rnCancel := False\<rparr>) = Some r3"
    using r3(1) by (simp add: r2_def)
  have step: "run_step (RunTerminal f) w = Some (w\<lparr>rwRun := r4, rwLog := ?log @ [f1]\<rparr>)"
    unfolding run_step.simps publish_terminal_frame_def using False number fin
    by (simp add: logged_def r4_def)
  have seq: "subseq (rnHistory ?r @ [f1]) (?log @ [f1])" using inv by (simp add: list_emb_append_mono)
  have num: "numbered (?log @ [f1])" using inv by (intro numbered_snoc) (auto simp: f1_def)
  have r4: "rnLimits r4 = rnLimits ?r" "rnHistory r4 = rnHistory ?r @ [f1]" "rnNormalEvents r4 = rnNormalEvents ?r"
    "rnNormalBytes r4 = rnNormalBytes ?r" "rnNextSequence r4 = rnNextSequence ?r + 1" "rnDone r4"
    "rnSubscribers r4 = []" "\<not> rnCancel r4"
    using r3(3,4) by (auto simp: r4_def same_run_def r2_def r1_def)
  have subs4: "subs_ok (?log @ [f1]) [] {} (rwViews w) r4"
    using subs_ok_settled [OF r3(2)] subs_ok_cong [of r4 r3] by (simp add: r4_def)
  have "run_ok (w\<lparr>rwRun := r4, rwLog := ?log @ [f1]\<rparr>)"
    using inv False seq num r4 subs4 replay_ok_more by (auto simp: run_ok_def Let_def list_all_iff limits_ok_def)
  with step r4 show ?thesis by auto
qed

lemma run_subscribe_ok:
  assumes "run_ok w"
  shows "\<exists>w'. run_step RunSubscribe w = Some w' \<and> run_ok w'"
proof (cases "rnDone (rwRun w) \<or> int (length (rnSubscribers (rwRun w))) \<ge> rlMaxSubscribers (rnLimits (rwRun w))")
  case True
  with assms show ?thesis by (cases w) (auto simp: run_subscribe_def)
next
  case False
  let ?r = "rwRun w" let ?k = "length (rnTable ?r)"
  define s where "s = \<lparr>rsQueue = make_channel (nat (rlMaxSubscriberQueueEvents (rnLimits ?r))),
    rsPendingEvents = 0, rsPendingBytes = 0, rsAttached = True\<rparr>"
  define v where "v = \<lparr>rvStart = length (rwLog w), rvReplay = rnHistory ?r, rvRead = [], rvUnacked = []\<rparr>"
  define r' where "r' = ?r\<lparr>rnTable := rnTable ?r @ [s], rnSubscribers := rnSubscribers ?r @ [?k]\<rparr>"
  have step: "run_step RunSubscribe w = Some (w\<lparr>rwRun := r', rwViews := rwViews w @ [v]\<rparr>)"
    using False by (simp add: run_subscribe_def r'_def s_def v_def)
  note inv = assms [unfolded run_ok_def Let_def]
  have lim: "limits_ok (rnLimits ?r)" using inv by simp
  have ok: "subs_ok (rwLog w) [] {} (rwViews w) ?r" using inv by simp
  have new: "sub_ok (rnLimits ?r) (rwLog w) s v"
    using lim by (auto simp: sub_ok_def s_def v_def make_channel_def limits_ok_def)
  have live: "live_bytes r' = live_bytes ?r"
  proof -
    have "set (rnSubscribers r') = insert ?k (set (rnSubscribers ?r))" by (simp add: r'_def)
    moreover have "?k \<notin> set (rnSubscribers ?r)" using subs_okD(7) [OF ok, of ?k] by auto
    moreover have "(\<Sum>i \<in> set (rnSubscribers ?r). rsPendingBytes (rnTable r' ! i)) =
        (\<Sum>i \<in> set (rnSubscribers ?r). rsPendingBytes (rnTable ?r ! i))"
      by (rule sum.cong) (use subs_okD(7) [OF ok] in \<open>auto simp: r'_def nth_append\<close>)
    moreover have "rsPendingBytes (rnTable r' ! ?k) = 0" by (simp add: r'_def s_def)
    ultimately show ?thesis by (simp add: live_bytes_def)
  qed
  have att: "rsAttached s" by (simp add: s_def)
  have subs: "subs_ok (rwLog w) [] {} (rwViews w @ [v]) r'"
    unfolding subs_ok_def live using ok new att
    by (auto simp: subs_ok_def r'_def nth_append less_Suc_eq)
  have "replay_ok (rwLog w) v" using inv by (simp add: replay_ok_def v_def)
  then have "run_ok (w\<lparr>rwRun := r', rwViews := rwViews w @ [v]\<rparr>)"
    using inv subs False by (simp add: run_ok_def Let_def r'_def)
  with step show ?thesis by blast
qed

lemma put_subscriber_keeps:
  "run_ok w \<Longrightarrow> subs_ok (rwLog w) [] {} views r' \<Longrightarrow> same_run (rwRun w) r' \<Longrightarrow>
     list_all (replay_ok (rwLog w)) views \<Longrightarrow> run_ok (w\<lparr>rwRun := r', rwViews := views\<rparr>)"
  by (auto simp: run_ok_def Let_def same_run_def)

lemma replay_ok_update:
  "list_all (replay_ok log) views \<Longrightarrow> i < length views \<Longrightarrow> rvStart v = rvStart (views ! i) \<Longrightarrow>
     rvReplay v = rvReplay (views ! i) \<Longrightarrow> list_all (replay_ok log) (views[i := v])"
  by (auto simp: list_all_length nth_list_update replay_ok_def)

lemma run_take_ok:
  assumes "run_ok w"
  shows "\<exists>w'. run_step (RunTake i) w = Some w' \<and> run_ok w'"
proof (cases "i < length (rnTable (rwRun w)) \<and> (\<exists>f ch. chan_receive (rsQueue (rnTable (rwRun w) ! i)) = Received f ch)")
  case False
  then have "run_step (RunTake i) w = Some w" by (auto simp: Let_def split: received.splits)
  with assms show ?thesis by blast
next
  case True
  let ?r = "rwRun w" let ?s = "rnTable ?r ! i" let ?v = "rwViews w ! i"
  from True obtain f ch where ch: "chan_receive (rsQueue ?s) = Received f ch" and len: "i < length (rnTable ?r)"
    by auto
  let ?r' = "put_subscriber i (?s\<lparr>rsQueue := ch\<rparr>) ?r"
  let ?v' = "?v\<lparr>rvRead := rvRead ?v @ [f], rvUnacked := rvUnacked ?v @ [f]\<rparr>"
  note inv = assms [unfolded run_ok_def Let_def]
  have ok: "subs_ok (rwLog w) [] {} (rwViews w) ?r" using inv by simp
  have "sub_ok (rnLimits ?r) (rwLog w) ?s ?v" using subs_okD(4) [OF ok len] by simp
  then have taken: "sub_ok (rnLimits ?r) (rwLog w) (?s\<lparr>rsQueue := ch\<rparr>) ?v'"
    using ch by (auto simp: sub_ok_def chan_receive_def split: list.splits if_splits)
  have live: "live_bytes ?r' = live_bytes ?r"
    using len by (auto simp: live_bytes_def nth_list_update intro!: sum.cong)
  have "subs_ok (rwLog w) [] {} ((rwViews w)[i := ?v']) ?r'"
    unfolding subs_ok_def live using ok taken len by (auto simp: subs_ok_def nth_list_update split: if_splits)
  moreover have "same_run ?r ?r'" by (simp add: same_run_def put_subscriber_def)
  moreover have "list_all (replay_ok (rwLog w)) ((rwViews w)[i := ?v'])"
    using inv len subs_okD(1) [OF ok] by (intro replay_ok_update) auto
  ultimately have "run_ok (w\<lparr>rwRun := ?r', rwViews := (rwViews w)[i := ?v']\<rparr>)"
    using put_subscriber_keeps [OF assms] by blast
  with ch len show ?thesis by (simp add: Let_def)
qed

lemma run_ack_ok:
  assumes "run_ok w"
  shows "\<exists>w'. run_step (RunAck i) w = Some w' \<and> run_ok w'"
proof (cases "i < length (rnTable (rwRun w)) \<and> rvUnacked (rwViews w ! i) \<noteq> []")
  case False
  then have "run_step (RunAck i) w = Some w" by (auto simp: Let_def split: list.splits)
  with assms show ?thesis by blast
next
  case True
  let ?r = "rwRun w" let ?s = "rnTable ?r ! i" let ?v = "rwViews w ! i"
  from True obtain f fs where unacked: "rvUnacked ?v = f # fs" and len: "i < length (rnTable ?r)"
    by (cases "rvUnacked ?v") auto
  let ?r' = "run_acknowledge i (frame_size f) ?r" let ?v' = "?v\<lparr>rvUnacked := fs\<rparr>"
  note inv = assms [unfolded run_ok_def Let_def]
  have ok: "subs_ok (rwLog w) [] {} (rwViews w) ?r" using inv by simp
  have sub: "sub_ok (rnLimits ?r) (rwLog w) ?s ?v" using subs_okD(4) [OF ok len] by simp
  have replay: "list_all (replay_ok (rwLog w)) ((rwViews w)[i := ?v'])"
    using inv len subs_okD(1) [OF ok] by (intro replay_ok_update) auto
  have "subs_ok (rwLog w) [] {} ((rwViews w)[i := ?v']) ?r' \<and> same_run ?r ?r'"
  proof (cases "rsAttached ?s")
    case False
    then have "sub_ok (rnLimits ?r) (rwLog w) ?s ?v'" using sub by (simp add: sub_ok_def)
    with ok len False show ?thesis
      by (auto simp: run_acknowledge_def subs_ok_def nth_list_update split: if_splits)
  next
    case True
    let ?s1 = "?s\<lparr>rsPendingEvents := rsPendingEvents ?s - 1, rsPendingBytes := rsPendingBytes ?s - frame_size f\<rparr>"
    let ?r1 = "put_subscriber i ?s1 (?r\<lparr>rnLiveQueueBytes := rnLiveQueueBytes ?r - frame_size f\<rparr>)"
    have mem: "i \<in> set (rnSubscribers ?r)" using subs_okD(3) [OF ok len] True by simp
    have pend: "rsPendingEvents ?s > 0" "frame_size f \<le> rsPendingBytes ?s"
      using sub True unacked by (auto simp: sub_ok_def)
    have fits: "frame_size f \<le> rnLiveQueueBytes ?r"
      using pend(2) pending_le_live [OF ok mem] subs_okD(5) [OF ok] by simp
    have ack: "?r' = ?r1" using True pend fits by (simp add: run_acknowledge_def Let_def)
    have acked: "sub_ok (rnLimits ?r) (rwLog w) ?s1 ?v'"
      using sub True unacked pend frame_size_nonneg [of f] by (auto simp: sub_ok_def simp del: frame_size_nonneg)
    have live: "live_bytes ?r1 = live_bytes ?r - frame_size f"
      using live_bytes_update(1) [OF mem len, of ?s1]
        live_bytes_cong [of ?r1 "?r\<lparr>rnTable := (rnTable ?r)[i := ?s1]\<rparr>"] by simp
    have nonneg: "0 \<le> frame_size f" by simp
    have "subs_ok (rwLog w) [] {} ((rwViews w)[i := ?v']) ?r1"
      unfolding subs_ok_def live using ok acked len True nonneg
      by (auto simp: subs_ok_def nth_list_update simp del: frame_size_nonneg split: if_splits)
    then show ?thesis unfolding ack by (auto simp: same_run_def put_subscriber_def)
  qed
  then have "run_ok (w\<lparr>rwRun := ?r', rwViews := (rwViews w)[i := ?v']\<rparr>)"
    using put_subscriber_keeps [OF assms] replay by blast
  with unacked len show ?thesis by (simp add: Let_def)
qed

lemma run_leave_ok:
  assumes "run_ok w"
  shows "\<exists>w'. run_step (RunLeave i) w = Some w' \<and> run_ok w'"
proof (cases "i < length (rnTable (rwRun w))")
  case False
  with assms show ?thesis by simp
next
  case True
  note inv = assms [unfolded run_ok_def Let_def]
  from remove_subscriber_ok [OF _ True, of "rwLog w" "[]" "{}" "rwViews w"] inv obtain r' where
    r': "remove_subscriber i (rwRun w) = Some r'" "subs_ok (rwLog w) [] {} (rwViews w) r'" "same_run (rwRun w) r'"
    by auto
  have "run_ok (w\<lparr>rwRun := r', rwViews := rwViews w\<rparr>)"
    using put_subscriber_keeps [OF assms r'(2,3)] inv by simp
  with r'(1) True show ?thesis by simp
qed

lemma run_abort_ok:
  assumes "run_ok w"
  shows "\<exists>w'. run_step RunAbort w = Some w' \<and> run_ok w'"
proof (cases "rnDone (rwRun w) \<or> \<not> rnCancel (rwRun w)")
  case True
  with assms show ?thesis by (simp add: run_abort_def)
next
  case False
  let ?r' = "(rwRun w)\<lparr>rnCancelled := True\<rparr>"
  have "subs_ok (rwLog w) [] {} (rwViews w) ?r' = subs_ok (rwLog w) [] {} (rwViews w) (rwRun w)"
    by (rule subs_ok_cong) simp_all
  with assms False have "run_ok (w\<lparr>rwRun := ?r'\<rparr>)" by (simp add: run_ok_def Let_def)
  with False show ?thesis by (simp add: run_abort_def)
qed

lemma run_step_ok: "run_ok w \<Longrightarrow> \<exists>w'. run_step c w = Some w' \<and> run_ok w'"
proof (cases c)
  case (RunTerminal f)
  then show "run_ok w \<Longrightarrow> ?thesis" using run_terminal_ok [of w f] by auto
qed (simp_all only: run_publish_ok run_subscribe_ok run_take_ok run_ack_ok run_leave_ok run_abort_ok)

lemma run_steps_ok: "run_ok w \<Longrightarrow> \<exists>w'. run_steps cs w = Some w' \<and> run_ok w'"
proof (induction cs arbitrary: w)
  case (Cons c cs)
  then show ?case using run_step_ok [OF Cons.prems, of c] by auto
qed simp

lemma watch_run_ok: "limits_ok limits \<Longrightarrow> run_ok (watch_run limits run_id session_id project_id)"
  by (auto simp: run_ok_def watch_run_def new_run_state_def subs_ok_def live_bytes_def retained_ok_def
      numbered_def limits_ok_def)

subsection \<open>Publishing an item\<close>

text \<open>The frame calls that publishing one item makes, encoding errors included.\<close>

definition terminal_calls :: "'e marshal \<Rightarrow> 'e run_stream_item \<Rightarrow> run_state \<Rightarrow> run_call list" where
  "terminal_calls marshal item r = (case terminal_frame marshal item r of None \<Rightarrow> [] | Some f \<Rightarrow> [RunTerminal f])"

definition publish_calls :: "'e marshal \<Rightarrow> string \<Rightarrow> 'e run_stream_item \<Rightarrow> run_state \<Rightarrow> run_call list" where
  "publish_calls marshal message item r =
     (case encode_run_frame marshal item of
        Some f \<Rightarrow> [RunPublish f]
      | None \<Rightarrow> RunAbort # terminal_calls marshal
          \<lparr>riName = ''run_error'', riPayload = RunErrorPayload
             \<lparr>reType = ''run_error'', reError = ''encode run event: '' @ message,
              reSession = zero_snapshot\<lparr>snSessionID := rnSessionID r\<rparr>\<rparr>\<rparr> (snd (run_abort r)))"

lemma publish_terminal_calls:
  "map_option rwRun (run_steps (terminal_calls marshal item (rwRun w)) w) = publish_terminal marshal item (rwRun w)"
  by (cases "publish_terminal_frame (the (terminal_frame marshal item (rwRun w))) (rwRun w)")
    (auto simp: terminal_calls_def publish_terminal_def logged_def split: option.splits)

lemma run_publish_calls:
  "map_option rwRun (run_steps (publish_calls marshal message item (rwRun w)) w) = run_publish marshal message item (rwRun w)"
proof (cases "encode_run_frame marshal item")
  case None
  have session: "rnSessionID (snd (run_abort r)) = rnSessionID r" for r by (simp add: run_abort_def)
  show ?thesis
    using publish_terminal_calls [of marshal _ "w\<lparr>rwRun := snd (run_abort (rwRun w))\<rparr>"] None
    by (simp add: publish_calls_def run_publish_def run_fail_def session)
next
  case (Some f)
  then show ?thesis
    by (cases "publish_frame f (rwRun w)") (simp_all add: publish_calls_def run_publish_def logged_def)
qed

text \<open>Publishing an item never waits and never panics, and keeps the invariant.\<close>

lemma publish_item_ok:
  assumes "run_ok w"
  shows "\<exists>w'. run_steps (publish_calls marshal message item (rwRun w)) w = Some w' \<and> run_ok w' \<and>
    run_publish marshal message item (rwRun w) = Some (rwRun w')"
  using run_steps_ok [OF assms, of "publish_calls marshal message item (rwRun w)"]
    run_publish_calls [of marshal message item w] by auto

end
