(* ===== verification/RunManager.thy ===== *)
theory RunManager
  imports RunState
begin

text \<open>
  Admission and expiry of runs, the \<open>runManager\<close> of \<open>internal/api/run_manager.go\<close>. Runs and
  reservations keep their positions in \<open>mgTable\<close> and \<open>mgReservations\<close> as identity; \<open>mgRuns\<close> is the
  map from run ids, \<open>mgTimers\<close> the runs whose expiry goroutine is waiting, and \<open>mgWorkers\<close> the
  counter of the wait group, which panics (\<open>None\<close>) below zero.
\<close>

record run_manager =
  mgRuns :: "(string \<times> nat) list"
  mgTable :: "run_state list"
  mgExecuted :: "bool list"
  mgCompleted :: "bool list"
  mgTimers :: "nat list"
  mgReservations :: "bool list"
  mgLimits :: run_limits
  mgActive :: int
  mgQuiescing :: bool
  mgCancelled :: bool
  mgWorkers :: int

datatype manager_error = ErrRunCapacity | ErrRunManagerQuiescing | ErrRunReservationUsed | RunExists string

definition new_run_manager :: "run_limits list \<Rightarrow> run_manager" where
  "new_run_manager configured =
     \<lparr>mgRuns = [], mgTable = [], mgExecuted = [], mgCompleted = [], mgTimers = [], mgReservations = [],
      mgLimits = (case configured of [] \<Rightarrow> default_run_limits | l # _ \<Rightarrow> with_defaults l),
      mgActive = 0, mgQuiescing = False, mgCancelled = False, mgWorkers = 0\<rparr>"

definition retry_after_seconds :: "run_manager \<Rightarrow> int" where
  "retry_after_seconds m =
     (let seconds = (rlRetryAfter (mgLimits m) + second - 1) div second in if seconds < 1 then 1 else seconds)"

text \<open>\<open>workers.Done\<close>.\<close>

definition worker_done :: "run_manager \<Rightarrow> run_manager option" where
  "worker_done m = (if mgWorkers m \<le> 0 then None else Some (m\<lparr>mgWorkers := mgWorkers m - 1\<rparr>))"

definition release_active :: "run_manager \<Rightarrow> run_manager" where
  "release_active m = (if mgActive m > 0 then m\<lparr>mgActive := mgActive m - 1\<rparr> else m)"

definition reserve :: "run_manager \<Rightarrow> (manager_error + nat) \<times> run_manager" where
  "reserve m =
     (if mgQuiescing m then (Inl ErrRunManagerQuiescing, m)
      else if mgActive m \<ge> rlMaxActiveRuns (mgLimits m) then (Inl ErrRunCapacity, m)
      else (Inr (length (mgReservations m)),
        m\<lparr>mgActive := mgActive m + 1, mgWorkers := mgWorkers m + 1,
          mgReservations := mgReservations m @ [True]\<rparr>))"

definition release_reservation :: "run_manager \<Rightarrow> run_manager option" where
  "release_reservation m = worker_done (release_active m)"

definition reservation_release :: "nat \<Rightarrow> run_manager \<Rightarrow> run_manager option" where
  "reservation_release k m =
     (if \<not> mgReservations m ! k then Some m
      else release_reservation (m\<lparr>mgReservations := (mgReservations m)[k := False]\<rparr>))"

definition reservation_activate ::
  "nat \<Rightarrow> string \<Rightarrow> string \<Rightarrow> string \<Rightarrow> run_manager \<Rightarrow> ((manager_error + nat) \<times> run_manager) option" where
  "reservation_activate k run_id session_id project_id m =
     (if \<not> mgReservations m ! k then Some (Inl ErrRunReservationUsed, m)
      else (let m1 = m\<lparr>mgReservations := (mgReservations m)[k := False]\<rparr> in
        if mgQuiescing m1
        then map_option (Pair (Inl ErrRunManagerQuiescing)) (worker_done (release_active m1))
        else if map_of (mgRuns m1) run_id \<noteq> None
        then map_option (Pair (Inl (RunExists run_id))) (worker_done (release_active m1))
        else map_option (Pair (Inr (length (mgTable m1))))
          (worker_done (m1\<lparr>mgTable := mgTable m1 @ [new_run_state (mgLimits m1) run_id session_id project_id],
             mgExecuted := mgExecuted m1 @ [False], mgCompleted := mgCompleted m1 @ [False],
             mgRuns := mgRuns m1 @ [(run_id, length (mgTable m1))], mgWorkers := mgWorkers m1 + 1\<rparr>))))"

definition manager_get :: "string \<Rightarrow> run_manager \<Rightarrow> nat option" where
  "manager_get run_id m = map_of (mgRuns m) run_id"

definition put_run :: "nat \<Rightarrow> run_state \<Rightarrow> run_manager \<Rightarrow> run_manager" where
  "put_run i r m = m\<lparr>mgTable := (mgTable m)[i := r]\<rparr>"

text \<open>\<open>None\<close> as the answer: no such run.\<close>

definition manager_subscribe ::
  "string \<Rightarrow> run_manager \<Rightarrow> (run_subscribe_error + run_subscription) option \<times> run_manager" where
  "manager_subscribe run_id m =
     (case manager_get run_id m of
        None \<Rightarrow> (None, m)
      | Some i \<Rightarrow> (case run_subscribe (mgTable m ! i) of (s, r) \<Rightarrow> (Some s, put_run i r m)))"

definition manager_abort :: "string \<Rightarrow> run_manager \<Rightarrow> (bool \<times> bool) \<times> run_manager" where
  "manager_abort run_id m =
     (case manager_get run_id m of
        None \<Rightarrow> ((False, False), m)
      | Some i \<Rightarrow> (case run_abort (mgTable m ! i) of (b, r) \<Rightarrow> ((b, True), put_run i r m)))"

fun cancel_runs :: "(string \<times> nat) list \<Rightarrow> run_manager \<Rightarrow> run_manager" where
  "cancel_runs [] m = m"
| "cancel_runs ((run_id, i) # rs) m =
     (let r = mgTable m ! i in
      cancel_runs rs (if \<not> rnDone r \<and> rnCancel r then put_run i (r\<lparr>rnCancelled := True\<rparr>) m else m))"

definition quiesce :: "run_manager \<Rightarrow> run_manager" where
  "quiesce m =
     (if mgQuiescing m then m else cancel_runs (mgRuns m) (m\<lparr>mgQuiescing := True, mgCancelled := True\<rparr>))"

text \<open>\<open>close\<close> once the wait group is down to zero; \<open>None\<close> as its answer: it waits, or its context ends.\<close>

definition manager_close :: "run_manager \<Rightarrow> bool \<times> run_manager" where
  "manager_close m =
     (let m1 = quiesce m in if mgWorkers m1 = 0 then (True, m1\<lparr>mgRuns := []\<rparr>) else (False, m1))"

definition complete_run :: "nat \<Rightarrow> run_manager \<Rightarrow> run_manager" where
  "complete_run i m =
     (if mgCompleted m ! i then m
      else (let m1 = m\<lparr>mgCompleted := (mgCompleted m)[i := True]\<rparr> in
        if \<not> mgQuiescing m1 \<and> rlCompletedTTL (mgLimits m1) > 0
        then m1\<lparr>mgWorkers := mgWorkers m1 + 1, mgTimers := mgTimers m1 @ [i]\<rparr> else m1))"

definition finish_execution :: "nat \<Rightarrow> run_manager \<Rightarrow> run_manager option" where
  "finish_execution i m =
     (if mgExecuted m ! i then Some m
      else worker_done (release_active (m\<lparr>mgExecuted := (mgExecuted m)[i := True]\<rparr>)))"

text \<open>The expiry goroutine of a run ends: on its timer, or because the lifecycle was cancelled.\<close>

definition expire_run :: "nat \<Rightarrow> bool \<Rightarrow> run_manager \<Rightarrow> run_manager option" where
  "expire_run i fired m =
     (if i \<notin> set (mgTimers m) \<or> (\<not> fired \<and> \<not> mgCancelled m) then Some m
      else (let m1 = m\<lparr>mgTimers := remove1 i (mgTimers m)\<rparr>; run_id = rnID (mgTable m1 ! i);
                m2 = (if fired \<and> map_of (mgRuns m1) run_id = Some i
                      then m1\<lparr>mgRuns := filter (\<lambda>p. fst p \<noteq> run_id) (mgRuns m1)\<rparr> else m1)
            in worker_done m2))"

definition manager_publish :: "nat \<Rightarrow> run_frame \<Rightarrow> run_manager \<Rightarrow> run_manager option" where
  "manager_publish i f m = map_option (\<lambda>r. put_run i r m) (publish_frame f (mgTable m ! i))"

text \<open>\<open>publishTerminal\<close> with the manager's part: an unfinished run is completed.\<close>

definition manager_terminal :: "nat \<Rightarrow> run_frame \<Rightarrow> run_manager \<Rightarrow> run_manager option" where
  "manager_terminal i f m =
     (if rnDone (mgTable m ! i) then Some m
      else map_option (\<lambda>r. complete_run i (put_run i r m)) (publish_terminal_frame f (mgTable m ! i)))"

subsection \<open>The counters\<close>

definition held :: "bool list \<Rightarrow> nat" where
  "held bs = length (filter id bs)"

definition outstanding :: "run_manager \<Rightarrow> nat" where
  "outstanding m = held (mgReservations m) + held (map Not (mgExecuted m))"

text \<open>
  The active counter is the number of reservations held and runs executing, at most the limit; the
  wait group counts these and the expiry goroutines.
\<close>

definition counters_ok :: "run_manager \<Rightarrow> bool" where
  "counters_ok m \<longleftrightarrow> mgActive m = int (outstanding m) \<and> mgActive m \<le> rlMaxActiveRuns (mgLimits m) \<and>
     mgWorkers m = mgActive m + int (length (mgTimers m)) \<and>
     length (mgExecuted m) = length (mgTable m) \<and> length (mgCompleted m) = length (mgTable m)"

text \<open>The run map holds runs of the table under their own ids.\<close>

definition runs_ok :: "run_manager \<Rightarrow> bool" where
  "runs_ok m \<longleftrightarrow> distinct (map fst (mgRuns m)) \<and>
     (\<forall>(run_id, i) \<in> set (mgRuns m). i < length (mgTable m) \<and> rnID (mgTable m ! i) = run_id)"

definition manager_ok :: "run_manager \<Rightarrow> bool" where
  "manager_ok m \<longleftrightarrow> counters_ok m \<and> runs_ok m"

lemma held_update:
  "k < length bs \<Longrightarrow> bs ! k \<Longrightarrow> Suc (held (bs[k := False])) = held bs"
proof (induction bs arbitrary: k)
  case (Cons b bs)
  then show ?case by (cases k) (auto simp: held_def)
qed simp

lemma held_Not_update:
  "k < length bs \<Longrightarrow> \<not> bs ! k \<Longrightarrow> Suc (held (map Not (bs[k := True]))) = held (map Not bs)"
  using held_update [of k "map Not bs"] by (simp add: map_update)

lemma held_append [simp]: "held (xs @ ys) = held xs + held ys"
  by (simp add: held_def)

lemma held_single [simp]: "held [b] = (if b then 1 else 0)" "held [] = 0"
  by (simp_all add: held_def)

lemma held_pos: "k < length bs \<Longrightarrow> bs ! k \<Longrightarrow> 0 < held bs"
  using held_update [of k bs] by simp

lemma put_run_sel [simp]:
  "mgRuns (put_run i r m) = mgRuns m" "mgTable (put_run i r m) = (mgTable m)[i := r]"
  "mgExecuted (put_run i r m) = mgExecuted m" "mgCompleted (put_run i r m) = mgCompleted m"
  "mgTimers (put_run i r m) = mgTimers m" "mgReservations (put_run i r m) = mgReservations m"
  "mgLimits (put_run i r m) = mgLimits m" "mgActive (put_run i r m) = mgActive m"
  "mgQuiescing (put_run i r m) = mgQuiescing m" "mgCancelled (put_run i r m) = mgCancelled m"
  "mgWorkers (put_run i r m) = mgWorkers m"
  by (simp_all add: put_run_def)

lemma map_list_update_same: "f x = f (xs ! i) \<Longrightarrow> map f (xs[i := x]) = map f xs"
proof (cases "i < length xs")
  case True
  assume "f x = f (xs ! i)"
  then have "map f (xs[i := x]) = (map f xs)[i := map f xs ! i]" using True by (simp add: map_update)
  then show ?thesis by (simp only: list_update_id)
qed (simp add: list_update_beyond)

text \<open>What no cancellation touches.\<close>

definition manager_same :: "run_manager \<Rightarrow> run_manager \<Rightarrow> bool" where
  "manager_same m m' \<longleftrightarrow> mgRuns m' = mgRuns m \<and> map rnID (mgTable m') = map rnID (mgTable m) \<and>
     mgExecuted m' = mgExecuted m \<and> mgCompleted m' = mgCompleted m \<and> mgTimers m' = mgTimers m \<and>
     mgReservations m' = mgReservations m \<and> mgLimits m' = mgLimits m \<and> mgActive m' = mgActive m \<and>
     mgWorkers m' = mgWorkers m"

lemma cancel_runs_same: "manager_same m (cancel_runs rs m)"
proof (induction rs m rule: cancel_runs.induct)
  case (2 run_id i rs m)
  let ?m = "if \<not> rnDone (mgTable m ! i) \<and> rnCancel (mgTable m ! i)
    then put_run i ((mgTable m ! i)\<lparr>rnCancelled := True\<rparr>) m else m"
  have "manager_same m ?m"
    using map_list_update_same [of rnID "(mgTable m ! i)\<lparr>rnCancelled := True\<rparr>" "mgTable m" i]
    by (simp add: manager_same_def)
  with 2 show ?case by (simp add: manager_same_def Let_def)
qed (simp add: manager_same_def)

lemma manager_same_ok:
  assumes "manager_same m m'" "manager_ok m"
  shows "manager_ok m'"
proof -
  have len: "length (mgTable m') = length (mgTable m)"
    using assms(1) unfolding manager_same_def by (metis length_map)
  have ids: "rnID (mgTable m' ! i) = rnID (mgTable m ! i)" if "i < length (mgTable m)" for i
    using assms(1) that len unfolding manager_same_def by (metis nth_map)
  have "counters_ok m'" using assms len by (simp add: manager_same_def manager_ok_def counters_ok_def outstanding_def)
  moreover have "runs_ok m'" using assms len ids by (auto simp: manager_same_def manager_ok_def runs_ok_def)
  ultimately show ?thesis by (simp add: manager_ok_def)
qed

lemma put_run_ok: "manager_ok m \<Longrightarrow> rnID r = rnID (mgTable m ! i) \<Longrightarrow> manager_ok (put_run i r m)"
  by (rule manager_same_ok) (simp_all add: manager_same_def map_list_update_same)

lemma quiesce_ok: "manager_ok m \<Longrightarrow> manager_ok (quiesce m)"
proof -
  assume ok: "manager_ok m"
  have "manager_ok (m\<lparr>mgQuiescing := True, mgCancelled := True\<rparr>)"
    by (rule manager_same_ok [OF _ ok]) (simp add: manager_same_def)
  from manager_same_ok [OF cancel_runs_same this] ok show ?thesis by (simp add: quiesce_def)
qed

lemma runs_ok_filter: "runs_ok m \<Longrightarrow> runs_ok (m\<lparr>mgRuns := filter P (mgRuns m)\<rparr>)"
  by (auto simp: runs_ok_def distinct_map_filter)

lemma reserve_ok: "manager_ok m \<Longrightarrow> manager_ok (snd (reserve m))"
  by (auto simp: reserve_def manager_ok_def counters_ok_def outstanding_def runs_ok_def)

lemma release_ok:
  assumes "manager_ok m" "k < length (mgReservations m)"
  shows "\<exists>m'. reservation_release k m = Some m' \<and> manager_ok m'"
proof (cases "mgReservations m ! k")
  case True
  note held = held_update [OF assms(2) True]
  have "0 < mgActive m" "0 < mgWorkers m"
    using assms held by (auto simp: manager_ok_def counters_ok_def outstanding_def)
  with assms True held show ?thesis
    by (auto simp: reservation_release_def release_reservation_def release_active_def worker_done_def
        manager_ok_def counters_ok_def outstanding_def runs_ok_def)
qed (use assms in \<open>simp add: reservation_release_def\<close>)

lemma activate_ok:
  assumes "manager_ok m" "k < length (mgReservations m)"
  shows "\<exists>r m'. reservation_activate k run_id session_id project_id m = Some (r, m') \<and> manager_ok m'"
proof (cases "mgReservations m ! k")
  case True
  note held = held_update [OF assms(2) True]
  have pos: "0 < mgActive m" "0 < mgWorkers m"
    using assms held by (auto simp: manager_ok_def counters_ok_def outstanding_def)
  show ?thesis
  proof (cases "mgQuiescing m \<or> map_of (mgRuns m) run_id \<noteq> None")
    case refused: True
    with assms True held pos show ?thesis
      by (auto simp: reservation_activate_def release_active_def worker_done_def Let_def
          manager_ok_def counters_ok_def outstanding_def runs_ok_def)
  next
    case False
    then have "run_id \<notin> fst ` set (mgRuns m)" by (simp add: map_of_eq_None_iff)
    with False assms True held pos show ?thesis
      by (auto simp: reservation_activate_def worker_done_def Let_def new_run_state_def
          manager_ok_def counters_ok_def outstanding_def runs_ok_def nth_append)
  qed
qed (use assms in \<open>simp add: reservation_activate_def\<close>)

lemma finish_execution_ok:
  assumes "manager_ok m" "i < length (mgTable m)"
  shows "\<exists>m'. finish_execution i m = Some m' \<and> manager_ok m'"
proof (cases "mgExecuted m ! i")
  case False
  have len: "i < length (mgExecuted m)" using assms by (simp add: manager_ok_def counters_ok_def)
  note held = held_Not_update [OF len False]
  have "0 < mgActive m" "0 < mgWorkers m"
    using assms held by (auto simp: manager_ok_def counters_ok_def outstanding_def)
  with assms False held show ?thesis
    by (auto simp: finish_execution_def release_active_def worker_done_def
        manager_ok_def counters_ok_def outstanding_def runs_ok_def)
qed (use assms in \<open>simp add: finish_execution_def\<close>)

lemma complete_run_ok: "manager_ok m \<Longrightarrow> manager_ok (complete_run i m)"
  by (auto simp: complete_run_def Let_def manager_ok_def counters_ok_def outstanding_def runs_ok_def)

lemma expire_run_ok:
  assumes "manager_ok m"
  shows "\<exists>m'. expire_run i fired m = Some m' \<and> manager_ok m'"
proof (cases "i \<in> set (mgTimers m) \<and> (fired \<or> mgCancelled m)")
  case True
  let ?m1 = "m\<lparr>mgTimers := remove1 i (mgTimers m)\<rparr>"
  have timers: "length (mgTimers m) = Suc (length (remove1 i (mgTimers m)))"
    using True by (auto simp: length_remove1 dest: length_pos_if_in_set)
  have "0 < mgWorkers m" using assms timers by (auto simp: manager_ok_def counters_ok_def)
  moreover have "runs_ok (?m1\<lparr>mgRuns := filter P (mgRuns ?m1)\<rparr>)" for P
    by (rule runs_ok_filter) (use assms in \<open>simp add: manager_ok_def runs_ok_def\<close>)
  ultimately show ?thesis using True assms timers
    by (auto simp: expire_run_def Let_def worker_done_def manager_ok_def counters_ok_def outstanding_def runs_ok_def)
qed (use assms in \<open>auto simp: expire_run_def\<close>)

lemma manager_close_ok: "manager_ok m \<Longrightarrow> manager_ok (snd (manager_close m))"
  using quiesce_ok [of m] by (auto simp: manager_close_def Let_def manager_ok_def counters_ok_def outstanding_def runs_ok_def)

end
