(* ===== verification/RunService.thy ===== *)
theory RunService
  imports RunStreams RunManager
begin

text \<open>
  The manager and its runs together: any sequence of calls on them, in any order, by the handlers,
  the runs' own goroutines and the expiry goroutines.
\<close>

record manager_watch =
  mwManager :: run_manager
  mwLogs :: "(run_frame list \<times> run_view list) list"

text \<open>
  \<open>MgRun i c\<close> is the call \<open>c\<close> on run \<open>i\<close>; one that ends the run has the manager complete it.
  Calls with a handle that was never given out do nothing here: the code cannot make them.
\<close>

datatype manager_call =
  MgReserve | MgRelease nat | MgActivate nat string string string | MgRun nat run_call | MgFinish nat
| MgExpire nat bool | MgQuiesce | MgClose

definition run_of :: "nat \<Rightarrow> manager_watch \<Rightarrow> run_watch" where
  "run_of i w = \<lparr>rwRun = mgTable (mwManager w) ! i, rwLog = fst (mwLogs w ! i), rwViews = snd (mwLogs w ! i)\<rparr>"

definition settle_run :: "nat \<Rightarrow> run_state \<Rightarrow> run_manager \<Rightarrow> run_manager" where
  "settle_run i r m =
     (if rnDone r \<and> \<not> rnDone (mgTable m ! i) then complete_run i (put_run i r m) else put_run i r m)"

definition on_manager :: "manager_watch \<Rightarrow> run_manager \<Rightarrow> manager_watch" where
  "on_manager w m = w\<lparr>mwManager := m,
     mwLogs := mwLogs w @ replicate (length (mgTable m) - length (mwLogs w)) ([], [])\<rparr>"

fun manager_step :: "manager_call \<Rightarrow> manager_watch \<Rightarrow> manager_watch option" where
  "manager_step MgReserve w = Some (on_manager w (snd (reserve (mwManager w))))"
| "manager_step (MgRelease k) w =
     (if k < length (mgReservations (mwManager w))
      then map_option (on_manager w) (reservation_release k (mwManager w)) else Some w)"
| "manager_step (MgActivate k run_id session_id project_id) w =
     (if k < length (mgReservations (mwManager w))
      then map_option (\<lambda>p. on_manager w (snd p))
        (reservation_activate k run_id session_id project_id (mwManager w)) else Some w)"
| "manager_step (MgRun i c) w =
     (if i < length (mgTable (mwManager w))
      then (case run_step c (run_of i w) of
              None \<Rightarrow> None
            | Some rw \<Rightarrow> Some (w\<lparr>mwManager := settle_run i (rwRun rw) (mwManager w),
                mwLogs := (mwLogs w)[i := (rwLog rw, rwViews rw)]\<rparr>))
      else Some w)"
| "manager_step (MgFinish i) w =
     (if i < length (mgTable (mwManager w))
      then map_option (on_manager w) (finish_execution i (mwManager w)) else Some w)"
| "manager_step (MgExpire i fired) w = map_option (on_manager w) (expire_run i fired (mwManager w))"
| "manager_step MgQuiesce w = Some (on_manager w (quiesce (mwManager w)))"
| "manager_step MgClose w = Some (on_manager w (snd (manager_close (mwManager w))))"

fun manager_steps :: "manager_call list \<Rightarrow> manager_watch \<Rightarrow> manager_watch option" where
  "manager_steps [] w = Some w"
| "manager_steps (c # cs) w = (case manager_step c w of None \<Rightarrow> None | Some w' \<Rightarrow> manager_steps cs w')"

definition watch_manager :: "run_limits list \<Rightarrow> manager_watch" where
  "watch_manager configured = \<lparr>mwManager = new_run_manager configured, mwLogs = []\<rparr>"

text \<open>The manager's own entry points are these calls.\<close>

lemma manager_publish_call:
  "manager_publish i f m = map_option (\<lambda>r. put_run i r m) (publish_frame f (mgTable m ! i))"
  by (simp add: manager_publish_def)

text \<open>A run's id never changes, and working on its subscribers does not end it.\<close>

definition kept_run :: "run_state \<Rightarrow> run_state \<Rightarrow> bool" where
  "kept_run r r' \<longleftrightarrow> rnID r' = rnID r \<and> rnDone r' = rnDone r"

lemma kept_run_trans [trans]: "kept_run a b \<Longrightarrow> kept_run b c \<Longrightarrow> kept_run a c"
  by (simp add: kept_run_def)

lemma remove_kept: "remove_subscriber i r = Some r' \<Longrightarrow> kept_run r r'"
  by (auto simp: kept_run_def remove_subscriber_def Let_def put_subscriber_def split: if_splits)

lemma enqueue_kept: "enqueue_subscriber i f r = Some r' \<Longrightarrow> kept_run r r'"
  using remove_kept [of i r r']
  by (auto simp: enqueue_subscriber_def Let_def put_subscriber_def kept_run_def split: if_splits sent.splits)

lemma enqueue_all_kept: "enqueue_all is f r = Some r' \<Longrightarrow> kept_run r r'"
proof (induction "is" arbitrary: r)
  case (Cons i "is")
  then show ?case by (auto intro: kept_run_trans [OF enqueue_kept] split: option.splits)
qed (simp add: kept_run_def)

lemma finish_kept: "finish_subscribers is f r = Some r' \<Longrightarrow> kept_run r r'"
proof (induction "is" arbitrary: r)
  case (Cons i "is")
  then obtain r1 r2 where "enqueue_subscriber i f r = Some r1" "remove_subscriber i r1 = Some r2"
    "finish_subscribers is f r2 = Some r'" by (auto split: option.splits)
  then show ?case using enqueue_kept remove_kept Cons.IH kept_run_trans by meson
qed (simp add: kept_run_def)

lemma publish_frame_kept: "publish_frame f r = Some r' \<Longrightarrow> kept_run r r'"
proof (cases "rnDone r")
  case False
  assume pub: "publish_frame f r = Some r'"
  obtain f1 r1 where num: "number_frame f r = (f1, r1)" by (cases "number_frame f r")
  from pub False num obtain r2 where r2: "retain f1 r1 = Some r2" "enqueue_all (rnSubscribers r2) f1 r2 = Some r'"
    by (auto simp: publish_frame_def split: option.splits)
  have "kept_run r r2" using num r2(1)
    by (auto simp: kept_run_def number_frame_def retain_def Let_def split: if_splits option.splits)
  then show ?thesis using enqueue_all_kept [OF r2(2)] by (rule kept_run_trans)
qed (simp add: publish_frame_def kept_run_def)

lemma publish_terminal_kept: "publish_terminal_frame f r = Some r' \<Longrightarrow> rnID r' = rnID r \<and> rnDone r'"
  by (auto simp: publish_terminal_frame_def number_frame_def Let_def kept_run_def dest!: finish_kept split: if_splits)

lemma manager_terminal_call:
  "manager_terminal i f m =
     (if rnDone (mgTable m ! i) then Some m
      else map_option (\<lambda>r. settle_run i r m) (publish_terminal_frame f (mgTable m ! i)))"
  by (cases "publish_terminal_frame f (mgTable m ! i)")
    (auto simp: manager_terminal_def settle_run_def dest: publish_terminal_kept)

subsection \<open>The invariant\<close>

definition service_ok :: "manager_watch \<Rightarrow> bool" where
  "service_ok w \<longleftrightarrow> manager_ok (mwManager w) \<and> limits_ok (mgLimits (mwManager w)) \<and>
     length (mwLogs w) = length (mgTable (mwManager w)) \<and>
     (\<forall>i < length (mgTable (mwManager w)). run_ok (run_of i w))"

lemma run_okD: "run_ok w \<Longrightarrow> subs_ok (rwLog w) [] {} (rwViews w) (rwRun w)"
  by (simp add: run_ok_def Let_def)

lemma run_ok_cancelled:
  "run_ok \<lparr>rwRun = r, rwLog = log, rwViews = views\<rparr> \<Longrightarrow>
     run_ok \<lparr>rwRun = r\<lparr>rnCancelled := True\<rparr>, rwLog = log, rwViews = views\<rparr>"
  using subs_ok_cong [of "r\<lparr>rnCancelled := True\<rparr>" r log "[]" "{}" views] by (simp add: run_ok_def Let_def)

lemma run_step_same_id: "run_step c w = Some w' \<Longrightarrow> rnID (rwRun w') = rnID (rwRun w)"
  using publish_frame_kept publish_terminal_kept remove_kept
  by (cases c) (auto simp: logged_def run_subscribe_def put_subscriber_def run_acknowledge_def run_abort_def
      kept_run_def Let_def split: if_splits option.splits received.splits list.splits)

text \<open>A manager operation leaves the runs as they are, or cancels some, or adds a new one.\<close>

definition maybe_cancelled :: "run_state \<Rightarrow> run_state \<Rightarrow> bool" where
  "maybe_cancelled r r' \<longleftrightarrow> r' = r \<or> r' = r\<lparr>rnCancelled := True\<rparr>"

lemma maybe_cancelled_refl: "list_all2 maybe_cancelled rs rs"
  by (simp add: list_all2_same maybe_cancelled_def)

lemma maybe_cancelled_trans: "maybe_cancelled a b \<Longrightarrow> maybe_cancelled b c \<Longrightarrow> maybe_cancelled a c"
  by (auto simp: maybe_cancelled_def)

lemma maybe_cancelled_ok:
  "maybe_cancelled r r' \<Longrightarrow> run_ok \<lparr>rwRun = r, rwLog = log, rwViews = views\<rparr> \<Longrightarrow>
     run_ok \<lparr>rwRun = r', rwLog = log, rwViews = views\<rparr>"
  by (auto simp: maybe_cancelled_def run_ok_cancelled)

lemma cancel_runs_follow: "list_all2 maybe_cancelled (mgTable m) (mgTable (cancel_runs rs m))"
proof (induction rs m rule: cancel_runs.induct)
  case (2 run_id i rs m)
  let ?m = "if \<not> rnDone (mgTable m ! i) \<and> rnCancel (mgTable m ! i)
    then put_run i ((mgTable m ! i)\<lparr>rnCancelled := True\<rparr>) m else m"
  have "maybe_cancelled (mgTable m ! j) (mgTable ?m ! j)" if "j < length (mgTable m)" for j
    using that by (cases "i = j") (simp_all add: maybe_cancelled_def)
  then have "list_all2 maybe_cancelled (mgTable m) (mgTable ?m)" by (simp add: list_all2_conv_all_nth)
  moreover have "list_all2 maybe_cancelled (mgTable ?m) (mgTable (cancel_runs rs ?m))"
    using 2 by (simp add: Let_def)
  ultimately have "list_all2 maybe_cancelled (mgTable m) (mgTable (cancel_runs rs ?m))"
    by (rule list_all2_trans [rotated]) (rule maybe_cancelled_trans)
  then show ?case by (simp add: Let_def)
qed (simp add: list_all2_same maybe_cancelled_def)

definition runs_follow :: "run_manager \<Rightarrow> run_manager \<Rightarrow> bool" where
  "runs_follow m m' \<longleftrightarrow> mgLimits m' = mgLimits m \<and>
     (\<exists>old. list_all2 maybe_cancelled (mgTable m) old \<and>
        (mgTable m' = old \<or> (\<exists>run_id session_id project_id.
           mgTable m' = old @ [new_run_state (mgLimits m) run_id session_id project_id])))"

lemma runs_follow_same: "mgTable m' = mgTable m \<Longrightarrow> mgLimits m' = mgLimits m \<Longrightarrow> runs_follow m m'"
  unfolding runs_follow_def by (intro conjI exI [of _ "mgTable m"]) (simp_all add: maybe_cancelled_refl)

lemma runs_follow_new:
  "mgTable m' = mgTable m @ [new_run_state (mgLimits m) run_id session_id project_id] \<Longrightarrow>
     mgLimits m' = mgLimits m \<Longrightarrow> runs_follow m m'"
  unfolding runs_follow_def by (intro conjI exI [of _ "mgTable m"]) (auto simp: maybe_cancelled_refl)

lemma worker_done_follow: "worker_done m = Some m' \<Longrightarrow> mgTable m' = mgTable m \<and> mgLimits m' = mgLimits m"
  by (auto simp: worker_done_def split: if_splits)

lemma release_active_follow: "mgTable (release_active m) = mgTable m" "mgLimits (release_active m) = mgLimits m"
  by (simp_all add: release_active_def)

lemma reserve_follow: "runs_follow m (snd (reserve m))"
  by (rule runs_follow_same) (simp_all add: reserve_def)

lemma release_follow: "reservation_release k m = Some m' \<Longrightarrow> runs_follow m m'"
  by (rule runs_follow_same)
    (auto simp: reservation_release_def release_reservation_def release_active_follow
      dest!: worker_done_follow split: if_splits)

lemma activate_follow: "reservation_activate k run_id session_id project_id m = Some (r, m') \<Longrightarrow> runs_follow m m'"
  by (auto simp: reservation_activate_def Let_def release_active_follow
      intro: runs_follow_same runs_follow_new dest!: worker_done_follow split: if_splits)

lemma finish_follow: "finish_execution i m = Some m' \<Longrightarrow> runs_follow m m'"
  by (rule runs_follow_same)
    (auto simp: finish_execution_def release_active_follow dest!: worker_done_follow split: if_splits)

lemma expire_follow: "expire_run i fired m = Some m' \<Longrightarrow> runs_follow m m'"
  by (rule runs_follow_same) (auto simp: expire_run_def Let_def dest!: worker_done_follow split: if_splits)

lemma quiesce_follow: "runs_follow m (quiesce m)"
proof (cases "mgQuiescing m")
  case False
  let ?m = "m\<lparr>mgQuiescing := True, mgCancelled := True\<rparr>"
  have "mgLimits (cancel_runs (mgRuns m) ?m) = mgLimits m"
    using cancel_runs_same [of ?m "mgRuns m"] by (simp add: manager_same_def)
  then show ?thesis using cancel_runs_follow [of ?m "mgRuns m"] False by (auto simp: quiesce_def runs_follow_def)
qed (simp add: quiesce_def runs_follow_same)

lemma close_follow: "runs_follow m (snd (manager_close m))"
  using quiesce_follow [of m] by (auto simp: manager_close_def Let_def runs_follow_def)

lemma on_manager_ok:
  assumes ok: "service_ok w" and follow: "runs_follow (mwManager w) m" and "manager_ok m"
  shows "service_ok (on_manager w m)"
proof -
  let ?m = "mwManager w"
  from follow obtain old where old: "list_all2 maybe_cancelled (mgTable ?m) old"
    and table: "mgTable m = old \<or> (\<exists>run_id session_id project_id.
      mgTable m = old @ [new_run_state (mgLimits ?m) run_id session_id project_id])"
    and lim: "mgLimits m = mgLimits ?m" by (auto simp: runs_follow_def)
  have len: "length old = length (mgTable ?m)" "length (mwLogs w) = length (mgTable ?m)"
    using old ok by (auto simp: service_ok_def dest: list_all2_lengthD)
  have runs: "run_ok (run_of i (on_manager w m))" if i: "i < length (mgTable m)" for i
  proof (cases "i < length old")
    case True
    have "run_ok (run_of i w)" using ok True len by (simp add: service_ok_def)
    moreover have "maybe_cancelled (mgTable ?m ! i) (mgTable m ! i)"
      using old table True len by (auto simp: list_all2_conv_all_nth nth_append)
    ultimately show ?thesis
      using True len maybe_cancelled_ok by (auto simp: run_of_def on_manager_def nth_append)
  next
    case False
    then obtain run_id session_id project_id where new: "i = length old"
      "mgTable m = old @ [new_run_state (mgLimits ?m) run_id session_id project_id]"
      using i table by (auto simp: less_Suc_eq)
    then show ?thesis
      using watch_run_ok [of "mgLimits ?m" run_id session_id project_id] ok len
      by (simp add: run_of_def on_manager_def nth_append watch_run_def service_ok_def)
  qed
  have "length (mwLogs (on_manager w m)) = length (mgTable m)" using table len by (auto simp: on_manager_def)
  with runs assms(3) ok lim show ?thesis by (simp add: service_ok_def on_manager_def)
qed

lemma settle_run_ok:
  "manager_ok m \<Longrightarrow> rnID r = rnID (mgTable m ! i) \<Longrightarrow>
     manager_ok (settle_run i r m) \<and> mgTable (settle_run i r m) = (mgTable m)[i := r] \<and>
     mgLimits (settle_run i r m) = mgLimits m"
  using put_run_ok [of m r i] complete_run_ok [of "put_run i r m" i]
  by (auto simp: settle_run_def complete_run_def Let_def)

lemma manager_run_ok:
  assumes ok: "service_ok w" and i: "i < length (mgTable (mwManager w))"
  shows "\<exists>w'. manager_step (MgRun i c) w = Some w' \<and> service_ok w'"
proof -
  have "run_ok (run_of i w)" using ok i by (simp add: service_ok_def)
  from run_step_ok [OF this, of c] obtain rw where rw: "run_step c (run_of i w) = Some rw" "run_ok rw" by auto
  have id: "rnID (rwRun rw) = rnID (mgTable (mwManager w) ! i)"
    using run_step_same_id [OF rw(1)] by (simp add: run_of_def)
  have m: "manager_ok (mwManager w)" using ok by (simp add: service_ok_def)
  note settled = settle_run_ok [OF m id]
  have done_ok: "run_ok \<lparr>rwRun = rwRun rw, rwLog = rwLog rw, rwViews = rwViews rw\<rparr>"
    using rw(2) by (cases rw) simp
  have "service_ok (w\<lparr>mwManager := settle_run i (rwRun rw) (mwManager w),
      mwLogs := (mwLogs w)[i := (rwLog rw, rwViews rw)]\<rparr>)"
    using ok i settled done_ok by (auto simp: service_ok_def run_of_def nth_list_update)
  with rw(1) i show ?thesis by simp
qed

lemma manager_step_ok:
  assumes ok: "service_ok w"
  shows "\<exists>w'. manager_step c w = Some w' \<and> service_ok w'"
proof -
  have m: "manager_ok (mwManager w)" using ok by (simp add: service_ok_def)
  note keep = on_manager_ok [OF ok]
  show ?thesis
  proof (cases c)
    case MgReserve
    then show ?thesis using keep [OF reserve_follow reserve_ok [OF m]] by simp
  next
    case (MgRelease k)
    then show ?thesis using ok release_ok [OF m, of k] by (auto intro: keep release_follow)
  next
    case (MgActivate k run_id session_id project_id)
    then show ?thesis using ok activate_ok [OF m, of k run_id session_id project_id]
      by (auto intro: keep activate_follow)
  next
    case (MgRun i d)
    then show ?thesis using ok manager_run_ok [OF ok, of i d] by (cases "i < length (mgTable (mwManager w))") auto
  next
    case (MgFinish i)
    then show ?thesis using ok finish_execution_ok [OF m, of i] by (auto intro: keep finish_follow)
  next
    case (MgExpire i fired)
    then show ?thesis using expire_run_ok [OF m, of i fired] by (auto intro: keep expire_follow)
  next
    case MgQuiesce
    then show ?thesis using keep [OF quiesce_follow quiesce_ok [OF m]] by simp
  next
    case MgClose
    then show ?thesis using keep [OF close_follow manager_close_ok [OF m]] by simp
  qed
qed

lemma manager_steps_ok: "service_ok w \<Longrightarrow> \<exists>w'. manager_steps cs w = Some w' \<and> service_ok w'"
proof (induction cs arbitrary: w)
  case (Cons c cs)
  then show ?case using manager_step_ok [OF Cons.prems, of c] by auto
qed simp

lemma default_limits_ok [simp]: "limits_ok default_run_limits"
  by (simp add: limits_ok_def default_run_limits_def min_run_terminal_bytes_def second_def)

lemma watch_manager_ok: "service_ok (watch_manager configured)"
proof -
  have "limits_ok (mgLimits (new_run_manager configured))" by (simp add: new_run_manager_def split: list.splits)
  moreover from this have "0 \<le> rlMaxActiveRuns (mgLimits (new_run_manager configured))" by (simp add: limits_ok_def)
  ultimately show ?thesis
    by (auto simp: service_ok_def watch_manager_def new_run_manager_def manager_ok_def counters_ok_def
        outstanding_def runs_ok_def)
qed

end
