(* ===== verification/ServiceProperties.thy ===== *)
theory ServiceProperties
  imports ConnectionLogs ConsoleHub RunService
begin

text \<open>
  The properties of what the server streams to its clients: the log hub and its two sources, and the
  runs with their frames, subscribers and admission.
\<close>

subsection \<open>Logs\<close>

text \<open>What a subscription has seen: a part of the log without a gap, all of it while it is live.\<close>

definition stream_seen :: "'a list \<Rightarrow> nat \<Rightarrow> 'a channel \<Rightarrow> 'a view \<Rightarrow> bool" where
  "stream_seen log cap ch v \<longleftrightarrow>
     (if chClosed ch then prefix (vwRead v @ chQueue ch) (drop (vwStart v) log)
      else vwRead v @ chQueue ch = drop (vwStart v) log) \<and>
     length (chQueue ch) \<le> chCap ch \<and> chCap ch \<le> cap"

text \<open>
  C24. Whatever is pushed to a log hub, by whom it is subscribed, read, cancelled and closed: no call
  panics or waits with the lock held, every live subscription gets the entries since its replay in
  order and without a loss, one that was dropped got a first part of them, the last entries are kept
  for replay, and subscribers and queues stay within their bounds.
\<close>

theorem hub_delivers:
  "\<exists>w. watch_steps cs (watch_new zero options) = Some w \<and>
     list_all2 (stream_seen (waLog w) (history_bound options + queue_bound options))
       (hbChannels (waHub w)) (waViews w) \<and>
     length (hbSubscribers (waHub w)) \<le> subscriber_bound options \<and>
     (\<forall>tail. hub_snapshot tail (waHub w) =
        (if hbClosed (waHub w) then []
         else last_n (if tail \<le> 0 then history_bound options else min (history_bound options) (nat tail)) (waLog w)))"
proof -
  from watch_steps_ok [OF watch_new_ok [of options zero], of cs] obtain w where w: "watch_steps cs (watch_new zero options) = Some w"
    and ok: "watched_ok (history_bound options) (subscriber_bound options) (queue_bound options) w" by blast
  have "list_all2 (stream_seen (waLog w) (history_bound options + queue_bound options))
      (hbChannels (waHub w)) (waViews w)"
    using ok by (auto simp: watched_ok_def views_ok_def list_all2_conv_all_nth stream_seen_def view_ok_def)
  moreover have "hub_snapshot tail (waHub w) = (if hbClosed (waHub w) then []
      else last_n (if tail \<le> 0 then history_bound options else min (history_bound options) (nat tail)) (waLog w))"
    for tail
  proof (cases "hbClosed (waHub w)")
    case True
    with ok show ?thesis by (simp add: watched_ok_def hub_snapshot_def)
  next
    case False
    with ok have "ring_ok (history_bound options) (waLog w) (waHub w)" by (simp add: watched_ok_def)
    from ring_snapshot [OF this] False show ?thesis by simp
  qed
  ultimately show ?thesis using w ok unfolding watched_ok_def by blast
qed

text \<open>
  C25. The lines an MCP server process writes reach its log the same way however its output is cut
  into chunks: writing the chunks and closing the writer logs the lines of the whole output, each
  bounded and marked when it was cut.
\<close>

theorem lines_of_chunks:
  "(case line_writes ps (new_line_writer h stream) of None \<Rightarrow> None | Some w \<Rightarrow> map_option lwHub (line_close w)) =
     put_all (emit_line stream) (split_on newline (concat ps)) h"
  using line_writer_lines [of "new_line_writer h stream" ps] by simp

text \<open>
  The log of a connection is bounded: writing any output to a new one succeeds, and every
  entry it then shows is not blank and at most 16 KiB long, at most 1000 of them.
\<close>

theorem connection_log_bounded:
  "\<exists>w h. line_writes ps (new_line_writer (new_connection_log connection_id clock level) stream) = Some w \<and>
     map_option lwHub (line_close w) = Some h \<and>
     list_all entry_bounded (connection_snapshot tail h) \<and> length (connection_snapshot tail h) \<le> 1000"
proof -
  let ?h = "new_connection_log connection_id clock level"
  let ?options = "\<lparr>hoHistorySize = 1000, hoMaxSubscribers = 32, hoSubscriberQueue = 128\<rparr>"
  have "connection_holds (history_bound ?options) (subscriber_bound ?options) (queue_bound ?options) [] ?h"
    using open_hub_new [of ?options zero_log_entry]
    by (simp add: connection_holds_def new_connection_log_def new_connection_log_with_def)
  from emit_lines_hold [OF this, of stream "split_on newline (concat ps)"] obtain es h where
    h: "put_all (emit_line stream) (split_on newline (concat ps)) ?h = Some h"
    and holds: "connection_holds (history_bound ?options) (subscriber_bound ?options) (queue_bound ?options) es h"
    by auto
  have "(case line_writes ps (new_line_writer ?h stream) of None \<Rightarrow> None
      | Some w \<Rightarrow> map_option lwHub (line_close w)) = Some h"
    using line_writer_lines [of "new_line_writer ?h stream" ps] h by simp
  moreover have "list_all entry_bounded (connection_snapshot tail h)" "length (connection_snapshot tail h) \<le> 1000"
    using connection_snapshot_bounded [OF holds, of tail] by (auto simp: history_bound_def)
  ultimately show ?thesis by (auto split: option.splits)
qed

text \<open>
  The console shows the last writes that are not blank, one entry each, in order, with the level
  of its text and a message cut to the entry bound.
\<close>

theorem console_shows_writes:
  "\<exists>h. console_writes ps (new_console_hub_with stamps options) = Some h \<and>
     hub_snapshot 0 (coEntries h) =
       last_n (nat (or_default (optHistorySize options) default_history_size))
         (console_log (new_console_hub_with stamps options) 0 ps) \<and>
     list_all (\<lambda>e. int (length (ceMessage e)) \<le> or_default (optMaxEntryBytes options) 16384)
       (hub_snapshot 0 (coEntries h))"
proof -
  let ?h = "new_console_hub_with stamps options"
  let ?o = "\<lparr>hoHistorySize = or_default (optHistorySize options) default_history_size,
    hoMaxSubscribers = or_default (optMaxSubscribers options) 32,
    hoSubscriberQueue = or_default (optSubscriberQueue options) 128\<rparr>"
  have new: "open_hub (history_bound ?o) (subscriber_bound ?o) (queue_bound ?o) [] (coEntries ?h)"
    using open_hub_new [of ?o zero_console_entry] by (simp add: new_console_hub_with_def)
  from console_writes_log [OF new, of ps] obtain h where h: "console_writes ps ?h = Some h"
    "open_hub (history_bound ?o) (subscriber_bound ?o) (queue_bound ?o) (console_log ?h 0 ps) (coEntries h)"
    by (auto simp: new_console_hub_with_def)
  have "coMaxEntryBytes ?h = nat (or_default (optMaxEntryBytes options) 16384)"
    and pos: "0 < or_default (optMaxEntryBytes options) 16384"
    by (simp_all add: new_console_hub_with_def or_default_def)
  then have "list_all (\<lambda>e. int (length (ceMessage e)) \<le> or_default (optMaxEntryBytes options) 16384)
      (console_log ?h 0 ps)"
    using console_log_bounded [of ?h 0 ps] by (auto simp: list_all_iff)
  then have "list_all (\<lambda>e. int (length (ceMessage e)) \<le> or_default (optMaxEntryBytes options) 16384)
      (hub_snapshot 0 (coEntries h))" by (rule hub_log.recent_all [OF h(2)])
  moreover have "hub_snapshot 0 (coEntries h) =
      last_n (nat (or_default (optHistorySize options) default_history_size)) (console_log ?h 0 ps)"
    using hub_log.recent_holds [OF h(2), of 0] by (simp add: history_bound_def)
  ultimately show ?thesis using h(1) by blast
qed

subsection \<open>Runs\<close>

text \<open>What a run's subscriber has seen: its replay and the frames since, without a gap.\<close>

definition run_stream_seen :: "run_frame list \<Rightarrow> run_subscriber \<Rightarrow> run_view \<Rightarrow> bool" where
  "run_stream_seen log s v \<longleftrightarrow> rvStart v \<le> length log \<and> subseq (rvReplay v) (take (rvStart v) log) \<and>
     (if rsAttached s then rvRead v @ chQueue (rsQueue s) = drop (rvStart v) log
      else prefix (rvRead v @ chQueue (rsQueue s)) (drop (rvStart v) log) \<and> chClosed (rsQueue s))"

text \<open>
  C28. However a run is published to, subscribed, read, acknowledged, left, aborted and ended: no call
  panics or waits for a client with the lock held, its frames are numbered 1, 2, 3, and each
  subscriber gets a replay of frames before its subscription and then, while it is attached, every
  frame since in order; one that was too slow got a first part of them and then the end.
\<close>

theorem run_streams_frames:
  "\<exists>w. run_steps cs (watch_run (with_defaults l) run_id session_id project_id) = Some w \<and>
     list_all2 (run_stream_seen (rwLog w)) (rnTable (rwRun w)) (rwViews w) \<and>
     map rfSequence (rwLog w) = map (\<lambda>k. of_nat (Suc k)) [0..<length (rwLog w)]"
proof -
  from run_steps_ok [OF watch_run_ok [OF with_defaults_ok], of cs l run_id session_id project_id] obtain w where
    w: "run_steps cs (watch_run (with_defaults l) run_id session_id project_id) = Some w" and ok: "run_ok w"
    by blast
  have subs: "subs_ok (rwLog w) [] {} (rwViews w) (rwRun w)" and replay: "list_all (replay_ok (rwLog w)) (rwViews w)"
    using ok by (simp_all add: run_ok_def Let_def)
  have "list_all2 (run_stream_seen (rwLog w)) (rnTable (rwRun w)) (rwViews w)"
    using subs_okD(1,4) [OF subs] replay
    by (auto simp: list_all2_conv_all_nth list_all_length run_stream_seen_def sub_ok_def replay_ok_def)
  moreover have "map rfSequence (rwLog w) = map (\<lambda>k. of_nat (Suc k)) [0..<length (rwLog w)]"
    using ok by (auto simp: run_ok_def Let_def numbered_def intro: nth_equalityI)
  ultimately show ?thesis using w by blast
qed

text \<open>
  C29. What a run keeps is bounded: its history by the retained events and bytes, with the last frame
  beside them once it has ended, its subscribers by their number, and the frames they have not
  acknowledged by the live queue bytes.
\<close>

theorem run_keeps_bounds:
  "\<exists>w hs. run_steps cs (watch_run (with_defaults l) run_id session_id project_id) = Some w \<and>
     rnHistory (rwRun w) = hs @ (if rnDone (rwRun w) then [last (rwLog w)] else []) \<and>
     int (length hs) \<le> rlMaxRetainedEvents (rnLimits (rwRun w)) \<and>
     total_bytes hs \<le> rlMaxRetainedBytes (rnLimits (rwRun w)) \<and>
     int (length (rnSubscribers (rwRun w))) \<le> rlMaxSubscribers (rnLimits (rwRun w)) \<and>
     (\<Sum>i \<in> set (rnSubscribers (rwRun w)).
        total_bytes (rvUnacked (rwViews w ! i) @ chQueue (rsQueue (rnTable (rwRun w) ! i))))
       \<le> rlMaxLiveQueueBytes (rnLimits (rwRun w))"
proof -
  from run_steps_ok [OF watch_run_ok [OF with_defaults_ok], of cs l run_id session_id project_id] obtain w where
    w: "run_steps cs (watch_run (with_defaults l) run_id session_id project_id) = Some w" and ok: "run_ok w"
    by blast
  obtain hs where hs: "rnHistory (rwRun w) = hs @ (if rnDone (rwRun w) then [last (rwLog w)] else [])"
    "retained_ok (rnLimits (rwRun w)) hs (rnNormalEvents (rwRun w)) (rnNormalBytes (rwRun w))"
    using ok by (auto simp: run_ok_def Let_def)
  have subs: "subs_ok (rwLog w) [] {} (rwViews w) (rwRun w)" using ok by (simp add: run_ok_def Let_def)
  have "(\<Sum>i \<in> set (rnSubscribers (rwRun w)).
      total_bytes (rvUnacked (rwViews w ! i) @ chQueue (rsQueue (rnTable (rwRun w) ! i)))) = live_bytes (rwRun w)"
    unfolding live_bytes_def
  proof (rule sum.cong)
    fix i assume i: "i \<in> set (rnSubscribers (rwRun w))"
    with subs_okD(3,4,7) [OF subs, of i]
    show "total_bytes (rvUnacked (rwViews w ! i) @ chQueue (rsQueue (rnTable (rwRun w) ! i))) =
        rsPendingBytes (rnTable (rwRun w) ! i)" by (auto simp: sub_ok_def)
  qed simp
  with w hs subs_okD(6) [OF subs] ok show ?thesis
    by (intro exI [of _ w] exI [of _ hs]) (auto simp: retained_ok_def run_ok_def Let_def)
qed

text \<open>
  C30. The limits a run gets are always usable: filling in the defaults gives limits that are all
  positive, and leaves usable limits as they are.
\<close>

theorem run_limits_usable:
  "limits_ok (with_defaults l) \<and> (if limits_ok l then with_defaults l = l else with_defaults l \<noteq> l)"
  using with_defaults_ok [of l] with_defaults_same [of l] by (metis (full_types))

text \<open>
  C31. A last frame, whatever its error text and ids, is cut down to its bound or refused, in a number
  of turns that the id limits bound; an error text is cut to its bound between two characters.
\<close>

theorem terminal_frames_fit:
  "(case encode_terminal_run_frame marshal limits item of
      None \<Rightarrow> True | Some f \<Rightarrow> frame_size f \<le> rlMaxTerminalBytes limits) \<and>
   int (length (truncate_run_text v (int most))) \<le> int most \<and>
   (truncate_run_text v (int most) = v \<or> truncate_run_text v (int most) = '''' \<or>
    (\<exists>k < length v. truncate_run_text v (int most) = take k v @ ellipsis \<and>
       (k = 0 \<or> rune_start (v ! k))))"
  using encode_terminal_fits [of marshal limits item] truncate_run_text_fits [of "int most" v]
    truncate_run_text_cut [of v "int most"] by (auto split: option.split)

text \<open>
  C32. Admission is exact: after any calls on the manager and its runs, none of which panics, the runs
  executing and the reservations held are together at most the limit, a new reservation is given
  exactly when there is room and the manager is not quiescing, and the wait group counts these and
  the expiry goroutines, so that closing waits for all of them.
\<close>

theorem run_admission:
  "\<exists>w. manager_steps cs (watch_manager configured) = Some w \<and>
     int (outstanding (mwManager w)) \<le> rlMaxActiveRuns (mgLimits (mwManager w)) \<and>
     (fst (reserve (mwManager w)) =
        (if mgQuiescing (mwManager w) then Inl ErrRunManagerQuiescing
         else if int (outstanding (mwManager w)) = rlMaxActiveRuns (mgLimits (mwManager w))
         then Inl ErrRunCapacity else Inr (length (mgReservations (mwManager w))))) \<and>
     mgWorkers (mwManager w) = int (outstanding (mwManager w)) + int (length (mgTimers (mwManager w)))"
proof -
  from manager_steps_ok [OF watch_manager_ok [of configured], of cs] obtain w where
    w: "manager_steps cs (watch_manager configured) = Some w" and "service_ok w" by blast
  then have "counters_ok (mwManager w)" by (simp add: service_ok_def manager_ok_def)
  with w show ?thesis by (intro exI [of _ w]) (auto simp: counters_ok_def reserve_def)
qed

end
