(* ===== verification/Utf8.thy ===== *)
theory Utf8
  imports Texts
begin

text \<open>
  Go's \<open>unicode/utf8\<close> on byte strings. A decoded rune is given by the bytes \<open>string(r)\<close> writes for it
  and the number of bytes it took: a byte that starts no valid encoding takes one byte and decodes
  to U+FFFD, three bytes.
\<close>

definition rune_error :: string where
  "rune_error = [byte 239, byte 191, byte 189]"

definition code_of :: "char \<Rightarrow> nat" where
  "code_of c = of_char c"

definition continuation :: "char \<Rightarrow> bool" where
  "continuation c \<longleftrightarrow> 128 \<le> code_of c \<and> code_of c < 192"

text \<open>The length of the encoding a string starts with, 0 when it starts with none.\<close>

definition second_ok :: "char \<Rightarrow> char \<Rightarrow> bool" where
  "second_ok c d \<longleftrightarrow> continuation d \<and>
     (if code_of c = 224 then 160 \<le> code_of d
      else if code_of c = 237 then code_of d < 160
      else if code_of c = 240 then 144 \<le> code_of d
      else if code_of c = 244 then code_of d < 144 else True)"

fun encoding_length :: "string \<Rightarrow> nat" where
  "encoding_length [] = 0"
| "encoding_length (c # s) =
     (if code_of c < 128 then 1
      else if 194 \<le> code_of c \<and> code_of c < 224
      then (case s of d # _ \<Rightarrow> if second_ok c d then 2 else 0 | _ \<Rightarrow> 0)
      else if 224 \<le> code_of c \<and> code_of c < 240
      then (case s of d # e # _ \<Rightarrow> if second_ok c d \<and> continuation e then 3 else 0 | _ \<Rightarrow> 0)
      else if 240 \<le> code_of c \<and> code_of c < 245
      then (case s of d # e # f # _ \<Rightarrow>
        if second_ok c d \<and> continuation e \<and> continuation f then 4 else 0 | _ \<Rightarrow> 0)
      else 0)"

definition decode_rune :: "string \<Rightarrow> string \<times> nat" where
  "decode_rune s =
     (if s = [] then (rune_error, 0)
      else if encoding_length s = 0 then (rune_error, 1)
      else (take (encoding_length s) s, encoding_length s))"

text \<open>\<open>DecodeLastRuneInString\<close>: back over at most three continuation bytes.\<close>

fun back_to_start :: "string \<Rightarrow> nat \<Rightarrow> nat \<Rightarrow> nat" where
  "back_to_start s lim 0 = 0"
| "back_to_start s lim (Suc k) =
     (if Suc k < lim then Suc k
      else if \<not> continuation (s ! Suc k) then Suc k
      else if Suc k = lim then k else back_to_start s lim k)"

definition decode_last_rune :: "string \<Rightarrow> string \<times> nat" where
  "decode_last_rune s =
     (if s = [] then (rune_error, 0)
      else if code_of (last s) < 128 then ([last s], 1)
      else (let start = back_to_start s (length s - 4) (length s - 2);
                r = decode_rune (drop start s)
        in if start + snd r \<noteq> length s then (rune_error, 1) else r))"

text \<open>\<open>[]rune(s)\<close>, each rune as the bytes it is written with.\<close>

lemma encoding_length_le: "encoding_length s \<le> length s"
  by (cases s) (auto split: list.splits)

lemma decode_rune_size: "s \<noteq> [] \<Longrightarrow> 0 < snd (decode_rune s) \<and> snd (decode_rune s) \<le> length s"
  using encoding_length_le [of s] by (cases s) (auto simp: decode_rune_def)

function runes :: "string \<Rightarrow> string list" where
  "runes s = (if s = [] then [] else fst (decode_rune s) # runes (drop (snd (decode_rune s)) s))"
  by pat_completeness auto
termination
  by (relation "measure length") (use decode_rune_size in \<open>auto simp: diff_less\<close>)

declare runes.simps [simp del]

lemma back_to_start_le: "back_to_start s lim k \<le> k"
  by (induction s lim k rule: back_to_start.induct) auto

lemma encoding_length_le_4: "encoding_length s \<le> 4"
  by (cases s) (auto split: list.splits)

lemma decode_last_rune_size:
  assumes "s \<noteq> []"
  shows "0 < snd (decode_last_rune s) \<and> snd (decode_last_rune s) \<le> length s"
proof -
  let ?start = "back_to_start s (length s - 4) (length s - 2)"
  have "?start \<le> length s - 2" by (rule back_to_start_le)
  then have "drop ?start s \<noteq> []" using assms by (cases s) auto
  from decode_rune_size [OF this] show ?thesis using assms
    by (cases s) (auto simp: decode_last_rune_def Let_def)
qed

text \<open>What a rune is written with is never shorter than what it took.\<close>

lemma decode_last_rune_written: "snd (decode_last_rune s) \<le> length (fst (decode_last_rune s))"
proof -
  have "min (length t) (encoding_length t) = encoding_length t" for t
    using encoding_length_le [of t] by simp
  then have "snd (decode_rune t) \<le> length (fst (decode_rune t))" if "t \<noteq> []" for t
    using that by (simp add: decode_rune_def rune_error_def)
  then show ?thesis by (auto simp: decode_last_rune_def Let_def rune_error_def decode_rune_def)
qed

end
