(* ===== verification/Truncate.thy ===== *)
theory Truncate
  imports Utf8
begin

text \<open>
  Cutting a tool's output to a number of lines and bytes, keeping its head or its tail,
  \<open>internal/agent/runtime/tools/workspace/truncate.go\<close>.
\<close>

record truncation_details =
  tdTruncated :: bool
  tdTruncatedBy :: string
  tdTotalLines :: int
  tdTotalBytes :: int
  tdOutputLines :: int
  tdOutputBytes :: int
  tdLastLinePartial :: bool
  tdFirstLineExceedsLimit :: bool
  tdMaxLines :: int
  tdMaxBytes :: int

record truncation_result =
  tnContent :: string
  tnDetails :: truncation_details

definition whole_details :: "string \<Rightarrow> string list \<Rightarrow> int \<Rightarrow> int \<Rightarrow> truncation_details" where
  "whole_details content ls max_lines max_bytes =
     \<lparr>tdTruncated = False, tdTruncatedBy = '''', tdTotalLines = int (length ls),
      tdTotalBytes = int (length content), tdOutputLines = int (length ls),
      tdOutputBytes = int (length content), tdLastLinePartial = False, tdFirstLineExceedsLimit = False,
      tdMaxLines = max_lines, tdMaxBytes = max_bytes\<rparr>"

text \<open>The lines taken from the front, the bytes they use, and what ended the loop.\<close>

fun take_lines :: "int \<Rightarrow> int \<Rightarrow> int \<Rightarrow> string list \<Rightarrow> string list \<Rightarrow> int \<Rightarrow> string list \<times> string" where
  "take_lines max_lines max_bytes i [] out used = (out, ''lines'')"
| "take_lines max_lines max_bytes i (l # ls) out used =
     (if i \<ge> max_lines then (out, ''lines'')
      else (let line_bytes = int (length l) + (if i > 0 then 1 else 0) in
        if used + line_bytes > max_bytes then (out, ''bytes'')
        else take_lines max_lines max_bytes (i + 1) ls (out @ [l]) (used + line_bytes)))"

definition truncate_head :: "string \<Rightarrow> int \<Rightarrow> int \<Rightarrow> truncation_result" where
  "truncate_head content max_lines max_bytes =
     (let ls = split_on newline content; d = whole_details content ls max_lines max_bytes in
      if int (length ls) \<le> max_lines \<and> int (length content) \<le> max_bytes
      then \<lparr>tnContent = content, tnDetails = d\<rparr>
      else if 0 < length ls \<and> int (length (hd ls)) > max_bytes
      then \<lparr>tnContent = '''', tnDetails = d\<lparr>tdTruncated := True, tdTruncatedBy := ''bytes'',
        tdFirstLineExceedsLimit := True, tdOutputLines := 0, tdOutputBytes := 0\<rparr>\<rparr>
      else (case take_lines max_lines max_bytes 0 ls [] 0 of (out, by) \<Rightarrow>
        (let output = join [newline] out in
         \<lparr>tnContent = output, tnDetails = d\<lparr>tdTruncated := True, tdTruncatedBy := by,
            tdOutputLines := int (length out), tdOutputBytes := int (length output)\<rparr>\<rparr>)))"

text \<open>Runes are taken from the end while what they are written with fits.\<close>

function take_runes_back :: "string \<Rightarrow> int \<Rightarrow> nat \<Rightarrow> int \<Rightarrow> nat" where
  "take_runes_back v max_bytes start used =
     (if start = 0 then 0
      else (case decode_last_rune (take start v) of (r, n) \<Rightarrow>
        if n = 0 then start
        else if used + int (length r) > max_bytes then start
        else take_runes_back v max_bytes (start - n) (used + int (length r))))"
  by pat_completeness auto
termination
  by (relation "measure (\<lambda>(v, max_bytes, start, used). start)") auto

declare take_runes_back.simps [simp del]

definition truncate_string_from_end :: "string \<Rightarrow> int \<Rightarrow> string" where
  "truncate_string_from_end v max_bytes =
     (if max_bytes \<le> 0 then ''''
      else if int (length v) \<le> max_bytes then v
      else drop (take_runes_back v max_bytes (length v) 0) v)"

definition split_lines_for_counting :: "string \<Rightarrow> string list" where
  "split_lines_for_counting content =
     (let ls = split_on newline content in
      if length ls > 1 \<and> last ls = '''' then butlast ls else ls)"

text \<open>The lines from the end, given in reverse; the flag tells that the last line was cut.\<close>

fun take_lines_back ::
  "int \<Rightarrow> int \<Rightarrow> string list \<Rightarrow> string list \<Rightarrow> int \<Rightarrow> string list \<times> string \<times> bool" where
  "take_lines_back max_lines max_bytes [] out used = (out, ''lines'', False)"
| "take_lines_back max_lines max_bytes (l # ls) out used =
     (if int (length out) \<ge> max_lines then (out, ''lines'', False)
      else (let line_bytes = int (length l) + (if length out > 0 then 1 else 0) in
        if used + line_bytes > max_bytes
        then (if length out = 0 then ([truncate_string_from_end l max_bytes], ''bytes'', True)
              else (out, ''bytes'', False))
        else take_lines_back max_lines max_bytes ls (l # out) (used + line_bytes)))"

definition truncate_tail :: "string \<Rightarrow> int \<Rightarrow> int \<Rightarrow> truncation_result" where
  "truncate_tail content max_lines max_bytes =
     (let ls = split_lines_for_counting content; d = whole_details content ls max_lines max_bytes in
      if int (length ls) \<le> max_lines \<and> int (length content) \<le> max_bytes
      then \<lparr>tnContent = content, tnDetails = d\<rparr>
      else (case take_lines_back max_lines max_bytes (rev ls) [] 0 of (out, by, partial) \<Rightarrow>
        (let output = join [newline] out in
         \<lparr>tnContent = output, tnDetails = d\<lparr>tdTruncated := True, tdTruncatedBy := by,
            tdLastLinePartial := partial, tdOutputLines := int (length out),
            tdOutputBytes := int (length output)\<rparr>\<rparr>)))"

subsection \<open>What is kept\<close>

text \<open>
  \<open>n\<close> lines joined by newlines are within both limits; what is kept is the longest such run of lines
  from the chosen end.
\<close>

definition within_limits :: "int \<Rightarrow> int \<Rightarrow> string list \<Rightarrow> bool" where
  "within_limits max_lines max_bytes ls \<longleftrightarrow>
     int (length ls) \<le> max_lines \<and> int (length (join [newline] ls)) \<le> max_bytes"

definition longest_head :: "int \<Rightarrow> int \<Rightarrow> string list \<Rightarrow> nat \<Rightarrow> bool" where
  "longest_head max_lines max_bytes ls n \<longleftrightarrow> n \<le> length ls \<and>
     within_limits max_lines max_bytes (take n ls) \<and>
     (n < length ls \<longrightarrow> \<not> within_limits max_lines max_bytes (take (Suc n) ls))"

definition last_lines :: "nat \<Rightarrow> string list \<Rightarrow> string list" where
  "last_lines n ls = drop (length ls - n) ls"

definition longest_tail :: "int \<Rightarrow> int \<Rightarrow> string list \<Rightarrow> nat \<Rightarrow> bool" where
  "longest_tail max_lines max_bytes ls n \<longleftrightarrow> n \<le> length ls \<and>
     within_limits max_lines max_bytes (last_lines n ls) \<and>
     (n < length ls \<longrightarrow> \<not> within_limits max_lines max_bytes (last_lines (Suc n) ls))"

lemma length_join_snoc:
  "length (join [c] (xs @ [l])) = length (join [c] xs) + length l + (if xs = [] then 0 else 1)"
  by (cases "xs = []") (auto simp: join_append)

lemma length_join_Cons:
  "length (join [c] (l # xs)) = length l + length (join [c] xs) + (if xs = [] then 0 else 1)"
  by (cases xs) auto

lemma join_single_empty: "within_limits L B [] \<longleftrightarrow> 0 \<le> L \<and> 0 \<le> B"
  by (simp add: within_limits_def)

lemma take_lines_longest:
  assumes "take_lines L B (int (length out)) ls out (int (length (join [newline] out))) = (r, b)"
    "within_limits L B out"
  shows "\<exists>n. r = out @ take n ls \<and> n \<le> length ls \<and> within_limits L B r \<and>
    (n < length ls \<longrightarrow> \<not> within_limits L B (out @ take (Suc n) ls))"
  using assms
proof (induction ls arbitrary: out)
  case Nil
  then show ?case by auto
next
  case (Cons l ls)
  have bytes: "int (length (join [newline] (out @ [l]))) =
      int (length (join [newline] out)) + (int (length l) + (if int (length out) > 0 then 1 else 0))"
    by (simp add: length_join_snoc)
  show ?case
  proof (cases "within_limits L B (out @ [l])")
    case True
    then have "take_lines L B (int (length (out @ [l]))) ls (out @ [l])
        (int (length (join [newline] (out @ [l])))) = (r, b)"
      using Cons.prems(1) by (simp add: bytes within_limits_def Let_def algebra_simps split: if_splits)
    from Cons.IH [OF this True] obtain n where "r = (out @ [l]) @ take n ls \<and> n \<le> length ls \<and>
        within_limits L B r \<and> (n < length ls \<longrightarrow> \<not> within_limits L B ((out @ [l]) @ take (Suc n) ls))"
      by blast
    then show ?thesis by (intro exI [of _ "Suc n"]) auto
  next
    case False
    then have "r = out"
      using Cons.prems(1) by (auto simp: bytes within_limits_def Let_def split: if_splits)
    with False Cons.prems(2) show ?thesis by (intro exI [of _ 0]) simp
  qed
qed

lemma take_lines_back_longest:
  assumes "take_lines_back L B ls out (int (length (join [newline] out))) = (r, b, p)"
    "within_limits L B out" "out = [] \<Longrightarrow> ls = [] \<or> int (length (hd ls)) \<le> B \<or> L \<le> 0"
  shows "\<not> p \<and> (\<exists>n. r = rev (take n ls) @ out \<and> n \<le> length ls \<and> within_limits L B r \<and>
    (n < length ls \<longrightarrow> \<not> within_limits L B (rev (take (Suc n) ls) @ out)))"
  using assms
proof (induction ls arbitrary: out)
  case Nil
  then show ?case by auto
next
  case (Cons l ls)
  have bytes: "int (length (join [newline] (l # out))) =
      int (length (join [newline] out)) + (int (length l) + (if int (length out) > 0 then 1 else 0))"
    by (simp add: length_join_Cons)
  show ?case
  proof (cases "within_limits L B (l # out)")
    case True
    then have rec: "take_lines_back L B ls (l # out) (int (length (join [newline] (l # out)))) = (r, b, p)"
      using Cons.prems(1) by (simp add: bytes within_limits_def Let_def algebra_simps split: if_splits)
    have "\<not> p \<and> (\<exists>n. r = rev (take n ls) @ l # out \<and> n \<le> length ls \<and> within_limits L B r \<and>
        (n < length ls \<longrightarrow> \<not> within_limits L B (rev (take (Suc n) ls) @ l # out)))"
      by (rule Cons.IH [OF rec True]) simp
    then obtain n where "\<not> p" "r = rev (take n ls) @ l # out" "n \<le> length ls" "within_limits L B r"
      "n < length ls \<longrightarrow> \<not> within_limits L B (rev (take (Suc n) ls) @ l # out)" by blast
    then show ?thesis by (intro conjI exI [of _ "Suc n"]) auto
  next
    case False
    then have "r = out \<and> \<not> p"
      using Cons.prems by (auto simp: bytes within_limits_def Let_def split: if_splits)
    with False Cons.prems(2) show ?thesis by (intro conjI exI [of _ 0]) auto
  qed
qed

lemma rev_take_rev: "rev (take n (rev xs)) = last_lines n xs"
  by (simp add: last_lines_def rev_take)

text \<open>A line cut from its end stays within the bytes, whatever its runes take.\<close>

lemma take_runes_back_fits:
  "start \<le> length v \<Longrightarrow> int (length v - start) \<le> used \<Longrightarrow> used \<le> B \<Longrightarrow>
     take_runes_back v B start used \<le> length v \<and> int (length v - take_runes_back v B start used) \<le> B"
proof (induction v B start used rule: take_runes_back.induct)
  case (1 v B start used)
  obtain r n where d: "decode_last_rune (take start v) = (r, n)" by fastforce
  show ?case
  proof (cases "start = 0 \<or> n = 0 \<or> used + int (length r) > B")
    case True
    with 1(2-4) d show ?thesis by (subst (1 2) take_runes_back.simps) auto
  next
    case False
    then have "take start v \<noteq> []" using 1(2) by auto
    from decode_last_rune_size [OF this] decode_last_rune_written [of "take start v"] d
    have "n \<le> length r" "n \<le> start" by auto
    with 1(2-4) False d
    have "take_runes_back v B (start - n) (used + int (length r)) \<le> length v \<and>
        int (length v - take_runes_back v B (start - n) (used + int (length r))) \<le> B"
      by (intro "1.IH") auto
    moreover have "take_runes_back v B start used = take_runes_back v B (start - n) (used + int (length r))"
      using False d by (subst take_runes_back.simps) auto
    ultimately show ?thesis by (simp only:)
  qed
qed

lemma truncate_string_from_end_fits:
  assumes "0 \<le> B"
  shows "int (length (truncate_string_from_end v B)) \<le> B \<and> (\<exists>t. v = t @ truncate_string_from_end v B)"
proof -
  have "\<exists>t. v = t @ drop k v" for k by (metis append_take_drop_id)
  then show ?thesis using assms take_runes_back_fits [of "length v" v 0 B]
    by (auto simp: truncate_string_from_end_def)
qed

end
