(* ===== verification/ToolProperties.thy ===== *)
theory ToolProperties
  imports Truncate
begin

text \<open>
  Properties of what a tool's output is cut to before a model sees it.
\<close>

lemma take_lines_whole:
  assumes "take_lines L B 0 ls [] 0 = (r, b)" "0 \<le> L" "0 \<le> B"
  shows "longest_head L B ls (length r) \<and> r = take (length r) ls"
proof -
  have "take_lines L B (int (length [])) ls [] (int (length (join [newline] []))) = (r, b)"
    using assms(1) by simp
  moreover have "within_limits L B []" using assms by (simp add: within_limits_def)
  ultimately obtain n where "r = take n ls" "n \<le> length ls" "within_limits L B r"
    "n < length ls \<longrightarrow> \<not> within_limits L B (take (Suc n) ls)"
    by (metis append_Nil take_lines_longest)
  then show ?thesis by (cases "n = length ls") (simp_all add: longest_head_def min_def)
qed

text \<open>
  C33. A tool output cut from its head keeps the longest run of whole leading lines within both
  limits, reports their number and bytes, and is marked as truncated exactly when a line is missing.
  Limits are not negative.
\<close>

theorem truncate_head_longest:
  assumes "0 \<le> L" "0 \<le> B" "truncate_head content L B = r"
  shows "\<exists>n. longest_head L B (split_on newline content) n \<and>
    tnContent r = join [newline] (take n (split_on newline content)) \<and>
    tdOutputLines (tnDetails r) = int n \<and> tdOutputBytes (tnDetails r) = int (length (tnContent r)) \<and>
    tdTruncated (tnDetails r) = (n < length (split_on newline content))"
proof -
  let ?ls = "split_on newline content"
  have len: "length (join [newline] ?ls) = length content" by (simp add: join_split_on)
  consider (whole) "int (length ?ls) \<le> L \<and> int (length content) \<le> B"
    | (first) "\<not> (int (length ?ls) \<le> L \<and> int (length content) \<le> B)" "int (length (hd ?ls)) > B"
    | (cut) "\<not> (int (length ?ls) \<le> L \<and> int (length content) \<le> B)" "\<not> int (length (hd ?ls)) > B"
    by blast
  then show ?thesis
  proof cases
    case whole
    then have "longest_head L B ?ls (length ?ls)" by (simp add: longest_head_def within_limits_def len)
    with whole assms(3) show ?thesis
      by (intro exI [of _ "length ?ls"]) (auto simp: truncate_head_def whole_details_def Let_def join_split_on)
  next
    case first
    then have "longest_head L B ?ls 0" using assms(1,2)
      by (cases ?ls) (auto simp: longest_head_def within_limits_def)
    with first assms(3) show ?thesis
      by (intro exI [of _ 0]) (auto simp: truncate_head_def whole_details_def Let_def)
  next
    case cut
    obtain out b where out: "take_lines L B 0 ?ls [] 0 = (out, b)" by fastforce
    from take_lines_whole [OF this assms(1,2)]
    have head: "longest_head L B ?ls (length out)" "out = take (length out) ?ls" by auto
    have "length out \<noteq> length ?ls"
    proof
      assume "length out = length ?ls"
      with head cut(1) show False by (simp add: longest_head_def within_limits_def len)
    qed
    then have "length out < length ?ls" using head(1) by (simp add: longest_head_def)
    moreover have "r = \<lparr>tnContent = join [newline] out, tnDetails = (whole_details content ?ls L B)
        \<lparr>tdTruncated := True, tdTruncatedBy := b, tdOutputLines := int (length out),
         tdOutputBytes := int (length (join [newline] out))\<rparr>\<rparr>"
      using assms(3) cut out by (auto simp: truncate_head_def Let_def)
    ultimately show ?thesis using head
      by (intro exI [of _ "length out"]) (simp add: whole_details_def)
  qed
qed

lemma truncate_head_longest_witness:
  "\<exists>n. longest_head 2 6 (split_on newline (''one'' @ newline # ''three'')) n \<and>
    tnContent (truncate_head (''one'' @ newline # ''three'') 2 6) =
      join [newline] (take n (split_on newline (''one'' @ newline # ''three''))) \<and>
    tdOutputLines (tnDetails (truncate_head (''one'' @ newline # ''three'') 2 6)) = int n \<and>
    tdOutputBytes (tnDetails (truncate_head (''one'' @ newline # ''three'') 2 6)) =
      int (length (tnContent (truncate_head (''one'' @ newline # ''three'') 2 6))) \<and>
    tdTruncated (tnDetails (truncate_head (''one'' @ newline # ''three'') 2 6)) =
      (n < length (split_on newline (''one'' @ newline # ''three'')))"
  by (rule truncate_head_longest [OF _ _ refl]) simp_all

text \<open>
  C34. A tool output cut from its tail keeps the longest run of whole final lines within both limits;
  when the last line alone has too many bytes, what is kept is the end of that line, within the bytes
  and marked as partial. An output within the limits is kept as it is.
\<close>

theorem truncate_tail_longest:
  assumes "0 \<le> L" "0 \<le> B" "truncate_tail content L B = r" "split_lines_for_counting content = ls"
  shows "tdOutputBytes (tnDetails r) = int (length (tnContent r)) \<and>
    (if int (length ls) \<le> L \<and> int (length content) \<le> B
     then tnContent r = content \<and> \<not> tdTruncated (tnDetails r) \<and> tdOutputLines (tnDetails r) = int (length ls)
     else tdTruncated (tnDetails r) \<and>
       (if 0 < L \<and> B < int (length (last ls))
        then tdLastLinePartial (tnDetails r) \<and> tdOutputLines (tnDetails r) = 1 \<and>
          int (length (tnContent r)) \<le> B \<and> (\<exists>t. last ls = t @ tnContent r)
        else \<not> tdLastLinePartial (tnDetails r) \<and>
          (\<exists>n. tdOutputLines (tnDetails r) = int n \<and> longest_tail L B ls n \<and>
             tnContent r = join [newline] (last_lines n ls))))"
proof (cases "int (length ls) \<le> L \<and> int (length content) \<le> B")
  case True
  with assms(3,4) show ?thesis by (auto simp: truncate_tail_def whole_details_def Let_def)
next
  case False
  obtain out b p where out: "take_lines_back L B (rev ls) [] 0 = (out, b, p)" by (metis prod_cases3)
  have r: "r = \<lparr>tnContent = join [newline] out, tnDetails = (whole_details content ls L B)
      \<lparr>tdTruncated := True, tdTruncatedBy := b, tdLastLinePartial := p,
       tdOutputLines := int (length out), tdOutputBytes := int (length (join [newline] out))\<rparr>\<rparr>"
    using assms(3,4) False out by (auto simp: truncate_tail_def Let_def)
  have "ls \<noteq> []" using assms(4) split_on_nonempty [of newline content]
    by (cases "split_on newline content" rule: rev_cases)
      (auto simp: split_lines_for_counting_def Let_def split: if_splits)
  then obtain l rest where ls: "rev ls = l # rest" "last ls = l"
    by (cases ls rule: rev_cases) auto
  show ?thesis
  proof (cases "0 < L \<and> B < int (length l)")
    case True
    then have "out = [truncate_string_from_end l B]" "p"
      using out ls(1) by (auto simp: Let_def split: if_splits)
    with True False r ls(2) truncate_string_from_end_fits [OF assms(2), of l] show ?thesis by auto
  next
    case fits: False
    have start: "take_lines_back L B (rev ls) [] (int (length (join [newline] []))) = (out, b, p)"
      using out by simp
    have "within_limits L B []" using assms by (simp add: within_limits_def)
    then have "\<not> p \<and> (\<exists>n. out = rev (take n (rev ls)) @ [] \<and> n \<le> length (rev ls) \<and> within_limits L B out \<and>
        (n < length (rev ls) \<longrightarrow> \<not> within_limits L B (rev (take (Suc n) (rev ls)) @ [])))"
      using fits ls by (intro take_lines_back_longest [OF start]) auto
    then obtain n where "\<not> p" "out = last_lines n ls" "longest_tail L B ls n" "length out = n"
      by (auto simp: rev_take_rev longest_tail_def last_lines_def)
    with False fits r ls(2) show ?thesis by auto
  qed
qed

lemma truncate_tail_longest_witness:
  "int (length (tnContent (truncate_tail (''one'' @ newline # ''twelve'') 2 4))) \<le> 4 \<and>
   tdLastLinePartial (tnDetails (truncate_tail (''one'' @ newline # ''twelve'') 2 4))"
proof -
  have "split_lines_for_counting (''one'' @ newline # ''twelve'') = [''one'', ''twelve'']"
    "length (''one'' @ newline # ''twelve'') = 10" by code_simp+
  from truncate_tail_longest [OF _ _ refl this(1), of 2 4] this(2) show ?thesis by simp
qed

end
