(* ===== verification/CutPoint.thy ===== *)
theory CutPoint
  imports SessionTypes
begin

text \<open>
  Where a compaction cuts the active path, of \<open>internal/agent/runtime/compaction/compaction.go\<close>: the
  first entry kept for a budget of recent tokens, and the start of the turn the cut splits. Indices
  are in range where the code indexes a slice, so they are natural numbers here; \<open>-1\<close> is \<open>None\<close>.
\<close>

record cut_point =
  cpFirstKept :: nat
  cpTurnStart :: "nat option"
  cpSplitTurn :: bool

text \<open>A loop downwards: the greatest index from \<open>lo\<close> below the bound with a property.\<close>

fun last_below :: "(nat \<Rightarrow> bool) \<Rightarrow> nat \<Rightarrow> nat \<Rightarrow> nat option" where
  "last_below P lo 0 = None"
| "last_below P lo (Suc n) = (if n < lo then None else if P n then Some n else last_below P lo n)"

definition is_user_entry :: "entry \<Rightarrow> bool" where
  "is_user_entry e \<longleftrightarrow> enType e = EntryMessage \<and> enMessage e \<noteq> NilMessage \<and>
     message_role_of (enMessage e) = Some RoleUser"

definition starts_turn :: "entry \<Rightarrow> bool" where
  "starts_turn e \<longleftrightarrow> enType e = EntryBranchSummary \<or> enType e = EntryCustomMessage \<or> is_user_entry e"

definition find_turn_start :: "entry list \<Rightarrow> nat \<Rightarrow> nat \<Rightarrow> nat option" where
  "find_turn_start es i lo = last_below (\<lambda>j. starts_turn (es ! j)) lo (Suc i)"

definition is_cut_point :: "entry \<Rightarrow> bool" where
  "is_cut_point e \<longleftrightarrow> enType e = EntryBranchSummary \<or> enType e = EntryCustomMessage \<or>
     (enType e = EntryMessage \<and> enMessage e \<noteq> NilMessage \<and>
      message_role_of (enMessage e) \<noteq> Some RoleToolResult)"

definition valid_cut_points :: "entry list \<Rightarrow> nat \<Rightarrow> nat \<Rightarrow> nat list" where
  "valid_cut_points es lo hi = filter (\<lambda>i. is_cut_point (es ! i)) [lo..<hi]"

definition counts_tokens :: "entry \<Rightarrow> bool" where
  "counts_tokens e \<longleftrightarrow> enType e = EntryMessage \<or> enType e = EntryCustomMessage"

text \<open>The newest entry at which the tokens counted from the end reach the budget.\<close>

fun budget_index :: "entry list \<Rightarrow> int \<Rightarrow> int \<Rightarrow> nat \<Rightarrow> nat \<Rightarrow> nat option" where
  "budget_index es keep acc lo 0 = None"
| "budget_index es keep acc lo (Suc n) =
     (if n < lo then None
      else if \<not> counts_tokens (es ! n) then budget_index es keep acc lo n
      else (let acc1 = acc + estimate_entry_tokens (es ! n) in
        if acc1 < keep then budget_index es keep acc1 lo n else Some n))"

definition cut_candidate :: "entry list \<Rightarrow> nat list \<Rightarrow> nat \<Rightarrow> nat \<Rightarrow> int \<Rightarrow> nat" where
  "cut_candidate es cuts lo hi keep =
     (case budget_index es keep 0 lo hi of
        None \<Rightarrow> hd cuts
      | Some i \<Rightarrow> (case find (\<lambda>c. c \<ge> i) cuts of None \<Rightarrow> hd cuts | Some c \<Rightarrow> c))"

text \<open>Metadata entries before the cut are kept with it.\<close>

definition stops_back :: "entry \<Rightarrow> bool" where
  "stops_back e \<longleftrightarrow> enType e = EntryCompaction \<or> enType e = EntryMessage \<or> enType e = EntryCustomMessage"

fun step_back :: "entry list \<Rightarrow> nat \<Rightarrow> nat \<Rightarrow> nat" where
  "step_back es lo 0 = 0"
| "step_back es lo (Suc n) = (if Suc n \<le> lo \<or> stops_back (es ! n) then Suc n else step_back es lo n)"

definition calls_tool :: "entry \<Rightarrow> string \<Rightarrow> bool" where
  "calls_tool e call_id \<longleftrightarrow>
     (case as_assistant_message (enMessage e) of
        None \<Rightarrow> False
      | Some a \<Rightarrow> list_ex (\<lambda>c. ccID c = call_id) (tool_calls_from_assistant a))"

definition protect_tool_unit :: "entry list \<Rightarrow> nat \<Rightarrow> nat \<Rightarrow> nat" where
  "protect_tool_unit es at lo =
     (if at \<ge> length es then at
      else (case as_tool_result_message (enMessage (es ! at)) of
          None \<Rightarrow> at
        | Some r \<Rightarrow> (case last_below (\<lambda>j. calls_tool (es ! j) (rmToolCallID r)) lo at of
              Some j \<Rightarrow> j | None \<Rightarrow> at)))"

definition find_cut_point :: "entry list \<Rightarrow> int \<Rightarrow> int \<Rightarrow> int \<Rightarrow> cut_point" where
  "find_cut_point es start_index end_index keep =
     (let lo = nat start_index; hi = nat (min end_index (int (length es))) in
      if lo \<ge> hi then \<lparr>cpFirstKept = lo, cpTurnStart = None, cpSplitTurn = False\<rparr>
      else (let cuts = valid_cut_points es lo hi in
        if cuts = [] then \<lparr>cpFirstKept = lo, cpTurnStart = None, cpSplitTurn = False\<rparr>
        else (let at = protect_tool_unit es (step_back es lo (cut_candidate es cuts lo hi keep)) lo;
                  turn = (if is_user_entry (es ! at) then None else find_turn_start es at lo)
          in \<lparr>cpFirstKept = at, cpTurnStart = turn,
               cpSplitTurn = (\<not> is_user_entry (es ! at) \<and> turn \<noteq> None)\<rparr>)))"

subsection \<open>Where the cut lies\<close>

lemma last_below_Some:
  "last_below P lo n = Some i \<Longrightarrow> lo \<le> i \<and> i < n \<and> P i \<and> (\<forall>j. i < j \<and> j < n \<longrightarrow> \<not> P j)"
  by (induction n) (auto simp: less_Suc_eq split: if_splits)

definition tokens_between :: "entry list \<Rightarrow> nat \<Rightarrow> nat \<Rightarrow> int" where
  "tokens_between es i n =
     sum_list (map (\<lambda>j. if counts_tokens (es ! j) then estimate_entry_tokens (es ! j) else 0) [i..<n])"

lemma tokens_between_Suc:
  "i \<le> n \<Longrightarrow> tokens_between es i (Suc n) = tokens_between es i n +
     (if counts_tokens (es ! n) then estimate_entry_tokens (es ! n) else 0)"
  by (simp add: tokens_between_def)

lemma tokens_between_empty [simp]: "tokens_between es i i = 0"
  by (simp add: tokens_between_def)

lemma tokens_between_antimono: "i \<le> j \<Longrightarrow> tokens_between es j n \<le> tokens_between es i n"
proof (cases "j \<le> n")
  case True
  assume "i \<le> j"
  with True have "[i..<n] = [i..<j] @ [j..<n]" by (metis le_Suc_ex upt_add_eq_append)
  then have split: "tokens_between es i n = tokens_between es i j + tokens_between es j n"
    by (simp add: tokens_between_def)
  have "0 \<le> tokens_between es i j"
    unfolding tokens_between_def by (rule sum_list_nonneg) auto
  with split show ?thesis by simp
next
  case False
  then have "tokens_between es j n = 0" by (simp add: tokens_between_def)
  moreover have "0 \<le> tokens_between es i n"
    unfolding tokens_between_def by (rule sum_list_nonneg) auto
  ultimately show ?thesis by simp
qed

text \<open>What is counted after the budget index stays below the budget.\<close>

lemma budget_index_Some:
  "budget_index es keep acc lo n = Some i \<Longrightarrow> 0 \<le> acc \<Longrightarrow> acc < max keep 1 \<Longrightarrow>
     lo \<le> i \<and> i < n \<and> acc + tokens_between es (Suc i) n < max keep 1 \<and> keep \<le> acc + tokens_between es i n"
proof (induction n arbitrary: acc)
  case (Suc n)
  show ?case
  proof (cases "counts_tokens (es ! n) \<and> \<not> acc + estimate_entry_tokens (es ! n) < keep")
    case True
    with Suc.prems show ?thesis by (auto simp: Let_def tokens_between_Suc split: if_splits)
  next
    case False
    let ?acc = "if counts_tokens (es ! n) then acc + estimate_entry_tokens (es ! n) else acc"
    have rec: "budget_index es keep ?acc lo n = Some i" using Suc.prems(1) False
      by (auto simp: Let_def split: if_splits)
    have "0 \<le> ?acc" "?acc < max keep 1" using Suc.prems(2,3) False by auto
    from Suc.IH [OF rec this] show ?thesis by (auto simp: tokens_between_Suc)
  qed
qed simp

lemma step_back_le: "step_back es lo n \<le> n"
  by (induction n) auto

lemma step_back_ge: "lo \<le> n \<Longrightarrow> lo \<le> step_back es lo n"
  by (induction n) (auto simp: le_Suc_eq)

lemma step_back_skips: "step_back es lo n \<le> j \<Longrightarrow> j < n \<Longrightarrow> \<not> stops_back (es ! j)"
  by (induction n) (auto simp: less_Suc_eq split: if_splits)

lemma protect_le: "protect_tool_unit es at lo \<le> at"
  by (auto simp: protect_tool_unit_def dest!: last_below_Some split: option.splits)

lemma protect_ge: "lo \<le> at \<Longrightarrow> lo \<le> protect_tool_unit es at lo"
  by (auto simp: protect_tool_unit_def dest!: last_below_Some split: option.splits)

lemma cut_candidate_valid:
  assumes "cuts = valid_cut_points es lo hi" "cuts \<noteq> []"
  shows "cut_candidate es cuts lo hi keep \<in> set cuts"
proof -
  have "find P cuts = Some c \<Longrightarrow> c \<in> set cuts" for P c by (auto simp: find_Some_iff)
  then show ?thesis using assms(2) by (auto simp: cut_candidate_def split: option.splits)
qed

text \<open>
  The candidate keeps less than the budget after its first entry, unless no cut point follows the
  budget index, and then everything is kept.
\<close>

lemma cut_candidate_budget:
  assumes "cuts = valid_cut_points es lo hi" "cuts \<noteq> []"
  shows "tokens_between es (Suc (cut_candidate es cuts lo hi keep)) hi < max keep 1 \<or>
    cut_candidate es cuts lo hi keep = hd cuts \<and>
      (case budget_index es keep 0 lo hi of None \<Rightarrow> True | Some i \<Rightarrow> \<forall>c \<in> set cuts. c < i)"
proof (cases "budget_index es keep 0 lo hi")
  case (Some i)
  have "0 < max keep 1" by simp
  note budget = budget_index_Some [OF Some order_refl this]
  show ?thesis
  proof (cases "find (\<lambda>c. c \<ge> i) cuts")
    case None
    then have "\<forall>c \<in> set cuts. c < i" by (auto simp: find_None_iff)
    with Some None show ?thesis by (simp add: cut_candidate_def)
  next
    case found: (Some c)
    then have "i \<le> c" by (auto simp: find_Some_iff)
    then have "tokens_between es (Suc c) hi < max keep 1"
      using budget tokens_between_antimono [of "Suc i" "Suc c" es hi] by auto
    with Some found show ?thesis by (simp add: cut_candidate_def)
  qed
qed (simp add: cut_candidate_def)

text \<open>
  The tool results of a path follow the message that calls them, with no other message between; what
  other entries carry no message.
\<close>

definition is_tool_result :: "entry \<Rightarrow> bool" where
  "is_tool_result e \<longleftrightarrow> as_tool_result_message (enMessage e) \<noteq> None"

definition units_together :: "entry list \<Rightarrow> nat \<Rightarrow> nat \<Rightarrow> bool" where
  "units_together es lo hi \<longleftrightarrow>
     (\<forall>j. lo \<le> j \<and> j < hi \<and> is_tool_result (es ! j) \<longrightarrow>
        enType (es ! j) = EntryMessage \<and>
        (\<exists>a. lo \<le> a \<and> a < j \<and> (case as_tool_result_message (enMessage (es ! j)) of
             Some r \<Rightarrow> calls_tool (es ! a) (rmToolCallID r) | None \<Rightarrow> False) \<and>
           (\<forall>k. a < k \<and> k \<le> j \<longrightarrow> \<not> is_cut_point (es ! k))))"

definition cut_of :: "entry list \<Rightarrow> nat \<Rightarrow> nat \<Rightarrow> int \<Rightarrow> nat" where
  "cut_of es lo hi keep = cpFirstKept (find_cut_point es (int lo) (int hi) keep)"

definition candidate_of :: "entry list \<Rightarrow> nat \<Rightarrow> nat \<Rightarrow> int \<Rightarrow> nat" where
  "candidate_of es lo hi keep = cut_candidate es (valid_cut_points es lo hi) lo hi keep"

lemma is_cut_point_not_result: "is_cut_point e \<Longrightarrow> is_tool_result e \<Longrightarrow> enType e \<noteq> EntryMessage"
  by (cases "enMessage e") (auto simp: is_cut_point_def is_tool_result_def)

lemma cut_of_eq:
  assumes "lo < hi" "hi \<le> length es" "valid_cut_points es lo hi \<noteq> []"
  shows "cut_of es lo hi keep = protect_tool_unit es (step_back es lo (candidate_of es lo hi keep)) lo"
  using assms by (simp add: cut_of_def find_cut_point_def candidate_of_def Let_def min_def)

lemma candidate_range:
  assumes "valid_cut_points es lo hi \<noteq> []"
  shows "lo \<le> candidate_of es lo hi keep" "candidate_of es lo hi keep < hi"
    "is_cut_point (es ! candidate_of es lo hi keep)"
  using cut_candidate_valid [OF refl assms, of keep] by (simp_all add: candidate_of_def valid_cut_points_def)

lemma cut_range:
  assumes "lo < hi" "hi \<le> length es" "valid_cut_points es lo hi \<noteq> []"
  shows "lo \<le> cut_of es lo hi keep" "cut_of es lo hi keep \<le> candidate_of es lo hi keep"
  using candidate_range [OF assms(3), of keep] step_back_ge [of lo "candidate_of es lo hi keep" es]
    step_back_le [of es lo "candidate_of es lo hi keep"]
    protect_ge [of lo "step_back es lo (candidate_of es lo hi keep)" es]
    protect_le [of es "step_back es lo (candidate_of es lo hi keep)" lo]
  by (auto simp: cut_of_eq [OF assms])

text \<open>A kept tool result is kept with its call.\<close>

lemma kept_units:
  assumes "lo < hi" "hi \<le> length es" "valid_cut_points es lo hi \<noteq> []" "units_together es lo hi"
    and j: "candidate_of es lo hi keep \<le> j" "j < hi" "as_tool_result_message (enMessage (es ! j)) = Some r"
  shows "\<exists>a. cut_of es lo hi keep \<le> a \<and> a < j \<and> calls_tool (es ! a) (rmToolCallID r)"
proof -
  note range = candidate_range [OF assms(3), of keep]
  have "is_tool_result (es ! j)" "lo \<le> j" using j range by (auto simp: is_tool_result_def)
  with assms(4) j obtain a where a: "lo \<le> a" "a < j" "calls_tool (es ! a) (rmToolCallID r)"
    "\<forall>k. a < k \<and> k \<le> j \<longrightarrow> \<not> is_cut_point (es ! k)"
    unfolding units_together_def by fastforce
  then have "candidate_of es lo hi keep \<le> a" using range(3) j(1) by (meson not_le)
  with a cut_range(2) [OF assms(1-3), of keep] show ?thesis by (intro exI [of _ a]) auto
qed

text \<open>Between the cut and the candidate lie only metadata, or the rest of the tool unit of a metadata entry.\<close>

lemma cut_skips_metadata:
  assumes "lo < hi" "hi \<le> length es" "valid_cut_points es lo hi \<noteq> []" "units_together es lo hi"
    and "cut_of es lo hi keep \<le> j" "j < candidate_of es lo hi keep"
  shows "\<not> stops_back (es ! j)"
proof -
  let ?s = "step_back es lo (candidate_of es lo hi keep)"
  note range = candidate_range [OF assms(3), of keep]
  have s: "lo \<le> ?s" "?s \<le> candidate_of es lo hi keep"
    using step_back_ge [OF range(1)] step_back_le by auto
  have "\<not> is_tool_result (es ! ?s)"
  proof
    assume res: "is_tool_result (es ! ?s)"
    with assms(4) s range(2) have msg: "enType (es ! ?s) = EntryMessage" by (auto simp: units_together_def)
    show False
    proof (cases "?s = candidate_of es lo hi keep")
      case True
      with res msg range(3) is_cut_point_not_result show ?thesis by metis
    next
      case False
      with s(2) step_back_skips [of es lo "candidate_of es lo hi keep" ?s] msg show ?thesis
        by (auto simp: stops_back_def)
    qed
  qed
  then have "cut_of es lo hi keep = ?s"
    using s range assms(2) by (auto simp: cut_of_eq [OF assms(1-3)] protect_tool_unit_def is_tool_result_def)
  with step_back_skips [of es lo "candidate_of es lo hi keep" j] assms(5,6) show ?thesis by simp
qed

lemma split_turn_start:
  assumes "find_cut_point es (int lo) (int hi) keep = cp" "cpSplitTurn cp"
  shows "\<exists>t. cpTurnStart cp = Some t \<and> lo \<le> t \<and> t \<le> cpFirstKept cp \<and> starts_turn (es ! t) \<and>
    (\<forall>j. t < j \<and> j \<le> cpFirstKept cp \<longrightarrow> \<not> starts_turn (es ! j))"
proof -
  let ?at = "protect_tool_unit es (step_back es lo (cut_candidate es
    (valid_cut_points es lo (nat (min (int hi) (int (length es))))) lo (nat (min (int hi) (int (length es)))) keep)) lo"
  from assms have cp: "cpFirstKept cp = ?at" and "cpTurnStart cp \<noteq> None" "cpTurnStart cp = find_turn_start es ?at lo"
    by (auto simp: find_cut_point_def Let_def split: if_splits)
  then obtain t where "last_below (\<lambda>j. starts_turn (es ! j)) lo (Suc ?at) = Some t" "cpTurnStart cp = Some t"
    by (auto simp: find_turn_start_def)
  with last_below_Some [OF this(1)] cp show ?thesis by (auto simp: less_Suc_eq_le)
qed

end
