(* ===== verification/Json.thy ===== *)
theory Json
  imports JsonScan Utf8
begin

text \<open>
  What the code uses of \<open>encoding/json\<close> beyond validity: the values a document holds, the text of
  each member for a \<open>json.RawMessage\<close>, the strings as Go decodes and writes them, and the matching
  of object keys to struct fields. Decoding checks the document with the scanner first, as
  \<open>Unmarshal\<close> does. Each call of the parser takes at least one byte, so the length of the document
  is fuel enough.
\<close>

datatype json =
    JNull
  | JBool bool
  | JNumber string
  | JString string
  | JArray "json list"
  | JObject "(string \<times> bytes \<times> json) list"

definition quote_byte :: char where
  "quote_byte = byte 34"

definition backslash :: char where
  "backslash = byte 92"

definition skip_space :: "bytes \<Rightarrow> bytes" where
  "skip_space = dropWhile is_json_space"

subsection \<open>Strings\<close>

text \<open>The text between the quotes, and what follows the closing quote.\<close>

fun scan_string :: "bytes \<Rightarrow> (bytes \<times> bytes) option" where
  "scan_string [] = None"
| "scan_string (c # s) =
     (if c = quote_byte then Some ([], s)
      else if c = backslash then
        (case s of [] \<Rightarrow> None
         | d # t \<Rightarrow> map_option (\<lambda>(a, r). (c # d # a, r)) (scan_string t))
      else map_option (\<lambda>(a, r). (c # a, r)) (scan_string s))"

definition hex_value :: "char \<Rightarrow> nat" where
  "hex_value c =
     (if is_digit c then code_of c - 48
      else if 97 \<le> code_of c then code_of c - 87 else code_of c - 55)"

text \<open>\<open>getu4\<close>: the code of an escape \<open>\uXXXX\<close> a string starts with.\<close>

fun hex_code :: "bytes \<Rightarrow> nat option" where
  "hex_code (b # u # d1 # d2 # d3 # d4 # _) =
     (if b = backslash \<and> u = CHR ''u'' \<and> is_hex d1 \<and> is_hex d2 \<and> is_hex d3 \<and> is_hex d4
      then Some (hex_value d1 * 4096 + hex_value d2 * 256 + hex_value d3 * 16 + hex_value d4)
      else None)"
| "hex_code _ = None"

definition encode_rune :: "nat \<Rightarrow> string" where
  "encode_rune n =
     (if n < 128 then [byte n]
      else if n < 2048 then [byte (192 + n div 64), byte (128 + n mod 64)]
      else if n < 65536 then
        [byte (224 + n div 4096), byte (128 + n div 64 mod 64), byte (128 + n mod 64)]
      else [byte (240 + n div 262144), byte (128 + n div 4096 mod 64),
            byte (128 + n div 64 mod 64), byte (128 + n mod 64)])"

definition is_surrogate :: "nat \<Rightarrow> bool" where
  "is_surrogate n \<longleftrightarrow> 55296 \<le> n \<and> n < 57344"

text \<open>\<open>utf16.DecodeRune\<close>.\<close>

definition surrogate_pair :: "nat \<Rightarrow> nat \<Rightarrow> nat option" where
  "surrogate_pair a b =
     (if 55296 \<le> a \<and> a < 56320 \<and> 56320 \<le> b \<and> b < 57344
      then Some ((a - 55296) * 1024 + (b - 56320) + 65536) else None)"

definition escape_char :: "char \<Rightarrow> char" where
  "escape_char c =
     (if c = CHR ''b'' then byte 8 else if c = CHR ''f'' then byte 12
      else if c = CHR ''n'' then byte 10 else if c = CHR ''r'' then byte 13
      else if c = CHR ''t'' then byte 9 else c)"

text \<open>The escape a string starts with: what it stands for and the bytes it takes.\<close>

definition read_escape :: "bytes \<Rightarrow> string \<times> nat" where
  "read_escape s =
     (case hex_code s of
        Some a \<Rightarrow>
          if is_surrogate a then
            (case hex_code (drop 6 s) of
               Some b \<Rightarrow> (case surrogate_pair a b of
                   Some n \<Rightarrow> (encode_rune n, 12) | None \<Rightarrow> (rune_error, 6))
             | None \<Rightarrow> (rune_error, 6))
          else (encode_rune a, 6)
      | None \<Rightarrow> (case s of b # c # _ \<Rightarrow> ([escape_char c], 2) | _ \<Rightarrow> (rune_error, 1)))"

definition read_char :: "bytes \<Rightarrow> string \<times> nat" where
  "read_char s = (if hd s = backslash then read_escape s else decode_rune s)"

lemma read_char_size: "s \<noteq> [] \<Longrightarrow> 0 < snd (read_char s)"
  using decode_rune_size [of s]
  by (auto simp: read_char_def read_escape_def split: option.splits list.splits)

function unquote :: "bytes \<Rightarrow> string" where
  "unquote s = (if s = [] then [] else fst (read_char s) @ unquote (drop (snd (read_char s)) s))"
  by pat_completeness auto
termination
  by (relation "measure length") (use read_char_size in \<open>auto simp: diff_less\<close>)

declare unquote.simps [simp del]

subsection \<open>Values\<close>

definition number_char :: "char \<Rightarrow> bool" where
  "number_char c \<longleftrightarrow> is_digit c \<or> c \<in> set ''+-.eE''"

definition literals :: "(string \<times> json) list" where
  "literals = [(''true'', JBool True), (''false'', JBool False), (''null'', JNull)]"

fun read_literal :: "(string \<times> json) list \<Rightarrow> bytes \<Rightarrow> (json \<times> bytes) option" where
  "read_literal [] s = None"
| "read_literal ((w, v) # ws) s =
     (case strip_prefix w s of Some r \<Rightarrow> Some (v, r) | None \<Rightarrow> read_literal ws s)"

definition read_number :: "bytes \<Rightarrow> (json \<times> bytes) option" where
  "read_number s =
     (case takeWhile number_char s of [] \<Rightarrow> None | n \<Rightarrow> Some (JNumber n, dropWhile number_char s))"

fun parse_value :: "nat \<Rightarrow> bytes \<Rightarrow> (json \<times> bytes) option"
  and parse_elements :: "nat \<Rightarrow> bytes \<Rightarrow> (json list \<times> bytes) option"
  and parse_members :: "nat \<Rightarrow> bytes \<Rightarrow> ((string \<times> bytes \<times> json) list \<times> bytes) option" where
  "parse_value 0 s = None"
| "parse_value (Suc n) s =
     (case s of
        [] \<Rightarrow> None
      | c # t \<Rightarrow>
          if c = CHR ''{'' then
            (case skip_space t of
               [] \<Rightarrow> None
             | d # r \<Rightarrow> if d = CHR ''}'' then Some (JObject [], r)
                 else map_option (\<lambda>(ms, r). (JObject ms, r)) (parse_members n (d # r)))
          else if c = CHR ''['' then
            (case skip_space t of
               [] \<Rightarrow> None
             | d # r \<Rightarrow> if d = CHR '']'' then Some (JArray [], r)
                 else map_option (\<lambda>(vs, r). (JArray vs, r)) (parse_elements n (d # r)))
          else if c = quote_byte then map_option (\<lambda>(a, r). (JString (unquote a), r)) (scan_string t)
          else (case read_literal literals s of Some x \<Rightarrow> Some x | None \<Rightarrow> read_number s))"
| "parse_elements 0 s = None"
| "parse_elements (Suc n) s =
     (case parse_value n s of
        None \<Rightarrow> None
      | Some (v, r) \<Rightarrow>
          (case skip_space r of
             [] \<Rightarrow> None
           | c # t \<Rightarrow>
               if c = CHR '']'' then Some ([v], t)
               else if c = CHR '','' then
                 map_option (\<lambda>(vs, r). (v # vs, r)) (parse_elements n (skip_space t))
               else None))"
| "parse_members 0 s = None"
| "parse_members (Suc n) s =
     (case s of
        [] \<Rightarrow> None
      | q # t \<Rightarrow>
          if q \<noteq> quote_byte then None
          else (case scan_string t of
              None \<Rightarrow> None
            | Some (k, r) \<Rightarrow>
                (case skip_space r of
                   [] \<Rightarrow> None
                 | c # t2 \<Rightarrow>
                     if c \<noteq> CHR '':'' then None
                     else (let v = skip_space t2 in
                       case parse_value n v of
                         None \<Rightarrow> None
                       | Some (x, r2) \<Rightarrow>
                           (let m = (unquote k, take (length v - length r2) v, x) in
                            case skip_space r2 of
                              [] \<Rightarrow> None
                            | e # t3 \<Rightarrow>
                                if e = CHR ''}'' then Some ([m], t3)
                                else if e = CHR '','' then
                                  map_option (\<lambda>(ms, r). (m # ms, r)) (parse_members n (skip_space t3))
                                else None)))))"

definition decode_json :: "bytes \<Rightarrow> json option" where
  "decode_json s =
     (if json_valid s then map_option fst (parse_value (2 * length s) (skip_space s)) else None)"

end
