(* ===== verification/JsonDecode.thy ===== *)
theory JsonDecode
  imports Json
begin

text \<open>
  Every document the scanner accepts decodes: the parser follows the scanner state by state, and
  twice the length of the document is fuel enough.
\<close>

definition accepts :: "scanner \<Rightarrow> bytes \<Rightarrow> bool" where
  "accepts q s \<longleftrightarrow> fst (scan_step (scan_bytes q s) (byte 32)) = EndTop"

lemma json_valid_accepts: "json_valid s = accepts (BeginValue, []) s"
  by (simp add: json_valid_def accepts_def)

lemma accepts_Cons [simp]: "accepts q (c # s) = accepts (scan_step q c) s"
  by (simp add: accepts_def)

lemma accepts_error [simp]: "\<not> accepts (ScanError, st) s"
proof -
  have "fst (scan_bytes (ScanError, st) s) = ScanError" by (rule scan_error_absorbs) simp
  then show ?thesis
    by (cases "scan_bytes (ScanError, st) s") (simp add: accepts_def)
qed

lemma space_byte [simp]: "is_json_space (byte 32)"
  by (simp add: is_json_space_def)

lemma not_space [simp]:
  "\<not> is_json_space quote_byte" "\<not> is_json_space (CHR ''{'')" "\<not> is_json_space (CHR ''['')"
  "\<not> is_json_space (CHR ''}'')" "\<not> is_json_space (CHR '']'')" "\<not> is_json_space (CHR '','')"
  "\<not> is_json_space (CHR '':'')"
  by (code_simp)+

lemma quote_not_bracket [simp]:
  "quote_byte \<noteq> CHR ''{''" "quote_byte \<noteq> CHR ''[''" "quote_byte \<noteq> CHR ''}''" "quote_byte \<noteq> CHR '']''" "quote_byte \<noteq> backslash" "backslash \<noteq> quote_byte" "byte 34 = quote_byte"
  "byte 92 = backslash"
  by (code_simp)+

lemma skip_space_Cons [simp]:
  "skip_space [] = []" "skip_space (c # s) = (if is_json_space c then skip_space s else c # s)"
  by (simp_all add: skip_space_def)

lemma skip_space_length: "length (skip_space s) \<le> length s"
  by (simp add: skip_space_def length_dropWhile_le)

lemma skip_space_hd: "skip_space s = c # r \<Longrightarrow> \<not> is_json_space c"
  by (induction s) (auto split: if_splits)

lemma space_step:
  "is_json_space c \<Longrightarrow> scan_step (BeginValue, st) c = (BeginValue, st)"
  "is_json_space c \<Longrightarrow> scan_step (BeginString, st) c = (BeginString, st)"
  "is_json_space c \<Longrightarrow> scan_step (BeginValueOrEmpty, st) c = (BeginValueOrEmpty, st)"
  "is_json_space c \<Longrightarrow> scan_step (BeginStringOrEmpty, st) c = (BeginStringOrEmpty, st)"
  "is_json_space c \<Longrightarrow> scan_step (EndValue, k # st) c = (EndValue, k # st)"
  by (simp_all add: begin_value_def begin_string_def end_value_def)

lemma accepts_skip_state:
  assumes "\<And>c. is_json_space c \<Longrightarrow> scan_step (q, st) c = (q, st)" "accepts (q, st) s"
  shows "accepts (q, st) (skip_space s)"
  using assms(2)
proof (induction s)
  case (Cons c s)
  then show ?case using assms(1) [of c] by (cases "is_json_space c") simp_all
qed simp

lemma accepts_skip:
  "accepts (BeginValue, st) s \<Longrightarrow> accepts (BeginValue, st) (skip_space s)"
  "accepts (BeginString, st) s \<Longrightarrow> accepts (BeginString, st) (skip_space s)"
  "accepts (BeginValueOrEmpty, st) s \<Longrightarrow> accepts (BeginValueOrEmpty, st) (skip_space s)"
  "accepts (BeginStringOrEmpty, st) s \<Longrightarrow> accepts (BeginStringOrEmpty, st) (skip_space s)"
  "accepts (EndValue, k # st) s \<Longrightarrow> accepts (EndValue, k # st) (skip_space s)"
  using accepts_skip_state space_step by blast+

lemma space_plain [simp]:
  "byte 32 \<noteq> quote_byte" "byte 32 \<noteq> backslash" "byte 32 \<notin> set ''bfnrt/''" "byte 32 \<noteq> CHR ''u''"
  "\<not> is_hex (byte 32)" "byte 32 \<noteq> CHR '']''" "byte 32 \<noteq> CHR ''}''" "\<not> number_char (byte 32)"
  by (code_simp)+

lemma accepts_Nil:
  "accepts (q, st) [] = (fst (scan_step (q, st) (byte 32)) = EndTop)"
  by (simp add: accepts_def)

lemma accepts_nonempty [simp]:
  "\<not> accepts (BeginValue, st) []" "\<not> accepts (BeginString, st) []"
  "\<not> accepts (BeginValueOrEmpty, st) []" "\<not> accepts (BeginStringOrEmpty, st) []"
  "\<not> accepts (InString, st) []" "\<not> accepts (InStringEsc, st) []" "\<not> accepts (InStringEscU k, st) []"
  "\<not> accepts (EndValue, x # st) []"
  by (simp_all only: accepts_Nil scan_step.simps begin_value_def begin_string_def end_value_def
      space_byte space_plain if_True if_False fst_conv quote_not_bracket list.case scan_state.simps
      split: if_split) simp_all

lemma accepts_literal_Nil [simp]: "\<not> accepts (InLiteral l, st) []"
  by (simp add: accepts_Nil split: list.split)

text \<open>Past a value on an empty stack, the scanner is at the end of the document.\<close>

lemma accepts_top: "accepts (EndTop, []) s = accepts (EndValue, []) s"
  by (cases s) (auto simp: accepts_def end_value_def)

lemma accepts_pop: "accepts (pop_state (k # st)) s = accepts (EndValue, st) s"
  by (simp add: pop_state_def accepts_top)

lemma accepts_push: "accepts (push_state q k st) s \<Longrightarrow> accepts (q, k # st) s"
  by (auto simp: push_state_def split: if_splits)

subsection \<open>Strings, literals and numbers\<close>

lemma hex_plain: "is_hex c \<Longrightarrow> c \<noteq> quote_byte \<and> c \<noteq> backslash"
proof -
  have "\<not> is_hex quote_byte" "\<not> is_hex backslash" by code_simp+
  then show "is_hex c \<Longrightarrow> c \<noteq> quote_byte \<and> c \<noteq> backslash" by auto
qed

lemma accepts_string:
  "accepts (q, st) s \<Longrightarrow> q = InString \<or> (\<exists>k. q = InStringEscU k) \<Longrightarrow>
     \<exists>a r. scan_string s = Some (a, r) \<and> length r < length s \<and> accepts (EndValue, st) r"
proof (induction s arbitrary: q rule: scan_string.induct)
  case 1
  then show ?case by auto
next
  case (2 c s)
  consider (close) "q = InString" "c = quote_byte" | (esc) "q = InString" "c = backslash"
    | (plain) "c \<noteq> quote_byte" "c \<noteq> backslash"
    using "2.prems" hex_plain by (auto split: if_splits)
  then show ?case
  proof cases
    case close
    with "2.prems" show ?thesis by simp
  next
    case esc
    with "2.prems" have acc: "accepts (InStringEsc, st) s" by auto
    then obtain d t where s: "s = d # t" by (cases s) auto
    with acc have "accepts (InString, st) t \<or> accepts (InStringEscU 4, st) t" by (auto split: if_splits)
    then have "\<exists>a r. scan_string t = Some (a, r) \<and> length r < length t \<and> accepts (EndValue, st) r"
      using "2.IH"(1) esc s by auto
    with esc s show ?thesis by auto
  next
    case plain
    have "accepts (InString, st) s \<or> (\<exists>k. accepts (InStringEscU k, st) s)"
      using "2.prems" plain by (auto split: if_splits)
    then have "\<exists>a r. scan_string s = Some (a, r) \<and> length r < length s \<and> accepts (EndValue, st) r"
      using "2.IH"(2) plain by blast
    with plain show ?thesis by auto
  qed
qed

lemma accepts_literal:
  "accepts (InLiteral ls, st) s \<Longrightarrow> ls \<noteq> [] \<Longrightarrow>
     \<exists>r. strip_prefix ls s = Some r \<and> accepts (EndValue, st) r"
proof (induction ls arbitrary: s)
  case (Cons l ls)
  then obtain t where s: "s = l # t" by (cases s) (auto split: if_splits)
  show ?case
  proof (cases "ls = []")
    case True
    with Cons.prems s show ?thesis by auto
  next
    case False
    with Cons.prems s have "accepts (InLiteral ls, st) t" by auto
    from Cons.IH [OF this False] s show ?thesis by simp
  qed
qed simp

fun number_state :: "scan_state \<Rightarrow> bool" where
  "number_state NumNeg \<longleftrightarrow> True"
| "number_state NumZero \<longleftrightarrow> True"
| "number_state NumInt \<longleftrightarrow> True"
| "number_state NumDot \<longleftrightarrow> True"
| "number_state NumFrac \<longleftrightarrow> True"
| "number_state NumE \<longleftrightarrow> True"
| "number_state NumESign \<longleftrightarrow> True"
| "number_state NumExp \<longleftrightarrow> True"
| "number_state _ \<longleftrightarrow> False"

definition in_number :: "container list \<Rightarrow> scanner \<Rightarrow> bool" where
  "in_number st q \<longleftrightarrow> fst q = ScanError \<or> number_state (fst q) \<and> snd q = st"

lemma number_char_others:
  "number_char c \<Longrightarrow> \<not> is_json_space c \<and> c \<noteq> CHR '':'' \<and> c \<noteq> CHR '','' \<and> c \<noteq> CHR ''}'' \<and> c \<noteq> CHR '']''"
proof -
  have "\<not> number_char (CHR '':'')" "\<not> number_char (CHR '','')" "\<not> number_char (CHR ''}'')"
    "\<not> number_char (CHR '']'')" "\<not> number_char (byte 32)" "\<not> number_char (byte 9)"
    "\<not> number_char (byte 13)" "\<not> number_char (byte 10)"
    by code_simp+
  then show "number_char c \<Longrightarrow> \<not> is_json_space c \<and> c \<noteq> CHR '':'' \<and> c \<noteq> CHR '','' \<and>
      c \<noteq> CHR ''}'' \<and> c \<noteq> CHR '']''"
    by (auto simp: is_json_space_def)
qed

lemma number_char_end: "number_char c \<Longrightarrow> fst (end_value c st) = ScanError"
  using number_char_others [of c] by (auto simp: end_value_def split: list.split container.split)

lemma number_char_step:
  assumes "number_state q" "number_char c"
  shows "in_number st (scan_step (q, st) c)"
proof -
  have "in_number st (end_value c st)" using number_char_end [OF assms(2)] by (simp add: in_number_def)
  moreover have "in_number st (q', st)" if "q' = ScanError \<or> number_state q'" for q'
    using that by (auto simp: in_number_def)
  ultimately show ?thesis using assms(1) by (cases q) (simp_all add: after_int_def split: if_split)
qed

lemma number_char_examples:
  "number_char (CHR ''0'')" "number_char (CHR ''.'')" "number_char (CHR ''e'')" "number_char (CHR ''E'')"
  "number_char (CHR ''+'')" "number_char (CHR ''-'')"
  by code_simp+

lemma other_char_step:
  assumes "number_state q" "\<not> number_char c"
  shows "scan_step (q, st) c = (ScanError, st) \<or> scan_step (q, st) c = scan_step (EndValue, st) c"
proof -
  have "\<not> is_digit c" "c \<noteq> CHR ''0''" "c \<noteq> CHR ''.''" "c \<noteq> CHR ''e''" "c \<noteq> CHR ''E''" "c \<noteq> CHR ''+''"
    "c \<noteq> CHR ''-''"
    using assms(2) number_char_examples by (auto simp: number_char_def)
  then show ?thesis using assms(1) by (cases q) (simp_all add: after_int_def)
qed

lemma accepts_number:
  "accepts (q, st) s \<Longrightarrow> number_state q \<Longrightarrow> accepts (EndValue, st) (dropWhile number_char s)"
proof (induction s arbitrary: q)
  case Nil
  from other_char_step [OF Nil(2) space_plain(8), of st] Nil(1) show ?case by (auto simp: accepts_def)
next
  case (Cons c s)
  show ?case
  proof (cases "number_char c")
    case True
    obtain q' where "accepts (q', st) s" "number_state q'"
      using number_char_step [OF Cons.prems(2) True, of st] Cons.prems(1)
      by (cases "scan_step (q, st) c") (auto simp: in_number_def)
    with Cons.IH True show ?thesis by simp
  next
    case False
    from other_char_step [OF Cons.prems(2) this, of st] Cons.prems(1) False show ?thesis by auto
  qed
qed

subsection \<open>Values, elements and members\<close>

definition begins :: "bytes \<Rightarrow> bool" where
  "begins s \<longleftrightarrow> skip_space s = s"

lemma begins_skip [simp]: "begins (skip_space s)"
proof (induction s)
  case (Cons c s)
  then show ?case by (simp add: begins_def)
qed (simp add: begins_def)

lemma begins_Cons [simp]: "begins (c # s) = (\<not> is_json_space c)"
proof
  assume "begins (c # s)"
  then show "\<not> is_json_space c" using skip_space_length [of s] by (auto simp: begins_def)
qed (simp add: begins_def)

text \<open>What reading from a state leaves, for the parsers of one level of fuel.\<close>

definition reads :: "(bytes \<Rightarrow> ('a \<times> bytes) option) \<Rightarrow> container list \<Rightarrow> bytes \<Rightarrow> bool" where
  "reads p st s \<longleftrightarrow> (\<exists>v r. p s = Some (v, r) \<and> length r < length s \<and> accepts (EndValue, st) r)"

definition reads_value :: "nat \<Rightarrow> bool" where
  "reads_value n \<longleftrightarrow> (\<forall>s st. accepts (BeginValue, st) s \<and> begins s \<and> 2 * length s \<le> Suc n \<longrightarrow>
     reads (parse_value n) st s)"

definition reads_elements :: "nat \<Rightarrow> bool" where
  "reads_elements n \<longleftrightarrow> (\<forall>s st. accepts (BeginValue, ArrayValue # st) s \<and> begins s \<and> 2 * length s \<le> n \<longrightarrow>
     reads (parse_elements n) st s)"

definition reads_members :: "nat \<Rightarrow> bool" where
  "reads_members n \<longleftrightarrow> (\<forall>s st. accepts (BeginString, ObjectKey # st) s \<and> begins s \<and> 2 * length s \<le> n \<longrightarrow>
     reads (parse_members n) st s)"

lemma reads_valueI:
  "(\<And>s st. accepts (BeginValue, st) s \<Longrightarrow> begins s \<Longrightarrow> 2 * length s \<le> Suc n \<Longrightarrow> reads (parse_value n) st s)
     \<Longrightarrow> reads_value n"
  by (simp add: reads_value_def)

lemma reads_elementsI:
  "(\<And>s st. accepts (BeginValue, ArrayValue # st) s \<Longrightarrow> begins s \<Longrightarrow> 2 * length s \<le> n \<Longrightarrow>
     reads (parse_elements n) st s) \<Longrightarrow> reads_elements n"
  by (simp add: reads_elements_def)

lemma reads_membersI:
  "(\<And>s st. accepts (BeginString, ObjectKey # st) s \<Longrightarrow> begins s \<Longrightarrow> 2 * length s \<le> n \<Longrightarrow>
     reads (parse_members n) st s) \<Longrightarrow> reads_members n"
  by (simp add: reads_members_def)

lemma readsE:
  assumes "reads p st s"
  obtains v r where "p s = Some (v, r)" "length r < length s" "accepts (EndValue, st) r"
  using assms by (auto simp: reads_def)

lemma readsD:
  "reads_value n \<Longrightarrow> accepts (BeginValue, st) s \<Longrightarrow> begins s \<Longrightarrow> 2 * length s \<le> Suc n \<Longrightarrow>
     reads (parse_value n) st s"
  "reads_elements n \<Longrightarrow> accepts (BeginValue, ArrayValue # st) s \<Longrightarrow> begins s \<Longrightarrow> 2 * length s \<le> n \<Longrightarrow>
     reads (parse_elements n) st s"
  "reads_members n \<Longrightarrow> accepts (BeginString, ObjectKey # st) s \<Longrightarrow> begins s \<Longrightarrow> 2 * length s \<le> n \<Longrightarrow>
     reads (parse_members n) st s"
  by (simp_all add: reads_value_def reads_elements_def reads_members_def)

text \<open>The next byte that counts, after a value in a container.\<close>

lemma accepts_next:
  assumes "accepts (EndValue, k # st) r"
  shows "\<exists>c t. skip_space r = c # t \<and> length t < length r \<and> accepts (end_value c (k # st)) t \<and> \<not> is_json_space c"
proof -
  have acc: "accepts (EndValue, k # st) (skip_space r)" using assms by (rule accepts_skip(5))
  then obtain c t where s: "skip_space r = c # t" by (cases "skip_space r") auto
  with skip_space_length [of r] skip_space_hd [OF s] acc show ?thesis by auto
qed

lemma reads_elements_step:
  assumes "reads_value n" "reads_elements n"
  shows "reads_elements (Suc n)"
proof (rule reads_elementsI)
  fix s st
  assume s: "accepts (BeginValue, ArrayValue # st) s" "begins s" "2 * length s \<le> Suc n"
  obtain v r where v: "parse_value n s = Some (v, r)" "length r < length s"
    "accepts (EndValue, ArrayValue # st) r"
    by (rule readsE [OF readsD(1) [OF assms(1) s]])
  from accepts_next [OF v(3)] obtain c t where c: "skip_space r = c # t" "length t < length r"
    "accepts (end_value c (ArrayValue # st)) t" "\<not> is_json_space c" by blast
  show "reads (parse_elements (Suc n)) st s"
  proof (cases "c = CHR '',''")
    case True
    then have "accepts (BeginValue, ArrayValue # st) (skip_space t)"
      using c(3) accepts_skip(1) by (simp add: end_value_def)
    moreover have "2 * length (skip_space t) \<le> n" using skip_space_length [of t] c(2) v(2) s(3) by linarith
    ultimately have "reads (parse_elements n) st (skip_space t)"
      using assms(2) by (simp add: reads_elements_def)
    with v c(1,2) True skip_space_length [of t] show ?thesis by (fastforce simp: reads_def)
  next
    case False
    then have "c = CHR '']''" using c(3,4) by (auto simp: end_value_def split: if_splits)
    with c v have "accepts (EndValue, st) t" by (simp add: end_value_def accepts_pop)
    with v c(1,2) \<open>c = CHR '']''\<close> show ?thesis by (simp add: reads_def)
  qed
qed

lemma reads_members_step:
  assumes "reads_value n" "reads_members n"
  shows "reads_members (Suc n)"
proof (rule reads_membersI)
  fix s st
  assume s: "accepts (BeginString, ObjectKey # st) s" "begins s" "2 * length s \<le> Suc n"
  then obtain q u where q: "s = q # u" by (cases s) auto
  with s have "q = quote_byte" "accepts (InString, ObjectKey # st) u"
    by (auto simp: begin_string_def split: if_splits)
  then obtain k r where k: "scan_string u = Some (k, r)" "length r < length u"
    "accepts (EndValue, ObjectKey # st) r"
    using accepts_string by blast
  from accepts_next [OF k(3)] obtain c t where c: "skip_space r = c # t" "length t < length r"
    "accepts (end_value c (ObjectKey # st)) t" "\<not> is_json_space c" by blast
  then have colon: "c = CHR '':''" "accepts (BeginValue, ObjectValue # st) (skip_space t)"
    using accepts_skip(1) by (auto simp: end_value_def split: if_splits)
  have "2 * length (skip_space t) \<le> Suc n"
    using skip_space_length [of t] c(2) k(2) q s(3) by simp
  then obtain v r2 where v: "parse_value n (skip_space t) = Some (v, r2)" "length r2 < length (skip_space t)"
    "accepts (EndValue, ObjectValue # st) r2"
    by (rule readsE [OF readsD(1) [OF assms(1) colon(2) begins_skip]])
  from accepts_next [OF v(3)] obtain e t3 where e: "skip_space r2 = e # t3" "length t3 < length r2"
    "accepts (end_value e (ObjectValue # st)) t3" "\<not> is_json_space e" by blast
  have short: "length t3 < length s" "2 * length (skip_space t3) \<le> n"
    using skip_space_length [of t] skip_space_length [of t3] e(2) v(2) c(2) k(2) q s(3) by simp_all
  let ?m = "(unquote k, take (length (skip_space t) - length r2) (skip_space t), v)"
  have step: "parse_members (Suc n) s =
      (if e = CHR ''}'' then Some ([?m], t3)
       else if e = CHR '','' then map_option (\<lambda>(ms, r). (?m # ms, r)) (parse_members n (skip_space t3))
       else None)"
    using q \<open>q = quote_byte\<close> k(1) c(1) colon(1) v(1) e(1) by (simp add: Let_def)
  show "reads (parse_members (Suc n)) st s"
  proof (cases "e = CHR '',''")
    case True
    then have "accepts (BeginString, ObjectKey # st) (skip_space t3)"
      using e(3) accepts_skip(2) by (simp add: end_value_def)
    then have "reads (parse_members n) st (skip_space t3)"
      using assms(2) short(2) by (simp add: reads_members_def)
    with step True short(1) skip_space_length [of t3] show ?thesis by (fastforce simp: reads_def)
  next
    case False
    then have "e = CHR ''}''" using e(3,4) by (auto simp: end_value_def split: if_splits)
    with e have "accepts (EndValue, st) t3" by (simp add: end_value_def accepts_pop)
    with step short(1) \<open>e = CHR ''}''\<close> show ?thesis by (simp add: reads_def)
  qed
qed

text \<open>The bytes a number starts with are not those of a literal.\<close>

lemma not_literal:
  "number_char c \<Longrightarrow> c \<noteq> CHR ''t'' \<and> c \<noteq> CHR ''f'' \<and> c \<noteq> CHR ''n'' \<and> c \<noteq> CHR ''{'' \<and> c \<noteq> CHR ''['' \<and> c \<noteq> quote_byte"
proof -
  have "\<not> number_char (CHR ''t'')" "\<not> number_char (CHR ''f'')" "\<not> number_char (CHR ''n'')"
    "\<not> number_char (CHR ''{'')" "\<not> number_char (CHR ''['')" "\<not> number_char quote_byte"
    by code_simp+
  then show "number_char c \<Longrightarrow> c \<noteq> CHR ''t'' \<and> c \<noteq> CHR ''f'' \<and> c \<noteq> CHR ''n'' \<and> c \<noteq> CHR ''{'' \<and>
      c \<noteq> CHR ''['' \<and> c \<noteq> quote_byte"
    by auto
qed

lemma strip_prefix_length: "strip_prefix p s = Some r \<Longrightarrow> length s = length p + length r"
  by (auto simp: strip_prefix_Some_iff)

lemma begin_value_plain:
  assumes "accepts (begin_value c st) t" "\<not> is_json_space c" "c \<noteq> CHR ''{''" "c \<noteq> CHR ''[''" "c \<noteq> quote_byte"
  shows "(\<exists>w v. (w, v) \<in> set literals \<and> hd w = c \<and> accepts (InLiteral (tl w), st) t) \<or>
    (number_char c \<and> (\<exists>q. number_state q \<and> accepts (q, st) t))"
proof -
  have digit: "is_digit c \<Longrightarrow> number_char c" by (simp add: number_char_def)
  have "c = CHR ''t'' \<and> accepts (InLiteral ''rue'', st) t \<or>
      c = CHR ''f'' \<and> accepts (InLiteral ''alse'', st) t \<or>
      c = CHR ''n'' \<and> accepts (InLiteral ''ull'', st) t \<or>
      number_char c \<and> (accepts (NumNeg, st) t \<or> accepts (NumZero, st) t \<or> accepts (NumInt, st) t)"
    using assms number_char_examples(1,6) digit unfolding begin_value_def quote_not_bracket
    by (simp split: if_split_asm)
  then show ?thesis
  proof (elim disjE conjE)
    assume "c = CHR ''t''" "accepts (InLiteral ''rue'', st) t"
    then have "(''true'', JBool True) \<in> set literals \<and> hd ''true'' = c \<and> accepts (InLiteral (tl ''true''), st) t"
      by (simp add: literals_def)
    then show ?thesis by blast
  next
    assume "c = CHR ''f''" "accepts (InLiteral ''alse'', st) t"
    then have "(''false'', JBool False) \<in> set literals \<and> hd ''false'' = c \<and> accepts (InLiteral (tl ''false''), st) t"
      by (simp add: literals_def)
    then show ?thesis by blast
  next
    assume "c = CHR ''n''" "accepts (InLiteral ''ull'', st) t"
    then have "(''null'', JNull) \<in> set literals \<and> hd ''null'' = c \<and> accepts (InLiteral (tl ''null''), st) t"
      by (simp add: literals_def)
    then show ?thesis by blast
  qed (use number_state.simps in blast)+
qed

lemma reads_scalar:
  assumes "accepts (begin_value c st) t" "\<not> is_json_space c" "c \<noteq> CHR ''{''" "c \<noteq> CHR ''[''" "c \<noteq> quote_byte"
  shows "reads (parse_value (Suc n)) st (c # t)"
proof -
  have eq: "parse_value (Suc n) (c # t) =
      (case read_literal literals (c # t) of Some x \<Rightarrow> Some x | None \<Rightarrow> read_number (c # t))"
    using assms by simp
  from begin_value_plain [OF assms] show ?thesis
  proof (elim disjE exE conjE)
    fix w v assume w: "(w, v) \<in> set literals" "hd w = c" "accepts (InLiteral (tl w), st) t"
    then have "tl w \<noteq> []" by (auto simp: literals_def)
    from accepts_literal [OF w(3) this] obtain r where "strip_prefix (tl w) t = Some r"
      "accepts (EndValue, st) r" by blast
    moreover from this(1) w have "read_literal literals (c # t) = Some (v, r)"
      by (auto simp: literals_def)
    ultimately show ?thesis using eq by (auto simp: reads_def dest: strip_prefix_length)
  next
    fix q assume q: "number_char c" "number_state q" "accepts (q, st) t"
    have "accepts (EndValue, st) (dropWhile number_char t)" by (rule accepts_number [OF q(3,2)])
    moreover have "read_literal literals (c # t) = None"
      using not_literal [OF q(1)] by (auto simp: literals_def)
    ultimately show ?thesis using eq q(1)
      by (simp add: reads_def read_number_def length_dropWhile_le le_imp_less_Suc)
  qed
qed

lemma reads_value_step:
  assumes "reads_elements n" "reads_members n"
  shows "reads_value (Suc n)"
proof (rule reads_valueI)
  fix s st
  assume s: "accepts (BeginValue, st) s" "begins s" "2 * length s \<le> Suc (Suc n)"
  then obtain c t where ct: "s = c # t" by (cases s) auto
  with s have acc: "accepts (begin_value c st) t" "\<not> is_json_space c" by auto
  consider (brace) "c = CHR ''{''" | (bracket) "c = CHR ''[''" | (string) "c = quote_byte"
    | (scalar) "c \<noteq> CHR ''{''" "c \<noteq> CHR ''[''" "c \<noteq> quote_byte" by blast
  then show "reads (parse_value (Suc n)) st s"
  proof cases
    case brace
    with acc have "accepts (push_state BeginStringOrEmpty ObjectKey st) t" by (simp add: begin_value_def)
    then have rest: "accepts (BeginStringOrEmpty, ObjectKey # st) (skip_space t)"
      using accepts_push accepts_skip(4) by blast
    then obtain d r where d: "skip_space t = d # r" by (cases "skip_space t") auto
    note len = skip_space_length [of t]
    show ?thesis
    proof (cases "d = CHR ''}''")
      case True
      with rest d have "accepts (EndValue, st) r" by (simp add: end_value_def accepts_pop)
      with True brace ct d len show ?thesis by (simp add: reads_def)
    next
      case False
      with rest d skip_space_hd [OF d] have "accepts (BeginString, ObjectKey # st) (d # r)" by simp
      moreover have "2 * length (d # r) \<le> n" "begins (d # r)"
        using s(3) ct d len skip_space_hd [OF d] by auto
      ultimately have "reads (parse_members n) st (d # r)" using readsD(3) [OF assms(2)] by blast
      with False brace ct d len show ?thesis by (fastforce simp: reads_def)
    qed
  next
    case bracket
    with acc have "accepts (push_state BeginValueOrEmpty ArrayValue st) t" by (simp add: begin_value_def)
    then have rest: "accepts (BeginValueOrEmpty, ArrayValue # st) (skip_space t)"
      using accepts_push accepts_skip(3) by blast
    then obtain d r where d: "skip_space t = d # r" by (cases "skip_space t") auto
    note len = skip_space_length [of t]
    show ?thesis
    proof (cases "d = CHR '']''")
      case True
      with rest d have "accepts (EndValue, st) r" by (simp add: end_value_def accepts_pop)
      with True bracket ct d len show ?thesis by (simp add: reads_def)
    next
      case False
      with rest d skip_space_hd [OF d] have "accepts (BeginValue, ArrayValue # st) (d # r)" by simp
      moreover have "2 * length (d # r) \<le> n" "begins (d # r)"
        using s(3) ct d len skip_space_hd [OF d] by auto
      ultimately have "reads (parse_elements n) st (d # r)" using readsD(2) [OF assms(1)] by blast
      with False bracket ct d len show ?thesis by (fastforce simp: reads_def)
    qed
  next
    case string
    with acc have "accepts (InString, st) t" by (simp add: begin_value_def)
    from accepts_string [OF this] string ct show ?thesis by (auto simp: reads_def)
  next
    case scalar
    with reads_scalar [OF acc] ct show ?thesis by simp
  qed
qed

lemma reads_all: "reads_value n \<and> reads_elements n \<and> reads_members n"
proof (induction n)
  case 0
  have "reads_value 0"
  proof (rule reads_valueI)
    fix s st assume "accepts (BeginValue, st) s" "2 * length s \<le> Suc 0"
    then show "reads (parse_value 0) st s" by (cases s) auto
  qed
  moreover have "reads_elements 0" by (rule reads_elementsI) simp
  moreover have "reads_members 0" by (rule reads_membersI) simp
  ultimately show ?case by blast
next
  case (Suc n)
  then show ?case using reads_value_step reads_elements_step reads_members_step by blast
qed

text \<open>A document decodes exactly when it is valid.\<close>

lemma decode_json_valid: "decode_json s \<noteq> None \<longleftrightarrow> json_valid s"
proof
  assume valid: "json_valid s"
  then have acc: "accepts (BeginValue, []) (skip_space s)"
    using accepts_skip(1) by (simp add: json_valid_accepts)
  have "reads (parse_value (2 * length s)) [] (skip_space s)"
    using reads_all skip_space_length [of s] by (intro readsD(1) [OF _ acc begins_skip]) auto
  with valid show "decode_json s \<noteq> None" by (auto simp: decode_json_def reads_def)
qed (simp add: decode_json_def split: if_splits)

end
