(* ===== verification/JsonWrite.thy ===== *)
theory JsonWrite
  imports JsonDecode
begin

text \<open>
  Strings as \<open>json.Marshal\<close> writes them, with its escapes for quotes, control characters, HTML
  characters, line separators and invalid UTF-8, and that they are read back.
\<close>

definition hex_digit :: "nat \<Rightarrow> char" where
  "hex_digit n = ''0123456789abcdef'' ! n"

definition ascii_escape :: "char \<Rightarrow> string" where
  "ascii_escape c =
     (if c = quote_byte \<or> c = backslash then [backslash, c]
      else if c = byte 8 then [backslash, CHR ''b'']
      else if c = byte 9 then [backslash, CHR ''t'']
      else if c = byte 10 then [backslash, CHR ''n'']
      else if c = byte 12 then [backslash, CHR ''f'']
      else if c = byte 13 then [backslash, CHR ''r'']
      else if code_of c < 32 \<or> c \<in> set ''<>&''
      then backslash # ''u00'' @ [hex_digit (code_of c div 16), hex_digit (code_of c mod 16)]
      else [c])"

definition line_separators :: "(string \<times> string) list" where
  "line_separators =
     [([byte 226, byte 128, byte 168], backslash # ''u2028''), ([byte 226, byte 128, byte 169], backslash # ''u2029'')]"

definition rune_escape :: "bytes \<Rightarrow> string" where
  "rune_escape s =
     (if code_of (hd s) < 128 then ascii_escape (hd s)
      else if encoding_length s = 0 then backslash # ''ufffd''
      else (case map_of line_separators (fst (decode_rune s)) of Some e \<Rightarrow> e | None \<Rightarrow> fst (decode_rune s)))"

function escape_string :: "bytes \<Rightarrow> string" where
  "escape_string s =
     (if s = [] then [] else rune_escape s @ escape_string (drop (snd (decode_rune s)) s))"
  by pat_completeness auto
termination
  by (relation "measure length") (use decode_rune_size in \<open>auto simp: diff_less\<close>)

declare escape_string.simps [simp del]

definition write_string :: "bytes \<Rightarrow> string" where
  "write_string s = quote_byte # escape_string s @ [quote_byte]"

subsection \<open>A piece of an escaped string\<close>

text \<open>
  Every piece is a run of plain bytes, a two-byte escape or a hexadecimal escape, and is read back
  whatever follows it.
\<close>

definition plain_byte :: "char \<Rightarrow> bool" where
  "plain_byte c \<longleftrightarrow> c \<noteq> quote_byte \<and> c \<noteq> backslash \<and> \<not> code_of c < 32"

definition escape_piece :: "string \<Rightarrow> bool" where
  "escape_piece p \<longleftrightarrow> list_all plain_byte p \<or>
     (\<exists>c. p = [backslash, c] \<and> (c \<in> set ''bfnrt/'' \<or> c = backslash \<or> c = quote_byte)) \<or>
     (\<exists>d1 d2 d3 d4. p = [backslash, CHR ''u'', d1, d2, d3, d4] \<and>
        is_hex d1 \<and> is_hex d2 \<and> is_hex d3 \<and> is_hex d4)"

definition piece_of :: "string \<Rightarrow> string \<Rightarrow> bool" where
  "piece_of p r \<longleftrightarrow> escape_piece p \<and> p \<noteq> [] \<and> (\<forall>t. read_char (p @ t) = (r, length p))"

lemma code_of_inject [simp]: "code_of c = code_of d \<longleftrightarrow> c = d"
  by (simp add: code_of_def)

lemma byte_code_of [simp]: "byte (code_of c) = c"
  by (simp add: byte_def code_of_def)

lemma piece_two:
  assumes "c \<in> set ''bfnrt/'' \<or> c = backslash \<or> c = quote_byte"
  shows "piece_of [backslash, c] [escape_char c]"
proof -
  have "CHR ''u'' \<noteq> backslash" "CHR ''u'' \<noteq> quote_byte" by code_simp+
  then have "c \<noteq> CHR ''u''" using assms by auto
  then have "hex_code (backslash # c # t) = None" for t
    by (cases "backslash # c # t" rule: hex_code.cases) auto
  with assms show ?thesis
    by (auto simp: piece_of_def escape_piece_def read_char_def read_escape_def)
qed

lemma piece_hex:
  assumes "is_hex d1" "is_hex d2" "is_hex d3" "is_hex d4"
    "n = hex_value d1 * 4096 + hex_value d2 * 256 + hex_value d3 * 16 + hex_value d4" "\<not> is_surrogate n"
  shows "piece_of [backslash, CHR ''u'', d1, d2, d3, d4] (encode_rune n)"
  using assms by (auto simp: piece_of_def escape_piece_def read_char_def read_escape_def)

lemma hex_digits: "list_all (\<lambda>k. is_hex (hex_digit k) \<and> hex_value (hex_digit k) = k) [0..<16]"
  by code_simp

lemma hex_digit: "k < 16 \<Longrightarrow> is_hex (hex_digit k) \<and> hex_value (hex_digit k) = k"
  using hex_digits by (simp add: list_all_iff)

lemma hex_zero: "is_hex (CHR ''0'')" "hex_value (CHR ''0'') = 0"
  by code_simp+

lemma piece_plain:
  assumes "plain_byte c" "code_of c < 128"
  shows "piece_of [c] [c]"
  using assms by (simp add: piece_of_def escape_piece_def plain_byte_def read_char_def decode_rune_def)

lemma escape_chars:
  "escape_char backslash = backslash" "escape_char quote_byte = quote_byte"
  "escape_char (CHR ''b'') = byte 8" "escape_char (CHR ''t'') = byte 9" "escape_char (CHR ''n'') = byte 10"
  "escape_char (CHR ''f'') = byte 12" "escape_char (CHR ''r'') = byte 13"
  by code_simp+

lemma ascii_escapes:
  "ascii_escape (byte 8) = [backslash, CHR ''b'']" "ascii_escape (byte 9) = [backslash, CHR ''t'']"
  "ascii_escape (byte 10) = [backslash, CHR ''n'']" "ascii_escape (byte 12) = [backslash, CHR ''f'']"
  "ascii_escape (byte 13) = [backslash, CHR ''r'']"
  by code_simp+

lemma ascii_escape_piece:
  assumes "code_of c < 128"
  shows "piece_of (ascii_escape c) [c]"
proof -
  consider (same) "c = quote_byte \<or> c = backslash"
    | (short) "c \<in> {byte 8, byte 9, byte 10, byte 12, byte 13}"
    | (other) "c \<noteq> quote_byte" "c \<noteq> backslash" "c \<notin> {byte 8, byte 9, byte 10, byte 12, byte 13}"
    by blast
  then show ?thesis
  proof cases
    case same
    then have "ascii_escape c = [backslash, c]" "escape_char c = c"
      using escape_chars by (auto simp: ascii_escape_def)
    with same piece_two [of c] show ?thesis by metis
  next
    case short
    then show ?thesis
      using piece_two [of "CHR ''b''"] piece_two [of "CHR ''t''"] piece_two [of "CHR ''n''"]
        piece_two [of "CHR ''f''"] piece_two [of "CHR ''r''"]
      by (elim insertE emptyE) (simp_all add: ascii_escapes escape_chars)
  next
    case other
    show ?thesis
    proof (cases "code_of c < 32 \<or> c \<in> set ''<>&''")
      case True
      with other have hex: "ascii_escape c =
          backslash # ''u00'' @ [hex_digit (code_of c div 16), hex_digit (code_of c mod 16)]"
        unfolding ascii_escape_def by (simp only: if_True if_False simp_thms insert_iff) simp
      have "code_of c div 16 < 16" using assms by linarith
      then have "piece_of [backslash, CHR ''u'', CHR ''0'', CHR ''0'', hex_digit (code_of c div 16),
          hex_digit (code_of c mod 16)] (encode_rune (code_of c))"
        using assms hex_digit hex_zero by (intro piece_hex) (simp_all add: is_surrogate_def)
      with hex assms show ?thesis by (simp add: encode_rune_def)
    next
      case False
      with other have "ascii_escape c = [c]" "plain_byte c"
        unfolding ascii_escape_def plain_byte_def
        by (simp_all only: if_False simp_thms insert_iff empty_iff de_Morgan_disj)
      with piece_plain assms show ?thesis by simp
    qed
  qed
qed

lemma encoding_take:
  assumes "0 < encoding_length s" "128 \<le> code_of (hd s)"
  shows "encoding_length (take (encoding_length s) s @ t) = encoding_length s"
    "list_all (\<lambda>c. 128 \<le> code_of c) (take (encoding_length s) s)"
proof -
  obtain c u where s: "s = c # u" using assms(1) by (cases s) auto
  consider (two) d w where "u = d # w" "second_ok c d" "194 \<le> code_of c" "code_of c < 224"
    | (three) d e w where "u = d # e # w" "second_ok c d" "continuation e" "224 \<le> code_of c" "code_of c < 240"
    | (four) d e f w where "u = d # e # f # w" "second_ok c d" "continuation e" "continuation f"
        "240 \<le> code_of c" "code_of c < 245"
    using assms s by (auto split: if_splits list.splits)
  note cases = this
  from cases show "encoding_length (take (encoding_length s) s @ t) = encoding_length s"
    by cases (simp_all add: s)
  from cases show "list_all (\<lambda>c. 128 \<le> code_of c) (take (encoding_length s) s)"
    by cases (simp_all add: s second_ok_def continuation_def)
qed

lemma decode_ascii: "s \<noteq> [] \<Longrightarrow> code_of (hd s) < 128 \<Longrightarrow> decode_rune s = ([hd s], 1)"
  by (cases s) (simp_all add: decode_rune_def)

lemma high_plain: "128 \<le> code_of c \<Longrightarrow> plain_byte c"
proof -
  have "code_of quote_byte < 128" "code_of backslash < 128" by code_simp+
  then show "128 \<le> code_of c \<Longrightarrow> plain_byte c" by (auto simp: plain_byte_def)
qed

lemma line_separator_pieces:
  "map_of line_separators p = Some e \<Longrightarrow> piece_of e p"
proof -
  have hex: "is_hex (CHR ''2'')" "is_hex (CHR ''0'')" "is_hex (CHR ''8'')" "is_hex (CHR ''9'')"
    "hex_value (CHR ''2'') = 2" "hex_value (CHR ''0'') = 0" "hex_value (CHR ''8'') = 8" "hex_value (CHR ''9'') = 9"
    by code_simp+
  have codes: "encode_rune 8232 = [byte 226, byte 128, byte 168]" "encode_rune 8233 = [byte 226, byte 128, byte 169]"
    by (simp_all add: encode_rune_def)
  have "piece_of [backslash, CHR ''u'', CHR ''2'', CHR ''0'', CHR ''2'', CHR ''8''] (encode_rune 8232)"
    "piece_of [backslash, CHR ''u'', CHR ''2'', CHR ''0'', CHR ''2'', CHR ''9''] (encode_rune 8233)"
    using hex by (auto intro!: piece_hex simp: is_surrogate_def)
  with codes show "map_of line_separators p = Some e \<Longrightarrow> piece_of e p"
    by (auto simp: line_separators_def split: if_splits)
qed

lemma replacement_piece: "piece_of (backslash # ''ufffd'') rune_error"
proof -
  have "is_hex (CHR ''f'')" "is_hex (CHR ''d'')" "hex_value (CHR ''f'') = 15" "hex_value (CHR ''d'') = 13"
    by code_simp+
  moreover have "encode_rune 65533 = rune_error" by (simp add: encode_rune_def rune_error_def)
  ultimately show ?thesis
    using piece_hex [of "CHR ''f''" "CHR ''f''" "CHR ''f''" "CHR ''d''" 65533] by (simp add: is_surrogate_def)
qed

lemma rune_escape_piece:
  assumes "s \<noteq> []"
  shows "piece_of (rune_escape s) (fst (decode_rune s))"
proof (cases "code_of (hd s) < 128")
  case True
  with ascii_escape_piece decode_ascii [OF assms True] show ?thesis by (simp add: rune_escape_def)
next
  case high: False
  show ?thesis
  proof (cases "encoding_length s = 0 \<or> map_of line_separators (fst (decode_rune s)) \<noteq> None")
    case True
    with high assms replacement_piece line_separator_pieces show ?thesis
      by (auto simp: rune_escape_def decode_rune_def)
  next
    case False
    let ?p = "take (encoding_length s) s"
    have "list_all plain_byte ?p"
      using encoding_take(2) [of s] False high high_plain by (auto simp: list_all_iff)
    moreover have "?p \<noteq> []" using False assms by (cases s) auto
    moreover have "read_char (?p @ t) = (?p, length ?p)" for t
    proof -
      have "hd (?p @ t) \<noteq> backslash" using calculation by (cases ?p) (auto simp: plain_byte_def)
      moreover have "encoding_length (?p @ t) = encoding_length s"
        using encoding_take(1) [of s t] False high by auto
      ultimately show ?thesis using False \<open>?p \<noteq> []\<close> encoding_length_le [of s]
        by (simp add: read_char_def decode_rune_def)
    qed
    ultimately have "piece_of ?p ?p" by (simp add: piece_of_def escape_piece_def)
    with False high assms show ?thesis by (auto simp: rune_escape_def decode_rune_def)
  qed
qed

text \<open>What is read back is the string with its invalid bytes replaced.\<close>

definition sanitize :: "string \<Rightarrow> string" where
  "sanitize s = concat (runes s)"

lemma unquote_escape: "unquote (escape_string s) = sanitize s"
proof (induction s rule: escape_string.induct)
  case (1 s)
  show ?case
  proof (cases "s = []")
    case True
    then show ?thesis by (simp add: escape_string.simps unquote.simps sanitize_def runes.simps)
  next
    case False
    have p: "piece_of (rune_escape s) (fst (decode_rune s))" by (rule rune_escape_piece [OF False])
    have "escape_string s = rune_escape s @ escape_string (drop (snd (decode_rune s)) s)"
      using False by (subst escape_string.simps) simp
    moreover have "unquote (rune_escape s @ t) = fst (decode_rune s) @ unquote t" for t
      using p by (subst unquote.simps) (simp add: piece_of_def)
    moreover have "sanitize s = fst (decode_rune s) @ sanitize (drop (snd (decode_rune s)) s)"
      using False by (subst sanitize_def, subst runes.simps) (simp add: sanitize_def)
    ultimately show ?thesis using 1 False by simp
  qed
qed

end
