(* ===== verification/FileOperations.thy ===== *)
theory FileOperations
  imports JsonWrite SessionTypes "HOL-Library.Char_ord" "HOL-Library.List_Lexorder"
begin

text \<open>
  The files a range of history has read and changed: the file operations of
  \<open>internal/agent/runtime/compaction/utils.go\<close> and the summary details of
  \<open>internal/agent/runtime/session/summary.go\<close>, with the decoding of the JSON they come from. The maps
  of paths are sets; \<open>sort.Strings\<close> is the order of the bytes. A Go slice that may be nil is an option.
\<close>

subsection \<open>Decoding into structs\<close>

text \<open>A member goes to the field whose name it equals up to letter case; \<open>null\<close> leaves a string as it is.\<close>

definition string_value :: "string \<Rightarrow> json \<Rightarrow> string option" where
  "string_value old v = (case v of JString s \<Rightarrow> Some s | JNull \<Rightarrow> Some old | _ \<Rightarrow> None)"

definition path_member ::
  "(string \<times> string) option \<Rightarrow> string \<times> bytes \<times> json \<Rightarrow> (string \<times> string) option" where
  "path_member acc m =
     (case acc of
        None \<Rightarrow> None
      | Some (path, file) \<Rightarrow>
          if equal_fold (fst m) ''path'' then map_option (\<lambda>s. (s, file)) (string_value path (snd (snd m)))
          else if equal_fold (fst m) ''file_path''
          then map_option (\<lambda>s. (path, s)) (string_value file (snd (snd m)))
          else acc)"

definition path_fields :: "bytes \<Rightarrow> (string \<times> string) option" where
  "path_fields raw =
     (case decode_json raw of
        Some JNull \<Rightarrow> Some ('''', '''')
      | Some (JObject ms) \<Rightarrow> foldl path_member (Some ('''', '''')) ms
      | _ \<Rightarrow> None)"

definition path_from_json :: "bytes \<Rightarrow> string" where
  "path_from_json raw =
     (case path_fields raw of
        None \<Rightarrow> ''''
      | Some (path, file) \<Rightarrow> if path \<noteq> '''' then path else file)"

definition path_from_details :: "bytes option \<Rightarrow> string" where
  "path_from_details details = (case details of None \<Rightarrow> '''' | Some raw \<Rightarrow> path_from_json raw)"

text \<open>
  A slice is decoded into the array it already has: an element \<open>null\<close> leaves what the array holds
  there, also beyond the length of the slice.
\<close>

type_synonym slice = "string list \<times> string list option"

fun slice_elements :: "string list \<Rightarrow> json list \<Rightarrow> string list option" where
  "slice_elements old [] = Some []"
| "slice_elements old (v # vs) =
     (case string_value (case old of [] \<Rightarrow> '''' | s # _ \<Rightarrow> s) v of
        None \<Rightarrow> None
      | Some s \<Rightarrow> map_option (\<lambda>ss. s # ss) (slice_elements (tl old) vs))"

definition slice_value :: "slice \<Rightarrow> json \<Rightarrow> slice option" where
  "slice_value sl v =
     (case v of
        JNull \<Rightarrow> Some ([], None)
      | JArray vs \<Rightarrow>
          if vs = [] then Some ([], Some [])
          else map_option (\<lambda>ss. (ss @ drop (length ss) (fst sl), Some ss)) (slice_elements (fst sl) vs)
      | _ \<Rightarrow> None)"

record summary_details =
  sdReadFiles :: "string list option"
  sdModifiedFiles :: "string list option"

definition details_member ::
  "(slice \<times> slice) option \<Rightarrow> string \<times> bytes \<times> json \<Rightarrow> (slice \<times> slice) option" where
  "details_member acc m =
     (case acc of
        None \<Rightarrow> None
      | Some (rs, modified) \<Rightarrow>
          if equal_fold (fst m) ''readfiles''
          then map_option (\<lambda>sl. (sl, modified)) (slice_value rs (snd (snd m)))
          else if equal_fold (fst m) ''modifiedfiles''
          then map_option (\<lambda>sl. (rs, sl)) (slice_value modified (snd (snd m)))
          else acc)"

definition decode_details :: "bytes \<Rightarrow> summary_details option" where
  "decode_details raw =
     (case decode_json raw of
        Some JNull \<Rightarrow> Some \<lparr>sdReadFiles = None, sdModifiedFiles = None\<rparr>
      | Some (JObject ms) \<Rightarrow>
          map_option (\<lambda>(rs, modified). \<lparr>sdReadFiles = snd rs, sdModifiedFiles = snd modified\<rparr>)
            (foldl details_member (Some (([], None), ([], None))) ms)
      | _ \<Rightarrow> None)"

text \<open>\<open>json.Marshal\<close> of the details.\<close>

definition encode_slice :: "string list option \<Rightarrow> bytes" where
  "encode_slice sl =
     (case sl of None \<Rightarrow> ''null'' | Some ss \<Rightarrow> CHR ''['' # join '','' (map write_string ss) @ '']'')"

definition encode_details :: "summary_details \<Rightarrow> bytes" where
  "encode_details d =
     CHR ''{'' # write_string ''readFiles'' @ CHR '':'' # encode_slice (sdReadFiles d) @
     CHR '','' # write_string ''modifiedFiles'' @ CHR '':'' # encode_slice (sdModifiedFiles d) @ ''}''"

subsection \<open>The operations of a range of history\<close>

record file_operations =
  foRead :: "string set"
  foWritten :: "string set"
  foEdited :: "string set"

definition new_file_operations :: file_operations where
  "new_file_operations = \<lparr>foRead = {}, foWritten = {}, foEdited = {}\<rparr>"

definition add_path :: "string set \<Rightarrow> string \<Rightarrow> string set" where
  "add_path target path = (let p = trim_space path in if p \<noteq> '''' then insert p target else target)"

definition add_tool_path :: "file_operations \<Rightarrow> string \<Rightarrow> string \<Rightarrow> file_operations" where
  "add_tool_path ops tool path =
     (if tool = ''read'' then ops\<lparr>foRead := add_path (foRead ops) path\<rparr>
      else if tool = ''write'' then ops\<lparr>foWritten := add_path (foWritten ops) path\<rparr>
      else if tool = ''edit'' then ops\<lparr>foEdited := add_path (foEdited ops) path\<rparr>
      else ops)"

definition extract_file_operations :: "agent_message \<Rightarrow> file_operations \<Rightarrow> file_operations" where
  "extract_file_operations m ops =
     (case as_assistant_message m of
        Some a \<Rightarrow> foldl (\<lambda>ops c. add_tool_path ops (ccName c) (path_from_json (ccArguments c))) ops
            (tool_calls_from_assistant a)
      | None \<Rightarrow> (case as_tool_result_message m of
          Some r \<Rightarrow> add_tool_path ops (rmToolName r) (path_from_details (rmDetails r))
        | None \<Rightarrow> ops))"

definition slice_list :: "string list option \<Rightarrow> string list" where
  "slice_list sl = (case sl of None \<Rightarrow> [] | Some ss \<Rightarrow> ss)"

definition merge_summary_details :: "file_operations \<Rightarrow> summary_details \<Rightarrow> file_operations" where
  "merge_summary_details ops d =
     ops\<lparr>foRead := foldl add_path (foRead ops) (slice_list (sdReadFiles d)),
         foEdited := foldl add_path (foEdited ops) (slice_list (sdModifiedFiles d))\<rparr>"

definition merge_entry_details :: "file_operations \<Rightarrow> entry \<Rightarrow> file_operations" where
  "merge_entry_details ops e =
     (if enDetails e = [] then ops
      else (case decode_details (enDetails e) of None \<Rightarrow> ops | Some d \<Rightarrow> merge_summary_details ops d))"

definition sorted_slice :: "string set \<Rightarrow> string list option" where
  "sorted_slice ps = (if ps = {} then None else Some (sorted_list_of_set ps))"

definition compute_file_lists :: "file_operations \<Rightarrow> summary_details" where
  "compute_file_lists ops =
     (let modified = foWritten ops \<union> foEdited ops in
      \<lparr>sdReadFiles = sorted_slice (foRead ops - modified), sdModifiedFiles = sorted_slice modified\<rparr>)"

definition file_section :: "string \<Rightarrow> string list option \<Rightarrow> string list" where
  "file_section tag sl =
     (case slice_list sl of
        [] \<Rightarrow> []
      | ps \<Rightarrow> [''<'' @ tag @ ''>'' @ newline # join [newline] ps @ newline # ''</'' @ tag @ ''>''])"

definition format_file_operations :: "summary_details \<Rightarrow> string" where
  "format_file_operations d =
     (let sections = file_section ''read-files'' (sdReadFiles d) @ file_section ''modified-files'' (sdModifiedFiles d)
      in if sections = [] then ''''
         else [newline, newline] @ join [newline, newline] sections)"

subsection \<open>The details of a session's own summaries\<close>

record session_files =
  sfRead :: "string set"
  sfModified :: "string set"

definition extract_assistant_files :: "session_files \<Rightarrow> content_list \<Rightarrow> session_files" where
  "extract_assistant_files ops cs =
     foldl (\<lambda>ops c.
       (let path = path_from_json (ccArguments c) in
        if path = '''' then ops
        else if ccName c = ''read'' then ops\<lparr>sfRead := add_path (sfRead ops) path\<rparr>
        else if ccName c = ''write'' \<or> ccName c = ''edit''
        then ops\<lparr>sfModified := add_path (sfModified ops) path\<rparr>
        else ops)) ops (tool_calls_of_content cs)"

definition extract_result_files :: "session_files \<Rightarrow> tool_result_message \<Rightarrow> session_files" where
  "extract_result_files ops r =
     (let path = path_from_details (rmDetails r) in
      if path = '''' then ops
      else if rmToolName r = ''read'' then ops\<lparr>sfRead := add_path (sfRead ops) path\<rparr>
      else if rmToolName r = ''write'' \<or> rmToolName r = ''edit''
      then ops\<lparr>sfModified := add_path (sfModified ops) path\<rparr>
      else ops)"

definition extract_entry_files :: "session_files \<Rightarrow> entry \<Rightarrow> session_files" where
  "extract_entry_files ops e =
     (case as_assistant_message (enMessage e) of
        Some a \<Rightarrow> extract_assistant_files ops (amContent a)
      | None \<Rightarrow> (case as_tool_result_message (enMessage e) of
          Some r \<Rightarrow> extract_result_files ops r
        | None \<Rightarrow> ops))"

definition merge_session_details :: "session_files \<Rightarrow> entry \<Rightarrow> session_files" where
  "merge_session_details ops e =
     (if enDetails e = [] then ops
      else (case decode_details (enDetails e) of
          None \<Rightarrow> ops
        | Some d \<Rightarrow> ops\<lparr>sfRead := foldl add_path (sfRead ops) (slice_list (sdReadFiles d)),
            sfModified := foldl add_path (sfModified ops) (slice_list (sdModifiedFiles d))\<rparr>))"

definition session_files_details :: "session_files \<Rightarrow> summary_details" where
  "session_files_details ops =
     \<lparr>sdReadFiles = Some (sorted_list_of_set (sfRead ops - sfModified ops)),
      sdModifiedFiles = Some (sorted_list_of_set (sfModified ops))\<rparr>"

definition collect_summary_details :: "entry list \<Rightarrow> summary_details" where
  "collect_summary_details es =
     session_files_details
       (foldl (\<lambda>ops e. extract_entry_files (merge_session_details ops e) e) \<lparr>sfRead = {}, sfModified = {}\<rparr> es)"

end
