(* ===== verification/Conversation.thy ===== *)
theory Conversation
  imports FileOperations
begin

text \<open>
  A conversation as the text a summary is made from, \<open>internal/agent/runtime/compaction/utils.go\<close>.
\<close>

definition tool_result_max_chars :: nat where
  "tool_result_max_chars = 2000"

fun decimal :: "nat \<Rightarrow> string" where
  "decimal n = (if n < 10 then [byte (48 + n)] else decimal (n div 10) @ [byte (48 + n mod 10)])"

declare decimal.simps [simp del]

definition truncate_for_summary :: "string \<Rightarrow> nat \<Rightarrow> string" where
  "truncate_for_summary text max_chars =
     (let characters = runes text in
      if length characters \<le> max_chars then text
      else concat (take max_chars characters) @ [newline, newline] @ ''[... '' @
        decimal (length characters - max_chars) @ '' more characters truncated]'')"

definition safe_json_string :: "bytes \<Rightarrow> string" where
  "safe_json_string raw = (if json_valid raw then raw else ''[unserializable]'')"

text \<open>The arguments as a map of raw values; the last member of a name counts.\<close>

definition raw_arguments :: "bytes \<Rightarrow> (string \<times> bytes) list option" where
  "raw_arguments raw =
     (case decode_json raw of
        Some JNull \<Rightarrow> Some []
      | Some (JObject ms) \<Rightarrow> Some (map (\<lambda>(k, r, v). (k, r)) ms)
      | _ \<Rightarrow> None)"

definition format_tool_call :: "tool_call_content \<Rightarrow> string" where
  "format_tool_call c =
     (case raw_arguments (ccArguments c) of
        None \<Rightarrow> ccName c @ ''(arguments='' @ safe_json_string (ccArguments c) @ '')''
      | Some arguments \<Rightarrow>
          (let keys = sorted_list_of_set (set (map fst arguments));
               items = map (\<lambda>k. k @ ''='' @ safe_json_string (the (map_of (rev arguments) k))) keys
           in ccName c @ ''('' @ join '', '' items @ '')''))"

fun text_parts :: "content_list \<Rightarrow> string list" where
  "text_parts [] = []"
| "text_parts (TextContent c # cs) = tcText c # text_parts cs"
| "text_parts (_ # cs) = text_parts cs"

fun thinking_parts :: "content_list \<Rightarrow> string list" where
  "thinking_parts [] = []"
| "thinking_parts (ThinkingContent c # cs) = thThinking c # thinking_parts cs"
| "thinking_parts (_ # cs) = thinking_parts cs"

definition labelled :: "string \<Rightarrow> string \<Rightarrow> string list \<Rightarrow> string list" where
  "labelled label sep parts = (if parts = [] then [] else [label @ join sep parts])"

definition serialize_assistant :: "assistant_message \<Rightarrow> string list" where
  "serialize_assistant m =
     labelled ''[Assistant thinking]: '' [newline] (thinking_parts (amContent m)) @
     labelled ''[Assistant]: '' [newline] (text_parts (amContent m)) @
     labelled ''[Assistant tool calls]: '' ''; '' (map format_tool_call (tool_calls_of_content (amContent m)))"

definition serialize_message :: "agent_message \<Rightarrow> string list" where
  "serialize_message m =
     (case m of
        UserMessage u \<Rightarrow>
          (let text = concat (text_parts (umContent u)) in
           if text = '''' then [] else [''[User]: '' @ text])
      | AssistantMessage a \<Rightarrow> serialize_assistant a
      | ToolResultMessage r \<Rightarrow>
          (let text = concat (text_parts (rmContent r)) in
           if text = '''' then []
           else [''[Tool result]: '' @ truncate_for_summary text tool_result_max_chars])
      | NilMessage \<Rightarrow> [])"

definition serialize_conversation :: "message_list \<Rightarrow> string" where
  "serialize_conversation ms = join [newline, newline] (concat (map serialize_message ms))"

definition assistant_text :: "assistant_message \<Rightarrow> string" where
  "assistant_text m = join [newline] (text_parts (amContent m))"

end
