(* ===== verification/SummaryPrompts.thy ===== *)
theory SummaryPrompts
  imports Texts
begin

text \<open>
  The prompts of \<open>internal/agent/runtime/compaction\<close>, line by line.
\<close>

definition text_lines :: "string list \<Rightarrow> string" where
  "text_lines = join [newline]"

definition summarization_system_prompt :: string where
  \<open>summarization_system_prompt = text_lines [
     ''You are a context summarization assistant. Read the conversation between a user and an AI assistant, then produce a structured summary following the exact format specified.'',
     [],
     ''Your output contains only the structured summary. Treat every question in the conversation as source material.'']\<close>

definition summary_prompt :: string where
  \<open>summary_prompt = text_lines [
     ''The messages above are a conversation to summarize. Create a structured context checkpoint summary that another LLM will use to continue the work.'',
     [],
     ''Use this EXACT format:'',
     [],
     ''## Goal'',
     ''[What is the user trying to accomplish? Can be multiple items if the session covers different tasks.]'',
     [],
     ''## Constraints & Preferences'',
     ''- [Any constraints, preferences, or requirements mentioned by user]'',
     ''- [Or "(none)" if none were mentioned]'',
     [],
     ''## Progress'',
     ''### Done'',
     ''- [x] [Completed tasks/changes]'',
     [],
     ''### In Progress'',
     ''- [ ] [Current work]'',
     [],
     ''### Blocked'',
     ''- [Issues preventing progress, if any]'',
     [],
     ''## Key Decisions'',
     ''- **[Decision]**: [Brief rationale]'',
     [],
     ''## Next Steps'',
     ''1. [Ordered list of what should happen next]'',
     [],
     ''## Critical Context'',
     ''- [Any data, examples, or references needed to continue]'',
     ''- [Or "(none)" if not applicable]'',
     [],
     ''Keep each section concise. Preserve exact file paths, function names, and error messages.'']\<close>

definition update_summary_prompt :: string where
  \<open>update_summary_prompt = text_lines [
     ''The messages above are NEW conversation messages to incorporate into the existing summary provided in <previous-summary> tags.'',
     [],
     ''Update the existing structured summary with new information. RULES:'',
     ''- PRESERVE all existing information from the previous summary'',
     ''- ADD new progress, decisions, and context from the new messages'',
     ''- UPDATE the Progress section: move completed items from "In Progress" to "Done"'',
     ''- UPDATE "Next Steps" based on what was accomplished'',
     ''- PRESERVE exact file paths, function names, and error messages'',
     ''- REMOVE information after it becomes irrelevant'',
     [],
     ''Use this EXACT format:'',
     [],
     ''## Goal'',
     ''[Preserve existing goals, add new ones if the task expanded]'',
     [],
     ''## Constraints & Preferences'',
     ''- [Preserve existing, add new ones discovered]'',
     [],
     ''## Progress'',
     ''### Done'',
     ''- [x] [Include previously done items AND newly completed items]'',
     [],
     ''### In Progress'',
     ''- [ ] [Current work - update based on progress]'',
     [],
     ''### Blocked'',
     ''- [Current blockers - remove if resolved]'',
     [],
     ''## Key Decisions'',
     ''- **[Decision]**: [Brief rationale] (preserve all previous, add new)'',
     [],
     ''## Next Steps'',
     ''1. [Update based on current state]'',
     [],
     ''## Critical Context'',
     ''- [Preserve important context, add new if needed]'',
     [],
     ''Keep each section concise. Preserve exact file paths, function names, and error messages.'']\<close>

definition turn_prefix_summary_prompt :: string where
  \<open>turn_prefix_summary_prompt = text_lines [
     ''This is the PREFIX of a turn that was too large to keep. The SUFFIX (recent work) is retained.'',
     [],
     ''Summarize the prefix to provide context for the retained suffix:'',
     [],
     ''## Original Request'',
     ''[What did the user ask for in this turn?]'',
     [],
     ''## Early Progress'',
     ''- [Key decisions and work done in the prefix]'',
     [],
     ''## Context for Suffix'',
     ''- [Information needed to understand the retained recent work]'',
     [],
     ''Be concise. Focus on the context needed to understand the kept suffix.'']\<close>

definition branch_summary_preamble :: string where
  \<open>branch_summary_preamble = text_lines [
     ''The user explored a different conversation branch before returning here.'',
     ''Summary of that exploration:'',
     [],
     []]\<close>

definition branch_summary_prompt :: string where
  \<open>branch_summary_prompt = text_lines [
     ''Create a structured summary of this conversation branch for context when returning later.'',
     [],
     ''Use this EXACT format:'',
     [],
     ''## Goal'',
     ''[What was the user trying to accomplish in this branch?]'',
     [],
     ''## Constraints & Preferences'',
     ''- [Any constraints, preferences, or requirements mentioned]'',
     ''- [Or "(none)" if none were mentioned]'',
     [],
     ''## Progress'',
     ''### Done'',
     ''- [x] [Completed tasks/changes]'',
     [],
     ''### In Progress'',
     ''- [ ] [Work that was started but not finished]'',
     [],
     ''### Blocked'',
     ''- [Issues preventing progress, if any]'',
     [],
     ''## Key Decisions'',
     ''- **[Decision]**: [Brief rationale]'',
     [],
     ''## Next Steps'',
     ''1. [What should happen next to continue this work]'',
     [],
     ''Keep each section concise. Preserve exact file paths, function names, and error messages.'']\<close>

end
