(* ===== verification/Compaction.thy ===== *)
theory Compaction
  imports CutPoint Conversation SummaryPrompts SessionContext "HOL-Library.Signed_Division"
begin

text \<open>
  Compaction of a session's active path and the summary of an abandoned branch,
  \<open>internal/agent/runtime/compaction/compaction.go\<close> and \<open>branch_summarization.go\<close>. What a model call
  meets is a \<open>call_env\<close>: the completer, the context's error before the call and whether it has one
  after it, and the clock. \<open>Compact\<close> makes two calls at once for a split turn; each has its own
  environment, so every interleaving is covered.
\<close>

record compaction_settings =
  stEnabled :: bool
  stReserveTokens :: int
  stKeepRecentTokens :: int

definition default_reserve_tokens :: int where
  "default_reserve_tokens = 16384"

definition default_keep_recent_tokens :: int where
  "default_keep_recent_tokens = 20000"

definition default_settings :: compaction_settings where
  "default_settings = \<lparr>stEnabled = True, stReserveTokens = default_reserve_tokens,
     stKeepRecentTokens = default_keep_recent_tokens\<rparr>"

subsection \<open>Errors\<close>

datatype error_code = CodeAborted | CodeSummarizationFailed | CodeInvalidSession | CodeUnknown

text \<open>An error a context or a completer returned; the flag tells that it wraps one of the context's.\<close>

datatype cause = CauseCanceled | CauseDeadline | CauseOther string bool

definition cause_text :: "cause \<Rightarrow> string" where
  "cause_text c =
     (case c of CauseCanceled \<Rightarrow> ''context canceled'' | CauseDeadline \<Rightarrow> ''context deadline exceeded''
      | CauseOther t w \<Rightarrow> t)"

definition is_context_error :: "cause \<Rightarrow> bool" where
  "is_context_error c = (case c of CauseOther t w \<Rightarrow> w | _ \<Rightarrow> True)"

text \<open>A message is text, or text that ends in a quoted value.\<close>

datatype error_text = ErrorText string | ErrorQuoting string string

record operation_error =
  oeCode :: error_code
  oeMessage :: error_text
  oeCause :: "cause option"

definition operation_error :: "error_code \<Rightarrow> error_text \<Rightarrow> cause option \<Rightarrow> operation_error" where
  "operation_error code m c = \<lparr>oeCode = code, oeMessage = m, oeCause = c\<rparr>"

subsection \<open>Token estimates\<close>

record usage_estimate =
  ueTokens :: int
  ueUsageTokens :: int
  ueTrailingTokens :: int
  ueLastUsageIndex :: int
  ueHasUsage :: bool

definition calculate_context_tokens :: "usage \<Rightarrow> int" where
  "calculate_context_tokens u =
     (if usTotalTokens u > 0 then usTotalTokens u
      else usInput u + usOutput u + usCacheRead u + usCacheWrite u)"

definition counts_usage :: "agent_message \<Rightarrow> bool" where
  "counts_usage m =
     (case as_assistant_message m of
        None \<Rightarrow> False
      | Some a \<Rightarrow> amStopReason a \<noteq> StopReasonAborted \<and> amStopReason a \<noteq> StopReasonError \<and>
          calculate_context_tokens (amUsage a) > 0)"

definition estimate_usage :: "message_list \<Rightarrow> usage_estimate" where
  "estimate_usage ms =
     (case last_index counts_usage ms of
        Some i \<Rightarrow>
          (let used = (case as_assistant_message (ms ! i) of
                 Some a \<Rightarrow> calculate_context_tokens (amUsage a) | None \<Rightarrow> 0);
               trailing = sum_message_tokens 0 (drop (Suc i) ms)
           in \<lparr>ueTokens = used + trailing, ueUsageTokens = used, ueTrailingTokens = trailing,
               ueLastUsageIndex = int i, ueHasUsage = True\<rparr>)
      | None \<Rightarrow>
          (let estimated = sum_message_tokens 0 ms
           in \<lparr>ueTokens = estimated, ueUsageTokens = 0, ueTrailingTokens = estimated,
               ueLastUsageIndex = -1, ueHasUsage = False\<rparr>))"

definition should_compact :: "int \<Rightarrow> int \<Rightarrow> compaction_settings \<Rightarrow> bool" where
  "should_compact context_tokens window settings \<longleftrightarrow>
     stEnabled settings \<and> context_tokens > window - stReserveTokens settings"

subsection \<open>The active path\<close>

definition entries_by_id :: "entry list \<Rightarrow> entry_map" where
  "entries_by_id es = fmap_of_list (rev (map (\<lambda>e. (enID e, e)) es))"

function active_walk :: "entry_map \<Rightarrow> string list \<Rightarrow> string \<Rightarrow> entry list \<Rightarrow> operation_error + entry list" where
  "active_walk m seen cur path =
     (if cur = '''' then Inr path
      else if cur \<in> set seen
      then Inl (operation_error CodeInvalidSession (ErrorText ''session active path contains a cycle'') None)
      else (case fmlookup m cur of
              None \<Rightarrow> Inl (operation_error CodeInvalidSession
                (ErrorQuoting ''session active path references unknown entry '' cur) None)
            | Some e \<Rightarrow> active_walk m (cur # seen) (enParentID e) (e # path)))"
  by pat_completeness auto
termination
proof (relation "measure (\<lambda>(m, seen, cur, path). card (fmdom' m - set seen))")
  fix m :: entry_map and seen :: "string list" and cur path e
  assume "cur \<notin> set seen" "fmlookup m cur = Some e"
  then have "cur \<in> fmdom' m - set seen" by (blast intro: fmdom'I)
  then have "fmdom' m - set (cur # seen) \<subset> fmdom' m - set seen" by auto
  then have "card (fmdom' m - set (cur # seen)) < card (fmdom' m - set seen)"
    by (intro psubset_card_mono) simp_all
  then show "((m, cur # seen, enParentID e, e # path), m, seen, cur, path)
      \<in> measure (\<lambda>(m, seen, cur, path). card (fmdom' m - set seen))"
    by simp
qed simp

declare active_walk.simps [simp del]

definition active_path :: "session option \<Rightarrow> operation_error + entry list" where
  "active_path current =
     (case current of
        None \<Rightarrow> Inl (operation_error CodeInvalidSession (ErrorText ''compaction requires a session'') None)
      | Some s \<Rightarrow> if ssLeafID s = '''' then Inr []
          else active_walk (entries_by_id (session_entries s)) [] (ssLeafID s) [])"

subsection \<open>Preparation\<close>

record preparation =
  prFirstKeptEntryID :: string
  prMessages :: message_list
  prTurnPrefix :: message_list
  prSplitTurn :: bool
  prTokensBefore :: int
  prPreviousSummary :: string
  prFileOperations :: file_operations
  prSettings :: compaction_settings

definition message_from_entry :: "entry \<Rightarrow> bool \<Rightarrow> agent_message" where
  "message_from_entry e skip_result =
     (if enType e = EntryMessage \<or> enType e = EntryCustomMessage then
        (if skip_result \<and> enMessage e \<noteq> NilMessage \<and> message_role_of (enMessage e) = Some RoleToolResult
         then NilMessage else enMessage e)
      else if enType e = EntryBranchSummary
      then UserMessage (branch_summary_message (enSummary e) (enTimestamp e))
      else if enType e = EntryCompaction
      then UserMessage (compaction_summary_message (enSummary e) (enTimestamp e))
      else NilMessage)"

definition messages_from_entries :: "entry list \<Rightarrow> nat \<Rightarrow> nat \<Rightarrow> bool \<Rightarrow> message_list" where
  "messages_from_entries es lo hi skip_compaction =
     concat (map (\<lambda>i.
       (if skip_compaction \<and> enType (es ! i) = EntryCompaction then []
        else (let m = message_from_entry (es ! i) False in if m = NilMessage then [] else [m])))
       [lo..<hi])"

definition collect_preparation_files :: "entry list \<Rightarrow> nat \<Rightarrow> nat \<Rightarrow> nat option \<Rightarrow> file_operations" where
  "collect_preparation_files es lo hi previous =
     foldl (\<lambda>ops i.
       extract_file_operations (enMessage (es ! i))
         (if enType (es ! i) = EntryBranchSummary then merge_entry_details ops (es ! i) else ops))
       (case previous of None \<Rightarrow> new_file_operations | Some i \<Rightarrow> merge_entry_details new_file_operations (es ! i))
       [lo..<hi]"

definition boundary_start :: "entry list \<Rightarrow> nat option \<Rightarrow> nat" where
  "boundary_start path previous =
     (case previous of
        None \<Rightarrow> 0
      | Some i \<Rightarrow> (case index_entry path (enFirstKeptEntryID (path ! i)) of Some k \<Rightarrow> k | None \<Rightarrow> i + 1))"

definition prepare_path ::
  "entry list \<Rightarrow> compaction_settings \<Rightarrow> int \<Rightarrow> operation_error + preparation option" where
  "prepare_path path settings tokens_before =
     (if path = [] \<or> enType (last path) = EntryCompaction then Inr None
      else (let previous = last_compaction_index path;
                start = boundary_start path previous;
                cut = find_cut_point path (int start) (int (length path)) (stKeepRecentTokens settings)
        in if cpFirstKept cut \<ge> length path
           then Inl (operation_error CodeInvalidSession
             (ErrorText ''compaction retained entry is outside the active path'') None)
           else if enID (path ! cpFirstKept cut) = ''''
           then Inl (operation_error CodeInvalidSession
             (ErrorText ''compaction retained entry requires an id'') None)
           else (let history_end = (case cpTurnStart cut of Some t \<Rightarrow> if cpSplitTurn cut then t else cpFirstKept cut
                       | None \<Rightarrow> cpFirstKept cut)
             in Inr (Some
               \<lparr>prFirstKeptEntryID = enID (path ! cpFirstKept cut),
                prMessages = messages_from_entries path start history_end True,
                prTurnPrefix = (if cpSplitTurn cut
                  then messages_from_entries path history_end (cpFirstKept cut) True else []),
                prSplitTurn = cpSplitTurn cut,
                prTokensBefore = tokens_before,
                prPreviousSummary = (case previous of None \<Rightarrow> '''' | Some i \<Rightarrow> enSummary (path ! i)),
                prFileOperations = collect_preparation_files path start (cpFirstKept cut) previous,
                prSettings = settings\<rparr>))))"

text \<open>\<open>Prepare\<close>; \<open>None\<close> where the session's context does not come.\<close>

definition prepare :: "session option \<Rightarrow> compaction_settings \<Rightarrow> (operation_error + preparation option) option" where
  "prepare current settings =
     (case active_path current of
        Inl err \<Rightarrow> Some (Inl err)
      | Inr path \<Rightarrow>
          (case prepare_path path settings 0 of
             Inr (Some p) \<Rightarrow>
               map_option (\<lambda>ctx. Inr (Some (p\<lparr>prTokensBefore := ueTokens (estimate_usage (scMessages ctx))\<rparr>)))
                 (case current of None \<Rightarrow> None | Some s \<Rightarrow> build_context s)
           | r \<Rightarrow> Some r))"

subsection \<open>Asking the model\<close>

record model =
  mdProvider :: string
  mdID :: string
  mdBaseURL :: string
  mdContextWindow :: int
  mdMaxTokens :: int

record complete_request =
  cqModel :: model
  cqContext :: llm_context
  cqReasoning :: string
  cqMaxTokens :: int

record call_env =
  ceCompleter :: "(complete_request \<Rightarrow> cause + assistant_message) option"
  ceErrBefore :: "cause option"
  ceErrAfter :: bool
  ceNow :: int

definition enabled_reasoning :: "string \<Rightarrow> string" where
  "enabled_reasoning reasoning = (if reasoning = ''off'' then '''' else reasoning)"

definition output_limit :: "int \<Rightarrow> int \<Rightarrow> int" where
  "output_limit requested model_limit =
     (let r = (if requested < 0 then 0 else requested) in
      if model_limit > 0 \<and> model_limit < r then model_limit else r)"

definition complete_text :: "call_env \<Rightarrow> complete_request \<Rightarrow> string \<Rightarrow> operation_error + string" where
  "complete_text env request operation =
     (case ceCompleter env of
        None \<Rightarrow> Inl (operation_error CodeSummarizationFailed
          (ErrorText (to_lower operation @ '' completer is required'')) None)
      | Some completer \<Rightarrow>
          (case ceErrBefore env of
             Some c \<Rightarrow> Inl (operation_error CodeAborted (ErrorText (cause_text c)) (Some c))
           | None \<Rightarrow>
               (case completer request of
                  Inl c \<Rightarrow>
                    if ceErrAfter env \<or> is_context_error c
                    then Inl (operation_error CodeAborted (ErrorText (cause_text c)) (Some c))
                    else Inl (operation_error CodeSummarizationFailed
                      (ErrorText (operation @ '' failed: '' @ cause_text c)) (Some c))
                | Inr response \<Rightarrow>
                    (case amStopReason response of
                       StopReasonAborted \<Rightarrow>
                         Inl (operation_error CodeAborted
                           (ErrorText (if amErrorMessage response = '''' then operation @ '' aborted''
                              else amErrorMessage response)) None)
                     | StopReasonError \<Rightarrow>
                         Inl (operation_error CodeSummarizationFailed
                           (ErrorText (operation @ '' failed: '' @
                             (if amErrorMessage response = '''' then ''Unknown error''
                              else amErrorMessage response))) None)
                     | _ \<Rightarrow> Inr (assistant_text response)))))"

definition conversation_text :: "message_list \<Rightarrow> string" where
  "conversation_text ms =
     ''<conversation>'' @ newline # serialize_conversation ms @ newline # ''</conversation>'' @ [newline, newline]"

definition prompt_request :: "call_env \<Rightarrow> model \<Rightarrow> string \<Rightarrow> string \<Rightarrow> int \<Rightarrow> complete_request" where
  "prompt_request env m prompt reasoning max_tokens =
     \<lparr>cqModel = m,
      cqContext = \<lparr>lcSystemPrompt = summarization_system_prompt,
        lcMessages = [UserMessage \<lparr>umRole = '''', umContent = [new_text_content prompt], umTimestamp = ceNow env\<rparr>],
        lcTools = []\<rparr>,
      cqReasoning = reasoning, cqMaxTokens = max_tokens\<rparr>"

record summary_options =
  soModel :: model
  soReserveTokens :: int
  soCustomInstructions :: string
  soPreviousSummary :: string
  soReasoning :: string

definition additional_focus :: "string \<Rightarrow> string" where
  "additional_focus instructions =
     (if instructions = '''' then '''' else [newline, newline] @ ''Additional focus: '' @ instructions)"

definition generate_summary :: "call_env \<Rightarrow> message_list \<Rightarrow> summary_options \<Rightarrow> operation_error + string" where
  "generate_summary env ms opts =
     (let base = (if soPreviousSummary opts \<noteq> '''' then update_summary_prompt else summary_prompt) @
            additional_focus (soCustomInstructions opts);
          prompt = conversation_text ms @
            (if soPreviousSummary opts \<noteq> ''''
             then ''<previous-summary>'' @ newline # soPreviousSummary opts @ newline #
               ''</previous-summary>'' @ [newline, newline] else '''') @ base
      in complete_text env
           (prompt_request env (soModel opts) prompt (enabled_reasoning (soReasoning opts))
             (output_limit (soReserveTokens opts * 4 sdiv 5) (mdMaxTokens (soModel opts))))
           ''Summarization'')"

record compact_options =
  coModel :: model
  coCustomInstructions :: string
  coReasoning :: string

definition generate_turn_prefix_summary ::
  "call_env \<Rightarrow> message_list \<Rightarrow> compact_options \<Rightarrow> int \<Rightarrow> operation_error + string" where
  "generate_turn_prefix_summary env ms opts reserve =
     complete_text env
       (prompt_request env (coModel opts) (conversation_text ms @ turn_prefix_summary_prompt)
         (enabled_reasoning (coReasoning opts)) (output_limit (reserve sdiv 2) (mdMaxTokens (coModel opts))))
       ''Turn prefix summarization''"

record compaction_result =
  crSummary :: string
  crFirstKeptEntryID :: string
  crTokensBefore :: int
  crDetails :: summary_details

definition summary_options_of :: "preparation \<Rightarrow> compact_options \<Rightarrow> summary_options" where
  "summary_options_of p opts =
     \<lparr>soModel = coModel opts, soReserveTokens = stReserveTokens (prSettings p),
      soCustomInstructions = coCustomInstructions opts, soPreviousSummary = prPreviousSummary p,
      soReasoning = coReasoning opts\<rparr>"

text \<open>The two calls of a split turn are made at once; the history's error counts first.\<close>

definition compact_summary ::
  "call_env \<Rightarrow> call_env \<Rightarrow> preparation \<Rightarrow> compact_options \<Rightarrow> operation_error + string" where
  "compact_summary history_env prefix_env p opts =
     (if prSplitTurn p \<and> prTurnPrefix p \<noteq> [] then
        (let history = (if prMessages p = [] then Inr ''No prior history.''
               else generate_summary history_env (prMessages p) (summary_options_of p opts));
             prefix = generate_turn_prefix_summary prefix_env (prTurnPrefix p) opts
               (stReserveTokens (prSettings p))
         in case history of
              Inl err \<Rightarrow> Inl err
            | Inr text \<Rightarrow> (case prefix of
                Inl err \<Rightarrow> Inl err
              | Inr turn \<Rightarrow> Inr (text @ [newline, newline] @ ''---'' @ [newline, newline] @
                  ''**Turn Context (split turn):**'' @ [newline, newline] @ turn)))
      else generate_summary history_env (prMessages p) (summary_options_of p opts))"

definition compact ::
  "call_env \<Rightarrow> call_env \<Rightarrow> preparation \<Rightarrow> compact_options \<Rightarrow> operation_error + compaction_result" where
  "compact history_env prefix_env p opts =
     (if prFirstKeptEntryID p = ''''
      then Inl (operation_error CodeInvalidSession (ErrorText ''compaction retained entry requires an id'') None)
      else (case compact_summary history_env prefix_env p opts of
          Inl err \<Rightarrow> Inl err
        | Inr summary \<Rightarrow>
            (let details = compute_file_lists (prFileOperations p) in
             Inr \<lparr>crSummary = summary @ format_file_operations details,
               crFirstKeptEntryID = prFirstKeptEntryID p, crTokensBefore = prTokensBefore p,
               crDetails = details\<rparr>)))"

subsection \<open>The summary of a branch\<close>

definition default_branch_context_window :: int where
  "default_branch_context_window = 128000"

record branch_preparation =
  bpMessages :: message_list
  bpFileOperations :: file_operations
  bpTotalTokens :: int

definition summary_entry :: "entry \<Rightarrow> bool" where
  "summary_entry e \<longleftrightarrow> enType e = EntryCompaction \<or> enType e = EntryBranchSummary"

text \<open>From the newest entry back; the second list is given newest first.\<close>

fun select_branch :: "int \<Rightarrow> entry list \<Rightarrow> message_list \<Rightarrow> file_operations \<Rightarrow> int \<Rightarrow> branch_preparation" where
  "select_branch budget [] ms ops used = \<lparr>bpMessages = ms, bpFileOperations = ops, bpTotalTokens = used\<rparr>"
| "select_branch budget (e # es) ms ops used =
     (let ops' = extract_file_operations (enMessage e) ops; m = message_from_entry e True in
      if m = NilMessage then select_branch budget es ms ops' used
      else (let tokens = estimate_entry_tokens e in
        if budget > 0 \<and> used + tokens > budget then
          (if summary_entry e \<and> used * 10 < budget * 9
           then \<lparr>bpMessages = m # ms, bpFileOperations = ops', bpTotalTokens = used + tokens\<rparr>
           else \<lparr>bpMessages = ms, bpFileOperations = ops', bpTotalTokens = used\<rparr>)
        else select_branch budget es (m # ms) ops' (used + tokens)))"

definition prepare_branch_entries :: "entry list \<Rightarrow> int \<Rightarrow> branch_preparation" where
  "prepare_branch_entries es budget =
     select_branch budget (rev es) []
       (foldl (\<lambda>ops e. if enType e = EntryBranchSummary then merge_entry_details ops e else ops)
         new_file_operations es) 0"

record branch_options =
  boModel :: model
  boCustomInstructions :: string
  boReplaceInstructions :: bool
  boReserveTokens :: int

record branch_result =
  brSummary :: string
  brDetails :: summary_details

definition branch_instructions :: "branch_options \<Rightarrow> string" where
  "branch_instructions opts =
     (if boReplaceInstructions opts \<and> boCustomInstructions opts \<noteq> '''' then boCustomInstructions opts
      else branch_summary_prompt @ additional_focus (boCustomInstructions opts))"

definition generate_branch_summary :: "call_env \<Rightarrow> entry list \<Rightarrow> branch_options \<Rightarrow> operation_error + branch_result" where
  "generate_branch_summary env es opts =
     (let reserve = (if boReserveTokens opts = 0 then default_reserve_tokens else boReserveTokens opts);
          window = (if mdContextWindow (boModel opts) = 0 then default_branch_context_window
            else mdContextWindow (boModel opts));
          p = prepare_branch_entries es (window - reserve)
      in if bpMessages p = []
         then Inr \<lparr>brSummary = ''No content to summarize'', brDetails = \<lparr>sdReadFiles = None, sdModifiedFiles = None\<rparr>\<rparr>
         else (case complete_text env
             (prompt_request env (boModel opts) (conversation_text (bpMessages p) @ branch_instructions opts) '''' 2048)
             ''Branch summary'' of
           Inl err \<Rightarrow> Inl err
         | Inr text \<Rightarrow>
             (let details = compute_file_lists (bpFileOperations p);
                  summary = branch_summary_preamble @ text @ format_file_operations details
              in Inr \<lparr>brSummary = (if summary = '''' then ''No summary generated'' else summary),
                   brDetails = details\<rparr>)))"

end
