(* ===== verification/CompactionContext.thy ===== *)
theory CompactionContext
  imports Compaction
begin

text \<open>
  What a compaction does to a session's context: the active path it walks is the session's own, the
  messages it hands to the model and the messages it keeps are together those of the old context, and
  the new context is the summary followed by the kept ones.
\<close>

subsection \<open>The active path is the session's path\<close>

lemma tree_inv_lookup:
  assumes "tree_inv m order"
  shows "k \<in> set order \<longleftrightarrow> fmlookup m k \<noteq> None"
proof -
  have "set order = fmdom' m" using assms by (simp add: tree_inv_def)
  then show ?thesis by (simp only: fmdom'_lookup)
qed

lemma active_walk_walk_up:
  assumes "tree_inv m order" "cur = '''' \<or> cur \<in> set order"
    "\<forall>x \<in> set seen. cur \<noteq> '''' \<longrightarrow> position order cur < position order x"
  shows "active_walk m seen cur path = Inr (walk_up m seen cur path)"
  using assms(2,3)
proof (induction "if cur = '''' then 0 else Suc (position order cur)" arbitrary: cur seen path
    rule: less_induct)
  case less
  show ?case
  proof (cases "cur = ''''")
    case True
    then show ?thesis by (simp add: active_walk.simps walk_up.simps)
  next
    case False
    with less.prems have cur: "cur \<notin> set seen" "cur \<in> set order" by auto
    then obtain e where e: "fmlookup m cur = Some e"
      using tree_inv_lookup [OF assms(1)] by blast
    have parent: "enParentID e = '''' \<or> enParentID e \<in> set order"
      using tree_invD(3) [OF assms(1) e] by (auto dest: before_in)
    have lt: "enParentID e \<noteq> '''' \<Longrightarrow> position order (enParentID e) < position order cur"
      using tree_invD(3) [OF assms(1) e] before_position assms(1) by (auto simp: tree_inv_def)
    have "active_walk m (cur # seen) (enParentID e) (e # path) = Inr (walk_up m (cur # seen) (enParentID e) (e # path))"
    proof (rule less.hyps)
      show "(if enParentID e = '''' then 0 else Suc (position order (enParentID e)))
          < (if cur = '''' then 0 else Suc (position order cur))" using lt False by auto
      show "\<forall>x \<in> set (cur # seen). enParentID e \<noteq> '''' \<longrightarrow> position order (enParentID e) < position order x"
        using lt less.prems(2) False by fastforce
    qed (rule parent)
    with e cur False show ?thesis
      by (simp add: active_walk.simps [of m seen cur] walk_up.simps [of m seen cur])
  qed
qed

lemma entries_by_id_tree:
  assumes "tree_inv m order"
  shows "entries_by_id (map (\<lambda>k. the (fmlookup m k)) order) = m"
proof (rule fmap_ext)
  fix k
  have "map (\<lambda>e. (enID e, e)) (map (\<lambda>k. the (fmlookup m k)) order) = map (\<lambda>k. (k, the (fmlookup m k))) order"
    using assms by (auto simp: tree_inv_def)
  then have "rev (map (\<lambda>e. (enID e, e)) (map (\<lambda>k. the (fmlookup m k)) order)) =
      map (\<lambda>k. (k, the (fmlookup m k))) (rev order)"
    by (simp only: rev_map)
  then have "fmlookup (entries_by_id (map (\<lambda>k. the (fmlookup m k)) order)) k =
      map_of (map (\<lambda>k. (k, the (fmlookup m k))) (rev order)) k"
    by (simp only: entries_by_id_def fmap_of_list.rep_eq)
  also have "\<dots> = fmlookup m k"
  proof (cases "k \<in> set order")
    case True
    with tree_inv_lookup [OF assms] have "fmlookup m k \<noteq> None" by blast
    with True show ?thesis by (auto simp: map_of_map_restrict restrict_map_def)
  next
    case False
    with tree_inv_lookup [OF assms] have "fmlookup m k = None" by blast
    with False show ?thesis by (auto simp: map_of_map_restrict restrict_map_def)
  qed
  finally show "fmlookup (entries_by_id (map (\<lambda>k. the (fmlookup m k)) order)) k = fmlookup m k" .
qed

lemma active_path_session:
  assumes "session_inv s"
  shows "active_path (Some s) = Inr (session_path s (ssLeafID s))"
proof -
  have t: "tree_inv (ssEntries s) (ssOrder s)" by (rule session_inv_tree [OF assms])
  have "ssLeafID s = '''' \<or> ssLeafID s \<in> set (ssOrder s)"
    using assms t by (auto simp: session_inv_def tree_inv_def)
  then have "active_walk (ssEntries s) [] (ssLeafID s) [] = Inr (walk_up (ssEntries s) [] (ssLeafID s) [])"
    by (intro active_walk_walk_up [OF t]) auto
  with t show ?thesis
    by (simp add: active_path_def session_path_def path_to_leaf_def session_entries_def entries_by_id_tree)
qed

subsection \<open>Messages of a range of the path\<close>

lemma messages_from_entry:
  "(if enType e = EntryCompaction then []
    else (let m = message_from_entry e False in if m = NilMessage then [] else [m])) = map snd (entry_messages e)"
  by (cases "enType e") (auto simp: message_from_entry_def entry_messages_def entry_context_message_def Let_def)

lemma messages_from_entries_eq:
  "messages_from_entries es lo hi True = map snd (concat (map (\<lambda>i. entry_messages (es ! i)) [lo..<hi]))"
  by (simp add: messages_from_entries_def messages_from_entry map_concat comp_def)

definition path_messages :: "entry list \<Rightarrow> nat \<Rightarrow> nat \<Rightarrow> message_list" where
  "path_messages path lo hi = messages_from_entries path lo hi True"

lemma path_messages_append:
  "lo \<le> mid \<Longrightarrow> mid \<le> hi \<Longrightarrow> path_messages path lo hi = path_messages path lo mid @ path_messages path mid hi"
proof -
  assume "lo \<le> mid" "mid \<le> hi"
  then have "[lo..<hi] = [lo..<mid] @ [mid..<hi]" by (metis le_Suc_ex upt_add_eq_append)
  then show ?thesis by (simp add: path_messages_def messages_from_entries_def)
qed

lemma path_messages_drop:
  "lo \<le> length path \<Longrightarrow> map snd (concat (map entry_messages (drop lo path))) = path_messages path lo (length path)"
proof -
  assume "lo \<le> length path"
  then have "drop lo path = map (\<lambda>i. path ! i) [lo..<length path]"
    by (intro nth_equalityI) simp_all
  then show ?thesis by (simp add: path_messages_def messages_from_entries_eq comp_def)
qed

lemma entry_messages_compaction [simp]: "enType e = EntryCompaction \<Longrightarrow> entry_messages e = []"
  by (simp add: entry_messages_def entry_context_message_def)

lemma kept_before_drop:
  "index_entry xs k = Some j \<Longrightarrow> kept_before k False xs = drop j xs"
proof -
  have all: "kept_before k True xs = xs" for xs by (induction xs) simp_all
  show "index_entry xs k = Some j \<Longrightarrow> kept_before k False xs = drop j xs"
    by (induction xs arbitrary: j) (auto simp: index_entry_def all Let_def split: if_splits option.splits)
qed

subsection \<open>Every compaction refers to an entry before it\<close>

definition anchored :: "entry_map \<Rightarrow> bool" where
  "anchored m \<longleftrightarrow> (\<forall>k e. fmlookup m k = Some e \<and> enType e = EntryCompaction \<longrightarrow>
     enFirstKeptEntryID e \<noteq> '''' \<and> index_entry (path_to_leaf m (enParentID e)) (enFirstKeptEntryID e) \<noteq> None)"

lemma anchored_empty: "anchored fmempty"
  by (simp add: anchored_def)

lemma validated_reference:
  "validate_entry e = None \<Longrightarrow> validate_compaction_reference m e = None \<Longrightarrow> enType e = EntryCompaction \<Longrightarrow>
     enFirstKeptEntryID e \<noteq> '''' \<and> index_entry (path_to_leaf m (enParentID e)) (enFirstKeptEntryID e) \<noteq> None"
  using validate_entry_compaction [of e] by (auto simp: validate_compaction_reference_def split: if_splits)

lemma anchored_store:
  assumes "tree_inv m order" "anchored m" "attachable m e" "validate_entry e = None"
    "validate_compaction_reference m e = None"
  shows "anchored (fmupd (enID e) e m)"
  unfolding anchored_def
proof (intro allI impI, elim conjE)
  fix k e' assume e': "fmlookup (fmupd (enID e) e m) k = Some e'" "enType e' = EntryCompaction"
  have "enParentID e' \<noteq> enID e"
  proof (cases "k = enID e")
    case True
    with e' assms(3) show ?thesis by (auto simp: attachable_def)
  next
    case False
    with e' have "fmlookup m k = Some e'" by simp
    from tree_invD(3) [OF assms(1) this] assms(1,3) show ?thesis
      by (auto simp: attachable_def tree_inv_def dest: before_in)
  qed
  note path = path_store_old [OF assms(1,3) this]
  show "enFirstKeptEntryID e' \<noteq> '''' \<and>
      index_entry (path_to_leaf (fmupd (enID e) e m) (enParentID e')) (enFirstKeptEntryID e') \<noteq> None"
  proof (cases "k = enID e")
    case True
    with e' have "e' = e" by simp
    with e'(2) validated_reference [OF assms(4,5)] path show ?thesis by simp
  next
    case False
    with e' have "fmlookup m k = Some e'" by simp
    with assms(2) e'(2) show ?thesis unfolding anchored_def path by blast
  qed
qed

lemma anchored_load_entries:
  "session_inv s \<Longrightarrow> anchored (ssEntries s) \<Longrightarrow> load_entries s es = Inr s' \<Longrightarrow> anchored (ssEntries s')"
proof (induction es arbitrary: s)
  case (Cons e es)
  then obtain s1 where s1: "load_entry s e = Inr s1" "load_entries s1 es = Inr s'" by (auto split: sum.splits)
  note stored = load_entry_Inr [OF s1(1)]
  with Cons.prems have "anchored (ssEntries s1)"
    using anchored_store [of "ssEntries s" "ssOrder s" e] by (simp add: session_inv_def)
  with Cons.IH load_entry_inv [OF Cons.prems(1) s1(1)] s1(2) show ?case by blast
qed simp

lemma anchored_append:
  assumes "session_inv s" "anchored (ssEntries s)" "fresh_ids s gen" "fresh_entry s e0"
    "append_entry s gen now e0 = Inr (s', e)"
  shows "anchored (ssEntries s')"
proof -
  from assms(5) have e: "prepare_entry s gen now e0 = Inr e" "s' = store_entry s e"
    by (auto simp: append_entry_def split: sum.splits)
  have "validate_entry e = None" "validate_compaction_reference (ssEntries s) e = None"
    using prepare_entry_Inr [OF e(1)] by blast+
  from anchored_store [OF session_inv_tree [OF assms(1)] assms(2) prepare_entry_attachable(1) [OF assms(1,3,4) e(1)] this]
  show ?thesis by (simp add: e(2))
qed

lemma index_entry_unique:
  assumes "distinct (map enID es)" "j < length es" "enID (es ! j) = k"
  shows "index_entry es k = Some j"
proof -
  have "k \<in> enID ` set es" using assms(2,3) by force
  then obtain i where i: "index_entry es k = Some i" using index_entry_None [of es k] by blast
  from index_entry_Some [OF i] assms have "i = j"
    by (metis length_map nth_eq_iff_index_eq nth_map)
  with i show ?thesis by simp
qed

lemma last_compaction_anchor:
  assumes "session_inv s" "anchored (ssEntries s)" "last_compaction_index (session_path s leaf) = Some i"
  shows "\<exists>j < i. index_entry (take i (session_path s leaf)) (enFirstKeptEntryID (session_path s leaf ! i)) = Some j \<and>
    index_entry (session_path s leaf) (enFirstKeptEntryID (session_path s leaf ! i)) = Some j \<and>
    enFirstKeptEntryID (session_path s leaf ! i) \<noteq> ''''"
proof -
  let ?path = "session_path s leaf" let ?c = "session_path s leaf ! i"
  from assms(3) have i: "i < length ?path" "enType ?c = EntryCompaction"
    using last_index_Some by (auto simp: last_compaction_index_def)
  then have "?path = take i ?path @ ?c # drop (Suc i) ?path" by (simp add: id_take_nth_drop)
  from session_path_prefix [OF assms(1) this] have
    parent: "session_path s (enParentID ?c) = take i ?path" and "fmlookup (ssEntries s) (enID ?c) = Some ?c" .
  with assms(2) i(2) have "enFirstKeptEntryID ?c \<noteq> ''''"
    "index_entry (path_to_leaf (ssEntries s) (enParentID ?c)) (enFirstKeptEntryID ?c) \<noteq> None"
    unfolding anchored_def by blast+
  then obtain j where j: "index_entry (take i ?path) (enFirstKeptEntryID ?c) = Some j" "enFirstKeptEntryID ?c \<noteq> ''''"
    using parent by (auto simp: session_path_def)
  from index_entry_Some [OF j(1)] i have lt: "j < i" "enID (?path ! j) = enFirstKeptEntryID ?c" by auto
  then have "index_entry ?path (enFirstKeptEntryID ?c) = Some j"
    using i(1) by (intro index_entry_unique session_path_distinct [OF assms(1)]) auto
  with j lt show ?thesis by blast
qed

subsection \<open>What is summarised and what is kept\<close>

definition summary_before :: "entry list \<Rightarrow> message_list" where
  "summary_before path =
     (case last_compaction_index path of
        None \<Rightarrow> []
      | Some i \<Rightarrow> [UserMessage (compaction_summary_message (enSummary (path ! i)) (enTimestamp (path ! i)))])"

lemma context_from_boundary:
  assumes "session_inv s" "anchored (ssEntries s)" "path = session_path s leaf"
  shows "boundary_start path (last_compaction_index path) \<le> length path"
    "map snd (context_messages_of_path path) =
       summary_before path @ path_messages path (boundary_start path (last_compaction_index path)) (length path)"
proof -
  have "boundary_start path (last_compaction_index path) \<le> length path \<and>
    map snd (context_messages_of_path path) =
       summary_before path @ path_messages path (boundary_start path (last_compaction_index path)) (length path)"
  proof (cases "last_compaction_index path")
    case None
    with path_messages_drop [of 0 path] show ?thesis
      by (simp add: boundary_start_def context_messages_of_path_def summary_before_def)
  next
    case (Some i)
    let ?k = "enFirstKeptEntryID (path ! i)"
    from last_compaction_anchor [OF assms(1,2)] Some assms(3) obtain j where
      j: "j < i" "index_entry (take i path) ?k = Some j" "index_entry path ?k = Some j" "?k \<noteq> ''''"
      by metis
    have i: "i < length path" "enType (path ! i) = EntryCompaction"
      using last_index_Some Some by (auto simp: last_compaction_index_def)
    have "drop j path = drop j (take i path) @ (path ! i) # drop (Suc i) path"
      using i(1) j(1) by (metis Cons_nth_drop_Suc append_take_drop_id drop_append diff_is_0_eq' drop0
          length_take less_imp_le min.absorb4)
    then have "concat (map entry_messages (drop j path)) =
        concat (map entry_messages (drop j (take i path) @ drop (Suc i) path))"
      using i(2) by simp
    with path_messages_drop [of j path] Some i(1) j show ?thesis
      by (simp add: boundary_start_def context_messages_of_path_def summary_before_def
          entries_after_compaction_def kept_before_drop Let_def)
  qed
  then show "boundary_start path (last_compaction_index path) \<le> length path"
    "map snd (context_messages_of_path path) =
       summary_before path @ path_messages path (boundary_start path (last_compaction_index path)) (length path)"
    by blast+
qed

lemma find_cut_range:
  assumes "lo < length path" "find_cut_point path (int lo) (int (length path)) keep = cp"
  shows "lo \<le> cpFirstKept cp" "cpFirstKept cp < length path"
    "cpSplitTurn cp \<Longrightarrow> \<exists>t. cpTurnStart cp = Some t \<and> lo \<le> t \<and> t \<le> cpFirstKept cp"
proof -
  have "lo \<le> cpFirstKept cp \<and> cpFirstKept cp < length path"
  proof (cases "valid_cut_points path lo (length path) = []")
    case True
    with assms show ?thesis by (auto simp: find_cut_point_def Let_def)
  next
    case False
    from cut_range [OF assms(1) order_refl False, of keep] candidate_range [OF False, of keep] assms(2)
    show ?thesis by (simp add: cut_of_def)
  qed
  then show "lo \<le> cpFirstKept cp" "cpFirstKept cp < length path" by blast+
  show "cpSplitTurn cp \<Longrightarrow> \<exists>t. cpTurnStart cp = Some t \<and> lo \<le> t \<and> t \<le> cpFirstKept cp"
    using split_turn_start [OF assms(2)] by blast
qed

lemma boundary_before_end:
  assumes "session_inv s" "anchored (ssEntries s)" "path = session_path s leaf" "path \<noteq> []"
  shows "boundary_start path (last_compaction_index path) < length path"
proof (cases "last_compaction_index path")
  case (Some i)
  with last_compaction_anchor [OF assms(1,2)] assms(3) obtain j where
    "j < i" "index_entry path (enFirstKeptEntryID (path ! i)) = Some j" by metis
  moreover have "i < length path" using last_index_Some Some by (auto simp: last_compaction_index_def)
  ultimately show ?thesis using Some by (simp add: boundary_start_def)
qed (use assms(4) in \<open>simp add: boundary_start_def\<close>)

lemma prepare_path_Some:
  assumes "prepare_path path st n = Inr (Some p)" "boundary_start path (last_compaction_index path) < length path"
  shows "\<exists>ck. boundary_start path (last_compaction_index path) \<le> ck \<and> ck < length path \<and>
    ck = cpFirstKept (find_cut_point path (int (boundary_start path (last_compaction_index path)))
      (int (length path)) (stKeepRecentTokens st)) \<and>
    enID (path ! ck) = prFirstKeptEntryID p \<and> prFirstKeptEntryID p \<noteq> '''' \<and>
    prMessages p @ prTurnPrefix p = path_messages path (boundary_start path (last_compaction_index path)) ck"
proof -
  let ?lo = "boundary_start path (last_compaction_index path)"
  define cp where "cp = find_cut_point path (int ?lo) (int (length path)) (stKeepRecentTokens st)"
  note range = find_cut_range [OF assms(2) cp_def [symmetric]]
  have p: "enID (path ! cpFirstKept cp) = prFirstKeptEntryID p" "prFirstKeptEntryID p \<noteq> ''''"
    "prMessages p @ prTurnPrefix p =
       (let e = (case cpTurnStart cp of Some t \<Rightarrow> if cpSplitTurn cp then t else cpFirstKept cp
           | None \<Rightarrow> cpFirstKept cp)
        in path_messages path ?lo e @ (if cpSplitTurn cp then path_messages path e (cpFirstKept cp) else []))"
    using assms(1) unfolding prepare_path_def Let_def cp_def [symmetric]
    by (auto simp: path_messages_def split: if_splits)
  have "prMessages p @ prTurnPrefix p = path_messages path ?lo (cpFirstKept cp)"
  proof (cases "cpSplitTurn cp")
    case True
    with range(3) obtain t where "cpTurnStart cp = Some t" "?lo \<le> t" "t \<le> cpFirstKept cp" by blast
    with p(3) True show ?thesis by (simp add: path_messages_append [of ?lo t "cpFirstKept cp"])
  qed (use p(3) in \<open>simp split: option.splits\<close>)
  with range(1,2) p(1,2) show ?thesis unfolding cp_def by blast
qed

lemma context_after_compaction:
  assumes "session_inv s" "fresh_ids s gen" "path = session_path s (ssLeafID s)" "ck < length path"
    "append_compaction s gen now summary (enID (path ! ck)) tokens details = Inr (s', e)"
  shows "ssLeafID s' = enID e"
    "map snd (context_messages_for_leaf s' (enID e)) =
       UserMessage (compaction_summary_message summary (enTimestamp e)) # path_messages path ck (length path)"
proof -
  let ?e0 = "zero_entry\<lparr>enType := EntryCompaction, enSummary := summary,
       enFirstKeptEntryID := enID (path ! ck), enTokensBefore := tokens, enDetails := details\<rparr>"
  from assms(5) have e: "prepare_entry s gen now ?e0 = Inr e" "s' = store_entry s e"
    by (auto simp: append_compaction_def append_entry_def split: sum.splits)
  have filled: "e = fill_entry s gen now ?e0" using prepare_entry_Inr [OF e(1)] by blast
  then have fields: "enType e = EntryCompaction" "enSummary e = summary" "enParentID e = ssLeafID s"
    "enFirstKeptEntryID e = enID (path ! ck)"
    by (simp_all add: fill_entry_simps)
  have fresh: "fresh_entry s ?e0" by (simp add: fresh_entry_def leaf_known_def)
  note att = prepare_entry_attachable(1) [OF assms(1,2) fresh e(1)]
  have "session_path s' (enID e) = path @ [e]"
    using path_store_new [OF session_inv_tree [OF assms(1)] att] assms(3) fields(3) e(2)
    by (simp add: session_path_def)
  moreover have "last_compaction_index (path @ [e]) = Some (length path)"
    using fields(1) by (simp add: last_compaction_index_def last_index_append)
  moreover have "enID (path ! ck) \<noteq> ''''"
    using prepare_entry_Inr [OF e(1)] validate_entry_compaction fields by metis
  moreover have "index_entry path (enID (path ! ck)) = Some ck"
    using session_path_distinct [OF assms(1)] assms(3,4) by (intro index_entry_unique) auto
  ultimately show "map snd (context_messages_for_leaf s' (enID e)) =
       UserMessage (compaction_summary_message summary (enTimestamp e)) # path_messages path ck (length path)"
    using path_messages_drop [of ck path] assms(4) fields
    by (simp add: context_messages_for_leaf_def context_messages_of_path_def entries_after_compaction_def
        kept_before_drop Let_def)
  show "ssLeafID s' = enID e" using fields(1) e(2) by simp
qed

lemma append_compaction_keeps:
  assumes "session_inv s" "anchored (ssEntries s)" "fresh_ids s gen"
    "append_compaction s gen now summary first tokens details = Inr (s', e)"
  shows "session_inv s' \<and> anchored (ssEntries s')"
proof -
  let ?e0 = "zero_entry\<lparr>enType := EntryCompaction, enSummary := summary,
       enFirstKeptEntryID := first, enTokensBefore := tokens, enDetails := details\<rparr>"
  have "fresh_entry s ?e0" by (simp add: fresh_entry_def leaf_known_def)
  moreover have "append_entry s gen now ?e0 = Inr (s', e)" using assms(4) by (simp add: append_compaction_def)
  ultimately show ?thesis using append_entry_inv [OF assms(1,3)] anchored_append [OF assms(1-3)] by blast
qed

end
