(* ===== verification/FileDetails.thy ===== *)
theory FileDetails
  imports FileOperations
begin

text \<open>
  The file lists of a summary survive being written as JSON and read back, and the next compaction
  computes the same lists from them.
\<close>

subsection \<open>Scanning what is written\<close>

lemma scan_plain: "list_all plain_byte p \<Longrightarrow> scan_bytes (InString, st) p = (InString, st)"
  by (induction p) (auto simp: plain_byte_def code_of_def)

lemma scan_piece: "escape_piece p \<Longrightarrow> scan_bytes (InString, st) p = (InString, st)"
  unfolding escape_piece_def
proof (elim disjE exE conjE)
  fix d1 d2 d3 d4
  assume p: "p = [backslash, CHR ''u'', d1, d2, d3, d4]" "is_hex d1" "is_hex d2" "is_hex d3" "is_hex d4"
  have "CHR ''u'' \<noteq> backslash" "CHR ''u'' \<noteq> quote_byte" by code_simp+
  with p show ?thesis by simp
qed (simp_all add: scan_plain)

lemma piece_scan_string:
  assumes "escape_piece p"
  shows "scan_string (p @ t) = map_option (\<lambda>(a, r). (p @ a, r)) (scan_string t)"
proof -
  have plain: "list_all plain_byte p \<Longrightarrow> scan_string (p @ t) = map_option (\<lambda>(a, r). (p @ a, r)) (scan_string t)" for p
    by (induction p) (auto simp: plain_byte_def option.map_comp comp_def split_def option.map_ident)
  show ?thesis using assms unfolding escape_piece_def
  proof (elim disjE exE conjE)
    fix d1 d2 d3 d4
    assume p: "p = [backslash, CHR ''u'', d1, d2, d3, d4]" "is_hex d1" "is_hex d2" "is_hex d3" "is_hex d4"
    then show ?thesis using hex_plain
      by (auto simp: option.map_comp comp_def split_def)
  qed (auto simp: plain split_def)
qed

lemma escape_string_pieces:
  "scan_bytes (InString, st) (escape_string s) = (InString, st) \<and>
   scan_string (escape_string s @ quote_byte # t) = Some (escape_string s, t)"
proof (induction s rule: escape_string.induct)
  case (1 s)
  show ?case
  proof (cases "s = []")
    case True
    then show ?thesis by (simp add: escape_string.simps)
  next
    case False
    then have p: "escape_piece (rune_escape s)" using rune_escape_piece by (simp add: piece_of_def)
    let ?rest = "escape_string (drop (snd (decode_rune s)) s)"
    have eq: "escape_string s = rune_escape s @ ?rest"
      using False by (subst escape_string.simps) simp
    show ?thesis using "1.IH" [OF False] p
      by (simp add: eq scan_bytes_append scan_piece piece_scan_string)
  qed
qed

lemma scan_bytes_write_string:
  "scan_bytes (scan_step (BeginValue, st) quote_byte) (escape_string s @ quote_byte # t) = scan_bytes (EndValue, st) t"
  using escape_string_pieces [of st s t] by (simp add: begin_value_def scan_bytes_append)

lemma parse_write_string:
  "parse_value (Suc n) (write_string s @ t) = Some (JString (sanitize s), t)"
  using escape_string_pieces [of _ s t] by (simp add: write_string_def unquote_escape)

lemma accepts_append: "accepts q (s @ t) = accepts (scan_bytes q s) t"
  by (simp add: accepts_def scan_bytes_append)

lemma accepts_write_string [simp]:
  "accepts (BeginValue, st) (write_string s @ t) = accepts (EndValue, st) t"
  "accepts (BeginString, st) (write_string s @ t) = accepts (EndValue, st) t"
  "accepts (BeginValueOrEmpty, st) (write_string s @ t) = accepts (EndValue, st) t"
  "accepts (BeginStringOrEmpty, st) (write_string s @ t) = accepts (EndValue, st) t"
proof -
  have body: "accepts (InString, st) (escape_string s @ quote_byte # t) = accepts (EndValue, st) t"
    using escape_string_pieces [of st s t] by (simp add: accepts_append)
  have q: "begin_value quote_byte st = (InString, st)" "begin_string quote_byte st = (InString, st)"
    by (simp_all add: begin_value_def begin_string_def)
  have "quote_byte \<noteq> CHR '']''" "quote_byte \<noteq> CHR ''}''" by simp_all
  with body q show "accepts (BeginValue, st) (write_string s @ t) = accepts (EndValue, st) t"
    "accepts (BeginString, st) (write_string s @ t) = accepts (EndValue, st) t"
    "accepts (BeginValueOrEmpty, st) (write_string s @ t) = accepts (EndValue, st) t"
    "accepts (BeginStringOrEmpty, st) (write_string s @ t) = accepts (EndValue, st) t"
    by (simp_all add: write_string_def)
qed

definition written_elements :: "string list \<Rightarrow> bytes" where
  "written_elements ss = join '','' (map write_string ss) @ '']''"

lemma written_elements_simps [simp]:
  "written_elements [s] = write_string s @ '']''"
  "written_elements (s # s' # ss) = write_string s @ CHR '','' # written_elements (s' # ss)"
  by (simp_all add: written_elements_def)

lemma accepts_elements:
  "accepts (BeginValue, ArrayValue # st) (written_elements (s # ss) @ t) = accepts (EndValue, st) t"
  by (induction ss arbitrary: s) (simp_all add: end_value_def accepts_pop)

lemma accepts_null: "accepts (BeginValue, st) (''null'' @ t) = accepts (EndValue, st) t"
proof -
  have "begin_value (CHR ''n'') st = (InLiteral ''ull'', st)"
  proof -
    have "\<not> is_json_space (CHR ''n'')" "CHR ''n'' \<noteq> quote_byte" "\<not> is_digit (CHR ''n'')" by code_simp+
    then show ?thesis by (simp add: begin_value_def)
  qed
  then show ?thesis by simp
qed

lemma accepts_slice:
  assumes "length st < max_nesting_depth"
  shows "accepts (BeginValue, st) (encode_slice sl @ t) = accepts (EndValue, st) t"
proof (cases sl)
  case None
  with accepts_null show ?thesis by (simp add: encode_slice_def)
next
  case (Some ss)
  have push: "begin_value (CHR ''['') st = (BeginValueOrEmpty, ArrayValue # st)"
    using assms by (simp add: begin_value_def push_state_def)
  show ?thesis
  proof (cases ss)
    case Nil
    with Some push show ?thesis by (simp add: encode_slice_def end_value_def accepts_pop)
  next
    case (Cons s rest)
    have "accepts (BeginValueOrEmpty, ArrayValue # st) (written_elements (s # rest) @ t) =
        accepts (BeginValue, ArrayValue # st) (written_elements (s # rest) @ t)"
      by (cases rest) simp_all
    with Some Cons push accepts_elements [of st s rest t] show ?thesis
      by (simp add: encode_slice_def written_elements_def)
  qed
qed

lemma json_valid_details: "json_valid (encode_details d)"
proof -
  have "length [ObjectValue] < max_nesting_depth" by (simp add: max_nesting_depth_def)
  note slice = accepts_slice [OF this]
  have "begin_value (CHR ''{'') [] = (BeginStringOrEmpty, [ObjectKey])"
    by (simp add: begin_value_def push_state_def max_nesting_depth_def)
  moreover have "accepts (EndTop, []) []" by (simp add: accepts_def)
  ultimately show ?thesis
    by (simp add: json_valid_accepts encode_details_def end_value_def slice pop_state_def)
qed

subsection \<open>Reading it back\<close>

lemma begins_written [simp]: "skip_space (write_string s @ t) = write_string s @ t"
  by (simp add: write_string_def)

lemma skip_elements [simp]: "skip_space (written_elements (s # ss) @ t) = written_elements (s # ss) @ t"
  by (cases ss) simp_all

lemma parse_written_elements:
  "length ss + 2 \<le> n \<Longrightarrow> parse_elements n (written_elements (s # ss) @ t) = Some (map (\<lambda>s. JString (sanitize s)) (s # ss), t)"
proof (induction ss arbitrary: s n)
  case Nil
  then obtain m where "n = Suc (Suc m)" by (metis add_2_eq_Suc' le_Suc_ex list.size(3) plus_nat.add_0 add.commute)
  then show ?case using parse_write_string [of m s "'']'' @ t"] by simp
next
  case (Cons s' ss)
  then obtain m where n: "n = Suc (Suc m)" "length ss + 2 \<le> Suc m"
    by (metis Suc_le_D Suc_le_mono add_Suc length_Cons add_2_eq_Suc')
  with Cons.IH [of "Suc m" s'] parse_write_string [of m s "CHR '','' # written_elements (s' # ss) @ t"]
  show ?case by simp
qed

definition slice_json :: "string list option \<Rightarrow> json" where
  "slice_json sl = (case sl of None \<Rightarrow> JNull | Some ss \<Rightarrow> JArray (map (\<lambda>s. JString (sanitize s)) ss))"

lemma parse_null: "parse_value (Suc n) (''null'' @ t) = Some (JNull, t)"
proof -
  have "CHR ''n'' \<noteq> quote_byte" by code_simp
  then show ?thesis by (simp add: literals_def)
qed

lemma parse_slice:
  assumes "length (slice_list sl) + 3 \<le> n"
  shows "parse_value n (encode_slice sl @ t) = Some (slice_json sl, t)"
proof -
  obtain m where n: "n = Suc m" using assms by (cases n) auto
  show ?thesis
  proof (cases sl)
    case None
    with n parse_null [of m t] show ?thesis by (simp add: encode_slice_def slice_json_def)
  next
    case (Some ss)
    show ?thesis
    proof (cases ss)
      case Nil
      with Some n show ?thesis by (simp add: encode_slice_def slice_json_def)
    next
      case (Cons s rest)
      have first: "\<exists>d r. written_elements (s # rest) @ t = d # r \<and> d \<noteq> CHR '']''"
        by (cases rest) (simp_all add: write_string_def)
      have "parse_elements m (written_elements (s # rest) @ t) =
          Some (map (\<lambda>s. JString (sanitize s)) (s # rest), t)"
        using assms n Some Cons by (intro parse_written_elements) (simp add: slice_list_def)
      with first skip_elements [of s rest t] Some Cons n show ?thesis
        by (auto simp: encode_slice_def slice_json_def written_elements_def)
    qed
  qed
qed

lemma skip_slice [simp]: "skip_space (encode_slice sl @ t) = encode_slice sl @ t"
proof -
  have "\<not> is_json_space (CHR ''n'')" by code_simp
  then show ?thesis by (simp add: encode_slice_def split: option.split)
qed

lemma length_write_string: "2 \<le> length (write_string s)"
  by (simp add: write_string_def)

lemma length_elements: "length ss \<le> length (join '','' (map write_string ss))"
proof (cases "ss = []")
  case False
  have "2 * length ss \<le> sum_list (map length (map write_string ss))"
  proof (induction ss)
    case (Cons s ss)
    then show ?case using length_write_string [of s] by simp
  qed simp
  with False show ?thesis by (simp add: length_join)
qed simp

lemma length_slice: "length (slice_list sl) + 2 \<le> length (encode_slice sl)"
  using length_elements by (simp add: encode_slice_def slice_list_def split: option.split)

lemma sanitize_names:
  "sanitize ''readFiles'' = ''readFiles''" "sanitize ''modifiedFiles'' = ''modifiedFiles''"
  by code_simp+

lemma parse_member:
  assumes "parse_value n v = Some (x, e # t)" "skip_space v = v" "\<not> is_json_space e"
  shows "\<exists>raw. parse_members (Suc n) (write_string k @ CHR '':'' # v) =
    (if e = CHR ''}'' then Some ([(sanitize k, raw, x)], t)
     else if e = CHR '','' then map_option (\<lambda>(ms, r). ((sanitize k, raw, x) # ms, r)) (parse_members n (skip_space t))
     else None)"
proof -
  have "scan_string (escape_string k @ quote_byte # CHR '':'' # v) = Some (escape_string k, CHR '':'' # v)"
    using escape_string_pieces by blast
  with assms show ?thesis
    by (intro exI [of _ "take (length v - length (e # t)) v"])
      (simp add: write_string_def unquote_escape Let_def)
qed

lemma parse_details:
  assumes "length (encode_details d) \<le> n"
  shows "\<exists>raw1 raw2. parse_value n (encode_details d) =
    Some (JObject [(''readFiles'', raw1, slice_json (sdReadFiles d)),
                   (''modifiedFiles'', raw2, slice_json (sdModifiedFiles d))], [])"
proof -
  have long: "length (slice_list (sdReadFiles d)) + length (slice_list (sdModifiedFiles d)) + 13 \<le> n"
    using assms length_slice [of "sdReadFiles d"] length_slice [of "sdModifiedFiles d"]
      length_write_string [of "''readFiles''"] length_write_string [of "''modifiedFiles''"]
    by (simp add: encode_details_def)
  define m where "m = n - 3"
  with long have n: "n = Suc (Suc (Suc m))" by simp
  let ?first = "write_string ''readFiles'' @ CHR '':'' # encode_slice (sdReadFiles d) @ CHR '','' #
      write_string ''modifiedFiles'' @ CHR '':'' # encode_slice (sdModifiedFiles d) @ ''}''"
  let ?second = "write_string ''modifiedFiles'' @ CHR '':'' # encode_slice (sdModifiedFiles d) @ ''}''"
  have "parse_value m (encode_slice (sdModifiedFiles d) @ ''}'') = Some (slice_json (sdModifiedFiles d), ''}'')"
    using long n by (intro parse_slice) simp
  from parse_member [OF this, of "''modifiedFiles''"] sanitize_names obtain raw2 where second:
    "parse_members (Suc m) ?second = Some ([(''modifiedFiles'', raw2, slice_json (sdModifiedFiles d))], [])"
    by (auto simp del: parse_members.simps)
  have "parse_value (Suc m) (encode_slice (sdReadFiles d) @ CHR '','' # ?second) =
      Some (slice_json (sdReadFiles d), CHR '','' # ?second)"
    using long n by (intro parse_slice) simp
  from parse_member [OF this, of "''readFiles''"] sanitize_names second obtain raw1 where first:
    "parse_members (Suc (Suc m)) ?first = Some ([(''readFiles'', raw1, slice_json (sdReadFiles d)),
       (''modifiedFiles'', raw2, slice_json (sdModifiedFiles d))], [])"
    by (auto simp del: parse_members.simps)
  have "encode_details d = CHR ''{'' # ?first" by (simp add: encode_details_def)
  moreover obtain u where "?first = quote_byte # u" by (simp add: write_string_def)
  ultimately have "parse_value n (encode_details d) =
      map_option (\<lambda>(ms, r). (JObject ms, r)) (parse_members (Suc (Suc m)) ?first)"
    by (simp add: n del: parse_members.simps)
  with first show ?thesis by (auto simp del: parse_members.simps)
qed

subsection \<open>The lists of a summary\<close>

definition sanitize_slice :: "string list option \<Rightarrow> string list option" where
  "sanitize_slice sl = map_option (map sanitize) sl"

lemma slice_elements_strings: "slice_elements old (map (\<lambda>s. JString (f s)) ss) = Some (map f ss)"
  by (induction ss arbitrary: old) (simp_all add: string_value_def)

lemma slice_value_json: "\<exists>old. slice_value sl (slice_json v) = Some (old, sanitize_slice v)"
  by (cases v) (auto simp: slice_json_def slice_value_def slice_elements_strings sanitize_slice_def)

lemma field_names:
  "equal_fold ''readFiles'' ''readfiles''" "\<not> equal_fold ''modifiedFiles'' ''readfiles''"
  "equal_fold ''modifiedFiles'' ''modifiedfiles''"
  by code_simp+

lemma decode_encode_details:
  "decode_details (encode_details d) =
     Some \<lparr>sdReadFiles = sanitize_slice (sdReadFiles d), sdModifiedFiles = sanitize_slice (sdModifiedFiles d)\<rparr>"
proof -
  have "skip_space (encode_details d) = encode_details d" by (simp add: encode_details_def)
  then obtain raw1 raw2 where decoded: "decode_json (encode_details d) =
      Some (JObject [(''readFiles'', raw1, slice_json (sdReadFiles d)),
                     (''modifiedFiles'', raw2, slice_json (sdModifiedFiles d))])"
    using parse_details [of d "2 * length (encode_details d)"] json_valid_details [of d]
    by (auto simp: decode_json_def)
  obtain o1 o2 where "slice_value ([], None) (slice_json (sdReadFiles d)) = Some (o1, sanitize_slice (sdReadFiles d))"
    "slice_value ([], None) (slice_json (sdModifiedFiles d)) = Some (o2, sanitize_slice (sdModifiedFiles d))"
    using slice_value_json by blast
  with decoded field_names show ?thesis by (simp add: decode_details_def details_member_def)
qed

text \<open>A path as the code keeps it: trimmed, not empty, and here valid UTF-8.\<close>

definition clean_path :: "string \<Rightarrow> bool" where
  "clean_path p \<longleftrightarrow> trim_space p = p \<and> p \<noteq> '''' \<and> sanitize p = p"

definition all_paths :: "file_operations \<Rightarrow> string set" where
  "all_paths ops = foRead ops \<union> foWritten ops \<union> foEdited ops"

lemma add_paths_clean: "\<forall>p \<in> set ps. clean_path p \<Longrightarrow> foldl add_path target ps = target \<union> set ps"
  by (induction ps arbitrary: target) (auto simp: add_path_def clean_path_def)

lemma sanitize_sorted:
  assumes "\<forall>p \<in> A. clean_path p" "finite A"
  shows "slice_list (sanitize_slice (sorted_slice A)) = sorted_list_of_set A"
proof -
  have "map sanitize xs = xs" if "set xs \<subseteq> A" for xs
    using that assms(1) by (induction xs) (auto simp: clean_path_def)
  then show ?thesis using assms(2) by (simp add: sorted_slice_def slice_list_def sanitize_slice_def)
qed

lemma file_lists_merged:
  assumes "finite (all_paths ops)" "\<forall>p \<in> all_paths ops. clean_path p"
    "enDetails e = encode_details (compute_file_lists ops)"
  shows "merge_entry_details new_file_operations e =
    \<lparr>foRead = foRead ops - (foWritten ops \<union> foEdited ops), foWritten = {}, foEdited = foWritten ops \<union> foEdited ops\<rparr>"
proof -
  let ?m = "foWritten ops \<union> foEdited ops" and ?r = "foRead ops - (foWritten ops \<union> foEdited ops)"
  have fin: "finite ?m" "finite ?r" using assms(1) by (simp_all add: all_paths_def)
  have clean: "\<forall>p \<in> ?m. clean_path p" "\<forall>p \<in> ?r. clean_path p" using assms(2) by (auto simp: all_paths_def)
  have lists: "slice_list (sanitize_slice (sorted_slice ?r)) = sorted_list_of_set ?r"
    "slice_list (sanitize_slice (sorted_slice ?m)) = sorted_list_of_set ?m"
    using fin clean by (simp_all only: sanitize_sorted)
  have "encode_details d \<noteq> []" for d by (simp add: encode_details_def)
  with assms(3) lists fin clean show ?thesis
    by (simp add: merge_entry_details_def decode_encode_details merge_summary_details_def compute_file_lists_def
        Let_def new_file_operations_def add_paths_clean)
qed

text \<open>What is added to the operations is trimmed and not empty.\<close>

lemma strip_prefix_None_prefix: "strip_one ps s = None \<Longrightarrow> s = p @ q \<Longrightarrow> strip_one ps p = None"
  by (auto simp: strip_one_None)

lemma trim_left_id: "strip_one ps s = None \<Longrightarrow> trim_left ps s = s"
  by (cases "length s") (simp_all add: trim_left_def)

lemma trim_space_idem [simp]: "trim_space (trim_space s) = trim_space s"
proof -
  let ?l = "trim_left space_codes s"
  have l: "strip_one space_codes ?l = None" by (rule trim_left_done [OF space_codes_nonempty])
  let ?r = "trim_left (map rev space_codes) (rev ?l)"
  have "[] \<notin> set (map rev space_codes)" using space_codes_nonempty by auto
  then have r: "strip_one (map rev space_codes) ?r = None" by (rule trim_left_done)
  obtain p where "rev ?l = p @ ?r" using trim_left_fuel_suffix unfolding trim_left_def by blast
  then have "?l = rev ?r @ rev p" by (metis rev_append rev_rev_ident)
  with l have "strip_one space_codes (rev ?r) = None" by (rule strip_prefix_None_prefix)
  then show ?thesis using r by (simp add: trim_space_def trim_left_id)
qed

lemma add_path_trimmed: "p \<in> add_path target path \<Longrightarrow> p \<in> target \<or> trim_space p = p \<and> p \<noteq> ''''"
  by (auto simp: add_path_def Let_def split: if_splits)

end
