(* ===== verification/CompactionProperties.thy ===== *)
theory CompactionProperties
  imports CompactionContext FileDetails
begin

text \<open>
  Properties of the compaction of a session: where it cuts, what it hands to the model and what it
  keeps, the file lists it carries on, and the decoding of the JSON documents these come from.
\<close>


definition example_message :: "string \<Rightarrow> string \<Rightarrow> agent_message \<Rightarrow> entry" where
  "example_message k parent m =
     zero_entry\<lparr>enType := EntryMessage, enVersion := 1, enID := k, enParentID := parent, enTimestamp := 1,
       enMessage := m\<rparr>"

definition example_user :: "string \<Rightarrow> agent_message" where
  "example_user text = UserMessage \<lparr>umRole = '''', umContent = [new_text_content text], umTimestamp = 1\<rparr>"

definition example_call :: agent_message where
  "example_call = AssistantMessage \<lparr>amRole = '''',
     amContent = [ToolCallContent \<lparr>ccType = ''toolCall'', ccID = ''c'', ccName = ''read'',
       ccArguments = ''{}'', ccThoughtSignature = ''''\<rparr>],
     amProvider = ''p'', amModel = ''m'', amResponseModel = '''', amResponseID = '''', amUsage = zero_usage,
     amStopReason = StopReasonToolUse, amErrorMessage = '''', amTimestamp = 1\<rparr>"

definition example_result :: agent_message where
  "example_result = ToolResultMessage \<lparr>rmRole = '''', rmToolCallID = ''c'', rmToolName = ''read'',
     rmContent = [new_text_content ''done''], rmDetails = None, rmIsError = False, rmTimestamp = 1\<rparr>"

definition example_path :: "entry list" where
  "example_path = [example_message ''a'' '''' (example_user ''one''), example_message ''b'' ''a'' example_call,
     example_message ''c'' ''b'' example_result, example_message ''d'' ''c'' (example_user ''two'')]"



text \<open>
  A tool result at the end that reaches the budget alone leaves no message to cut at: the first one of
  the range is taken, and nothing but the metadata before it can be summarised.
\<close>

lemma large_result_keeps_all:
  assumes "lo < hi" "hi \<le> length es" "valid_cut_points es lo hi \<noteq> []"
    "budget_index es keep 0 lo hi = Some i" "\<forall>c \<in> set (valid_cut_points es lo hi). c < i"
  shows "cut_of es lo hi keep \<le> hd (valid_cut_points es lo hi)"
proof -
  have "find (\<lambda>c. c \<ge> i) (valid_cut_points es lo hi) = None"
    using assms(5) by (auto simp: find_None_iff)
  then have "candidate_of es lo hi keep = hd (valid_cut_points es lo hi)"
    using assms(4) by (simp add: candidate_of_def cut_candidate_def)
  with cut_range(2) [OF assms(1-3), of keep] show ?thesis by simp
qed

text \<open>
  C36. A prepared compaction splits the session's context: the summary of the compaction before it, the
  messages it hands to the model, the prefix of the split turn and the messages it keeps are together
  the old context, in order; once the compaction is appended, the new context is its summary followed
  by exactly the kept messages, and the session's invariants hold.
\<close>

theorem compaction_splits_context:
  assumes "session_inv s" "anchored (ssEntries s)" "fresh_ids s gen"
    "prepare (Some s) settings = Some (Inr (Some p))"
    "append_compaction s gen now summary (prFirstKeptEntryID p) tokens details = Inr (s', e)"
  shows "\<exists>kept.
    map snd (context_messages_for_leaf s (ssLeafID s)) =
      summary_before (session_path s (ssLeafID s)) @ prMessages p @ prTurnPrefix p @ kept \<and>
    map snd (context_messages_for_leaf s' (ssLeafID s')) =
      UserMessage (compaction_summary_message summary (enTimestamp e)) # kept \<and>
    session_inv s' \<and> anchored (ssEntries s')"
proof -
  let ?path = "session_path s (ssLeafID s)"
  let ?lo = "boundary_start ?path (last_compaction_index ?path)"
  obtain q where q: "prepare_path ?path settings 0 = Inr (Some q)"
    "prFirstKeptEntryID p = prFirstKeptEntryID q" "prMessages p = prMessages q" "prTurnPrefix p = prTurnPrefix q"
    using assms(4) active_path_session [OF assms(1)] by (auto simp: prepare_def split: sum.splits option.splits)
  have "?path \<noteq> []" using q(1) by (auto simp: prepare_path_def)
  from prepare_path_Some [OF q(1) boundary_before_end [OF assms(1,2) refl this]] obtain k where
    k: "?lo \<le> k" "k < length ?path" "enID (?path ! k) = prFirstKeptEntryID p"
      "prMessages p @ prTurnPrefix p = path_messages ?path ?lo k"
    using q by auto
  have "map snd (context_messages_for_leaf s (ssLeafID s)) =
      summary_before ?path @ prMessages p @ prTurnPrefix p @ path_messages ?path k (length ?path)"
    using context_from_boundary [OF assms(1,2) refl] k path_messages_append [of ?lo k "length ?path" ?path]
    by (simp add: context_messages_for_leaf_def)
  moreover have append: "append_compaction s gen now summary (enID (?path ! k)) tokens details = Inr (s', e)"
    using assms(5) k(3) by simp
  note context_after_compaction [OF assms(1,3) refl k(2) append]
  moreover have "session_inv s'" "anchored (ssEntries s')"
    using append_compaction_keeps [OF assms(1-3) append] by blast+
  ultimately show ?thesis by (intro exI [of _ "path_messages ?path k (length ?path)"]) simp
qed

definition example_session :: session where
  "example_session = (case load_entries (empty_session ''s'') example_path of
     Inr s \<Rightarrow> s | Inl err \<Rightarrow> empty_session ''s'')"

lemma example_load: "load_entries (empty_session ''s'') example_path = Inr example_session"
proof -
  have "(case load_entries (empty_session ''s'') example_path of Inr s \<Rightarrow> True | Inl err \<Rightarrow> False)"
    by code_simp
  then show ?thesis by (simp add: example_session_def split: sum.splits)
qed

definition example_settings :: compaction_settings where
  "example_settings = \<lparr>stEnabled = True, stReserveTokens = 0, stKeepRecentTokens = 1\<rparr>"

lemma example_invariants:
  "session_inv example_session" "anchored (ssEntries example_session)" "fresh_ids example_session (\<lambda>n. ''new'')"
proof -
  show inv: "session_inv example_session" by (rule load_entries_inv [OF session_inv_empty example_load])
  show "anchored (ssEntries example_session)"
    by (rule anchored_load_entries [OF session_inv_empty _ example_load])
      (simp add: empty_session_def anchored_empty)
  have "fmlookup (ssEntries example_session) ''new'' = None" by code_simp
  then show "fresh_ids example_session (\<lambda>n. ''new'')" by (simp add: fresh_ids_def fmdom'_lookup)
qed

lemma compaction_splits_context_witness:
  "\<exists>p s' e kept.
    prepare (Some example_session) example_settings = Some (Inr (Some p)) \<and>
    append_compaction example_session (\<lambda>n. ''new'') 5 ''sum'' (prFirstKeptEntryID p) 0 [] = Inr (s', e) \<and>
    map snd (context_messages_for_leaf example_session (ssLeafID example_session)) =
      summary_before (session_path example_session (ssLeafID example_session)) @ prMessages p @ prTurnPrefix p @ kept \<and>
    map snd (context_messages_for_leaf s' (ssLeafID s')) =
      UserMessage (compaction_summary_message ''sum'' (enTimestamp e)) # kept"
proof -
  have "(case prepare (Some example_session) example_settings of
      Some (Inr (Some p)) \<Rightarrow> prFirstKeptEntryID p = ''d'' | _ \<Rightarrow> False)"
    by code_simp
  then obtain p where p: "prepare (Some example_session) example_settings = Some (Inr (Some p))"
    "prFirstKeptEntryID p = ''d''"
    by (auto split: option.splits sum.splits)
  have "(case append_compaction example_session (\<lambda>n. ''new'') 5 ''sum'' ''d'' 0 [] of
      Inr _ \<Rightarrow> True | Inl _ \<Rightarrow> False)"
    by code_simp
  then obtain s' e where e: "append_compaction example_session (\<lambda>n. ''new'') 5 ''sum'' (prFirstKeptEntryID p) 0 [] = Inr (s', e)"
    using p(2) by (auto split: sum.splits)
  from compaction_splits_context [OF example_invariants p(1) e] obtain kept where k:
    "map snd (context_messages_for_leaf example_session (ssLeafID example_session)) =
      summary_before (session_path example_session (ssLeafID example_session)) @ prMessages p @ prTurnPrefix p @ kept"
    "map snd (context_messages_for_leaf s' (ssLeafID s')) =
      UserMessage (compaction_summary_message ''sum'' (enTimestamp e)) # kept"
    by (elim exE conjE) (rule that)
  show ?thesis
    by (rule exI [of _ p], rule exI [of _ s'], rule exI [of _ e], rule exI [of _ kept]) (intro conjI p(1) e k)
qed

text \<open>
  C37. The file lists of a compaction survive their encoding: the next compaction, which starts from
  the details the entry carries, computes the same lists of files read and files changed. Paths are
  trimmed, not empty and valid UTF-8.
\<close>

theorem file_lists_survive:
  assumes "finite (all_paths ops)" "\<forall>p \<in> all_paths ops. clean_path p"
    "enDetails e = encode_details (compute_file_lists ops)"
  shows "compute_file_lists (merge_entry_details new_file_operations e) = compute_file_lists ops"
  by (simp add: file_lists_merged [OF assms] compute_file_lists_def Let_def)

lemma file_lists_survive_witness:
  "compute_file_lists (merge_entry_details new_file_operations
     (zero_entry\<lparr>enDetails := encode_details (compute_file_lists
        \<lparr>foRead = {''a.go'', ''b.go''}, foWritten = {''b.go''}, foEdited = {}\<rparr>)\<rparr>)) =
   \<lparr>sdReadFiles = Some [''a.go''], sdModifiedFiles = Some [''b.go'']\<rparr>"
proof -
  let ?ops = "\<lparr>foRead = {''a.go'', ''b.go''}, foWritten = {''b.go''}, foEdited = {}\<rparr>"
  have "clean_path ''a.go''" "clean_path ''b.go''" by code_simp+
  then have "compute_file_lists (merge_entry_details new_file_operations
      (zero_entry\<lparr>enDetails := encode_details (compute_file_lists ?ops)\<rparr>)) = compute_file_lists ?ops"
    by (intro file_lists_survive) (auto simp: all_paths_def)
  also have "\<dots> = \<lparr>sdReadFiles = Some [''a.go''], sdModifiedFiles = Some [''b.go'']\<rparr>" by code_simp
  finally show ?thesis .
qed



end
