(* ===== verification/Repository.thy ===== *)
theory Repository
  imports SessionReload
begin

text \<open>
  The session repository, \<open>internal/agent/runtime/session/repository.go\<close>, on the file storage of
  \<open>jsonl_storage.go\<close>. The repository's lock is held only at the start and at the end of an
  operation and released around the storage call between them, so each operation is the functions of
  its locked parts. A session object is a handle into a heap. The storage keeps for each id the
  entries of its file, one per line; what the operating system does is an outcome of each call. The
  JSON text of a line is not modelled.
\<close>

subsection \<open>File storage\<close>

definition max_session_id_length :: nat where
  "max_session_id_length = 128"

definition id_char :: "char \<Rightarrow> bool" where
  "id_char c \<longleftrightarrow> (97 \<le> (of_char c :: nat) \<and> (of_char c :: nat) \<le> 122) \<or>
     (48 \<le> (of_char c :: nat) \<and> (of_char c :: nat) \<le> 57) \<or> c = CHR ''_'' \<or> c = CHR ''-''"

definition valid_session_id :: "string \<Rightarrow> bool" where
  "valid_session_id k \<longleftrightarrow> k \<noteq> '''' \<and> length k \<le> max_session_id_length \<and> list_all id_char k"

text \<open>What a storage call returns; an uncertain commit took effect but was not synced.\<close>

datatype store_error =
    InvalidSessionID
  | FileExists
  | CommitUncertain
  | CorruptHistory entry_error
  | OsError string

datatype os_outcome = OsOk | OsFails string | OsUncertain

type_synonym files = "(string, entry list) fmap"

definition commit_error :: "os_outcome \<Rightarrow> store_error option" where
  "commit_error os = (case os of OsUncertain \<Rightarrow> Some CommitUncertain | _ \<Rightarrow> None)"

definition file_create :: "files \<Rightarrow> string \<Rightarrow> entry list \<Rightarrow> os_outcome \<Rightarrow> store_error option \<times> files" where
  "file_create fs k es os =
     (if \<not> valid_session_id k then (Some InvalidSessionID, fs)
      else (case os of
          OsFails m \<Rightarrow> (Some (OsError m), fs)
        | _ \<Rightarrow> if fmlookup fs k \<noteq> None then (Some FileExists, fs)
            else (commit_error os, fmupd k es fs)))"

text \<open>The file is copied, when there is one, and the entry written after it.\<close>

definition file_append :: "files \<Rightarrow> string \<Rightarrow> entry \<Rightarrow> os_outcome \<Rightarrow> store_error option \<times> files" where
  "file_append fs k e os =
     (if \<not> valid_session_id k then (Some InvalidSessionID, fs)
      else (case os of
          OsFails m \<Rightarrow> (Some (OsError m), fs)
        | _ \<Rightarrow> (commit_error os,
            fmupd k ((case fmlookup fs k of None \<Rightarrow> [] | Some es \<Rightarrow> es) @ [e]) fs)))"

definition decode_entries :: "string \<Rightarrow> entry list \<Rightarrow> store_error + entry list" where
  "decode_entries k es =
     (case load_entries (empty_session k) es of
        Inl err \<Rightarrow> Inl (CorruptHistory err)
      | Inr candidate \<Rightarrow> (case validate_loaded_history candidate of
          Some err \<Rightarrow> Inl (CorruptHistory err) | None \<Rightarrow> Inr es))"

definition file_load :: "files \<Rightarrow> string \<Rightarrow> os_outcome \<Rightarrow> store_error + entry list option" where
  "file_load fs k os =
     (if \<not> valid_session_id k then Inl InvalidSessionID
      else (case os of
          OsFails m \<Rightarrow> Inl (OsError m)
        | _ \<Rightarrow> (case fmlookup fs k of
            None \<Rightarrow> Inr None
          | Some es \<Rightarrow> (case decode_entries k es of Inl err \<Rightarrow> Inl err | Inr es \<Rightarrow> Inr (Some es)))))"

definition file_delete :: "files \<Rightarrow> string \<Rightarrow> os_outcome \<Rightarrow> (bool \<times> store_error option) \<times> files" where
  "file_delete fs k os =
     (if \<not> valid_session_id k then ((False, Some InvalidSessionID), fs)
      else (case os of
          OsFails m \<Rightarrow> ((False, Some (OsError m)), fs)
        | _ \<Rightarrow> if fmlookup fs k = None then ((False, None), fs)
            else ((True, commit_error os), fmdrop k fs)))"

subsection \<open>The repository under its lock\<close>

record repository =
  rpSessions :: "(string, nat) fmap"
  rpCreating :: "string set"
  rpDeleting :: "(string, nat option) fmap"

datatype repo_error =
    ErrSessionExists string
  | ErrSessionCreating string
  | ErrSessionDeleting string
  | ErrSessionMismatch string
  | ErrNotExist string
  | ErrTargetNotKnown
  | ErrEntry entry_error
  | ErrStorage store_error

definition new_repository :: repository where
  "new_repository = \<lparr>rpSessions = fmempty, rpCreating = {}, rpDeleting = fmempty\<rparr>"

text \<open>\<open>CreateSession\<close> up to the storage call; the flag tells whether there is one to make.\<close>

definition create_begin :: "repository \<Rightarrow> string \<Rightarrow> nat \<Rightarrow> repo_error + (repository \<times> bool)" where
  "create_begin r k h =
     (if fmlookup (rpDeleting r) k \<noteq> None then Inl (ErrSessionDeleting k)
      else (case fmlookup (rpSessions r) k of
          Some h' \<Rightarrow> if h' = h then Inr (r, False) else Inl (ErrSessionExists k)
        | None \<Rightarrow> if k \<in> rpCreating r then Inl (ErrSessionExists k)
            else Inr (r\<lparr>rpCreating := insert k (rpCreating r)\<rparr>, True)))"

definition create_error :: "string \<Rightarrow> store_error option \<Rightarrow> repo_error option" where
  "create_error k err =
     (case err of
        None \<Rightarrow> None | Some CommitUncertain \<Rightarrow> None
      | Some FileExists \<Rightarrow> Some (ErrSessionExists k)
      | Some e \<Rightarrow> Some (ErrStorage e))"

definition create_end ::
  "repository \<Rightarrow> string \<Rightarrow> nat \<Rightarrow> store_error option \<Rightarrow> repo_error option \<times> repository" where
  "create_end r k h err =
     (let e = create_error k err; r' = r\<lparr>rpCreating := rpCreating r - {k}\<rparr> in
      (e, if e = None then r'\<lparr>rpSessions := fmupd k h (rpSessions r)\<rparr> else r'))"

definition repo_get :: "repository \<Rightarrow> string \<Rightarrow> nat option" where
  "repo_get r k = fmlookup (rpSessions r) k"

text \<open>\<open>Load\<close> before the storage is read: an error, the session, or nothing and the storage is read.\<close>

definition load_begin :: "repository \<Rightarrow> string \<Rightarrow> repo_error + nat option" where
  "load_begin r k =
     (if fmlookup (rpDeleting r) k \<noteq> None then Inl (ErrSessionDeleting k)
      else (case fmlookup (rpSessions r) k of
          Some h \<Rightarrow> Inr (Some h)
        | None \<Rightarrow> if k \<in> rpCreating r then Inl (ErrSessionCreating k) else Inr None))"

definition load_end :: "repository \<Rightarrow> string \<Rightarrow> nat \<Rightarrow> (repo_error + nat) \<times> repository" where
  "load_end r k h =
     (case fmlookup (rpSessions r) k of
        Some h' \<Rightarrow> (Inr h', r)
      | None \<Rightarrow>
          if k \<in> rpCreating r then (Inl (ErrSessionCreating k), r)
          else if fmlookup (rpDeleting r) k \<noteq> None then (Inl (ErrSessionDeleting k), r)
          else (Inr h, r\<lparr>rpSessions := fmupd k h (rpSessions r)\<rparr>))"

text \<open>\<open>delete\<close>; the expected session is given by \<open>DeleteSession\<close> only.\<close>

definition delete_begin ::
  "repository \<Rightarrow> string \<Rightarrow> nat option \<Rightarrow> repo_error + (repository \<times> nat option)" where
  "delete_begin r k expected =
     (if k \<in> rpCreating r then Inl (ErrSessionCreating k)
      else if fmlookup (rpDeleting r) k \<noteq> None then Inl (ErrSessionDeleting k)
      else (let cached = fmlookup (rpSessions r) k in
        if expected \<noteq> None \<and> cached \<noteq> expected then Inl (ErrSessionMismatch k)
        else Inr (r\<lparr>rpDeleting := fmupd k cached (rpDeleting r), rpSessions := fmdrop k (rpSessions r)\<rparr>,
                  cached)))"

definition delete_end ::
  "repository \<Rightarrow> string \<Rightarrow> nat option \<Rightarrow> bool \<Rightarrow> store_error option \<Rightarrow> (repo_error + bool) \<times> repository" where
  "delete_end r k cached deleted err =
     (let r' = r\<lparr>rpDeleting := fmdrop k (rpDeleting r)\<rparr> in
      case err of
        None \<Rightarrow> (Inr (cached \<noteq> None \<or> deleted), r')
      | Some CommitUncertain \<Rightarrow> (Inr (cached \<noteq> None \<or> deleted), r')
      | Some e \<Rightarrow> (Inl (ErrStorage e),
          (case cached of
             Some h \<Rightarrow> if fmlookup (rpSessions r) k = None then r'\<lparr>rpSessions := fmupd k h (rpSessions r)\<rparr> else r'
           | None \<Rightarrow> r')))"

text \<open>\<open>List\<close>: the ids whose files are read, and the sessions published from them.\<close>

definition list_candidates :: "repository \<Rightarrow> string list \<Rightarrow> string list" where
  "list_candidates r ids =
     filter (\<lambda>k. fmlookup (rpSessions r) k = None \<and> k \<notin> rpCreating r \<and> fmlookup (rpDeleting r) k = None) ids"

definition list_publish :: "repository \<Rightarrow> (string \<times> nat) list \<Rightarrow> repository" where
  "list_publish r candidates = foldl (\<lambda>r (k, h). snd (load_end r k h)) r candidates"

subsection \<open>Appending\<close>

definition append_candidate ::
  "session \<Rightarrow> (nat \<Rightarrow> string) \<Rightarrow> time \<Rightarrow> entry \<Rightarrow> entry_error + (session \<times> entry)" where
  "append_candidate s gen now e0 =
     (case append_entry s gen now e0 of
        Inl err \<Rightarrow> Inl err
      | Inr (candidate, e) \<Rightarrow> (case validate_loaded_history candidate of
          Some err \<Rightarrow> Inl err | None \<Rightarrow> Inr (candidate, e)))"

definition branch_candidate ::
  "session \<Rightarrow> (nat \<Rightarrow> string) \<Rightarrow> time \<Rightarrow> string \<Rightarrow> string \<Rightarrow> bytes \<Rightarrow> repo_error + (session \<times> entry)" where
  "branch_candidate s gen now leaf summary details =
     (if leaf \<noteq> '''' \<and> fmlookup (ssEntries s) leaf = None then Inl ErrTargetNotKnown
      else (case append_candidate (s\<lparr>ssLeafID := leaf\<rparr>) gen now
          (zero_entry\<lparr>enType := EntryBranchSummary, enSummary := summary, enDetails := details\<rparr>) of
        Inl err \<Rightarrow> Inl (ErrEntry err) | Inr x \<Rightarrow> Inr x))"

text \<open>
  \<open>AppendEntry\<close> on a session, with its lock held from the preparation to the publication: the entry
  is stored first, and the session changes only when the storage has committed it.
\<close>

definition repo_append ::
  "files \<Rightarrow> session \<Rightarrow> (nat \<Rightarrow> string) \<Rightarrow> time \<Rightarrow> entry \<Rightarrow> os_outcome \<Rightarrow>
     (repo_error + entry) \<times> session \<times> files" where
  "repo_append fs s gen now e0 os =
     (case append_candidate s gen now e0 of
        Inl err \<Rightarrow> (Inl (ErrEntry err), s, fs)
      | Inr (candidate, e) \<Rightarrow> (case file_append fs (ssID s) e os of
          (None, fs') \<Rightarrow> (Inr e, publish s candidate, fs')
        | (Some CommitUncertain, fs') \<Rightarrow> (Inr e, publish s candidate, fs')
        | (Some err, fs') \<Rightarrow> (Inl (ErrStorage err), s, fs')))"

definition repo_append_branch ::
  "files \<Rightarrow> session \<Rightarrow> (nat \<Rightarrow> string) \<Rightarrow> time \<Rightarrow> string \<Rightarrow> string \<Rightarrow> bytes \<Rightarrow> os_outcome \<Rightarrow>
     (repo_error + entry) \<times> session \<times> files" where
  "repo_append_branch fs s gen now leaf summary details os =
     (case branch_candidate s gen now leaf summary details of
        Inl err \<Rightarrow> (Inl err, s, fs)
      | Inr (candidate, e) \<Rightarrow> (case file_append fs (ssID s) e os of
          (None, fs') \<Rightarrow> (Inr e, publish s candidate, fs')
        | (Some CommitUncertain, fs') \<Rightarrow> (Inr e, publish s candidate, fs')
        | (Some err, fs') \<Rightarrow> (Inl (ErrStorage err), s, fs')))"

end
