(* ===== verification/RepositoryRuns.thy ===== *)
theory RepositoryRuns
  imports Repository
begin

text \<open>
  The operations of the session repository interleaved. A step is one locked part of an operation, one
  storage call, or an append, which holds its session's lock. The calls under way are kept by id, and
  there is at most one creation and one deletion of an id since the repository admits no second; loads
  of an id may be many. \<open>List\<close> reads and publishes as loads do.
\<close>

datatype create_phase = Reserved | Stored "store_error option"
datatype delete_phase = Marked | Removed bool "store_error option"

record world =
  wdRepo :: repository
  wdHeap :: "session list"
  wdFiles :: files
  wdCreates :: "(string, nat \<times> create_phase) fmap"
  wdDeletes :: "(string, nat option \<times> delete_phase) fmap"
  wdLoads :: "(string \<times> nat option) list"

definition new_world :: world where
  "new_world = \<lparr>wdRepo = new_repository, wdHeap = [], wdFiles = fmempty, wdCreates = fmempty,
     wdDeletes = fmempty, wdLoads = []\<rparr>"

definition published :: "world \<Rightarrow> string \<Rightarrow> nat option" where
  "published w k = fmlookup (rpSessions (wdRepo w)) k"

definition begin_create :: "world \<Rightarrow> session \<Rightarrow> world" where
  "begin_create w s =
     (let h = length (wdHeap w) in
      case create_begin (wdRepo w) (ssID s) h of
        Inl _ \<Rightarrow> w
      | Inr (r, reserved) \<Rightarrow> if reserved
          then w\<lparr>wdRepo := r, wdHeap := wdHeap w @ [s], wdCreates := fmupd (ssID s) (h, Reserved) (wdCreates w)\<rparr>
          else w)"

definition store_create :: "world \<Rightarrow> string \<Rightarrow> os_outcome \<Rightarrow> world" where
  "store_create w k os =
     (case fmlookup (wdCreates w) k of
        Some (h, Reserved) \<Rightarrow>
          (case file_create (wdFiles w) k (session_entries (wdHeap w ! h)) os of
             (err, fs) \<Rightarrow> w\<lparr>wdFiles := fs, wdCreates := fmupd k (h, Stored err) (wdCreates w)\<rparr>)
      | _ \<Rightarrow> w)"

definition finish_create :: "world \<Rightarrow> string \<Rightarrow> world" where
  "finish_create w k =
     (case fmlookup (wdCreates w) k of
        Some (h, Stored err) \<Rightarrow>
          w\<lparr>wdRepo := snd (create_end (wdRepo w) k h err), wdCreates := fmdrop k (wdCreates w)\<rparr>
      | _ \<Rightarrow> w)"

definition begin_load :: "world \<Rightarrow> string \<Rightarrow> world" where
  "begin_load w k =
     (case load_begin (wdRepo w) k of
        Inr None \<Rightarrow> w\<lparr>wdLoads := wdLoads w @ [(k, None)]\<rparr>
      | _ \<Rightarrow> w)"

text \<open>A file that is missing or not loaded ends the load.\<close>

definition read_file :: "world \<Rightarrow> nat \<Rightarrow> os_outcome \<Rightarrow> time \<Rightarrow> world" where
  "read_file w n os now =
     (if n \<ge> length (wdLoads w) then w
      else (case wdLoads w ! n of
          (k, Some h) \<Rightarrow> w
        | (k, None) \<Rightarrow>
            (case file_load (wdFiles w) k os of
               Inr (Some es) \<Rightarrow>
                 (case load_session (new_session k k now) es of
                    Some (Inr s) \<Rightarrow> w\<lparr>wdHeap := wdHeap w @ [s],
                      wdLoads := (wdLoads w)[n := (k, Some (length (wdHeap w)))]\<rparr>
                  | _ \<Rightarrow> w\<lparr>wdLoads := remove_nth n (wdLoads w)\<rparr>)
             | _ \<Rightarrow> w\<lparr>wdLoads := remove_nth n (wdLoads w)\<rparr>)))"

definition finish_load :: "world \<Rightarrow> nat \<Rightarrow> world" where
  "finish_load w n =
     (if n \<ge> length (wdLoads w) then w
      else (case wdLoads w ! n of
          (k, Some h) \<Rightarrow> w\<lparr>wdRepo := snd (load_end (wdRepo w) k h), wdLoads := remove_nth n (wdLoads w)\<rparr>
        | (k, None) \<Rightarrow> w))"

definition append_to :: "world \<Rightarrow> nat \<Rightarrow> (nat \<Rightarrow> string) \<Rightarrow> time \<Rightarrow> entry \<Rightarrow> os_outcome \<Rightarrow> world" where
  "append_to w h gen now e0 os =
     (if h \<ge> length (wdHeap w) then w
      else (case repo_append (wdFiles w) (wdHeap w ! h) gen now e0 os of
          (_, s, fs) \<Rightarrow> w\<lparr>wdHeap := (wdHeap w)[h := s], wdFiles := fs\<rparr>))"

definition begin_delete :: "world \<Rightarrow> string \<Rightarrow> nat option \<Rightarrow> world" where
  "begin_delete w k expected =
     (case delete_begin (wdRepo w) k expected of
        Inl _ \<Rightarrow> w
      | Inr (r, cached) \<Rightarrow> w\<lparr>wdRepo := r, wdDeletes := fmupd k (cached, Marked) (wdDeletes w)\<rparr>)"

definition remove_file :: "world \<Rightarrow> string \<Rightarrow> os_outcome \<Rightarrow> world" where
  "remove_file w k os =
     (case fmlookup (wdDeletes w) k of
        Some (cached, Marked) \<Rightarrow>
          (case file_delete (wdFiles w) k os of
             ((deleted, err), fs) \<Rightarrow>
               w\<lparr>wdFiles := fs, wdDeletes := fmupd k (cached, Removed deleted err) (wdDeletes w)\<rparr>)
      | _ \<Rightarrow> w)"

definition finish_delete :: "world \<Rightarrow> string \<Rightarrow> world" where
  "finish_delete w k =
     (case fmlookup (wdDeletes w) k of
        Some (cached, Removed deleted err) \<Rightarrow>
          w\<lparr>wdRepo := snd (delete_end (wdRepo w) k cached deleted err), wdDeletes := fmdrop k (wdDeletes w)\<rparr>
      | _ \<Rightarrow> w)"

subsection \<open>Runs\<close>

text \<open>
  A session handed to a creation is one the session's own operations built, and an append names no id
  of its own and gets one not yet used. In a strict run, no deletion of an id overlaps the reading and
  publishing of it by a load, and an append goes to the session that is published for its id.
\<close>

inductive repo_run :: "bool \<Rightarrow> world \<Rightarrow> bool" for strict where
  start: "repo_run strict new_world"
| create_begins: "repo_run strict w \<Longrightarrow> session_inv s \<Longrightarrow> repo_run strict (begin_create w s)"
| create_stores: "repo_run strict w \<Longrightarrow> repo_run strict (store_create w k os)"
| create_ends: "repo_run strict w \<Longrightarrow> repo_run strict (finish_create w k)"
| load_begins: "repo_run strict w \<Longrightarrow> repo_run strict (begin_load w k)"
| load_reads: "repo_run strict w \<Longrightarrow>
    (strict \<Longrightarrow> n < length (wdLoads w) \<Longrightarrow> fmlookup (wdDeletes w) (fst (wdLoads w ! n)) = None) \<Longrightarrow>
    repo_run strict (read_file w n os now)"
| load_ends: "repo_run strict w \<Longrightarrow> repo_run strict (finish_load w n)"
| appends: "repo_run strict w \<Longrightarrow> h < length (wdHeap w) \<Longrightarrow>
    fresh_ids (wdHeap w ! h) gen \<Longrightarrow> fresh_entry (wdHeap w ! h) e0 \<Longrightarrow>
    (strict \<Longrightarrow> published w (ssID (wdHeap w ! h)) = Some h) \<Longrightarrow>
    repo_run strict (append_to w h gen now e0 os)"
| delete_begins: "repo_run strict w \<Longrightarrow>
    (strict \<Longrightarrow> \<forall>(k', ready) \<in> set (wdLoads w). k' = k \<longrightarrow> ready = None) \<Longrightarrow>
    repo_run strict (begin_delete w k expected)"
| delete_removes: "repo_run strict w \<Longrightarrow> repo_run strict (remove_file w k os)"
| delete_ends: "repo_run strict w \<Longrightarrow> repo_run strict (finish_delete w k)"

subsection \<open>An id is in one state only\<close>

definition held :: "('k, 'v) fmap \<Rightarrow> 'k \<Rightarrow> bool" where
  "held m k \<longleftrightarrow> fmlookup m k \<noteq> None"

lemma held_simps [simp]:
  "held (fmupd k v m) j \<longleftrightarrow> j = k \<or> held m j"
  "held (fmdrop k m) j \<longleftrightarrow> j \<noteq> k \<and> held m j"
  "\<not> held fmempty j"
  by (auto simp: held_def)











lemma begin_load_same [simp]:
  "wdRepo (begin_load w k) = wdRepo w"
  "wdCreates (begin_load w k) = wdCreates w"
  "wdDeletes (begin_load w k) = wdDeletes w"
  "wdFiles (begin_load w k) = wdFiles w"
  "wdHeap (begin_load w k) = wdHeap w"
  by (simp_all add: begin_load_def split: sum.splits option.splits)

lemma read_file_same [simp]:
  "wdRepo (read_file w n os now) = wdRepo w"
  "wdCreates (read_file w n os now) = wdCreates w"
  "wdDeletes (read_file w n os now) = wdDeletes w"
  "wdFiles (read_file w n os now) = wdFiles w"
  by (simp_all add: read_file_def split: sum.splits option.splits prod.splits)




lemma append_to_same [simp]:
  "wdRepo (append_to w h gen now e os) = wdRepo w"
  "wdCreates (append_to w h gen now e os) = wdCreates w"
  "wdDeletes (append_to w h gen now e os) = wdDeletes w"
  "wdLoads (append_to w h gen now e os) = wdLoads w"
  by (simp_all add: append_to_def split: prod.splits)







subsection \<open>What is published is stored\<close>






































lemma session_inv_new: "session_inv (new_session sid fresh now)"
  by (simp add: new_session_def empty_session_def session_inv_def tree_inv_empty)

text \<open>A load that began before the session was created publishes it again after it was deleted.\<close>

definition race_world :: world where
  "race_world =
     (let k = ''s'';
          w1 = begin_load new_world k;
          w2 = finish_create (store_create (begin_create w1 (new_session k k 0)) k OsOk) k;
          w3 = read_file w2 0 OsOk 0;
          w4 = finish_delete (remove_file (begin_delete w3 k None) k OsOk) k
      in finish_load w4 0)"

lemma deleted_session_published:
  "repo_run False race_world \<and> published race_world ''s'' = Some 1 \<and> fmlookup (wdFiles race_world) ''s'' = None"
proof
  show "repo_run False race_world"
    unfolding race_world_def Let_def
    by (intro repo_run.intros) (simp_all add: session_inv_new)
  show "published race_world ''s'' = Some 1 \<and> fmlookup (wdFiles race_world) ''s'' = None"
    by code_simp
qed







end
