(* ===== verification/HarnessTypes.thy ===== *)
theory HarnessTypes
  imports Repository Agent ToolRunner
begin

text \<open>
  The agent harness, \<open>internal/agent/runtime/agent_harness.go\<close>: one session, the agent rebuilt from it,
  the one run it may have, the messages queued for later and the session writes put off while a run
  has the session. This theory has its state, its tools, the writes and the rebuilding of the agent.

  The agents are a heap since a rebuilt harness may still have its old agent running; a done channel
  is a number, the provider client with its options, the skills, the templates and the two listener
  registries are left out, and what the listeners answer is an argument of the steps that call them.
  \<open>hnTrail\<close> and \<open>hnAccepted\<close> are no fields of the code: the entries written to the session, as they
  were asked for and as they were stored, and the mutations accepted, in order.
\<close>

datatype harness_phase = PhaseIdle | PhaseTurn | PhaseCompaction | PhaseBranchSummary | PhaseRetry

datatype harness_error =
    HeCore go_error
  | HeRepo repo_error
  | HeToolNameRequired
  | HeDuplicateActiveTool string
  | HeUnknownActiveTool string
  | HeDefinitionRequiresName
  | HeDuplicateTool string
  | HeQueuedRequired
  | HeCannotWhileIdle string
  | HeProviderRequired
  | HeModelRequired
  | HeMessageRequired
  | HeInvalidMessage validate_error

datatype write_source = WriteMutation | WriteEvent

record ('l, 'w) harness =
  hnSession :: session
  hnFiles :: files
  hnPhase :: harness_phase
  hnSystemPrompt :: string
  hnTools :: "('l, 'w) agent tool option list"
  hnToolNames :: "string list option"
  hnAllTools :: "string \<rightharpoonup> ('l, 'w) agent tool"
  hnActiveNames :: "string list"
  hnActiveSet :: bool
  hnNextTurn :: message_list
  hnHasHook :: bool
  hnHandler :: 'l
  hnSteeringMode :: queue_mode
  hnFollowUpMode :: queue_mode
  hnSetup :: "('l, 'w) agent_setup"
  hnBefore :: "(before_context \<Rightarrow> (('l, 'w) agent, before_result) io) option"
  hnAfter :: "(after_context \<Rightarrow> (('l, 'w) agent, after_result) io) option"
  hnModel :: string
  hnProvider :: string
  hnReasoning :: string
  hnAgents :: "('l, 'w) agent list"
  hnAgent :: nat
  hnActiveAgent :: "nat option"
  hnRunCancel :: "nat option"
  hnCancelled :: "nat set"
  hnRunDone :: "nat option"
  hnNextDone :: nat
  hnAcceptQueue :: bool
  hnPending :: "entry list"
  hnEvents :: "agent_event list"
  hnTrail :: "(write_source \<times> entry \<times> entry) list"
  hnAccepted :: "entry list"

text \<open>What the harness is compiled with: the schema package and the scheduler of parallel tools.\<close>

record ('l, 'w) harness_env =
  heCompile :: "bytes \<Rightarrow> go_error + validator"
  heSched :: "('l, 'w) agent scheduler"

definition first_non_empty :: "string \<Rightarrow> string \<Rightarrow> string" where
  "first_non_empty a b = (if a \<noteq> '''' then a else b)"

definition compose_system_prompt :: "string \<Rightarrow> string" where
  "compose_system_prompt part = trim_space part"

subsection \<open>Tools and their names\<close>

fun resolve_names_from :: "string set \<Rightarrow> string list \<Rightarrow> (string \<rightharpoonup> 't) \<Rightarrow> harness_error + string list" where
  "resolve_names_from seen [] tools = Inr []"
| "resolve_names_from seen (n # ns) tools =
     (if n = '''' then Inl HeToolNameRequired
      else if n \<in> seen then Inl (HeDuplicateActiveTool n)
      else if tools n = None then Inl (HeUnknownActiveTool n)
      else (case resolve_names_from (insert n seen) ns tools of
              Inl err \<Rightarrow> Inl err | Inr out \<Rightarrow> Inr (n # out)))"

definition resolve_tool_names :: "string list \<Rightarrow> (string \<rightharpoonup> 't) \<Rightarrow> harness_error + string list" where
  "resolve_tool_names ns tools = resolve_names_from {} ns tools"

definition tools_by_name :: "(string \<rightharpoonup> 't) \<Rightarrow> string list \<Rightarrow> 't list" where
  "tools_by_name tools ns = List.map_filter tools ns"

fun index_tools_from ::
  "(string \<rightharpoonup> 's tool) \<Rightarrow> string list \<Rightarrow> 's tool option list \<Rightarrow> harness_error + (string \<rightharpoonup> 's tool) \<times> string list" where
  "index_tools_from indexed names [] = Inr (indexed, names)"
| "index_tools_from indexed names (None # ts) = index_tools_from indexed names ts"
| "index_tools_from indexed names (Some t # ts) =
     (let n = tdName (tlDefinition t) in
      if n = '''' then Inl HeDefinitionRequiresName
      else if indexed n \<noteq> None then Inl (HeDuplicateTool n)
      else index_tools_from (indexed(n \<mapsto> t)) (names @ [n]) ts)"

definition index_tool_list :: "'s tool option list \<Rightarrow> harness_error + (string \<rightharpoonup> 's tool) \<times> string list" where
  "index_tool_list ts = index_tools_from Map.empty [] ts"

definition definition_names :: "'s tool option list \<Rightarrow> string list" where
  "definition_names ts = List.map_filter (map_option (\<lambda>t. tdName (tlDefinition t))) ts"

definition harness_tool_names :: "('l, 'w) harness \<Rightarrow> string list" where
  "harness_tool_names h = definition_names (hnTools h)"

definition effective_active_tool_names :: "('l, 'w) harness \<Rightarrow> harness_error + string list" where
  "effective_active_tool_names h =
     (if hnActiveSet h then resolve_tool_names (hnActiveNames h) (hnAllTools h)
      else (case hnToolNames h of
          Some ns \<Rightarrow> resolve_tool_names ns (hnAllTools h)
        | None \<Rightarrow> resolve_tool_names (harness_tool_names h) (hnAllTools h)))"

definition active_names_for_context :: "('l, 'w) harness \<Rightarrow> session_context \<Rightarrow> harness_error + string list" where
  "active_names_for_context h ctx =
     (if scToolNamesSet ctx then resolve_tool_names (scToolNames ctx) (hnAllTools h)
      else effective_active_tool_names h)"

definition index_harness_tools :: "('l, 'w) harness \<Rightarrow> harness_error option \<times> ('l, 'w) harness" where
  "index_harness_tools h =
     (case index_tool_list (hnTools h) of
        Inl err \<Rightarrow> (Some err, h)
      | Inr (tools, _) \<Rightarrow>
          (let h1 = h\<lparr>hnAllTools := tools\<rparr> in
           case (case hnToolNames h of
                   Some (n # ns) \<Rightarrow> map_sum id Some (resolve_tool_names (n # ns) tools)
                 | other \<Rightarrow> Inr other) of
             Inl err \<Rightarrow> (Some err, h1)
           | Inr names \<Rightarrow>
               (let h2 = h1\<lparr>hnToolNames := names\<rparr> in
                if hnActiveNames h = [] then (None, h2)
                else (case resolve_tool_names (hnActiveNames h) tools of
                    Inl err \<Rightarrow> (Some err, h2)
                  | Inr ns \<Rightarrow> (None, h2\<lparr>hnActiveNames := ns\<rparr>)))))"

subsection \<open>Building the agent\<close>

text \<open>
  \<open>Session.BuildContext\<close>. The climb it may make returns on every sound session, so the second case
  does not arise (\<open>harness_context_returns\<close> below).
\<close>

definition harness_context :: "session \<Rightarrow> session_context" where
  "harness_context s =
     (case build_context s of Some c \<Rightarrow> c | None \<Rightarrow> build_context_for_leaf s (ssLeafID s))"

lemma harness_context_returns: "session_inv s \<Longrightarrow> build_context s = Some (harness_context s)"
  using executable_leaf_returns [of s "ssLeafID s"]
  by (auto simp: harness_context_def build_context_def session_inv_def)

text \<open>
  The agent's \<open>PrepareNextTurn\<close>, which comes back for the harness's lock, is the operation
  \<open>prepare_next_turn\<close> of the harness and no part of the configuration here.
\<close>

definition core_config ::
  "('l, 'w) harness_env \<Rightarrow> ('l, 'w) harness \<Rightarrow> session_context \<Rightarrow> ('l, 'w) agent runner
     \<Rightarrow> ('l, 'w) agent loop_config" where
  "core_config env h ctx runner =
     (suConfig (hnSetup h))\<lparr>cfModel := first_non_empty (scModel ctx) (hnModel h),
        cfProvider := first_non_empty (scProvider ctx) (hnProvider h),
        cfReasoning := first_non_empty (scReasoning ctx) (hnReasoning h),
        cfSessionID := ssID (hnSession h),
        cfRunner := Some (execute_tools (heSched env) (run_ctx_err (hnSetup h)) runner
          (suErrorText (hnSetup h)))\<rparr>"

definition build_core_inputs ::
  "('l, 'w) harness_env \<Rightarrow> ('l, 'w) harness
     \<Rightarrow> harness_error + agent_context \<times> ('l, 'w) agent loop_config" where
  "build_core_inputs env h =
     (let ctx = harness_context (hnSession h) in
      case active_names_for_context h ctx of
        Inl err \<Rightarrow> Inl err
      | Inr names \<Rightarrow>
          (case new_registry (heCompile env) (map Some (tools_by_name (hnAllTools h) names)) of
             Inl err \<Rightarrow> Inl (HeCore err)
           | Inr registry \<Rightarrow>
               (case new_runner registry ExecutionModeUnset (hnBefore h) (hnAfter h) of
                  Inl err \<Rightarrow> Inl (HeCore err)
                | Inr runner \<Rightarrow>
                    Inr (\<lparr>acSystemPrompt = compose_system_prompt (hnSystemPrompt h),
                        acMessages = scMessages ctx, acTools = registry_definitions registry\<rparr>,
                      core_config env h ctx runner))))"

text \<open>
  \<open>NewAgent\<close> on the heap, with the harness's own \<open>handleEvent\<close> listening; the outside world goes on
  from the agent before.
\<close>

definition add_agent ::
  "agent_context \<Rightarrow> ('l, 'w) agent loop_config \<Rightarrow> ('l, 'w) harness \<Rightarrow> nat \<times> ('l, 'w) harness" where
  "add_agent ctx cfg h =
     (length (hnAgents h),
      h\<lparr>hnAgents := hnAgents h @ [snd (agent_listen (Some (hnHandler h))
          (new_agent ctx ((hnSetup h)\<lparr>suConfig := cfg\<rparr>) (hnSteeringMode h) (hnFollowUpMode h)
            (agWorld (hnAgents h ! hnAgent h))))]\<rparr>)"

definition rebuild_agent ::
  "('l, 'w) harness_env \<Rightarrow> ('l, 'w) harness \<Rightarrow> harness_error option \<times> ('l, 'w) harness" where
  "rebuild_agent env h =
     (case build_core_inputs env h of
        Inl err \<Rightarrow> (Some err, h)
      | Inr (ctx, cfg) \<Rightarrow>
          (case add_agent ctx cfg h of (a, h') \<Rightarrow> (None, h'\<lparr>hnAgent := a\<rparr>)))"

subsection \<open>Writing to the session\<close>

text \<open>
  What one \<open>AppendEntry\<close> meets: the error of loading the session if it has one, the ids generated,
  the clock and the operating system. The session loaded is the harness's own, which is the one
  published for its id.
\<close>

record append_input =
  aiLoad :: "repo_error option"
  aiGen :: "nat \<Rightarrow> string"
  aiNow :: time
  aiOs :: os_outcome

definition harness_append ::
  "write_source \<Rightarrow> append_input \<Rightarrow> entry \<Rightarrow> ('l, 'w) harness \<Rightarrow> (repo_error + entry) \<times> ('l, 'w) harness" where
  "harness_append src i e0 h =
     (case aiLoad i of
        Some err \<Rightarrow> (Inl err, h)
      | None \<Rightarrow>
          (case repo_append (hnFiles h) (hnSession h) (aiGen i) (aiNow i) e0 (aiOs i) of
             (Inl err, s, fs) \<Rightarrow> (Inl err, h\<lparr>hnSession := s, hnFiles := fs\<rparr>)
           | (Inr e, s, fs) \<Rightarrow>
               (Inr e, h\<lparr>hnSession := s, hnFiles := fs, hnTrail := hnTrail h @ [(src, e0, e)]\<rparr>)))"

fun flush_from ::
  "(nat \<Rightarrow> append_input) \<Rightarrow> entry list \<Rightarrow> ('l, 'w) harness \<Rightarrow> repo_error option \<times> ('l, 'w) harness" where
  "flush_from ins [] h = (None, h\<lparr>hnPending := []\<rparr>)"
| "flush_from ins (e # es) h =
     (case harness_append WriteMutation (ins 0) e h of
        (Inl err, h') \<Rightarrow> (Some err, h'\<lparr>hnPending := e # es\<rparr>)
      | (Inr _, h') \<Rightarrow> flush_from (\<lambda>n. ins (Suc n)) es h')"

definition flush_pending ::
  "(nat \<Rightarrow> append_input) \<Rightarrow> ('l, 'w) harness \<Rightarrow> harness_error option \<times> ('l, 'w) harness" where
  "flush_pending ins h = (case flush_from ins (hnPending h) h of (err, h') \<Rightarrow> (map_option HeRepo err, h'))"

text \<open>\<open>persistOrQueueSessionMutationLocked\<close>: whether the entry was queued, the error and the state.\<close>

definition persist_or_queue ::
  "(nat \<Rightarrow> append_input) \<Rightarrow> entry \<Rightarrow> ('l, 'w) harness
     \<Rightarrow> (bool \<times> harness_error option) \<times> ('l, 'w) harness" where
  "persist_or_queue ins e h =
     (if hnPhase h \<noteq> PhaseIdle \<or> hnPending h \<noteq> []
      then (let h1 = h\<lparr>hnPending := hnPending h @ [e], hnAccepted := hnAccepted h @ [e]\<rparr> in
            if hnPhase h \<noteq> PhaseIdle then ((True, None), h1)
            else (case flush_pending ins h1 of (err, h2) \<Rightarrow> ((err \<noteq> None, err), h2)))
      else (case harness_append WriteMutation (ins 0) e h of
          (Inl err, h') \<Rightarrow> ((False, Some (HeRepo err)), h')
        | (Inr _, h') \<Rightarrow> ((False, None), h'\<lparr>hnAccepted := hnAccepted h' @ [e]\<rparr>)))"

definition rebuild_from_session ::
  "('l, 'w) harness_env \<Rightarrow> (nat \<Rightarrow> append_input) \<Rightarrow> ('l, 'w) harness
     \<Rightarrow> harness_error option \<times> ('l, 'w) harness" where
  "rebuild_from_session env ins h =
     (case flush_pending ins h of
        (Some err, h') \<Rightarrow> (Some err, h') | (None, h') \<Rightarrow> rebuild_agent env h')"

end
