(* ===== verification/Harness.thy ===== *)
theory Harness
  imports HarnessTypes
begin

text \<open>
  The operations of the agent harness, \<open>internal/agent/runtime/agent_harness.go\<close> and
  \<open>agent_harness_compaction.go\<close>. What happens under one holding of the mutex is one function; a run
  is a chain of such sections with the hook and the agent's own run between them, and \<open>run_stage\<close>
  is where it stands. Errors that are joined are a list, in which no error is the empty list.
\<close>

subsection \<open>Checks\<close>

fun validate_messages :: "message_list \<Rightarrow> harness_error option" where
  "validate_messages [] = None"
| "validate_messages (m # ms) =
     (if m = NilMessage then Some HeMessageRequired
      else (case validate_message m of
              Some e \<Rightarrow> Some (HeInvalidMessage e) | None \<Rightarrow> validate_messages ms))"

definition validate_queued_messages :: "message_list \<Rightarrow> harness_error option" where
  "validate_queued_messages ms = (if ms = [] then Some HeQueuedRequired else validate_messages ms)"

definition can_start_run :: "('l, 'w) harness \<Rightarrow> bool" where
  "can_start_run h \<longleftrightarrow> hnPhase h = PhaseIdle \<and> hnRunDone h = None"

definition opt_list :: "'a option \<Rightarrow> 'a list" where
  "opt_list x = (case x of None \<Rightarrow> [] | Some a \<Rightarrow> [a])"

text \<open>\<open>runCtx.Err()\<close>: the run's own cancellation or the error of its parent.\<close>

definition run_context_err :: "nat \<Rightarrow> go_error option \<Rightarrow> ('l, 'w) harness \<Rightarrow> harness_error option" where
  "run_context_err tok parent h =
     (if tok \<in> hnCancelled h then Some (HeCore ErrContextCanceled) else map_option HeCore parent)"

subsection \<open>A run\<close>

datatype ('l, 'w) run_stage =
    StageHook agent_context "('l, 'w) agent loop_config" nat message_list message_list
  | StageStart nat message_list message_list
  | StageRunning nat message_list
  | StageFinishing nat bool
  | StageDetach
  | StageSettle

definition fail_start :: "bool \<Rightarrow> message_list \<Rightarrow> ('l, 'w) harness \<Rightarrow> ('l, 'w) harness" where
  "fail_start restore queued h =
     h\<lparr>hnNextTurn := (if restore then queued @ hnNextTurn h else hnNextTurn h), hnPhase := PhaseIdle\<rparr>"

definition reserve_run :: "('l, 'w) harness \<Rightarrow> ('l, 'w) harness" where
  "reserve_run h =
     h\<lparr>hnPhase := PhaseTurn, hnActiveAgent := None, hnRunCancel := Some (hnNextDone h),
       hnRunDone := Some (hnNextDone h), hnNextDone := hnNextDone h + 1, hnAcceptQueue := False\<rparr>"

definition preflight ::
  "('l, 'w) harness_env \<Rightarrow> (nat \<Rightarrow> append_input) \<Rightarrow> ('l, 'w) harness \<Rightarrow> harness_error option \<times> ('l, 'w) harness" where
  "preflight env ins h =
     (case flush_pending ins h of
        (Some err, h') \<Rightarrow> (Some err, h')
      | (None, h') \<Rightarrow> if hnPending h \<noteq> [] then rebuild_agent env h' else (None, h'))"

text \<open>\<open>promptLocked\<close> up to the hook: the errors, the stage when a run began, and the state.\<close>

definition prompt_begin ::
  "('l, 'w) harness_env \<Rightarrow> (nat \<Rightarrow> append_input) \<Rightarrow> go_error option \<Rightarrow> message_list \<Rightarrow> ('l, 'w) harness
     \<Rightarrow> harness_error list \<times> ('l, 'w) run_stage option \<times> ('l, 'w) harness" where
  "prompt_begin env ins parent ms h =
     (if \<not> can_start_run h then ([HeCore ErrAgentBusy], None, h)
      else (case validate_messages (hnNextTurn h @ ms) of
          Some err \<Rightarrow> ([err], None, h)
        | None \<Rightarrow>
            (let queued = hnNextTurn h; prompts = queued @ ms in
             case preflight env ins (reserve_run h) of
               (err, h2) \<Rightarrow>
                 (let errs = opt_list err @ opt_list (run_context_err (hnNextDone h) parent h2) in
                  if errs \<noteq> [] then (errs, Some StageDetach, fail_start False queued h2)
                  else if hnHasHook h2
                  then (case build_core_inputs env h2 of
                      Inl err \<Rightarrow> ([err], Some StageDetach, fail_start False queued h2)
                    | Inr (ctx, cfg) \<Rightarrow>
                        ([], Some (StageHook ctx cfg (hnAgent h2) queued prompts), h2\<lparr>hnNextTurn := []\<rparr>))
                  else ([], Some (StageStart (hnAgent h2) queued prompts), h2\<lparr>hnNextTurn := []\<rparr>)))))"

text \<open>What \<open>BeforeAgentStart\<close> answers: its error, its messages and a system prompt.\<close>

record hook_result =
  hrError :: "go_error option"
  hrMessages :: message_list
  hrSystemPrompt :: "string option"

definition prompt_hook ::
  "nat \<Rightarrow> go_error option \<Rightarrow> hook_result \<Rightarrow> agent_context \<Rightarrow> ('l, 'w) agent loop_config \<Rightarrow> nat
     \<Rightarrow> message_list \<Rightarrow> message_list \<Rightarrow> ('l, 'w) harness
     \<Rightarrow> harness_error list \<times> ('l, 'w) run_stage \<times> ('l, 'w) harness" where
  "prompt_hook tok parent r ctx cfg a queued prompts h =
     (let hook_err = (case hrError r of Some e \<Rightarrow> Some (HeCore e) | None \<Rightarrow> validate_messages (hrMessages r));
          errs = opt_list hook_err @ opt_list (run_context_err tok parent h) in
      if errs \<noteq> [] then (errs, StageDetach, fail_start True queued h)
      else (case hrSystemPrompt r of
          None \<Rightarrow> ([], StageStart a queued (prompts @ hrMessages r), h)
        | Some p \<Rightarrow>
            (case add_agent (ctx\<lparr>acSystemPrompt := p\<rparr>) cfg h of
               (a', h') \<Rightarrow> ([], StageStart a' queued (prompts @ hrMessages r), h'))))"

definition prompt_start ::
  "nat \<Rightarrow> go_error option \<Rightarrow> nat \<Rightarrow> message_list \<Rightarrow> message_list \<Rightarrow> ('l, 'w) harness
     \<Rightarrow> harness_error list \<times> ('l, 'w) run_stage \<times> ('l, 'w) harness" where
  "prompt_start tok parent a queued prompts h =
     (case run_context_err tok parent h of
        Some err \<Rightarrow> ([err], StageDetach, fail_start True queued h)
      | None \<Rightarrow> ([], StageRunning a prompts, h\<lparr>hnActiveAgent := Some a, hnAcceptQueue := True\<rparr>))"

definition finish_begin :: "nat \<Rightarrow> nat \<Rightarrow> ('l, 'w) harness \<Rightarrow> ('l, 'w) run_stage \<times> ('l, 'w) harness" where
  "finish_begin tok a h =
     (let owns = (hnActiveAgent h = Some a \<and> hnRunDone h = Some tok) in
      (StageFinishing a owns, if owns then h\<lparr>hnAcceptQueue := False\<rparr> else h))"

definition drain_active_queues :: "('l, 'w) harness \<Rightarrow> ('l, 'w) harness" where
  "drain_active_queues h =
     (let h1 = h\<lparr>hnAcceptQueue := False\<rparr> in
      case hnActiveAgent h of
        None \<Rightarrow> h1
      | Some a \<Rightarrow>
          (case clear_steering_queue (hnAgents h ! a) of
             (ms, ag) \<Rightarrow> (case clear_follow_up_queue ag of
                (fs, ag') \<Rightarrow> h1\<lparr>hnNextTurn := hnNextTurn h @ ms @ fs, hnAgents := (hnAgents h)[a := ag']\<rparr>)))"

definition finish_locked ::
  "('l, 'w) harness_env \<Rightarrow> (nat \<Rightarrow> append_input) \<Rightarrow> bool \<Rightarrow> ('l, 'w) harness
     \<Rightarrow> harness_error option \<times> ('l, 'w) harness" where
  "finish_locked env ins owns h =
     (if \<not> owns then (None, h)
      else (case rebuild_from_session env ins (drain_active_queues h) of
          (err, h') \<Rightarrow> (err, h'\<lparr>hnPhase := PhaseIdle\<rparr>)))"

definition detach_run :: "nat \<Rightarrow> ('l, 'w) harness \<Rightarrow> ('l, 'w) harness" where
  "detach_run tok h =
     (if hnRunDone h = Some tok
      then h\<lparr>hnActiveAgent := None, hnRunCancel := None, hnAcceptQueue := False\<rparr> else h)"

definition harness_settle :: "nat \<Rightarrow> ('l, 'w) harness \<Rightarrow> ('l, 'w) harness" where
  "harness_settle tok h =
     (let h1 = h\<lparr>hnCancelled := insert tok (hnCancelled h)\<rparr> in
      if hnRunDone h = Some tok then h1\<lparr>hnRunDone := None\<rparr> else h1)"

subsection \<open>Queues\<close>

definition enqueue_while_running ::
  "message_list \<Rightarrow> string \<Rightarrow> (message_list \<Rightarrow> ('l, 'w) agent \<Rightarrow> go_error option \<times> ('l, 'w) agent)
     \<Rightarrow> ('l, 'w) harness \<Rightarrow> harness_error option \<times> ('l, 'w) harness" where
  "enqueue_while_running ms operation enqueue h =
     (case validate_queued_messages ms of
        Some err \<Rightarrow> (Some err, h)
      | None \<Rightarrow>
          (case hnActiveAgent h of
             None \<Rightarrow> (Some (HeCannotWhileIdle operation), h)
           | Some a \<Rightarrow>
               if \<not> hnAcceptQueue h then (Some (HeCannotWhileIdle operation), h)
               else (case enqueue ms (hnAgents h ! a) of
                   (err, ag) \<Rightarrow> (map_option HeCore err, h\<lparr>hnAgents := (hnAgents h)[a := ag]\<rparr>))))"

definition harness_steer :: "message_list \<Rightarrow> ('l, 'w) harness \<Rightarrow> harness_error option \<times> ('l, 'w) harness" where
  "harness_steer ms h = enqueue_while_running ms ''steer'' agent_steer h"

definition harness_follow_up :: "message_list \<Rightarrow> ('l, 'w) harness \<Rightarrow> harness_error option \<times> ('l, 'w) harness" where
  "harness_follow_up ms h = enqueue_while_running ms ''follow-up'' agent_follow_up h"

definition next_turn :: "message_list \<Rightarrow> ('l, 'w) harness \<Rightarrow> harness_error option \<times> ('l, 'w) harness" where
  "next_turn ms h =
     (case validate_queued_messages ms of
        Some err \<Rightarrow> (Some err, h)
      | None \<Rightarrow> (None, h\<lparr>hnNextTurn := hnNextTurn h @ ms\<rparr>))"

text \<open>\<open>Abort\<close> up to its wait for the run: what it cleared, and the state.\<close>

definition cancel_active_run :: "('l, 'w) harness \<Rightarrow> ('l, 'w) harness" where
  "cancel_active_run h =
     (case hnRunCancel h of None \<Rightarrow> h | Some tok \<Rightarrow> h\<lparr>hnCancelled := insert tok (hnCancelled h)\<rparr>)"

definition harness_abort :: "('l, 'w) harness \<Rightarrow> (message_list \<times> message_list) \<times> ('l, 'w) harness" where
  "harness_abort h =
     (if hnRunDone h = None then (([], []), h)
      else (case hnActiveAgent h of
          None \<Rightarrow> (([], []), cancel_active_run h)
        | Some a \<Rightarrow>
            (case clear_steering_queue (hnAgents h ! a) of
               (ms, ag) \<Rightarrow> (case clear_follow_up_queue ag of
                  (fs, ag') \<Rightarrow> ((ms, fs), (cancel_active_run h)\<lparr>hnAcceptQueue := False,
                     hnAgents := (hnAgents h)[a := snd (agent_abort ag')]\<rparr>)))))"

end
