(* ===== verification/HarnessSettings.thy ===== *)
theory HarnessSettings
  imports Harness
begin

text \<open>
  The rest of the agent harness: what it does with the events of a run, the settings a caller may
  change at any time, the operations that summarise or move along the session's tree, and how a
  harness is made and refreshed.
\<close>

subsection \<open>Events of the run\<close>

text \<open>
  \<open>handleEvent\<close> up to its listeners. The options a provider request captures at a turn's start are
  not modelled.
\<close>

definition handle_event ::
  "(nat \<Rightarrow> append_input) \<Rightarrow> agent_event \<Rightarrow> ('l, 'w) harness \<Rightarrow> harness_error option \<times> ('l, 'w) harness" where
  "handle_event ins ev h =
     (let h1 = h\<lparr>hnEvents := hnEvents h @ [ev]\<rparr> in
      if evType ev = AgentEventMessageEnd \<and> evMessage ev \<noteq> NilMessage
      then (case harness_append WriteEvent (ins 0)
              (zero_entry\<lparr>enType := EntryMessage, enMessage := evMessage ev\<rparr>) h1 of
          (Inl err, h2) \<Rightarrow> (Some (HeRepo err), h2) | (Inr _, h2) \<Rightarrow> (None, h2))
      else if evType ev = AgentEventAgentEnd
      then (case flush_pending ins (drain_active_queues h1) of
          (Some err, h2) \<Rightarrow> (Some err, h2) | (None, h2) \<Rightarrow> (None, h2\<lparr>hnPhase := PhaseIdle\<rparr>))
      else (None, h1))"

text \<open>After the listeners of a turn's end: the flush, and whether there was something to write.\<close>

definition handle_turn_end ::
  "(nat \<Rightarrow> append_input) \<Rightarrow> ('l, 'w) harness \<Rightarrow> (harness_error option \<times> bool) \<times> ('l, 'w) harness" where
  "handle_turn_end ins h =
     (case flush_pending ins h of (err, h') \<Rightarrow> ((err, hnPending h \<noteq> []), h'))"

text \<open>\<open>prepareNextTurn\<close> with what the caller's own function answers.\<close>

definition merge_turn_update ::
  "('l, 'w) agent turn_update \<Rightarrow> ('l, 'w) agent turn_update \<Rightarrow> ('l, 'w) agent turn_update" where
  "merge_turn_update update user =
     \<lparr>tuContext = (case tuContext user of None \<Rightarrow> tuContext update | c \<Rightarrow> c),
      tuModel = first_non_empty (tuModel user) (tuModel update),
      tuProvider = first_non_empty (tuProvider user) (tuProvider update),
      tuReasoning = first_non_empty (tuReasoning user) (tuReasoning update),
      tuRunner = (case tuRunner user of None \<Rightarrow> tuRunner update | r \<Rightarrow> r)\<rparr>"

definition prepare_next_turn ::
  "('l, 'w) harness_env \<Rightarrow> (nat \<Rightarrow> append_input) \<Rightarrow> (go_error + ('l, 'w) agent turn_update) option
     \<Rightarrow> ('l, 'w) harness \<Rightarrow> (harness_error + ('l, 'w) agent turn_update) \<times> ('l, 'w) harness" where
  "prepare_next_turn env ins user h =
     (case flush_pending ins h of
        (Some err, h') \<Rightarrow> (Inl err, h')
      | (None, h') \<Rightarrow>
          (case build_core_inputs env h' of
             Inl err \<Rightarrow> (Inl err, h')
           | Inr (ctx, cfg) \<Rightarrow>
               (let update = \<lparr>tuContext = Some ctx, tuModel = cfModel cfg, tuProvider = cfProvider cfg,
                      tuReasoning = cfReasoning cfg, tuRunner = cfRunner cfg\<rparr> in
                case user of
                  None \<Rightarrow> (Inr update, h')
                | Some (Inl err) \<Rightarrow> (Inl (HeCore err), h')
                | Some (Inr u) \<Rightarrow> (Inr (merge_turn_update update u), h'))))"

subsection \<open>Settings\<close>

definition rebuild_unless ::
  "('l, 'w) harness_env \<Rightarrow> bool \<Rightarrow> ('l, 'w) harness \<Rightarrow> harness_error option \<times> ('l, 'w) harness" where
  "rebuild_unless env queued h = (if queued then (None, h) else rebuild_agent env h)"

definition harness_append_message ::
  "('l, 'w) harness_env \<Rightarrow> (nat \<Rightarrow> append_input) \<Rightarrow> agent_message \<Rightarrow> ('l, 'w) harness
     \<Rightarrow> harness_error option \<times> ('l, 'w) harness" where
  "harness_append_message env ins m h =
     (if m = NilMessage then (Some HeMessageRequired, h)
      else (case validate_message m of
          Some e \<Rightarrow> (Some (HeInvalidMessage e), h)
        | None \<Rightarrow>
            (case persist_or_queue ins (zero_entry\<lparr>enType := EntryMessage, enMessage := m\<rparr>) h of
               ((queued, Some err), h') \<Rightarrow> (Some err, h')
             | ((queued, None), h') \<Rightarrow> rebuild_unless env queued h')))"

text \<open>
  What the setters share: the entry is written or queued, and unless it was refused the setting
  changes, also when an earlier queued write failed.
\<close>

definition change_setting ::
  "('l, 'w) harness_env \<Rightarrow> (nat \<Rightarrow> append_input) \<Rightarrow> entry \<Rightarrow> (('l, 'w) harness \<Rightarrow> ('l, 'w) harness)
     \<Rightarrow> ('l, 'w) harness \<Rightarrow> harness_error option \<times> ('l, 'w) harness" where
  "change_setting env ins e set_it h =
     (case persist_or_queue ins e h of
        ((False, Some err), h') \<Rightarrow> (Some err, h')
      | ((True, Some err), h') \<Rightarrow> (Some err, set_it h')
      | ((queued, None), h') \<Rightarrow> rebuild_unless env queued (set_it h'))"

definition set_model ::
  "('l, 'w) harness_env \<Rightarrow> (nat \<Rightarrow> append_input) \<Rightarrow> string \<Rightarrow> string \<Rightarrow> ('l, 'w) harness
     \<Rightarrow> harness_error option \<times> ('l, 'w) harness" where
  "set_model env ins provider m h =
     (if provider = '''' then (Some HeProviderRequired, h)
      else if m = '''' then (Some HeModelRequired, h)
      else change_setting env ins (zero_entry\<lparr>enType := EntryModelChange, enProvider := provider, enModel := m\<rparr>)
        (\<lambda>h. h\<lparr>hnProvider := provider, hnModel := m\<rparr>) h)"

definition set_reasoning ::
  "('l, 'w) harness_env \<Rightarrow> (nat \<Rightarrow> append_input) \<Rightarrow> string \<Rightarrow> ('l, 'w) harness
     \<Rightarrow> harness_error option \<times> ('l, 'w) harness" where
  "set_reasoning env ins r0 h =
     (let r = (if r0 = '''' then ''off'' else r0) in
      change_setting env ins (zero_entry\<lparr>enType := EntryThinkingLevelChange, enReasoning := r\<rparr>)
        (\<lambda>h. h\<lparr>hnReasoning := r\<rparr>) h)"

definition set_active_tools ::
  "('l, 'w) harness_env \<Rightarrow> (nat \<Rightarrow> append_input) \<Rightarrow> string list \<Rightarrow> ('l, 'w) harness
     \<Rightarrow> harness_error option \<times> ('l, 'w) harness" where
  "set_active_tools env ins names h =
     (case resolve_tool_names names (hnAllTools h) of
        Inl err \<Rightarrow> (Some err, h)
      | Inr resolved \<Rightarrow>
          (case effective_active_tool_names h of
             Inl err \<Rightarrow> (Some err, h)
           | Inr _ \<Rightarrow>
               change_setting env ins (zero_entry\<lparr>enType := EntryActiveToolsChange, enToolNames := resolved\<rparr>)
                 (\<lambda>h. h\<lparr>hnActiveNames := resolved, hnActiveSet := True\<rparr>) h))"

text \<open>
  \<open>SetTools\<close>. When the write fails and the entry seems still to be queued it is taken back: that is
  when the queue has grown.
\<close>

definition take_back :: "nat \<Rightarrow> bool \<Rightarrow> ('l, 'w) harness \<Rightarrow> ('l, 'w) harness" where
  "take_back pending_count queued h =
     (if queued \<and> length (hnPending h) > pending_count
      then h\<lparr>hnPending := butlast (hnPending h), hnAccepted := butlast (hnAccepted h)\<rparr> else h)"

definition install_tools ::
  "('l, 'w) agent tool option list \<Rightarrow> (string \<rightharpoonup> ('l, 'w) agent tool) \<Rightarrow> string list \<Rightarrow> ('l, 'w) harness
     \<Rightarrow> ('l, 'w) harness" where
  "install_tools tools index names h =
     h\<lparr>hnTools := tools, hnToolNames := None, hnAllTools := index, hnActiveNames := names, hnActiveSet := True\<rparr>"

definition set_tools ::
  "('l, 'w) harness_env \<Rightarrow> (nat \<Rightarrow> append_input) \<Rightarrow> ('l, 'w) agent tool option list \<Rightarrow> string list option
     \<Rightarrow> ('l, 'w) harness \<Rightarrow> harness_error option \<times> ('l, 'w) harness" where
  "set_tools env ins tools active h =
     (case effective_active_tool_names h of
        Inl err \<Rightarrow> (Some err, h)
      | Inr previous \<Rightarrow>
          (case index_tool_list tools of
             Inl err \<Rightarrow> (Some err, h)
           | Inr (index, _) \<Rightarrow>
               (case resolve_tool_names (case active of None \<Rightarrow> previous | Some ns \<Rightarrow> ns) index of
                  Inl err \<Rightarrow> (Some err, h)
                | Inr names \<Rightarrow>
                    (case new_registry (heCompile env) (map Some (tools_by_name index names)) of
                       Inl err \<Rightarrow> (Some (HeCore err), h)
                     | Inr _ \<Rightarrow>
                         (case persist_or_queue ins
                             (zero_entry\<lparr>enType := EntryActiveToolsChange, enToolNames := names\<rparr>) h of
                            ((queued, Some err), h') \<Rightarrow> (Some err, take_back (length (hnPending h)) queued h')
                          | ((queued, None), h') \<Rightarrow>
                              (case rebuild_unless env queued (install_tools tools index names h') of
                                 (Some err, _) \<Rightarrow> (Some err, h')
                               | (None, h'') \<Rightarrow> (None, h'')))))))"

subsection \<open>Summaries and navigation\<close>

record summary_inputs =
  siModel :: string
  siProvider :: string
  siReasoning :: string
  siSessionID :: string

definition begin_summary_operation ::
  "('l, 'w) harness_env \<Rightarrow> (nat \<Rightarrow> append_input) \<Rightarrow> harness_phase \<Rightarrow> ('l, 'w) harness
     \<Rightarrow> (harness_error + summary_inputs) \<times> ('l, 'w) harness" where
  "begin_summary_operation env ins phase h =
     (if \<not> can_start_run h then (Inl (HeCore ErrAgentBusy), h)
      else (case rebuild_from_session env ins (h\<lparr>hnPhase := phase\<rparr>) of
          (Some err, h') \<Rightarrow> (Inl err, h'\<lparr>hnPhase := PhaseIdle\<rparr>)
        | (None, h') \<Rightarrow>
            (let current = harness_context (hnSession h') in
             (Inr \<lparr>siModel = first_non_empty (scModel current) (hnModel h'),
                siProvider = first_non_empty (scProvider current) (hnProvider h'),
                siReasoning = first_non_empty (scReasoning current) (hnReasoning h'),
                siSessionID = ssID (hnSession h')\<rparr>, h'))))"

definition finish_summary_operation ::
  "('l, 'w) harness_env \<Rightarrow> (nat \<Rightarrow> append_input) \<Rightarrow> ('l, 'w) harness
     \<Rightarrow> harness_error option \<times> ('l, 'w) harness" where
  "finish_summary_operation env ins h =
     (case rebuild_from_session env ins h of (err, h') \<Rightarrow> (err, h'\<lparr>hnPhase := PhaseIdle\<rparr>))"

text \<open>The writes of a compaction and of a move to another leaf.\<close>

definition compaction_write :: "string \<Rightarrow> string \<Rightarrow> int \<Rightarrow> bytes \<Rightarrow> entry" where
  "compaction_write summary first_kept tokens details =
     zero_entry\<lparr>enType := EntryCompaction, enSummary := summary, enFirstKeptEntryID := first_kept,
       enTokensBefore := tokens, enDetails := details\<rparr>"

definition leaf_write :: "string \<Rightarrow> entry" where
  "leaf_write leaf = zero_entry\<lparr>enType := EntryLeaf, enLeafID := leaf\<rparr>"

definition branch_write :: "string \<Rightarrow> bytes \<Rightarrow> entry" where
  "branch_write summary details =
     zero_entry\<lparr>enType := EntryBranchSummary, enSummary := summary, enDetails := details\<rparr>"

definition harness_append_branch ::
  "append_input \<Rightarrow> string \<Rightarrow> string \<Rightarrow> bytes \<Rightarrow> ('l, 'w) harness \<Rightarrow> (repo_error + entry) \<times> ('l, 'w) harness" where
  "harness_append_branch i leaf summary details h =
     (case aiLoad i of
        Some err \<Rightarrow> (Inl err, h)
      | None \<Rightarrow>
          (case repo_append_branch (hnFiles h) (hnSession h) (aiGen i) (aiNow i) leaf summary details (aiOs i) of
             (Inl err, s, fs) \<Rightarrow> (Inl err, h\<lparr>hnSession := s, hnFiles := fs\<rparr>)
           | (Inr e, s, fs) \<Rightarrow> (Inr e, h\<lparr>hnSession := s, hnFiles := fs,
               hnTrail := hnTrail h @ [(WriteEvent, branch_write summary details, e)]\<rparr>)))"

definition navigate_write ::
  "append_input \<Rightarrow> string \<Rightarrow> string \<Rightarrow> bytes \<Rightarrow> ('l, 'w) harness \<Rightarrow> (repo_error + entry) \<times> ('l, 'w) harness" where
  "navigate_write i leaf summary details h =
     (if summary \<noteq> '''' then harness_append_branch i leaf summary details h
      else harness_append WriteEvent i (leaf_write leaf) h)"

subsection \<open>Making and refreshing a harness\<close>

record ('l, 'w) harness_options =
  hoSystemPrompt :: string
  hoTools :: "('l, 'w) agent tool option list"
  hoToolNames :: "string list option"
  hoActiveNames :: "string list option"
  hoModel :: string
  hoProvider :: string
  hoReasoning :: string
  hoHasHook :: bool
  hoSetup :: "('l, 'w) agent_setup"
  hoBefore :: "(before_context \<Rightarrow> (('l, 'w) agent, before_result) io) option"
  hoAfter :: "(after_context \<Rightarrow> (('l, 'w) agent, after_result) io) option"
  hoSteeringMode :: queue_mode
  hoFollowUpMode :: queue_mode

definition apply_options ::
  "session_context \<Rightarrow> ('l, 'w) harness_options \<Rightarrow> ('l, 'w) harness \<Rightarrow> ('l, 'w) harness" where
  "apply_options ctx opts h =
     h\<lparr>hnSystemPrompt := hoSystemPrompt opts, hnTools := hoTools opts, hnToolNames := hoToolNames opts,
       hnActiveNames := (if scToolNamesSet ctx then scToolNames ctx
         else (case hoActiveNames opts of None \<Rightarrow> [] | Some ns \<Rightarrow> ns)),
       hnActiveSet := (scToolNamesSet ctx \<or> hoActiveNames opts \<noteq> None),
       hnHasHook := hoHasHook opts, hnSetup := hoSetup opts, hnBefore := hoBefore opts, hnAfter := hoAfter opts,
       hnModel := first_non_empty (scModel ctx) (hoModel opts),
       hnProvider := first_non_empty (scProvider ctx) (hoProvider opts),
       hnReasoning := first_non_empty (scReasoning ctx) (hoReasoning opts)\<rparr>"

text \<open>A harness before its options: the agent on its heap stands for the world outside.\<close>

definition bare_harness ::
  "session \<Rightarrow> files \<Rightarrow> ('l, 'w) harness_options \<Rightarrow> 'l \<Rightarrow> 'w \<Rightarrow> ('l, 'w) harness" where
  "bare_harness s fs opts handler w =
     \<lparr>hnSession = s, hnFiles = fs, hnPhase = PhaseIdle, hnSystemPrompt = '''', hnTools = [],
      hnToolNames = None, hnAllTools = Map.empty, hnActiveNames = [], hnActiveSet = False,
      hnNextTurn = [], hnHasHook = False, hnHandler = handler,
      hnSteeringMode = hoSteeringMode opts, hnFollowUpMode = hoFollowUpMode opts,
      hnSetup = hoSetup opts, hnBefore = None, hnAfter = None,
      hnModel = '''', hnProvider = '''', hnReasoning = '''',
      hnAgents = [new_agent \<lparr>acSystemPrompt = '''', acMessages = [], acTools = []\<rparr> (hoSetup opts)
        (hoSteeringMode opts) (hoFollowUpMode opts) w], hnAgent = 0,
      hnActiveAgent = None, hnRunCancel = None, hnCancelled = {}, hnRunDone = None, hnNextDone = 0,
      hnAcceptQueue = False, hnPending = [], hnEvents = [], hnTrail = [], hnAccepted = []\<rparr>"

definition index_and_rebuild ::
  "('l, 'w) harness_env \<Rightarrow> ('l, 'w) harness \<Rightarrow> harness_error option \<times> ('l, 'w) harness" where
  "index_and_rebuild env h =
     (case index_harness_tools h of
        (Some err, h') \<Rightarrow> (Some err, h') | (None, h') \<Rightarrow> rebuild_agent env h')"

definition new_harness ::
  "('l, 'w) harness_env \<Rightarrow> session \<Rightarrow> files \<Rightarrow> ('l, 'w) harness_options \<Rightarrow> 'l \<Rightarrow> 'w
     \<Rightarrow> harness_error + ('l, 'w) harness" where
  "new_harness env s fs opts handler w =
     (case index_and_rebuild env (apply_options (harness_context s) opts (bare_harness s fs opts handler w)) of
        (Some err, _) \<Rightarrow> Inl err | (None, h) \<Rightarrow> Inr h)"

text \<open>\<open>refresh\<close> puts every field it assigned back when the tools or the agent cannot be built.\<close>

definition restore_settings :: "('l, 'w) harness \<Rightarrow> ('l, 'w) harness \<Rightarrow> ('l, 'w) harness" where
  "restore_settings old h =
     h\<lparr>hnSystemPrompt := hnSystemPrompt old, hnTools := hnTools old, hnToolNames := hnToolNames old,
       hnAllTools := hnAllTools old, hnActiveNames := hnActiveNames old, hnActiveSet := hnActiveSet old,
       hnHasHook := hnHasHook old, hnSetup := hnSetup old, hnBefore := hnBefore old, hnAfter := hnAfter old,
       hnModel := hnModel old, hnProvider := hnProvider old, hnReasoning := hnReasoning old,
       hnAgent := hnAgent old\<rparr>"

definition refresh ::
  "('l, 'w) harness_env \<Rightarrow> ('l, 'w) harness_options \<Rightarrow> ('l, 'w) harness
     \<Rightarrow> harness_error option \<times> ('l, 'w) harness" where
  "refresh env opts h =
     (if \<not> can_start_run h then (Some (HeCore ErrAgentBusy), h)
      else (case index_and_rebuild env (apply_options (harness_context (hnSession h)) opts h) of
          (Some err, h') \<Rightarrow> (Some err, restore_settings h h')
        | (None, h') \<Rightarrow> (None, h')))"

end
