(* ===== verification/HarnessRuns.thy ===== *)
theory HarnessRuns
  imports HarnessSettings RepositoryRuns
begin

text \<open>
  The operations of the harness interleaved: callers prompt, queue, abort and change settings while a
  run, or an operation that summarises, goes through its stages. The agent that runs takes from its
  own queues and publishes events. \<open>hwIn\<close> and \<open>hwOut\<close> are the messages accepted for later and those
  handed to an agent or back to a caller who aborts.
\<close>

record ('l, 'w) harness_world =
  hwHarness :: "('l, 'w) harness"
  hwRuns :: "(nat, ('l, 'w) run_stage) fmap"
  hwSummary :: bool
  hwIn :: message_list
  hwOut :: message_list

definition with_harness ::
  "('l, 'w) harness_world \<Rightarrow> harness_error option \<times> ('l, 'w) harness \<Rightarrow> ('l, 'w) harness_world" where
  "with_harness w r = w\<lparr>hwHarness := snd r\<rparr>"

definition enqueued ::
  "('l, 'w) harness_world \<Rightarrow> message_list \<Rightarrow> harness_error option \<times> ('l, 'w) harness \<Rightarrow> ('l, 'w) harness_world" where
  "enqueued w ms r = w\<lparr>hwHarness := snd r, hwIn := (if fst r = None then hwIn w @ ms else hwIn w)\<rparr>"

definition put_agent :: "nat \<Rightarrow> ('l, 'w) agent \<Rightarrow> ('l, 'w) harness \<Rightarrow> ('l, 'w) harness" where
  "put_agent a ag h = h\<lparr>hnAgents := (hnAgents h)[a := ag]\<rparr>"

definition prompted ::
  "('l, 'w) harness_world \<Rightarrow> harness_error list \<times> ('l, 'w) run_stage option \<times> ('l, 'w) harness
     \<Rightarrow> ('l, 'w) harness_world" where
  "prompted w r =
     w\<lparr>hwHarness := snd (snd r),
       hwRuns := (case fst (snd r) of None \<Rightarrow> hwRuns w | Some st \<Rightarrow> fmupd (hnNextDone (hwHarness w)) st (hwRuns w))\<rparr>"

definition advanced ::
  "('l, 'w) harness_world \<Rightarrow> nat \<Rightarrow> harness_error list \<times> ('l, 'w) run_stage \<times> ('l, 'w) harness
     \<Rightarrow> ('l, 'w) harness_world" where
  "advanced w tok r = w\<lparr>hwHarness := snd (snd r), hwRuns := fmupd tok (fst (snd r)) (hwRuns w)\<rparr>"

definition is_running :: "('l, 'w) run_stage \<Rightarrow> bool" where
  "is_running st = (case st of StageRunning a ps \<Rightarrow> True | _ \<Rightarrow> False)"

definition take_steering :: "nat \<Rightarrow> ('l, 'w) harness_world \<Rightarrow> ('l, 'w) harness_world" where
  "take_steering a w =
     (let h = hwHarness w in
      case queue_drain (agSteering (hnAgents h ! a)) of
        (ms, q) \<Rightarrow> w\<lparr>hwHarness := put_agent a ((hnAgents h ! a)\<lparr>agSteering := q\<rparr>) h, hwOut := hwOut w @ ms\<rparr>)"

definition take_follow_up :: "nat \<Rightarrow> ('l, 'w) harness_world \<Rightarrow> ('l, 'w) harness_world" where
  "take_follow_up a w =
     (let h = hwHarness w in
      case queue_drain (agFollowUp (hnAgents h ! a)) of
        (ms, q) \<Rightarrow> w\<lparr>hwHarness := put_agent a ((hnAgents h ! a)\<lparr>agFollowUp := q\<rparr>) h, hwOut := hwOut w @ ms\<rparr>)"

definition aborted :: "('l, 'w) harness_world \<Rightarrow> ('l, 'w) harness_world" where
  "aborted w =
     (case harness_abort (hwHarness w) of
        ((ms, fs), h) \<Rightarrow> w\<lparr>hwHarness := h, hwOut := hwOut w @ ms @ fs\<rparr>)"

text \<open>What one caller asks for while others may ask too; \<open>ins\<close> is what its writes meet.\<close>

datatype ('l, 'w) setting =
    SettingMessage agent_message
  | SettingModel string string
  | SettingReasoning string
  | SettingActiveTools "string list"
  | SettingTools "('l, 'w) agent tool option list" "string list option"

fun apply_setting ::
  "('l, 'w) harness_env \<Rightarrow> (nat \<Rightarrow> append_input) \<Rightarrow> ('l, 'w) setting \<Rightarrow> ('l, 'w) harness
     \<Rightarrow> harness_error option \<times> ('l, 'w) harness" where
  "apply_setting env ins (SettingMessage m) h = harness_append_message env ins m h"
| "apply_setting env ins (SettingModel p m) h = set_model env ins p m h"
| "apply_setting env ins (SettingReasoning r) h = set_reasoning env ins r h"
| "apply_setting env ins (SettingActiveTools ns) h = set_active_tools env ins ns h"
| "apply_setting env ins (SettingTools ts ns) h = set_tools env ins ts ns h"

text \<open>
  In a strict run the ids generated are new ones, also among the writes of one step, the session the
  harness is made for is sound and stored, and a move goes to a leaf of the session.
\<close>

definition inputs_fresh :: "(nat \<Rightarrow> append_input) \<Rightarrow> session \<Rightarrow> bool" where
  "inputs_fresh ins s \<longleftrightarrow> (\<forall>n. fresh_ids s (aiGen (ins n))) \<and>
     (\<forall>n m i j. n \<noteq> m \<longrightarrow> aiGen (ins n) i \<noteq> aiGen (ins m) j \<and> aiGen (ins n) i \<noteq> take 8 (aiGen (ins m) j))"

definition known_leaf :: "session \<Rightarrow> string \<Rightarrow> bool" where
  "known_leaf s leaf \<longleftrightarrow> leaf = '''' \<or> leaf \<in> fmdom' (ssEntries s)"

inductive harness_run :: "bool \<Rightarrow> ('l, 'w) harness_env \<Rightarrow> ('l, 'w) harness_world \<Rightarrow> bool" for strict env where
  created: "(strict \<Longrightarrow> session_inv s \<and> fmlookup fs (ssID s) = Some (session_entries s)) \<Longrightarrow>
    new_harness env s fs opts handler w = Inr h \<Longrightarrow>
    harness_run strict env \<lparr>hwHarness = h, hwRuns = fmempty, hwSummary = False, hwIn = [], hwOut = []\<rparr>"
| prompts: "harness_run strict env w \<Longrightarrow> (strict \<Longrightarrow> inputs_fresh ins (hnSession (hwHarness w))) \<Longrightarrow>
    harness_run strict env (prompted w (prompt_begin env ins parent ms (hwHarness w)))"
| hook_answers: "harness_run strict env w \<Longrightarrow> fmlookup (hwRuns w) tok = Some (StageHook ctx cfg a queued ps) \<Longrightarrow>
    harness_run strict env (advanced w tok (prompt_hook tok parent r ctx cfg a queued ps (hwHarness w)))"
| starts: "harness_run strict env w \<Longrightarrow> fmlookup (hwRuns w) tok = Some (StageStart a queued ps) \<Longrightarrow>
    r = prompt_start tok parent a queued ps (hwHarness w) \<Longrightarrow>
    harness_run strict env ((advanced w tok r)\<lparr>hwOut := hwOut w @ (if is_running (fst (snd r)) then queued else [])\<rparr>)"
| agent_works: "harness_run strict env w \<Longrightarrow> fmlookup (hwRuns w) tok = Some (StageRunning a ps) \<Longrightarrow>
    agSteering ag = agSteering (hnAgents (hwHarness w) ! a) \<Longrightarrow>
    agFollowUp ag = agFollowUp (hnAgents (hwHarness w) ! a) \<Longrightarrow>
    harness_run strict env (w\<lparr>hwHarness := put_agent a ag (hwHarness w)\<rparr>)"
| agent_steered: "harness_run strict env w \<Longrightarrow> fmlookup (hwRuns w) tok = Some (StageRunning a ps) \<Longrightarrow>
    harness_run strict env (take_steering a w)"
| agent_followed: "harness_run strict env w \<Longrightarrow> fmlookup (hwRuns w) tok = Some (StageRunning a ps) \<Longrightarrow>
    harness_run strict env (take_follow_up a w)"
| event: "harness_run strict env w \<Longrightarrow> (strict \<Longrightarrow> inputs_fresh ins (hnSession (hwHarness w))) \<Longrightarrow>
    fmlookup (hwRuns w) tok = Some (StageRunning a ps) \<Longrightarrow>
    harness_run strict env (with_harness w (handle_event ins ev (hwHarness w)))"
| turn_ends: "harness_run strict env w \<Longrightarrow> (strict \<Longrightarrow> inputs_fresh ins (hnSession (hwHarness w))) \<Longrightarrow>
    fmlookup (hwRuns w) tok = Some (StageRunning a ps) \<Longrightarrow>
    harness_run strict env (w\<lparr>hwHarness := snd (handle_turn_end ins (hwHarness w))\<rparr>)"
| turn_prepared: "harness_run strict env w \<Longrightarrow> (strict \<Longrightarrow> inputs_fresh ins (hnSession (hwHarness w))) \<Longrightarrow>
    fmlookup (hwRuns w) tok = Some (StageRunning a ps) \<Longrightarrow>
    harness_run strict env (w\<lparr>hwHarness := snd (prepare_next_turn env ins user (hwHarness w))\<rparr>)"
| finish_begins: "harness_run strict env w \<Longrightarrow> fmlookup (hwRuns w) tok = Some (StageRunning a ps) \<Longrightarrow>
    harness_run strict env (advanced w tok ([], finish_begin tok a (hwHarness w)))"
| finishes: "harness_run strict env w \<Longrightarrow> (strict \<Longrightarrow> inputs_fresh ins (hnSession (hwHarness w))) \<Longrightarrow>
    fmlookup (hwRuns w) tok = Some (StageFinishing a own) \<Longrightarrow>
    harness_run strict env (advanced w tok ([], StageDetach, snd (finish_locked env ins own (hwHarness w))))"
| detaches: "harness_run strict env w \<Longrightarrow> fmlookup (hwRuns w) tok = Some StageDetach \<Longrightarrow>
    harness_run strict env (advanced w tok ([], StageSettle, detach_run tok (hwHarness w)))"
| settles: "harness_run strict env w \<Longrightarrow> fmlookup (hwRuns w) tok = Some StageSettle \<Longrightarrow>
    harness_run strict env (w\<lparr>hwHarness := harness_settle tok (hwHarness w), hwRuns := fmdrop tok (hwRuns w)\<rparr>)"
| steers: "harness_run strict env w \<Longrightarrow> harness_run strict env (enqueued w ms (harness_steer ms (hwHarness w)))"
| follows_up: "harness_run strict env w \<Longrightarrow> harness_run strict env (enqueued w ms (harness_follow_up ms (hwHarness w)))"
| queues: "harness_run strict env w \<Longrightarrow> harness_run strict env (enqueued w ms (next_turn ms (hwHarness w)))"
| aborts: "harness_run strict env w \<Longrightarrow> harness_run strict env (aborted w)"
| sets: "harness_run strict env w \<Longrightarrow> (strict \<Longrightarrow> inputs_fresh ins (hnSession (hwHarness w))) \<Longrightarrow>
    harness_run strict env (with_harness w (apply_setting env ins c (hwHarness w)))"
| refreshes: "harness_run strict env w \<Longrightarrow> harness_run strict env (with_harness w (refresh env opts (hwHarness w)))"
| summary_begins: "harness_run strict env w \<Longrightarrow> (strict \<Longrightarrow> inputs_fresh ins (hnSession (hwHarness w))) \<Longrightarrow>
    phase \<in> {PhaseCompaction, PhaseBranchSummary} \<Longrightarrow>
    begin_summary_operation env ins phase (hwHarness w) = (r, h) \<Longrightarrow>
    harness_run strict env (w\<lparr>hwHarness := h, hwSummary := hwSummary w \<or> (\<exists>i. r = Inr i)\<rparr>)"
| summary_refreshes: "harness_run strict env w \<Longrightarrow> (strict \<Longrightarrow> inputs_fresh ins (hnSession (hwHarness w))) \<Longrightarrow>
    hwSummary w \<Longrightarrow>
    harness_run strict env (with_harness w (rebuild_from_session env ins (hwHarness w)))"
| summary_compacts: "harness_run strict env w \<Longrightarrow> hwSummary w \<Longrightarrow>
    (strict \<Longrightarrow> fresh_ids (hnSession (hwHarness w)) (aiGen i)) \<Longrightarrow>
    harness_run strict env (w\<lparr>hwHarness := snd (harness_append WriteEvent i
      (compaction_write summary first_kept tokens details) (hwHarness w))\<rparr>)"
| summary_navigates: "harness_run strict env w \<Longrightarrow> hwSummary w \<Longrightarrow>
    (strict \<Longrightarrow> fresh_ids (hnSession (hwHarness w)) (aiGen i) \<and> known_leaf (hnSession (hwHarness w)) leaf) \<Longrightarrow>
    harness_run strict env (w\<lparr>hwHarness := snd (navigate_write i leaf summary details (hwHarness w))\<rparr>)"
| summary_finishes: "harness_run strict env w \<Longrightarrow> (strict \<Longrightarrow> inputs_fresh ins (hnSession (hwHarness w))) \<Longrightarrow>
    hwSummary w \<Longrightarrow>
    harness_run strict env (w\<lparr>hwHarness := snd (finish_summary_operation env ins (hwHarness w)), hwSummary := False\<rparr>)"

end
