(* ===== verification/HarnessJournal.thy ===== *)
theory HarnessJournal
  imports HarnessRuns
begin

text \<open>
  The writes of a harness. Every mutation accepted is written to the session once and in the order of
  acceptance, or still pending, and the session with its file is what the journal says. Both are
  invariants that only the writes can break, so the operations are walked through once, in a locale
  over the invariant.
\<close>

subsection \<open>The journal\<close>

definition mutations_of :: "(write_source \<times> entry \<times> entry) list \<Rightarrow> entry list" where
  "mutations_of trail = map (\<lambda>x. fst (snd x)) (filter (\<lambda>x. fst x = WriteMutation) trail)"

definition accounted :: "('l, 'w) harness \<Rightarrow> bool" where
  "accounted h \<longleftrightarrow> hnAccepted h = mutations_of (hnTrail h) @ hnPending h"

lemma mutations_of_append [simp]: "mutations_of (xs @ ys) = mutations_of xs @ mutations_of ys"
  by (simp add: mutations_of_def)

text \<open>A step that touches none of the three lists keeps the account.\<close>

definition same_journal :: "('l, 'w) harness \<Rightarrow> ('l, 'w) harness \<Rightarrow> bool" where
  "same_journal h h' \<longleftrightarrow> hnTrail h' = hnTrail h \<and> hnPending h' = hnPending h \<and> hnAccepted h' = hnAccepted h \<and>
     hnSession h' = hnSession h \<and> hnFiles h' = hnFiles h"

lemma same_journal_accounted: "same_journal h h' \<Longrightarrow> accounted h' \<longleftrightarrow> accounted h"
  by (simp add: same_journal_def accounted_def)

lemma rebuild_same_journal: "same_journal h (snd (rebuild_agent env h))"
  by (simp add: same_journal_def rebuild_agent_def add_agent_def split: sum.split prod.split)

lemma rebuild_accounted [simp]: "accounted (snd (rebuild_agent env h)) \<longleftrightarrow> accounted h"
  by (rule same_journal_accounted [OF rebuild_same_journal])

lemma append_accounted:
  "accounted (snd (harness_append WriteEvent i e h)) \<longleftrightarrow> accounted h"
  by (auto simp: harness_append_def accounted_def mutations_of_def split: option.split prod.split sum.split)

lemma harness_append_lists:
  "hnPending (snd (harness_append src i e h)) = hnPending h"
  "hnAccepted (snd (harness_append src i e h)) = hnAccepted h"
  "mutations_of (hnTrail (snd (harness_append WriteMutation i e h))) =
     mutations_of (hnTrail h) @ (case fst (harness_append WriteMutation i e h) of Inl _ \<Rightarrow> [] | Inr _ \<Rightarrow> [e])"
  by (auto simp: harness_append_def mutations_of_def split: option.split prod.split sum.split)

lemma flush_from_account:
  "flush_from ins es h = (err, h') \<Longrightarrow>
     hnAccepted h' = hnAccepted h \<and> mutations_of (hnTrail h') @ hnPending h' = mutations_of (hnTrail h) @ es \<and>
     (err = None \<longrightarrow> hnPending h' = [])"
proof (induction ins es h rule: flush_from.induct)
  case (2 ins e es h)
  obtain r h1 where r: "harness_append WriteMutation (ins 0) e h = (r, h1)"
    by (cases "harness_append WriteMutation (ins 0) e h")
  note l = harness_append_lists [where h = h and i = "ins 0" and e = e, unfolded r]
  show ?case
  proof (cases r)
    case (Inl x)
    then show ?thesis using 2(2) l(2) [of WriteMutation] l(3) r by (auto split: prod.splits)
  next
    case (Inr x)
    then have "flush_from (\<lambda>n. ins (Suc n)) es h1 = (err, h')" using 2(2) r by simp
    from 2(1) [OF r [symmetric] Inr this] show ?thesis using l(2) [of WriteMutation] l(3) r Inr by simp
  qed
qed auto

lemma flush_accounted:
  assumes "accounted h"
  shows "accounted (snd (flush_pending ins h))" "fst (flush_pending ins h) = None \<Longrightarrow> hnPending (snd (flush_pending ins h)) = []"
proof -
  obtain err h' where f: "flush_from ins (hnPending h) h = (err, h')"
    by (cases "flush_from ins (hnPending h) h")
  from flush_from_account [OF f] assms show "accounted (snd (flush_pending ins h))"
    "fst (flush_pending ins h) = None \<Longrightarrow> hnPending (snd (flush_pending ins h)) = []"
    by (simp_all add: flush_pending_def f accounted_def)
qed

lemma persist_accounted: "accounted h \<Longrightarrow> accounted (snd (persist_or_queue ins e h))"
proof (cases "hnPhase h \<noteq> PhaseIdle \<or> hnPending h \<noteq> []")
  case True
  assume a: "accounted h"
  then have "accounted (h\<lparr>hnPending := hnPending h @ [e], hnAccepted := hnAccepted h @ [e]\<rparr>)"
    by (simp add: accounted_def)
  from flush_accounted(1) [OF this, of ins] this True show ?thesis
    by (auto simp: persist_or_queue_def Let_def split: prod.split)
next
  case False
  assume "accounted h"
  then show ?thesis using False harness_append_lists(1,2) [where h = h and i = "ins 0" and e = e and src = WriteMutation]
      harness_append_lists(3) [where h = h and i = "ins 0" and e = e]
    by (auto simp: persist_or_queue_def accounted_def split: prod.split sum.split)
qed

lemma take_back_accounted:
  assumes "accounted h" shows "accounted (take_back n queued h)"
proof (cases "hnPending h = []")
  case True
  with assms show ?thesis by (simp add: take_back_def)
next
  case False
  with assms show ?thesis by (auto simp: take_back_def accounted_def butlast_append)
qed

text \<open>A mutation's entry: no id of its own, and not a move.\<close>

definition mutation_entry :: "entry \<Rightarrow> bool" where
  "mutation_entry e \<longleftrightarrow> enID e = '''' \<and> enParentID e = '''' \<and> enType e \<noteq> EntryLeaf"

lemma mutation_entry_fresh: "mutation_entry e \<Longrightarrow> fresh_entry s e"
  by (simp add: mutation_entry_def fresh_entry_def leaf_known_def)

lemma mutation_entries [simp]:
  "mutation_entry (zero_entry\<lparr>enType := EntryMessage, enMessage := m\<rparr>)"
  "mutation_entry (zero_entry\<lparr>enType := EntryModelChange, enProvider := p, enModel := n\<rparr>)"
  "mutation_entry (zero_entry\<lparr>enType := EntryThinkingLevelChange, enReasoning := r\<rparr>)"
  "mutation_entry (zero_entry\<lparr>enType := EntryActiveToolsChange, enToolNames := ns\<rparr>)"
  "mutation_entry (compaction_write summary k t d)"
  by (simp_all add: mutation_entry_def zero_entry_def compaction_write_def)

locale journal_invariant =
  fixes P :: "('l, 'w) harness \<Rightarrow> bool" and ok :: "(nat \<Rightarrow> append_input) \<Rightarrow> session \<Rightarrow> bool"
    and ok1 :: "append_input \<Rightarrow> session \<Rightarrow> bool" and leaf_ok :: "append_input \<Rightarrow> session \<Rightarrow> string \<Rightarrow> bool"
  assumes first: "ok ins s \<Longrightarrow> ok1 (ins 0) s"
    and same: "same_journal h h' \<Longrightarrow> P h \<Longrightarrow> P h'"
    and flush: "P h \<Longrightarrow> ok ins (hnSession h) \<Longrightarrow> P (snd (flush_pending ins h))"
    and persist: "P h \<Longrightarrow> ok ins (hnSession h) \<Longrightarrow> mutation_entry e \<Longrightarrow> P (snd (persist_or_queue ins e h))"
    and retract: "P h \<Longrightarrow> P (take_back n queued h)"
    and event: "P h \<Longrightarrow> ok1 i (hnSession h) \<Longrightarrow> mutation_entry e \<Longrightarrow>
      P (snd (harness_append WriteEvent i e h))"
    and move: "P h \<Longrightarrow> leaf_ok i (hnSession h) leaf \<Longrightarrow> P (snd (navigate_write i leaf summary details h))"
begin

lemma flush_to: "flush_pending ins h = (err, h') \<Longrightarrow> P h \<Longrightarrow> ok ins (hnSession h) \<Longrightarrow> P h'"
  using flush [of h ins] by simp

lemma persist_to:
  "persist_or_queue ins e h = (r, h') \<Longrightarrow> P h \<Longrightarrow> ok ins (hnSession h) \<Longrightarrow> mutation_entry e \<Longrightarrow> P h'"
  using persist [of h ins e] by simp

lemma rebuild: "P h \<Longrightarrow> P (snd (rebuild_agent env h))"
  by (rule same [OF rebuild_same_journal])

lemma rebuild_to: "rebuild_agent env h = (err, h') \<Longrightarrow> P h \<Longrightarrow> P h'"
  using rebuild [of h env] by simp

lemma rebuild_unless: "P h \<Longrightarrow> P (snd (rebuild_unless env queued h))"
  by (simp add: rebuild_unless_def rebuild)

lemma from_session:
  assumes "P h" "ok ins (hnSession h)" shows "P (snd (rebuild_from_session env ins h))"
  using flush [OF assms] by (auto simp: rebuild_from_session_def intro: rebuild split: prod.split option.split)

lemma from_session_to:
  "rebuild_from_session env ins h = (err, h') \<Longrightarrow> P h \<Longrightarrow> ok ins (hnSession h) \<Longrightarrow> P h'"
  using from_session [of h ins env] by simp

lemma change_setting:
  assumes "P h" "ok ins (hnSession h)" "mutation_entry e" "\<And>h. same_journal h (set_it h)"
  shows "P (snd (change_setting env ins e set_it h))"
proof -
  obtain q err h' where p: "persist_or_queue ins e h = ((q, err), h')" by (metis surj_pair)
  have "P h'" by (rule persist_to [OF p assms(1-3)])
  moreover from this have "P (set_it h')" by (rule same [OF assms(4)])
  ultimately show ?thesis
    by (cases q; cases err) (simp_all add: change_setting_def p rebuild_unless)
qed

lemma set_tools:
  assumes "P h" "ok ins (hnSession h)" shows "P (snd (set_tools env ins tools active h))"
proof -
  have "P (snd (case persist_or_queue ins (zero_entry\<lparr>enType := EntryActiveToolsChange, enToolNames := names\<rparr>) h of
        ((queued, Some err), h') \<Rightarrow> (Some err, take_back n queued h')
      | ((queued, None), h') \<Rightarrow>
          (case rebuild_unless env queued (install_tools tools index names h') of
             (Some err, _) \<Rightarrow> (Some err, h') | (None, h'') \<Rightarrow> (None, h''))))" for n index names
  proof -
    let ?e = "zero_entry\<lparr>enType := EntryActiveToolsChange, enToolNames := names\<rparr>"
    obtain q err h' where p: "persist_or_queue ins ?e h = ((q, err), h')" by (metis surj_pair)
    have a: "P h'" by (rule persist_to [OF p assms]) simp
    obtain e2 h2 where r: "rebuild_unless env q (install_tools tools index names h') = (e2, h2)"
      by (metis surj_pair)
    have "P (install_tools tools index names h')"
      by (rule same [OF _ a]) (simp add: same_journal_def install_tools_def)
    from rebuild_unless [OF this, of env q] r have "P h2" by simp
    with a show ?thesis by (cases err; cases e2) (simp_all add: p r retract)
  qed
  with assms show ?thesis
    by (simp add: set_tools_def split: sum.split prod.split)
qed

lemma harness_append_message:
  assumes "P h" "ok ins (hnSession h)" shows "P (snd (harness_append_message env ins m h))"
proof -
  obtain q err h' where
    p: "persist_or_queue ins (zero_entry\<lparr>enType := EntryMessage, enMessage := m\<rparr>) h = ((q, err), h')"
    by (metis surj_pair)
  have "P h'" by (rule persist_to [OF p assms]) simp
  with assms show ?thesis by (cases err) (simp_all add: harness_append_message_def p rebuild_unless split: option.split)
qed

lemma apply_setting: "P h \<Longrightarrow> ok ins (hnSession h) \<Longrightarrow> P (snd (apply_setting env ins c h))"
  by (cases c) (simp_all add: harness_append_message set_tools set_model_def set_reasoning_def
      set_active_tools_def Let_def change_setting same_journal_def split: sum.split)

lemma drain: "P h \<Longrightarrow> P (drain_active_queues h)"
  by (erule same [rotated])
    (simp add: drain_active_queues_def Let_def same_journal_def split: option.split prod.split)

lemma phase: "P h \<Longrightarrow> P (h\<lparr>hnPhase := p\<rparr>)"
  by (erule same [rotated]) (simp add: same_journal_def)

lemma handle_event:
  assumes "P h" "ok ins (hnSession h)" shows "P (snd (handle_event ins ev h))"
proof -
  let ?h1 = "h\<lparr>hnEvents := hnEvents h @ [ev]\<rparr>"
  have h1: "P ?h1" by (rule same [OF _ assms(1)]) (simp add: same_journal_def)
  have s1: "ok ins (hnSession ?h1)" using assms(2) by simp
  have "hnSession (drain_active_queues ?h1) = hnSession h"
    by (simp add: drain_active_queues_def Let_def split: option.split prod.split)
  then have s2: "ok ins (hnSession (drain_active_queues ?h1))" using assms(2) by simp
  obtain err h' where f: "flush_pending ins (drain_active_queues ?h1) = (err, h')"
    by (metis surj_pair)
  have h': "P h'" by (rule flush_to [OF f drain [OF h1] s2])
  let ?e = "zero_entry\<lparr>enType := EntryMessage, enMessage := evMessage ev\<rparr>"
  obtain r h'' where e: "harness_append WriteEvent (ins 0) ?e ?h1 = (r, h'')" by (metis surj_pair)
  have h'': "P h''" using event [OF h1 first [OF s1], of ?e] e by simp
  show ?thesis
    using h1 h' h'' by (auto simp: handle_event_def Let_def f e intro: phase split: option.split sum.split)
qed

lemma handle_turn_end: "P h \<Longrightarrow> ok ins (hnSession h) \<Longrightarrow> P (snd (handle_turn_end ins h))"
  using flush [of h ins] by (auto simp: handle_turn_end_def split: prod.split)

lemma prepare_next_turn:
  "P h \<Longrightarrow> ok ins (hnSession h) \<Longrightarrow> P (snd (prepare_next_turn env ins user h))"
  using flush [of h ins]
  by (auto simp: prepare_next_turn_def Let_def split: prod.split option.split sum.split)

lemma finish_locked:
  assumes "P h" "ok ins (hnSession h)" shows "P (snd (finish_locked env ins own h))"
proof -
  have "hnSession (drain_active_queues h) = hnSession h"
    by (simp add: drain_active_queues_def Let_def split: option.split prod.split)
  then have "P (snd (rebuild_from_session env ins (drain_active_queues h)))"
    using from_session [OF drain [OF assms(1)], of ins env] assms(2) by simp
  with assms show ?thesis by (auto simp: finish_locked_def intro: phase split: prod.split)
qed

lemma begin_summary:
  assumes "P h" "ok ins (hnSession h)" shows "P (snd (begin_summary_operation env ins p h))"
  using from_session [OF phase [OF assms(1), of p], of ins env] assms
  by (auto simp: begin_summary_operation_def Let_def intro: phase split: prod.split option.split)

lemma finish_summary:
  "P h \<Longrightarrow> ok ins (hnSession h) \<Longrightarrow> P (snd (finish_summary_operation env ins h))"
  using from_session [of h ins env]
  by (auto simp: finish_summary_operation_def intro: phase split: prod.split)

lemma index_same: "same_journal h (snd (index_harness_tools h))"
  by (simp add: index_harness_tools_def Let_def same_journal_def split: sum.split prod.split)

lemma refresh: "P h \<Longrightarrow> P (snd (refresh env opts h))"
proof -
  assume p: "P h"
  obtain err h' where i: "index_and_rebuild env (apply_options (harness_context (hnSession h)) opts h) = (err, h')"
    by (metis surj_pair)
  have "same_journal h (apply_options (harness_context (hnSession h)) opts h)"
    by (simp add: same_journal_def apply_options_def)
  from same [OF this p] have a: "P (apply_options (harness_context (hnSession h)) opts h)" .
  obtain e2 h2 where x: "index_harness_tools (apply_options (harness_context (hnSession h)) opts h) = (e2, h2)"
    by (metis surj_pair)
  have "P h2" using same [OF index_same a] x by simp
  then have "P h'" using i rebuild_to [of env h2] by (cases e2) (auto simp: index_and_rebuild_def x)
  then show ?thesis using p i by (auto simp: refresh_def same_journal_def restore_settings_def intro: same split: option.split)
qed

lemma preflight:
  assumes "P h" "ok ins (hnSession h)" shows "P (snd (preflight env ins h))"
  using flush [OF assms] by (auto simp: preflight_def intro: rebuild split: prod.split option.split)

lemma prompt_begin:
  assumes "P h" "ok ins (hnSession h)" shows "P (snd (snd (prompt_begin env ins parent ms h)))"
proof -
  have r: "P (reserve_run h)" by (rule same [OF _ assms(1)]) (simp add: same_journal_def reserve_run_def)
  have "hnSession (reserve_run h) = hnSession h" by (simp add: reserve_run_def)
  then have "P (snd (preflight env ins (reserve_run h)))"
    using preflight [OF r, of ins env] assms(2) by simp
  then have "P h2" if "preflight env ins (reserve_run h) = (err, h2)" for err h2 using that by simp
  then have "P (fail_start b q h2)" "P (h2\<lparr>hnNextTurn := []\<rparr>)"
    if "preflight env ins (reserve_run h) = (err, h2)" for err h2 b q
    using that by (auto simp: fail_start_def same_journal_def intro: same)
  then show ?thesis using assms(1)
    by (auto simp: prompt_begin_def Let_def split: prod.split option.split sum.split)
qed

end

lemma quiet_steps:
  "same_journal h (snd (snd (prompt_hook tok parent r ctx cfg a queued ps h)))"
  "same_journal h (snd (snd (prompt_start tok parent a queued ps h)))"
  "same_journal h (put_agent a ag h)"
  "same_journal h (snd (finish_begin tok a h))"
  "same_journal h (detach_run tok h)"
  "same_journal h (harness_settle tok h)"
  "same_journal h (snd (harness_steer ms h))"
  "same_journal h (snd (harness_follow_up ms h))"
  "same_journal h (snd (next_turn ms h))"
  by (simp_all add: same_journal_def prompt_hook_def prompt_start_def put_agent_def finish_begin_def Let_def
      detach_run_def harness_settle_def harness_steer_def harness_follow_up_def enqueue_while_running_def
      next_turn_def fail_start_def add_agent_def split: option.split prod.split)

lemma quiet_world_steps:
  "same_journal (hwHarness w) (hwHarness (take_steering a w))"
  "same_journal (hwHarness w) (hwHarness (take_follow_up a w))"
  "same_journal (hwHarness w) (hwHarness (aborted w))"
  by (simp_all add: take_steering_def take_follow_up_def Let_def quiet_steps split: prod.split)
    (simp add: aborted_def harness_abort_def cancel_active_run_def same_journal_def split: prod.split option.split)

context journal_invariant
begin

text \<open>A run keeps an invariant that holds of a new harness.\<close>

lemma run:
  assumes "harness_run strict env w"
    and "\<And>env s fs opts handler w h. (strict \<Longrightarrow> session_inv s \<and> fmlookup fs (ssID s) = Some (session_entries s)) \<Longrightarrow>
      new_harness env s fs opts handler w = Inr h \<Longrightarrow> P h"
    and "\<And>ins s. (strict \<Longrightarrow> inputs_fresh ins s) \<Longrightarrow> ok ins s"
    and "\<And>i s. (strict \<Longrightarrow> fresh_ids s (aiGen i)) \<Longrightarrow> ok1 i s"
    and "\<And>i s leaf. (strict \<Longrightarrow> fresh_ids s (aiGen i) \<and> known_leaf s leaf) \<Longrightarrow> leaf_ok i s leaf"
  shows "P (hwHarness w)"
  using assms(1)
proof (induction rule: harness_run.induct)
  case (created s fs opts handler w h)
  then show ?case using assms(2) [of s fs] by auto
next
  case (prompts w ins parent ms)
  then show ?case using prompt_begin assms(3) by (auto simp: prompted_def)
next
  case (event w ins tok a ps ev)
  then show ?case using handle_event assms(3) by (simp add: with_harness_def)
next
  case (turn_ends w ins tok a ps)
  then show ?case using handle_turn_end assms(3) by simp
next
  case (turn_prepared w ins tok a ps user)
  then show ?case using prepare_next_turn assms(3) by simp
next
  case (finishes w ins tok a own)
  then show ?case using finish_locked assms(3) by (simp add: advanced_def)
next
  case (sets w ins c)
  then show ?case using apply_setting assms(3) by (simp add: with_harness_def)
next
  case (refreshes w opts)
  then show ?case using refresh by (simp add: with_harness_def)
next
  case (summary_begins w ins phase r h)
  then show ?case using begin_summary [of "hwHarness w" ins env phase] assms(3) by simp
next
  case (summary_refreshes w ins)
  then show ?case using from_session assms(3) by (simp add: with_harness_def)
next
  case (summary_compacts w i summary first_kept tokens details)
  then show ?case using assms(4) event [of "hwHarness w" i] by simp
next
  case (summary_navigates w i leaf summary details)
  then show ?case using move assms(5) by simp
next
  case (summary_finishes w ins)
  then show ?case using finish_summary assms(3) by simp
qed (auto simp: advanced_def enqueued_def intro: same quiet_steps quiet_world_steps
    dest: same [OF quiet_steps(2)])

end

lemma branch_accounted:
  "accounted h \<Longrightarrow> accounted (snd (harness_append_branch i leaf summary details h))"
  by (simp add: harness_append_branch_def accounted_def mutations_of_def split: option.split prod.split sum.split)

interpretation ledger: journal_invariant accounted "\<lambda>_ _. True" "\<lambda>_ _. True" "\<lambda>_ _ _. True"
proof
  fix h h' :: "('a, 'b) harness"
  show "same_journal h h' \<Longrightarrow> accounted h \<Longrightarrow> accounted h'" by (simp add: same_journal_accounted)
next
  fix h :: "('a, 'b) harness" and i leaf summary details
  show "accounted h \<Longrightarrow> accounted (snd (navigate_write i leaf summary details h))"
    by (simp add: navigate_write_def append_accounted branch_accounted)
qed (simp_all add: flush_accounted persist_accounted take_back_accounted append_accounted)

subsection \<open>The session is what was written\<close>

text \<open>What storing an entry fills in.\<close>

definition same_request :: "entry \<Rightarrow> entry \<Rightarrow> bool" where
  "same_request e0 e \<longleftrightarrow> e = e0\<lparr>enVersion := enVersion e, enID := enID e, enParentID := enParentID e,
     enTimestamp := enTimestamp e\<rparr>"

definition stored_ok :: "session \<Rightarrow> files \<Rightarrow> bool" where
  "stored_ok s fs \<longleftrightarrow> session_inv s \<and> fmlookup fs (ssID s) = Some (session_entries s)"

definition recorded :: "('l, 'w) harness \<Rightarrow> bool" where
  "recorded h \<longleftrightarrow> stored_ok (hnSession h) (hnFiles h) \<and> list_all mutation_entry (hnPending h) \<and>
     list_all (\<lambda>x. same_request (fst (snd x)) (snd (snd x))) (hnTrail h) \<and>
     (\<exists>base. session_entries (hnSession h) = base @ map (\<lambda>x. snd (snd x)) (hnTrail h))"

lemma fill_same_request: "same_request e0 (fill_entry s gen now e0)"
  by (simp add: same_request_def fill_entry_def Let_def)

lemma append_entry_stored:
  assumes "session_inv s" "fresh_ids s gen" "fresh_entry s e0" "append_entry s gen now e0 = Inr (s', e)"
  shows "session_entries s' = session_entries s @ [e]" "same_request e0 e" "session_inv s'"
    "fmdom' (ssEntries s') = insert (enID e) (fmdom' (ssEntries s))"
    "\<exists>i. enID e = gen i \<or> enID e = take 8 (gen i)"
proof -
  have p: "prepare_entry s gen now e0 = Inr e" "s' = store_entry s e"
    using assms(4) by (simp_all add: append_entry_Inr)
  have f: "e = fill_entry s gen now e0" using prepare_entry_Inr [OF p(1)] by blast
  have "fmlookup (ssEntries s) (enID e) = None"
    using prepare_entry_attachable(1) [OF assms(1-3) p(1)] by (simp add: attachable_def fmdom'_lookup)
  then show "session_entries s' = session_entries s @ [e]"
    unfolding p(2) by (rule session_entries_store [OF session_inv_tree [OF assms(1)]])
  show "same_request e0 e" unfolding f by (rule fill_same_request)
  show "session_inv s'" by (rule append_entry_inv [OF assms])
  show "fmdom' (ssEntries s') = insert (enID e) (fmdom' (ssEntries s))" unfolding p(2) by simp
  have g: "\<exists>i. generate_entry_id n j m gen = gen i \<or> generate_entry_id n j m gen = take 8 (gen i)" for n j m
    by (induction n arbitrary: j) (auto simp: Let_def)
  have "enID e = new_entry_id (ssEntries s) gen"
    using assms(3) f by (simp add: fresh_entry_def fill_entry_def Let_def)
  then show "\<exists>i. enID e = gen i \<or> enID e = take 8 (gen i)" using g by (simp add: new_entry_id_def)
qed

lemma candidate_records:
  assumes "stored_ok s fs" "session_inv t" "ssEntries t = ssEntries s" "ssOrder t = ssOrder s"
    and "fresh_ids t gen" "fresh_entry t e0" "append_entry t gen now e0 = Inr (c, e)"
    and "file_append fs (ssID s) e os = (err, fs')"
  shows "err = None \<or> err = Some CommitUncertain \<Longrightarrow>
      stored_ok (publish s c) fs' \<and> session_entries (publish s c) = session_entries s @ [e] \<and> same_request e0 e \<and>
      fmdom' (ssEntries (publish s c)) = insert (enID e) (fmdom' (ssEntries s)) \<and>
      (\<exists>i. enID e = gen i \<or> enID e = take 8 (gen i))"
    and "err \<noteq> None \<Longrightarrow> err \<noteq> Some CommitUncertain \<Longrightarrow> fs' = fs"
proof -
  have inv: "fmlookup fs (ssID s) = Some (session_entries s)" using assms(1) by (simp add: stored_ok_def)
  have same: "session_entries t = session_entries s" using assms(3,4) by (simp add: session_entries_def)
  note st = append_entry_stored [OF assms(2,5,6,7)]
  have pub: "session_entries (publish s c) = session_entries c" "session_inv (publish s c) = session_inv c"
    "ssID (publish s c) = ssID s" "ssEntries (publish s c) = ssEntries c"
    by (simp_all add: publish_def session_entries_def session_inv_def)
  show "err \<noteq> None \<Longrightarrow> err \<noteq> Some CommitUncertain \<Longrightarrow> fs' = fs"
    using assms(8) by (auto simp: file_append_def commit_error_def split: if_splits os_outcome.splits)
  assume "err = None \<or> err = Some CommitUncertain"
  then have "fmlookup fs' (ssID s) = Some (session_entries c)"
    using assms(8) inv st(1) same
    by (auto simp: file_append_def commit_error_def split: if_splits os_outcome.splits)
  then show "stored_ok (publish s c) fs' \<and> session_entries (publish s c) = session_entries s @ [e] \<and>
      same_request e0 e \<and> fmdom' (ssEntries (publish s c)) = insert (enID e) (fmdom' (ssEntries s)) \<and>
      (\<exists>i. enID e = gen i \<or> enID e = take 8 (gen i))"
    using st pub same assms(3) by (simp add: stored_ok_def)
qed

lemma append_candidate_Inr: "append_candidate s gen now e0 = Inr (c, e) \<Longrightarrow> append_entry s gen now e0 = Inr (c, e)"
  by (auto simp: append_candidate_def split: sum.splits option.splits)

lemma repo_append_records:
  assumes "stored_ok s fs" "fresh_ids s gen" "fresh_entry s e0" "repo_append fs s gen now e0 os = (r, s', fs')"
  shows "case r of Inl err \<Rightarrow> s' = s \<and> fs' = fs
    | Inr e \<Rightarrow> stored_ok s' fs' \<and> session_entries s' = session_entries s @ [e] \<and> same_request e0 e \<and>
        fmdom' (ssEntries s') = insert (enID e) (fmdom' (ssEntries s)) \<and>
        (\<exists>i. enID e = gen i \<or> enID e = take 8 (gen i))"
proof (cases "append_candidate s gen now e0")
  case (Inl err)
  then show ?thesis using assms(4) by (auto simp: repo_append_def)
next
  case (Inr x)
  then obtain c e where x: "append_candidate s gen now e0 = Inr (c, e)" by (cases x) simp
  obtain err fs1 where f: "file_append fs (ssID s) e os = (err, fs1)" by (metis surj_pair)
  have inv: "session_inv s" using assms(1) by (simp add: stored_ok_def)
  note c = candidate_records [OF assms(1) inv refl refl assms(2,3) append_candidate_Inr [OF x] f]
  show ?thesis
    using assms(4) x f c by (auto simp: repo_append_def split: option.splits store_error.splits)
qed

lemma repo_branch_records:
  assumes "stored_ok s fs" "fresh_ids s gen" "repo_append_branch fs s gen now leaf summary details os = (r, s', fs')"
  shows "case r of Inl err \<Rightarrow> s' = s \<and> fs' = fs
    | Inr e \<Rightarrow> stored_ok s' fs' \<and> session_entries s' = session_entries s @ [e] \<and>
        same_request (branch_write summary details) e"
proof (cases "branch_candidate s gen now leaf summary details")
  case (Inl err)
  then show ?thesis using assms(3) by (auto simp: repo_append_branch_def)
next
  case (Inr x)
  then obtain c e where x: "branch_candidate s gen now leaf summary details = Inr (c, e)" by (cases x) simp
  then have a: "append_candidate (s\<lparr>ssLeafID := leaf\<rparr>) gen now (branch_write summary details) = Inr (c, e)"
    and l: "leaf = [] \<or> leaf \<in> fmdom' (ssEntries s)"
    by (auto simp: branch_candidate_def branch_write_def fmdom'_lookup split: if_splits sum.splits)
  have inv: "session_inv (s\<lparr>ssLeafID := leaf\<rparr>)" using assms(1) l by (simp add: stored_ok_def session_inv_def)
  have fr: "fresh_ids (s\<lparr>ssLeafID := leaf\<rparr>) gen" using assms(2) by (simp add: fresh_ids_def)
  have fe: "fresh_entry (s\<lparr>ssLeafID := leaf\<rparr>) (branch_write summary details)"
    by (simp add: fresh_entry_def branch_write_def zero_entry_def leaf_known_def)
  obtain err fs1 where f: "file_append fs (ssID s) e os = (err, fs1)" by (metis surj_pair)
  note c = candidate_records [OF assms(1) inv _ _ fr fe append_candidate_Inr [OF a] f, simplified]
  show ?thesis
    using assms(3) x f c by (auto simp: repo_append_branch_def split: option.splits store_error.splits)
qed

lemma harness_append_records:
  assumes "recorded h" "fresh_ids (hnSession h) (aiGen i)" "fresh_entry (hnSession h) e0"
    "harness_append src i e0 h = (r, h')"
  shows "recorded h'" "case r of Inl err \<Rightarrow> hnSession h' = hnSession h
    | Inr e \<Rightarrow> fmdom' (ssEntries (hnSession h')) = insert (enID e) (fmdom' (ssEntries (hnSession h))) \<and>
        (\<exists>j. enID e = aiGen i j \<or> enID e = take 8 (aiGen i j))"
proof -
  obtain r0 s fs where a: "repo_append (hnFiles h) (hnSession h) (aiGen i) (aiNow i) e0 (aiOs i) = (r0, s, fs)"
    by (metis surj_pair)
  have ok: "stored_ok (hnSession h) (hnFiles h)" using assms(1) by (simp add: recorded_def)
  note rr = repo_append_records [OF ok assms(2,3) a]
  show "recorded h'"
    using rr assms(1,4) a
    by (cases "aiLoad i"; cases r0) (auto simp: harness_append_def recorded_def)
  show "case r of Inl err \<Rightarrow> hnSession h' = hnSession h
    | Inr e \<Rightarrow> fmdom' (ssEntries (hnSession h')) = insert (enID e) (fmdom' (ssEntries (hnSession h))) \<and>
        (\<exists>j. enID e = aiGen i j \<or> enID e = take 8 (aiGen i j))"
    using rr assms(4) a
    by (cases "aiLoad i"; cases r0) (auto simp: harness_append_def)
qed

lemma inputs_fresh_step:
  assumes "inputs_fresh ins s" "fmdom' (ssEntries s') = insert k (fmdom' (ssEntries s))"
    and "\<exists>j. k = aiGen (ins 0) j \<or> k = take 8 (aiGen (ins 0) j)"
  shows "inputs_fresh (\<lambda>n. ins (Suc n)) s'"
  using assms by (auto simp: inputs_fresh_def fresh_ids_def)

lemma flush_from_records:
  "flush_from ins es h = (err, h') \<Longrightarrow> recorded (h\<lparr>hnPending := es\<rparr>) \<Longrightarrow> inputs_fresh ins (hnSession h) \<Longrightarrow>
     recorded h'"
proof (induction ins es h arbitrary: err h' rule: flush_from.induct)
  case (2 ins e es h)
  obtain r h1 where r: "harness_append WriteMutation (ins 0) e h = (r, h1)" by (metis surj_pair)
  have e: "mutation_entry e" and rec: "recorded (h\<lparr>hnPending := []\<rparr>)" and es: "list_all mutation_entry es"
    using 2(3) by (simp_all add: recorded_def)
  have r0: "harness_append WriteMutation (ins 0) e (h\<lparr>hnPending := []\<rparr>) = (r, h1\<lparr>hnPending := []\<rparr>)"
    using r by (auto simp: harness_append_def split: option.splits prod.splits sum.splits)
  have g: "fresh_ids (hnSession (h\<lparr>hnPending := []\<rparr>)) (aiGen (ins 0))" using 2(4) by (simp add: inputs_fresh_def)
  note a = harness_append_records [OF rec g mutation_entry_fresh [OF e] r0]
  have pend: "recorded (h1\<lparr>hnPending := xs\<rparr>)" if "list_all mutation_entry xs" for xs
    using a(1) that by (simp add: recorded_def)
  show ?case
  proof (cases r)
    case (Inl x)
    then show ?thesis using 2(2) r pend [of "e # es"] e es by simp
  next
    case (Inr x)
    then have f: "flush_from (\<lambda>n. ins (Suc n)) es h1 = (err, h')" using 2(2) r by simp
    have "inputs_fresh (\<lambda>n. ins (Suc n)) (hnSession h1)"
      using a(2) Inr 2(4) by (intro inputs_fresh_step [of ins "hnSession h"]) auto
    from 2(1) [OF r [symmetric] Inr f pend [OF es] this] show ?thesis .
  qed
qed (simp add: recorded_def)

lemma flush_records: "recorded h \<Longrightarrow> inputs_fresh ins (hnSession h) \<Longrightarrow> recorded (snd (flush_pending ins h))"
  using flush_from_records [of ins "hnPending h" h] by (simp add: flush_pending_def split: prod.split)

lemma persist_records:
  assumes "recorded h" "inputs_fresh ins (hnSession h)" "mutation_entry e"
  shows "recorded (snd (persist_or_queue ins e h))"
proof -
  let ?h1 = "h\<lparr>hnPending := hnPending h @ [e], hnAccepted := hnAccepted h @ [e]\<rparr>"
  have h1: "recorded ?h1" using assms(1,3) by (simp add: recorded_def)
  have f: "recorded (snd (flush_pending ins ?h1))" using flush_records [OF h1, of ins] assms(2) by simp
  obtain r h' where a: "harness_append WriteMutation (ins 0) e h = (r, h')" by (metis surj_pair)
  have "fresh_ids (hnSession h) (aiGen (ins 0))" using assms(2) by (simp add: inputs_fresh_def)
  from harness_append_records(1) [OF assms(1) this mutation_entry_fresh [OF assms(3)] a]
  have "recorded h'" "recorded (h'\<lparr>hnAccepted := xs\<rparr>)" for xs by (simp_all add: recorded_def)
  then show ?thesis using h1 f a by (auto simp: persist_or_queue_def Let_def split: prod.split sum.split)
qed

lemma navigate_records:
  assumes "recorded h" "fresh_ids (hnSession h) (aiGen i)" "known_leaf (hnSession h) leaf"
  shows "recorded (snd (navigate_write i leaf summary details h))"
proof (cases "summary = []")
  case True
  obtain r h' where a: "harness_append WriteEvent i (leaf_write leaf) h = (r, h')" by (metis surj_pair)
  have "fresh_entry (hnSession h) (leaf_write leaf)"
    using assms(3) by (simp add: fresh_entry_def leaf_write_def zero_entry_def leaf_known_def known_leaf_def)
  from harness_append_records(1) [OF assms(1,2) this a] show ?thesis
    using True by (simp add: navigate_write_def a)
next
  case False
  obtain r s fs where
    a: "repo_append_branch (hnFiles h) (hnSession h) (aiGen i) (aiNow i) leaf summary details (aiOs i) = (r, s, fs)"
    by (metis surj_pair)
  have "stored_ok (hnSession h) (hnFiles h)" using assms(1) by (simp add: recorded_def)
  from repo_branch_records [OF this assms(2) a] assms(1) a False show ?thesis
    by (cases r) (auto simp: navigate_write_def harness_append_branch_def recorded_def split: option.split)
qed

interpretation record_book: journal_invariant recorded inputs_fresh "\<lambda>i s. fresh_ids s (aiGen i)"
  "\<lambda>i s leaf. fresh_ids s (aiGen i) \<and> known_leaf s leaf"
proof
  fix h h' :: "('a, 'b) harness"
  show "same_journal h h' \<Longrightarrow> recorded h \<Longrightarrow> recorded h'" by (simp add: same_journal_def recorded_def)
next
  fix h :: "('a, 'b) harness" and n queued
  show "recorded h \<Longrightarrow> recorded (take_back n queued h)"
    by (auto simp: take_back_def recorded_def list_all_iff dest: in_set_butlastD)
next
  fix h :: "('a, 'b) harness" and i :: append_input and e
  assume a: "recorded h" "fresh_ids (hnSession h) (aiGen i)" "mutation_entry e"
  obtain r h' where r: "harness_append WriteEvent i e h = (r, h')" by (metis surj_pair)
  from harness_append_records(1) [OF a(1,2) mutation_entry_fresh [OF a(3)] r]
  show "recorded (snd (harness_append WriteEvent i e h))" by (simp add: r)
qed (simp_all add: flush_records persist_records navigate_records inputs_fresh_def)

lemma new_harness_journal:
  assumes "new_harness env s fs opts handler w = Inr h"
  shows "same_journal (bare_harness s fs opts handler w) h"
proof -
  let ?h = "apply_options (harness_context s) opts (bare_harness s fs opts handler w)"
  obtain e1 h1 where i: "index_harness_tools ?h = (e1, h1)" by (metis surj_pair)
  obtain e2 h2 where r: "rebuild_agent env h1 = (e2, h2)" by (metis surj_pair)
  have "same_journal ?h h1" using ledger.index_same [of ?h] i by simp
  moreover have "same_journal h1 h2" using rebuild_same_journal [of h1 env] r by simp
  moreover have "h = h2" using assms i r
    by (cases e1; cases e2) (auto simp: new_harness_def index_and_rebuild_def)
  ultimately show ?thesis by (simp add: same_journal_def apply_options_def)
qed

lemma new_harness_recorded:
  assumes "new_harness env s fs opts handler w = Inr h"
  shows "accounted h" "session_inv s \<Longrightarrow> fmlookup fs (ssID s) = Some (session_entries s) \<Longrightarrow> recorded h"
  using new_harness_journal [OF assms]
  by (simp_all add: same_journal_def bare_harness_def accounted_def recorded_def stored_ok_def mutations_of_def)

lemma run_accounted: "harness_run strict env w \<Longrightarrow> accounted (hwHarness w)"
  by (rule ledger.run [of strict]) (auto dest: new_harness_recorded(1))

lemma run_recorded: "harness_run True env w \<Longrightarrow> recorded (hwHarness w)"
  by (rule record_book.run [of True]) (auto dest: new_harness_recorded(2))

end
