(* ===== verification/HarnessSlot.thy ===== *)
theory HarnessSlot
  imports HarnessRuns "HOL-Library.Multiset"
begin

text \<open>
  The run slot and the queues of a harness. At most one run goes through its stages, the harness
  comes back to idle after it, and a message queued for later is at any time in one queue, handed to an
  agent, or given back by an abort.
\<close>

subsection \<open>Steps that leave both alone\<close>

definition agent_queues :: "('l, 'w) agent \<Rightarrow> message_list" where
  "agent_queues ag = mqMessages (agSteering ag) @ mqMessages (agFollowUp ag)"

definition calm :: "('l, 'w) harness \<Rightarrow> ('l, 'w) harness \<Rightarrow> bool" where
  "calm h h' \<longleftrightarrow> hnPhase h' = hnPhase h \<and> hnNextTurn h' = hnNextTurn h \<and> hnActiveAgent h' = hnActiveAgent h \<and>
     hnRunDone h' = hnRunDone h \<and> hnNextDone h' = hnNextDone h \<and> hnAcceptQueue h' = hnAcceptQueue h \<and>
     (hnAgent h < length (hnAgents h) \<longrightarrow> hnAgent h' < length (hnAgents h')) \<and>
     (\<exists>xs. hnAgents h' = hnAgents h @ xs \<and> (\<forall>ag \<in> set xs. agent_queues ag = []))"

lemma calm_refl [simp]: "calm h h"
  by (simp add: calm_def)

lemma calm_trans [trans]:
  assumes "calm h h1" "calm h1 h2" shows "calm h h2"
proof -
  from assms(1) obtain xs where xs: "hnAgents h1 = hnAgents h @ xs" "\<forall>ag \<in> set xs. agent_queues ag = []"
    by (auto simp: calm_def)
  from assms(2) obtain ys where ys: "hnAgents h2 = hnAgents h1 @ ys" "\<forall>ag \<in> set ys. agent_queues ag = []"
    by (auto simp: calm_def)
  have "hnAgents h2 = hnAgents h @ (xs @ ys) \<and> (\<forall>ag \<in> set (xs @ ys). agent_queues ag = [])"
    using xs ys by auto
  then have "\<exists>zs. hnAgents h2 = hnAgents h @ zs \<and> (\<forall>ag \<in> set zs. agent_queues ag = [])" by (rule exI)
  with assms show ?thesis by (simp add: calm_def)
qed

lemma calm_fields:
  assumes "hnPhase h' = hnPhase h" "hnNextTurn h' = hnNextTurn h" "hnActiveAgent h' = hnActiveAgent h"
    "hnRunDone h' = hnRunDone h" "hnNextDone h' = hnNextDone h" "hnAcceptQueue h' = hnAcceptQueue h"
    "hnAgents h' = hnAgents h" "hnAgent h' = hnAgent h"
  shows "calm h h'"
  using assms by (simp add: calm_def)

lemma agent_queues_new [simp]:
  "agent_queues (snd (agent_listen l (new_agent ctx su m1 m2 w))) = []"
  by (simp add: agent_queues_def agent_listen_def new_agent_def new_message_queue_def Let_def split: option.split)

lemma calm_add_agent: "calm h (snd (add_agent ctx cfg h))"
  by (simp add: calm_def add_agent_def)

lemma calm_rebuild: "calm h (snd (rebuild_agent env h))"
  by (simp add: rebuild_agent_def calm_def add_agent_def split: sum.split prod.split)

lemma calm_append: "calm h (snd (harness_append src i e h))"
  by (rule calm_fields) (simp_all add: harness_append_def split: option.split prod.split sum.split)

lemma calm_flush_from: "flush_from ins es h = (err, h') \<Longrightarrow> calm h h'"
proof (induction ins es h arbitrary: err h' rule: flush_from.induct)
  case (2 ins e es h)
  obtain r h1 where r: "harness_append WriteMutation (ins 0) e h = (r, h1)" by (metis surj_pair)
  have c: "calm h h1" using calm_append [of h WriteMutation "ins 0" e] r by simp
  show ?case
  proof (cases r)
    case (Inl x)
    then show ?thesis using 2(2) r c by (auto simp: calm_def)
  next
    case (Inr x)
    then have "flush_from (\<lambda>n. ins (Suc n)) es h1 = (err, h')" using 2(2) r by simp
    from 2(1) [OF r [symmetric] Inr this] c show ?thesis by (blast intro: calm_trans)
  qed
qed (auto simp: calm_def)

lemma calm_flush: "calm h (snd (flush_pending ins h))"
  using calm_flush_from [of ins "hnPending h" h] by (auto simp: flush_pending_def split: prod.split)

lemma calm_persist: "calm h (snd (persist_or_queue ins e h))"
proof -
  let ?h1 = "h\<lparr>hnPending := hnPending h @ [e], hnAccepted := hnAccepted h @ [e]\<rparr>"
  have "calm h ?h1" by (rule calm_fields) simp_all
  then have "calm h (snd (flush_pending ins ?h1))" by (rule calm_trans [OF _ calm_flush])
  moreover have "calm h (h'\<lparr>hnAccepted := xs\<rparr>) \<longleftrightarrow> calm h h'" for h' xs by (simp add: calm_def)
  ultimately show ?thesis using calm_append [of h WriteMutation "ins 0" e] \<open>calm h ?h1\<close>
    by (auto simp: persist_or_queue_def Let_def split: prod.split sum.split)
qed

lemma calm_rebuild_unless: "calm h (snd (rebuild_unless env queued h))"
  by (simp add: rebuild_unless_def calm_rebuild)

lemma calm_from_session: "calm h (snd (rebuild_from_session env ins h))"
proof -
  obtain err h' where f: "flush_pending ins h = (err, h')" by (metis surj_pair)
  then have "calm h h'" using calm_flush [of h ins] by simp
  then show ?thesis using calm_trans [OF _ calm_rebuild, of h h' env]
    by (cases err) (simp_all add: rebuild_from_session_def f)
qed

lemma calm_take_back: "calm h (take_back n queued h)"
  by (rule calm_fields) (simp_all add: take_back_def)

lemma calm_change_setting:
  assumes "\<And>h. calm h (set_it h)" shows "calm h (snd (change_setting env ins e set_it h))"
proof -
  obtain q err h' where p: "persist_or_queue ins e h = ((q, err), h')" by (metis surj_pair)
  have c: "calm h h'" using calm_persist [of h ins e] p by simp
  then have "calm h (set_it h')" by (rule calm_trans [OF _ assms])
  with c show ?thesis
    by (cases q; cases err) (auto simp: change_setting_def p intro: calm_trans [OF _ calm_rebuild_unless])
qed

lemma calm_set_tools: "calm h (snd (set_tools env ins tools active h))"
proof -
  have "calm h (snd (case persist_or_queue ins e h of
        ((queued, Some err), h') \<Rightarrow> (Some err, take_back n queued h')
      | ((queued, None), h') \<Rightarrow>
          (case rebuild_unless env queued (install_tools tools index names h') of
             (Some err, _) \<Rightarrow> (Some err, h') | (None, h'') \<Rightarrow> (None, h''))))" for e n index names
  proof -
    obtain q err h' where p: "persist_or_queue ins e h = ((q, err), h')" by (metis surj_pair)
    have a: "calm h h'" using calm_persist [of h ins e] p by simp
    obtain e2 h2 where r: "rebuild_unless env q (install_tools tools index names h') = (e2, h2)"
      by (metis surj_pair)
    have "calm h' (install_tools tools index names h')" by (rule calm_fields) (simp_all add: install_tools_def)
    then have "calm h' h2"
      using calm_trans [OF _ calm_rebuild_unless, of h' "install_tools tools index names h'" env q] r by simp
    with a show ?thesis
      by (cases err; cases e2) (auto simp: p r intro: calm_trans calm_trans [OF _ calm_take_back])
  qed
  then show ?thesis by (simp add: set_tools_def split: sum.split prod.split)
qed

lemma calm_append_message: "calm h (snd (harness_append_message env ins m h))"
proof -
  obtain q err h' where
    p: "persist_or_queue ins (zero_entry\<lparr>enType := EntryMessage, enMessage := m\<rparr>) h = ((q, err), h')"
    by (metis surj_pair)
  have "calm h h'" using calm_persist [of h ins "zero_entry\<lparr>enType := EntryMessage, enMessage := m\<rparr>"] p by simp
  then show ?thesis
    by (cases err) (auto simp: harness_append_message_def p intro: calm_trans [OF _ calm_rebuild_unless] split: option.split)
qed

lemma calm_apply_setting: "calm h (snd (apply_setting env ins c h))"
  by (cases c) (simp_all add: calm_append_message calm_set_tools set_model_def set_reasoning_def
      set_active_tools_def Let_def calm_change_setting calm_fields split: sum.split)

lemma calm_navigate: "calm h (snd (navigate_write i leaf summary details h))"
proof (cases "summary = []")
  case False
  then show ?thesis
    by (intro calm_fields) (simp_all add: navigate_write_def harness_append_branch_def split: option.split prod.split sum.split)
qed (simp add: navigate_write_def calm_append)

lemma calm_prepare: "calm h (snd (prepare_next_turn env ins user h))"
  using calm_flush [of h ins]
  by (auto simp: prepare_next_turn_def Let_def split: prod.split option.split sum.split)

lemma calm_turn_end: "calm h (snd (handle_turn_end ins h))"
  using calm_flush [of h ins] by (auto simp: handle_turn_end_def split: prod.split)

lemma calm_refresh: "calm h (snd (refresh env opts h))"
proof -
  let ?h = "apply_options (harness_context (hnSession h)) opts h"
  obtain e1 h1 where i: "index_harness_tools ?h = (e1, h1)" by (metis surj_pair)
  obtain e2 h2 where r: "rebuild_agent env h1 = (e2, h2)" by (metis surj_pair)
  have "calm h ?h" by (rule calm_fields) (simp_all add: apply_options_def)
  moreover have "calm ?h h1"
    using i by (intro calm_fields) (auto simp: index_harness_tools_def Let_def split: sum.splits prod.splits if_splits)
  ultimately have c1: "calm h h1" by (rule calm_trans)
  moreover have "calm h1 h2" using calm_rebuild [of h1 env] r by simp
  ultimately have c2: "calm h h2" by (rule calm_trans)
  have "calm h h' \<Longrightarrow> calm h (restore_settings h h')" for h' by (auto simp: calm_def restore_settings_def)
  with c1 c2 show ?thesis
    by (cases e1; cases e2) (simp_all add: refresh_def index_and_rebuild_def i r)
qed

subsection \<open>The invariant of a run\<close>

definition queues_of :: "('l, 'w) harness \<Rightarrow> message_list" where
  "queues_of h = concat (map agent_queues (hnAgents h))"

definition held_by :: "('l, 'w) run_stage \<Rightarrow> message_list" where
  "held_by st = (case st of StageHook ctx cfg a q ps \<Rightarrow> q | StageStart a q ps \<Rightarrow> q | _ \<Rightarrow> [])"

definition runs_agent :: "nat \<Rightarrow> ('l, 'w) harness \<Rightarrow> bool" where
  "runs_agent a h \<longleftrightarrow> hnActiveAgent h = Some a \<and> a < length (hnAgents h) \<and> hnPhase h \<in> {PhaseTurn, PhaseIdle} \<and>
     (\<forall>b < length (hnAgents h). b \<noteq> a \<longrightarrow> agent_queues (hnAgents h ! b) = [])"

definition waits :: "nat \<Rightarrow> ('l, 'w) harness \<Rightarrow> bool" where
  "waits a h \<longleftrightarrow> hnActiveAgent h = None \<and> \<not> hnAcceptQueue h \<and> hnPhase h = PhaseTurn \<and>
     a < length (hnAgents h) \<and> queues_of h = []"

definition stage_ok :: "('l, 'w) run_stage \<Rightarrow> ('l, 'w) harness \<Rightarrow> bool" where
  "stage_ok st h \<longleftrightarrow>
     (case st of
        StageHook ctx cfg a q ps \<Rightarrow> waits a h
      | StageStart a q ps \<Rightarrow> waits a h
      | StageRunning a ps \<Rightarrow> runs_agent a h
      | StageFinishing a own \<Rightarrow> runs_agent a h \<and> own \<and> \<not> hnAcceptQueue h
      | StageDetach \<Rightarrow> hnPhase h = PhaseIdle \<and> \<not> hnAcceptQueue h \<and> queues_of h = [] \<and>
          (case hnActiveAgent h of None \<Rightarrow> True | Some a \<Rightarrow> a < length (hnAgents h))
      | StageSettle \<Rightarrow> hnPhase h = PhaseIdle \<and> \<not> hnAcceptQueue h \<and> queues_of h = [] \<and> hnActiveAgent h = None)"

definition slot_ok :: "('l, 'w) harness_world \<Rightarrow> bool" where
  "slot_ok w \<longleftrightarrow> hnAgent (hwHarness w) < length (hnAgents (hwHarness w)) \<and>
     (case hnRunDone (hwHarness w) of
        None \<Rightarrow> hwRuns w = fmempty \<and> hnActiveAgent (hwHarness w) = None \<and> \<not> hnAcceptQueue (hwHarness w) \<and>
          queues_of (hwHarness w) = [] \<and>
          (if hwSummary w then hnPhase (hwHarness w) \<in> {PhaseCompaction, PhaseBranchSummary}
           else hnPhase (hwHarness w) = PhaseIdle)
      | Some t \<Rightarrow> t < hnNextDone (hwHarness w) \<and> \<not> hwSummary w \<and>
          (\<exists>st. hwRuns w = fmupd t st fmempty \<and> stage_ok st (hwHarness w)))"

definition held_messages :: "('l, 'w) harness_world \<Rightarrow> message_list" where
  "held_messages w =
     (case hnRunDone (hwHarness w) of
        None \<Rightarrow> []
      | Some t \<Rightarrow> (case fmlookup (hwRuns w) t of None \<Rightarrow> [] | Some st \<Rightarrow> held_by st))"

definition conserved :: "('l, 'w) harness_world \<Rightarrow> bool" where
  "conserved w \<longleftrightarrow>
     mset (hwIn w) = mset (hwOut w) + mset (hnNextTurn (hwHarness w)) + mset (held_messages w) +
       mset (queues_of (hwHarness w))"

definition slot_inv :: "('l, 'w) harness_world \<Rightarrow> bool" where
  "slot_inv w \<longleftrightarrow> slot_ok w \<and> conserved w"

lemma calm_queues: "calm h h' \<Longrightarrow> queues_of h' = queues_of h"
  by (auto simp: calm_def queues_of_def)

lemma calm_runs_agent: "calm h h' \<Longrightarrow> runs_agent a h \<Longrightarrow> runs_agent a h'"
  by (auto simp: calm_def runs_agent_def nth_append)

lemma calm_waits: "calm h h' \<Longrightarrow> waits a h \<Longrightarrow> waits a h'"
  using calm_queues [of h h'] by (auto simp: calm_def waits_def)

lemma calm_stage: "calm h h' \<Longrightarrow> stage_ok st h \<Longrightarrow> stage_ok st h'"
  using calm_queues [of h h']
  by (cases st) (auto simp: stage_ok_def calm_runs_agent calm_waits, auto simp: calm_def split: option.splits)

lemma calm_inv:
  assumes "slot_inv w" "calm (hwHarness w) h'" shows "slot_inv (w\<lparr>hwHarness := h'\<rparr>)"
proof -
  have "slot_ok (w\<lparr>hwHarness := h'\<rparr>)"
    using assms calm_stage [OF assms(2)] calm_queues [OF assms(2)]
    by (auto simp: slot_inv_def slot_ok_def calm_def split: option.splits)
  moreover have "conserved (w\<lparr>hwHarness := h'\<rparr>)"
    using assms calm_queues [OF assms(2)]
    by (simp add: slot_inv_def conserved_def held_messages_def calm_def split: option.split)
  ultimately show ?thesis by (simp add: slot_inv_def)
qed

lemma slot_stage:
  assumes "slot_inv w" "fmlookup (hwRuns w) t = Some st"
  shows "hnRunDone (hwHarness w) = Some t" "hwRuns w = fmupd t st fmempty" "stage_ok st (hwHarness w)"
    "t < hnNextDone (hwHarness w)" "\<not> hwSummary w" "held_messages w = held_by st"
proof -
  have "hnRunDone (hwHarness w) = Some t \<and> hwRuns w = fmupd t st fmempty \<and> stage_ok st (hwHarness w) \<and>
      t < hnNextDone (hwHarness w) \<and> \<not> hwSummary w"
    using assms by (auto simp: slot_inv_def slot_ok_def split: option.splits if_splits)
  then show "hnRunDone (hwHarness w) = Some t" "hwRuns w = fmupd t st fmempty" "stage_ok st (hwHarness w)"
    "t < hnNextDone (hwHarness w)" "\<not> hwSummary w" "held_messages w = held_by st"
    using assms(2) by (simp_all add: held_messages_def)
qed

text \<open>A step of the run that is under way.\<close>

lemma stage_step:
  assumes "slot_inv w" "fmlookup (hwRuns w) t = Some st"
    and "stage_ok st' h'" "hnRunDone h' = Some t" "hnNextDone h' = hnNextDone (hwHarness w)"
    and "hnAgent h' < length (hnAgents h')" "mset inn = mset (hwIn w) + mset i"
    and "mset i + mset (hwOut w) + mset (hnNextTurn (hwHarness w)) + mset (held_by st) + mset (queues_of (hwHarness w)) =
      mset out + mset (hnNextTurn h') + mset (held_by st') + mset (queues_of h')"
  shows "slot_inv (w\<lparr>hwHarness := h', hwRuns := fmupd t st' (hwRuns w), hwIn := inn, hwOut := out\<rparr>)"
proof -
  note s = slot_stage [OF assms(1,2)]
  have c: "mset (hwIn w) = mset (hwOut w) + mset (hnNextTurn (hwHarness w)) + mset (held_by st) +
      mset (queues_of (hwHarness w))"
    using assms(1) s(6) by (simp add: slot_inv_def conserved_def)
  have "fmupd t st' (hwRuns w) = fmupd t st' fmempty" unfolding s(2) by simp
  then have "slot_ok (w\<lparr>hwHarness := h', hwRuns := fmupd t st' (hwRuns w), hwIn := inn, hwOut := out\<rparr>)"
    using assms(3-6) s(4,5) by (auto simp: slot_ok_def)
  with assms(4,7,8) c show ?thesis
    by (simp add: slot_inv_def conserved_def held_messages_def ac_simps)
qed

subsection \<open>Its stages keep it\<close>

lemma calm_preflight: "calm h (snd (preflight env ins h))"
proof -
  obtain err h' where f: "flush_pending ins h = (err, h')" by (metis surj_pair)
  then have "calm h h'" using calm_flush [of h ins] by simp
  then show ?thesis using calm_trans [OF _ calm_rebuild, of h h' env]
    by (cases err) (simp_all add: preflight_def f)
qed

lemma prompt_begin_cases:
  assumes "prompt_begin env ins parent ms h = (errs, st, h')"
  shows "(st = None \<and> h' = h) \<or>
    (can_start_run h \<and> (\<exists>h2. calm (reserve_run h) h2 \<and>
      ((st = Some StageDetach \<and> h' = fail_start False (hnNextTurn h) h2) \<or>
       (\<exists>s. st = Some s \<and> h' = h2\<lparr>hnNextTurn := []\<rparr> \<and> held_by s = hnNextTurn h \<and>
         (waits (hnAgent h2) h' \<longrightarrow> stage_ok s h')))))"
proof -
  obtain err h2 where p: "preflight env ins (reserve_run h) = (err, h2)" by (metis surj_pair)
  have c: "calm (reserve_run h) h2" using calm_preflight [of "reserve_run h" env ins] p by simp
  show ?thesis
  proof (cases "\<not> can_start_run h \<or> validate_messages (hnNextTurn h @ ms) \<noteq> None")
    case True
    then show ?thesis using assms by (auto simp: prompt_begin_def split: if_splits)
  next
    case False
    let ?errs = "opt_list err @ opt_list (run_context_err (hnNextDone h) parent h2)"
    have "(st = Some StageDetach \<and> h' = fail_start False (hnNextTurn h) h2) \<or>
       (\<exists>s. st = Some s \<and> h' = h2\<lparr>hnNextTurn := []\<rparr> \<and> held_by s = hnNextTurn h \<and>
         (waits (hnAgent h2) h' \<longrightarrow> stage_ok s h'))"
    proof (cases "?errs \<noteq> [] \<or> (hnHasHook h2 \<and> (\<exists>e. build_core_inputs env h2 = Inl e))")
      case True
      then have "st = Some StageDetach \<and> h' = fail_start False (hnNextTurn h) h2"
        using assms p False by (auto simp: prompt_begin_def Let_def split: if_splits)
      then show ?thesis by blast
    next
      case ok: False
      then show ?thesis using assms p False
        by (cases "build_core_inputs env h2")
          (auto simp: prompt_begin_def Let_def held_by_def stage_ok_def split: if_splits)
    qed
    with c False show ?thesis by blast
  qed
qed

lemma slot_idle:
  assumes "slot_inv w" "can_start_run (hwHarness w)"
  shows "hwRuns w = fmempty" "\<not> hwSummary w" "queues_of (hwHarness w) = []" "held_messages w = []"
    "hnActiveAgent (hwHarness w) = None" "hnAgent (hwHarness w) < length (hnAgents (hwHarness w))"
  using assms by (auto simp: slot_inv_def slot_ok_def can_start_run_def held_messages_def split: if_splits)

lemma inv_prompted:
  assumes "slot_inv w" shows "slot_inv (prompted w (prompt_begin env ins parent ms (hwHarness w)))"
proof -
  let ?h = "hwHarness w"
  obtain errs st h' where p: "prompt_begin env ins parent ms ?h = (errs, st, h')" by (metis surj_pair)
  have c0: "mset (hwIn w) = mset (hwOut w) + mset (hnNextTurn ?h) + mset (held_messages w) + mset (queues_of ?h)"
    using assms by (simp add: slot_inv_def conserved_def)
  from prompt_begin_cases [OF p] show ?thesis
  proof (elim disjE conjE exE)
    assume "st = None" "h' = ?h"
    then show ?thesis using assms by (simp add: prompted_def p)
  next
    fix h2 assume can: "can_start_run ?h" and c: "calm (reserve_run ?h) h2"
      and st: "st = Some StageDetach" "h' = fail_start False (hnNextTurn ?h) h2"
    note i = slot_idle [OF assms can]
    have q: "queues_of h2 = []" using calm_queues [OF c] i(3) by (simp add: reserve_run_def queues_of_def)
    have q': "queues_of h' = []" using q by (simp add: st(2) fail_start_def queues_of_def)
    have "slot_ok (prompted w (errs, st, h'))"
      using c i q' st by (auto simp: slot_ok_def prompted_def stage_ok_def fail_start_def calm_def reserve_run_def)
    moreover have "conserved (prompted w (errs, st, h'))"
      using c i q' st c0 by (auto simp: conserved_def prompted_def held_messages_def held_by_def fail_start_def
          calm_def reserve_run_def)
    ultimately show ?thesis by (simp add: p slot_inv_def)
  next
    fix h2 s assume can: "can_start_run ?h" and c: "calm (reserve_run ?h) h2"
      and st: "st = Some s" "h' = h2\<lparr>hnNextTurn := []\<rparr>" "held_by s = hnNextTurn ?h"
        "waits (hnAgent h2) h' \<longrightarrow> stage_ok s h'"
    note i = slot_idle [OF assms can]
    have q: "queues_of h2 = []" using calm_queues [OF c] i(3) by (simp add: reserve_run_def queues_of_def)
    have q': "queues_of h' = []" using q by (simp add: st(2) queues_of_def)
    have "waits (hnAgent h2) h'"
      using c i(6) q' by (auto simp: waits_def st(2) calm_def reserve_run_def)
    then have "stage_ok s h'" using st(4) by blast
    then have "slot_ok (prompted w (errs, st, h'))"
      using c i st by (auto simp: slot_ok_def prompted_def calm_def reserve_run_def)
    moreover have "conserved (prompted w (errs, st, h'))"
      using c i q' st c0 by (auto simp: conserved_def prompted_def held_messages_def calm_def reserve_run_def)
    ultimately show ?thesis by (simp add: p slot_inv_def)
  qed
qed

lemma inv_hook:
  assumes "slot_inv w" "fmlookup (hwRuns w) tok = Some (StageHook ctx cfg a q ps)"
  shows "slot_inv (advanced w tok (prompt_hook tok parent r ctx cfg a q ps (hwHarness w)))"
proof -
  let ?h = "hwHarness w"
  note s = slot_stage [OF assms]
  obtain errs st h' where p: "prompt_hook tok parent r ctx cfg a q ps ?h = (errs, st, h')" by (metis surj_pair)
  have wt: "waits a ?h" using s(3) by (simp add: stage_ok_def)
  have qe: "queues_of (fail_start True q ?h) = []" using wt by (simp add: waits_def queues_of_def fail_start_def)
  have ca: "calm ?h (snd (add_agent c g ?h))" for c g by (rule calm_add_agent)
  have wa: "waits (length (hnAgents ?h)) (snd (add_agent c g ?h))" for c g
    using calm_waits [OF ca [of c g] wt] by (simp add: waits_def) (simp add: add_agent_def)
  have "(st = StageDetach \<and> h' = fail_start True q ?h) \<or> (held_by st = q \<and> stage_ok st h' \<and> calm ?h h')"
    using p wt wa ca by (auto simp: prompt_hook_def Let_def held_by_def stage_ok_def add_agent_def
        split: if_splits option.splits)
  then have "stage_ok st h' \<and> hnRunDone h' = Some tok \<and> hnNextDone h' = hnNextDone ?h \<and>
      hnAgent h' < length (hnAgents h') \<and>
      mset q + mset (hnNextTurn ?h) + mset (queues_of ?h) = mset (held_by st) + mset (hnNextTurn h') + mset (queues_of h')"
    using s(1) qe wt assms(1) calm_queues [of ?h h']
    by (auto simp: stage_ok_def held_by_def calm_def waits_def slot_inv_def slot_ok_def)
      (auto simp: fail_start_def)
  then show ?thesis
    using stage_step [OF assms, of st h' "hwIn w" "[]" "hwOut w"] by (simp add: p advanced_def held_by_def ac_simps)
qed

lemma runs_agent_queues:
  assumes "runs_agent a h" shows "queues_of h = agent_queues (hnAgents h ! a)"
proof -
  let ?xs = "hnAgents h"
  have a: "a < length ?xs" "\<forall>b < length ?xs. b \<noteq> a \<longrightarrow> agent_queues (?xs ! b) = []"
    using assms by (simp_all add: runs_agent_def)
  have l: "agent_queues ag = []" if "ag \<in> set (take a ?xs)" for ag
    using that a by (auto simp: in_set_conv_nth)
  have r: "agent_queues ag = []" if "ag \<in> set (drop (Suc a) ?xs)" for ag
    using that a by (auto simp: in_set_conv_nth)
  have "queues_of h = concat (map agent_queues (take a ?xs @ ?xs ! a # drop (Suc a) ?xs))"
    by (simp only: queues_of_def id_take_nth_drop [OF a(1), symmetric])
  moreover have "concat (map agent_queues (take a ?xs)) = []" "concat (map agent_queues (drop (Suc a) ?xs)) = []"
    using l r by (auto simp: concat_eq_Nil_conv)
  ultimately show ?thesis by simp
qed

lemma put_agent_simps [simp]:
  "hnActiveAgent (put_agent a ag h) = hnActiveAgent h" "hnPhase (put_agent a ag h) = hnPhase h"
  "hnAcceptQueue (put_agent a ag h) = hnAcceptQueue h" "hnNextTurn (put_agent a ag h) = hnNextTurn h"
  "hnRunDone (put_agent a ag h) = hnRunDone h" "hnNextDone (put_agent a ag h) = hnNextDone h"
  "hnAgent (put_agent a ag h) = hnAgent h" "length (hnAgents (put_agent a ag h)) = length (hnAgents h)"
  by (simp_all add: put_agent_def)

lemma put_agent_runs: "runs_agent a h \<Longrightarrow> runs_agent a (put_agent a ag h)"
  by (auto simp: runs_agent_def put_agent_def)

lemma put_agent_queues: "runs_agent a h \<Longrightarrow> queues_of (put_agent a ag h) = agent_queues ag"
  using runs_agent_queues [OF put_agent_runs, of a h ag] by (simp add: put_agent_def runs_agent_def)

lemma slot_agent: "slot_inv w \<Longrightarrow> hnAgent (hwHarness w) < length (hnAgents (hwHarness w))"
  by (simp add: slot_inv_def slot_ok_def)

lemma inv_start:
  assumes "slot_inv w" "fmlookup (hwRuns w) tok = Some (StageStart a q ps)"
    "r = prompt_start tok parent a q ps (hwHarness w)"
  shows "slot_inv ((advanced w tok r)\<lparr>hwOut := hwOut w @ (if is_running (fst (snd r)) then q else [])\<rparr>)"
proof -
  let ?h = "hwHarness w"
  note s = slot_stage [OF assms(1,2)]
  have wt: "waits a ?h" using s(3) by (simp add: stage_ok_def)
  have ag: "runs_agent a (?h\<lparr>hnActiveAgent := Some a, hnAcceptQueue := True\<rparr>)"
    using wt by (auto simp: waits_def runs_agent_def queues_of_def)
  show ?thesis
  proof (cases "run_context_err tok parent ?h")
    case None
    have "slot_inv (w\<lparr>hwHarness := ?h\<lparr>hnActiveAgent := Some a, hnAcceptQueue := True\<rparr>,
        hwRuns := fmupd tok (StageRunning a ps) (hwRuns w), hwIn := hwIn w, hwOut := hwOut w @ q\<rparr>)"
      by (rule stage_step [OF assms(1,2), of _ _ _ "[]"])
        (use ag s(1) slot_agent [OF assms(1)] in \<open>simp_all add: stage_ok_def held_by_def queues_of_def\<close>)
    then show ?thesis using None by (simp add: assms(3) prompt_start_def advanced_def is_running_def)
  next
    case (Some err)
    have "slot_inv (w\<lparr>hwHarness := fail_start True q ?h,
        hwRuns := fmupd tok StageDetach (hwRuns w), hwIn := hwIn w, hwOut := hwOut w\<rparr>)"
      by (rule stage_step [OF assms(1,2), of _ _ _ "[]"])
        (use wt s(1) slot_agent [OF assms(1)] in
          \<open>simp_all add: stage_ok_def held_by_def queues_of_def waits_def fail_start_def\<close>)
    then show ?thesis using Some by (simp add: assms(3) prompt_start_def advanced_def is_running_def)
  qed
qed

text \<open>A step of the running agent or on its queues, which may hand messages out or take some in.\<close>

lemma running_step:
  assumes "slot_inv w" "fmlookup (hwRuns w) tok = Some (StageRunning a ps)"
    and "mset inn = mset (hwIn w) + mset i"
    and "mset i + mset (hwOut w) + mset (agent_queues (hnAgents (hwHarness w) ! a)) = mset out + mset (agent_queues ag)"
  shows "slot_inv (w\<lparr>hwHarness := put_agent a ag (hwHarness w), hwIn := inn, hwOut := out\<rparr>)"
proof -
  note s = slot_stage [OF assms(1,2)]
  have r: "runs_agent a (hwHarness w)" using s(3) by (simp add: stage_ok_def)
  have "slot_inv (w\<lparr>hwHarness := put_agent a ag (hwHarness w),
      hwRuns := fmupd tok (StageRunning a ps) (hwRuns w), hwIn := inn, hwOut := out\<rparr>)"
    by (rule stage_step [OF assms(1,2), of _ _ _ i])
      (use r s(1) slot_agent [OF assms(1)] assms(3,4) in
        \<open>simp_all add: stage_ok_def held_by_def put_agent_runs put_agent_queues runs_agent_queues ac_simps\<close>)
  moreover have "fmupd tok (StageRunning a ps) (hwRuns w) = hwRuns w" using s(2) by simp
  ultimately show ?thesis by simp
qed

lemma queue_drain_split: "queue_drain q = (ms, q') \<Longrightarrow> mqMessages q = ms @ mqMessages q'"
  by (auto simp: queue_drain_def Let_def split: if_splits)

lemma inv_take:
  assumes "slot_inv w" "fmlookup (hwRuns w) tok = Some (StageRunning a ps)"
  shows "slot_inv (take_steering a w)" "slot_inv (take_follow_up a w)"
proof -
  let ?ag = "hnAgents (hwHarness w) ! a"
  obtain ms q where d: "queue_drain (agSteering ?ag) = (ms, q)" by (metis surj_pair)
  have "slot_inv (w\<lparr>hwHarness := put_agent a (?ag\<lparr>agSteering := q\<rparr>) (hwHarness w), hwIn := hwIn w, hwOut := hwOut w @ ms\<rparr>)"
    by (rule running_step [OF assms, of _ "[]"])
      (use queue_drain_split [OF d] in \<open>simp_all add: agent_queues_def ac_simps\<close>)
  then show "slot_inv (take_steering a w)" by (simp add: take_steering_def d Let_def)
  obtain fs p where f: "queue_drain (agFollowUp ?ag) = (fs, p)" by (metis surj_pair)
  have "slot_inv (w\<lparr>hwHarness := put_agent a (?ag\<lparr>agFollowUp := p\<rparr>) (hwHarness w), hwIn := hwIn w, hwOut := hwOut w @ fs\<rparr>)"
    by (rule running_step [OF assms, of _ "[]"])
      (use queue_drain_split [OF f] in \<open>simp_all add: agent_queues_def ac_simps\<close>)
  then show "slot_inv (take_follow_up a w)" by (simp add: take_follow_up_def f Let_def)
qed

lemma inv_works:
  assumes "slot_inv w" "fmlookup (hwRuns w) tok = Some (StageRunning a ps)"
    "agSteering ag = agSteering (hnAgents (hwHarness w) ! a)" "agFollowUp ag = agFollowUp (hnAgents (hwHarness w) ! a)"
  shows "slot_inv (w\<lparr>hwHarness := put_agent a ag (hwHarness w)\<rparr>)"
  using running_step [OF assms(1,2), of "hwIn w" "[]" "hwOut w" ag] assms(3,4) by (simp add: agent_queues_def)

lemma clear_queues:
  assumes "clear_steering_queue ag = (ms, ag1)" "clear_follow_up_queue ag1 = (fs, ag2)"
  shows "agent_queues ag = ms @ fs" "agent_queues ag2 = []"
  using assms by (auto simp: clear_steering_queue_def clear_follow_up_queue_def queue_take_all_def queue_clear_def
      agent_queues_def)

lemma drain_active_step:
  assumes "runs_agent a h"
  shows "runs_agent a (drain_active_queues h)" "queues_of (drain_active_queues h) = []"
    "hnNextTurn (drain_active_queues h) = hnNextTurn h @ queues_of h"
    "\<not> hnAcceptQueue (drain_active_queues h)" "hnRunDone (drain_active_queues h) = hnRunDone h"
    "hnNextDone (drain_active_queues h) = hnNextDone h" "hnAgent (drain_active_queues h) = hnAgent h"
    "length (hnAgents (drain_active_queues h)) = length (hnAgents h)"
proof -
  have act: "hnActiveAgent h = Some a" using assms by (simp add: runs_agent_def)
  obtain ms ag1 where c1: "clear_steering_queue (hnAgents h ! a) = (ms, ag1)" by (metis surj_pair)
  obtain fs ag2 where c2: "clear_follow_up_queue ag1 = (fs, ag2)" by (metis surj_pair)
  have eq: "drain_active_queues h = (put_agent a ag2 h)\<lparr>hnAcceptQueue := False, hnNextTurn := hnNextTurn h @ ms @ fs\<rparr>"
    by (simp add: drain_active_queues_def Let_def act c1 c2 put_agent_def)
  have f: "runs_agent a (x\<lparr>hnAcceptQueue := False, hnNextTurn := y\<rparr>) \<longleftrightarrow> runs_agent a x"
    "queues_of (x\<lparr>hnAcceptQueue := False, hnNextTurn := y\<rparr>) = queues_of x" for x :: "('a, 'b) harness" and y
    by (simp_all add: runs_agent_def queues_of_def)
  show "runs_agent a (drain_active_queues h)" by (simp add: eq f put_agent_runs assms)
  show "queues_of (drain_active_queues h) = []"
    by (simp add: eq f put_agent_queues [OF assms] clear_queues [OF c1 c2])
  show "hnNextTurn (drain_active_queues h) = hnNextTurn h @ queues_of h"
    by (simp add: eq runs_agent_queues [OF assms] clear_queues(1) [OF c1 c2])
  show "\<not> hnAcceptQueue (drain_active_queues h)" "hnRunDone (drain_active_queues h) = hnRunDone h"
    "hnNextDone (drain_active_queues h) = hnNextDone h" "hnAgent (drain_active_queues h) = hnAgent h"
    "length (hnAgents (drain_active_queues h)) = length (hnAgents h)"
    by (simp_all add: eq)
qed

text \<open>A drain of the active queues followed by writes, and the phase that is set then.\<close>

lemma drained_step:
  assumes "slot_inv w" "fmlookup (hwRuns w) tok = Some st" "held_by st = []" "held_by st' = []"
    and "runs_agent a (hwHarness w)" "calm (drain_active_queues (hwHarness w)) h'"
    and "\<And>h. runs_agent a h \<Longrightarrow> queues_of h = [] \<Longrightarrow> \<not> hnAcceptQueue h \<Longrightarrow> p \<in> {hnPhase h, PhaseIdle} \<Longrightarrow>
      hnPhase h = hnPhase h' \<Longrightarrow> stage_ok st' (h\<lparr>hnPhase := p\<rparr>)"
    and "p \<in> {hnPhase h', PhaseIdle}"
  shows "slot_inv (w\<lparr>hwHarness := h'\<lparr>hnPhase := p\<rparr>, hwRuns := fmupd tok st' (hwRuns w)\<rparr>)"
proof -
  note s = slot_stage [OF assms(1,2)]
  note d = drain_active_step [OF assms(5)]
  have r: "runs_agent a h'" by (rule calm_runs_agent [OF assms(6) d(1)])
  have q: "queues_of h' = []" using calm_queues [OF assms(6)] d(2) by simp
  have acc: "\<not> hnAcceptQueue h'" using assms(6) d(4) by (simp add: calm_def)
  have ag: "hnAgent h' < length (hnAgents h')"
    using assms(6) d(7,8) slot_agent [OF assms(1)] by (auto simp: calm_def)
  have "slot_inv (w\<lparr>hwHarness := h'\<lparr>hnPhase := p\<rparr>, hwRuns := fmupd tok st' (hwRuns w), hwIn := hwIn w, hwOut := hwOut w\<rparr>)"
    by (rule stage_step [OF assms(1,2), of _ _ _ "[]"])
      (use assms(3,4,6,8) assms(7) [OF r q acc] s(1) d ag q in \<open>simp_all add: calm_def queues_of_def ac_simps\<close>)
  then show ?thesis by simp
qed

lemma inv_event:
  assumes "slot_inv w" "fmlookup (hwRuns w) tok = Some (StageRunning a ps)"
  shows "slot_inv (with_harness w (handle_event ins ev (hwHarness w)))"
proof -
  let ?h = "hwHarness w" let ?h1 = "?h\<lparr>hnEvents := hnEvents ?h @ [ev]\<rparr>"
  have c1: "calm ?h ?h1" by (rule calm_fields) simp_all
  have i1: "slot_inv (w\<lparr>hwHarness := ?h1\<rparr>)" by (rule calm_inv [OF assms(1) c1])
  have l1: "fmlookup (hwRuns (w\<lparr>hwHarness := ?h1\<rparr>)) tok = Some (StageRunning a ps)" using assms(2) by simp
  have r: "runs_agent a ?h1"
    using calm_runs_agent [OF c1] slot_stage(3) [OF assms] by (simp add: stage_ok_def)
  obtain err h2 where f: "flush_pending ins (drain_active_queues ?h1) = (err, h2)" by (metis surj_pair)
  have c2: "calm (drain_active_queues ?h1) h2" using calm_flush [of "drain_active_queues ?h1" ins] f by simp
  have same: "fmupd tok (StageRunning a ps) (hwRuns w) = hwRuns w" using slot_stage(2) [OF assms] by simp
  have "slot_inv ((w\<lparr>hwHarness := ?h1\<rparr>)\<lparr>hwHarness := h2\<lparr>hnPhase := p\<rparr>,
      hwRuns := fmupd tok (StageRunning a ps) (hwRuns (w\<lparr>hwHarness := ?h1\<rparr>))\<rparr>)" if "p \<in> {hnPhase h2, PhaseIdle}" for p
    by (rule drained_step [OF i1 l1 _ _ _ _ _ that])
      (use r c2 in \<open>auto simp: held_by_def stage_ok_def runs_agent_def\<close>)
  then have ended: "slot_inv (w\<lparr>hwHarness := h2\<lparr>hnPhase := p\<rparr>\<rparr>)" if "p \<in> {hnPhase h2, PhaseIdle}" for p
    using that same by simp
  have e: "slot_inv (w\<lparr>hwHarness := snd (harness_append WriteEvent (ins 0) e ?h1)\<rparr>)" for e
    using calm_inv [OF i1, of "snd (harness_append WriteEvent (ins 0) e ?h1)"] calm_append [of ?h1] by simp
  show ?thesis
    using i1 e [of "zero_entry\<lparr>enType := EntryMessage, enMessage := evMessage ev\<rparr>"]
      ended [of "hnPhase h2"] ended [of PhaseIdle]
    by (auto simp: with_harness_def handle_event_def Let_def f split: prod.split sum.split option.split)
qed

lemma inv_finish_begin:
  assumes "slot_inv w" "fmlookup (hwRuns w) tok = Some (StageRunning a ps)"
  shows "slot_inv (advanced w tok ([], finish_begin tok a (hwHarness w)))"
proof -
  let ?h = "hwHarness w"
  note s = slot_stage [OF assms]
  have r: "runs_agent a ?h" using s(3) by (simp add: stage_ok_def)
  have fb: "finish_begin tok a ?h = (StageFinishing a True, ?h\<lparr>hnAcceptQueue := False\<rparr>)"
    using r s(1) by (simp add: finish_begin_def runs_agent_def)
  have "slot_inv (w\<lparr>hwHarness := ?h\<lparr>hnAcceptQueue := False\<rparr>,
      hwRuns := fmupd tok (StageFinishing a True) (hwRuns w), hwIn := hwIn w, hwOut := hwOut w\<rparr>)"
    by (rule stage_step [OF assms, of _ _ _ "[]"])
      (use r s(1) slot_agent [OF assms(1)] in
        \<open>simp_all add: stage_ok_def held_by_def queues_of_def runs_agent_def\<close>)
  then show ?thesis by (simp add: advanced_def fb)
qed

lemma inv_finishes:
  assumes "slot_inv w" "fmlookup (hwRuns w) tok = Some (StageFinishing a own)"
  shows "slot_inv (advanced w tok ([], StageDetach, snd (finish_locked env ins own (hwHarness w))))"
proof -
  let ?h = "hwHarness w"
  note s = slot_stage [OF assms]
  have r: "runs_agent a ?h" "own" using s(3) by (simp_all add: stage_ok_def)
  obtain err h' where f: "rebuild_from_session env ins (drain_active_queues ?h) = (err, h')" by (metis surj_pair)
  have c: "calm (drain_active_queues ?h) h'"
    using calm_from_session [of "drain_active_queues ?h" env ins] f by simp
  have "slot_inv (w\<lparr>hwHarness := h'\<lparr>hnPhase := PhaseIdle\<rparr>, hwRuns := fmupd tok StageDetach (hwRuns w)\<rparr>)"
    by (rule drained_step [OF assms _ _ r(1) c])
      (auto simp: held_by_def stage_ok_def queues_of_def runs_agent_def)
  then show ?thesis using r(2) by (simp add: advanced_def finish_locked_def f)
qed

lemma inv_detach:
  assumes "slot_inv w" "fmlookup (hwRuns w) tok = Some StageDetach"
  shows "slot_inv (advanced w tok ([], StageSettle, detach_run tok (hwHarness w)))"
proof -
  let ?h = "hwHarness w"
  note s = slot_stage [OF assms]
  have d: "detach_run tok ?h = ?h\<lparr>hnActiveAgent := None, hnRunCancel := None, hnAcceptQueue := False\<rparr>"
    using s(1) by (simp add: detach_run_def)
  have "slot_inv (w\<lparr>hwHarness := detach_run tok ?h,
      hwRuns := fmupd tok StageSettle (hwRuns w), hwIn := hwIn w, hwOut := hwOut w\<rparr>)"
    by (rule stage_step [OF assms, of _ _ _ "[]"])
      (use s(1,3) slot_agent [OF assms(1)] in \<open>simp_all add: d stage_ok_def held_by_def queues_of_def\<close>)
  then show ?thesis by (simp add: advanced_def)
qed

lemma inv_settle:
  assumes "slot_inv w" "fmlookup (hwRuns w) tok = Some StageSettle"
  shows "slot_inv (w\<lparr>hwHarness := harness_settle tok (hwHarness w), hwRuns := fmdrop tok (hwRuns w)\<rparr>)"
proof -
  note s = slot_stage [OF assms]
  have "fmdrop tok (hwRuns w) = fmempty" unfolding s(2) by (simp add: fmap_ext)
  then show ?thesis
    using s assms(1) by (auto simp: slot_inv_def slot_ok_def conserved_def held_messages_def harness_settle_def
        stage_ok_def held_by_def queues_of_def)
qed

lemma enqueue_adds:
  "agent_steer ms ag = (None, ag') \<Longrightarrow> mset (agent_queues ag') = mset (agent_queues ag) + mset ms"
  "agent_follow_up ms ag = (None, ag') \<Longrightarrow> mset (agent_queues ag') = mset (agent_queues ag) + mset ms"
  "agent_steer ms ag = (Some e, ag') \<Longrightarrow> agent_queues ag' = agent_queues ag"
  "agent_follow_up ms ag = (Some e, ag') \<Longrightarrow> agent_queues ag' = agent_queues ag"
  by (auto simp: agent_steer_def agent_follow_up_def queue_enqueue_def clone_validated_messages_def agent_queues_def
      split: prod.splits sum.splits option.splits if_splits)

lemma slot_active:
  assumes "slot_inv w" "hnActiveAgent (hwHarness w) = Some a" "hnAcceptQueue (hwHarness w)"
  obtains t ps where "fmlookup (hwRuns w) t = Some (StageRunning a ps)"
proof -
  from assms obtain t st where t: "hnRunDone (hwHarness w) = Some t" "hwRuns w = fmupd t st fmempty"
    "stage_ok st (hwHarness w)"
    by (auto simp: slot_inv_def slot_ok_def split: option.splits)
  then obtain ps where "st = StageRunning a ps"
    using assms(2,3) by (cases st) (auto simp: stage_ok_def waits_def runs_agent_def)
  with t(2) have "fmlookup (hwRuns w) t = Some (StageRunning a ps)" by simp
  with that show ?thesis .
qed

lemma inv_enqueue:
  assumes "slot_inv w"
    and "\<And>ag ag'. enqueue ms ag = (None, ag') \<Longrightarrow> mset (agent_queues ag') = mset (agent_queues ag) + mset ms"
    and "\<And>ag ag' e. enqueue ms ag = (Some e, ag') \<Longrightarrow> agent_queues ag' = agent_queues ag"
  shows "slot_inv (enqueued w ms (enqueue_while_running ms op enqueue (hwHarness w)))"
proof -
  let ?h = "hwHarness w"
  show ?thesis
  proof (cases "validate_queued_messages ms = None \<and> hnAcceptQueue ?h \<and> hnActiveAgent ?h \<noteq> None")
    case False
    then have "\<exists>e. enqueue_while_running ms op enqueue ?h = (Some e, ?h)"
      by (auto simp: enqueue_while_running_def split: option.split)
    then show ?thesis using assms(1) by (auto simp: enqueued_def)
  next
    case True
    then obtain a where a: "hnActiveAgent ?h = Some a" by auto
    from slot_active [OF assms(1) a] True obtain t ps where t: "fmlookup (hwRuns w) t = Some (StageRunning a ps)" by blast
    obtain e ag where q: "enqueue ms (hnAgents ?h ! a) = (e, ag)" by (metis surj_pair)
    have eq: "enqueue_while_running ms op enqueue ?h = (map_option HeCore e, put_agent a ag ?h)"
      using True by (simp add: enqueue_while_running_def a q put_agent_def)
    show ?thesis
    proof (cases e)
      case None
      have "slot_inv (w\<lparr>hwHarness := put_agent a ag ?h, hwIn := hwIn w @ ms, hwOut := hwOut w\<rparr>)"
        by (rule running_step [OF assms(1) t, of _ ms]) (use assms(2) q None in \<open>simp_all add: ac_simps\<close>)
      then show ?thesis by (simp add: enqueued_def eq None)
    next
      case (Some x)
      have "slot_inv (w\<lparr>hwHarness := put_agent a ag ?h, hwIn := hwIn w, hwOut := hwOut w\<rparr>)"
        by (rule running_step [OF assms(1) t, of _ "[]"]) (use assms(3) q Some in simp_all)
      then show ?thesis by (simp add: enqueued_def eq Some)
    qed
  qed
qed

lemma inv_next_turn:
  assumes "slot_inv w" shows "slot_inv (enqueued w ms (next_turn ms (hwHarness w)))"
proof (cases "validate_queued_messages ms")
  case None
  let ?h = "hwHarness w" let ?h' = "?h\<lparr>hnNextTurn := hnNextTurn ?h @ ms\<rparr>"
  have st: "stage_ok st ?h' \<longleftrightarrow> stage_ok st ?h" for st
    by (cases st) (simp_all add: stage_ok_def waits_def runs_agent_def queues_of_def split: option.split)
  have "slot_ok (w\<lparr>hwHarness := ?h', hwIn := hwIn w @ ms\<rparr>)"
    using assms st by (auto simp: slot_inv_def slot_ok_def queues_of_def split: option.splits if_splits)
  moreover have "conserved (w\<lparr>hwHarness := ?h', hwIn := hwIn w @ ms\<rparr>)"
    using assms by (simp add: slot_inv_def conserved_def held_messages_def queues_of_def ac_simps split: option.split)
  ultimately show ?thesis by (simp add: enqueued_def next_turn_def None slot_inv_def)
qed (simp add: enqueued_def next_turn_def assms)

lemma inv_abort:
  assumes "slot_inv w" shows "slot_inv (aborted w)"
proof -
  let ?h = "hwHarness w" let ?c = "cancel_active_run ?h"
  have c: "calm ?h ?c" by (rule calm_fields) (simp_all add: cancel_active_run_def split: option.split)
  have ag: "hnAgents ?c = hnAgents ?h" by (simp add: cancel_active_run_def split: option.split)
  show ?thesis
  proof (cases "hnRunDone ?h = None \<or> hnActiveAgent ?h = None")
    case True
    then have "aborted w = w \<or> aborted w = w\<lparr>hwHarness := ?c\<rparr>"
      by (auto simp: aborted_def harness_abort_def)
    then show ?thesis using assms calm_inv [OF assms c] by auto
  next
    case False
    then obtain t a where t: "hnRunDone ?h = Some t" and a: "hnActiveAgent ?h = Some a" by auto
    from assms t obtain st where st: "fmlookup (hwRuns w) t = Some st"
      by (auto simp: slot_inv_def slot_ok_def)
    note s = slot_stage [OF assms st]
    obtain ms ag1 where c1: "clear_steering_queue (hnAgents ?h ! a) = (ms, ag1)" by (metis surj_pair)
    obtain fs ag2 where c2: "clear_follow_up_queue ag1 = (fs, ag2)" by (metis surj_pair)
    let ?ag = "snd (agent_abort ag2)"
    let ?h' = "(put_agent a ?ag ?c)\<lparr>hnAcceptQueue := False\<rparr>"
    note q = clear_queues [OF c1 c2]
    have qa: "agent_queues ?ag = []" using q(2) by (simp add: agent_abort_def agent_queues_def split: option.split)
    have eq: "aborted w = w\<lparr>hwHarness := ?h', hwOut := hwOut w @ ms @ fs\<rparr>"
      using t a by (simp add: aborted_def harness_abort_def c1 c2 put_agent_def ag)
    have q': "queues_of ?h' = queues_of (put_agent a ?ag ?c)" by (simp add: queues_of_def)
    have run: "runs_agent a ?h' \<and> queues_of ?h' = [] \<and> queues_of ?h = ms @ fs" if "runs_agent a ?h"
    proof -
      have r: "runs_agent a ?c" by (rule calm_runs_agent [OF c that])
      then show ?thesis
        using put_agent_runs [OF r, of ?ag] put_agent_queues [OF r, of ?ag] runs_agent_queues [OF that] qa q' q(1)
        by (simp add: runs_agent_def)
    qed
    have det: "queues_of ?h' = [] \<and> queues_of ?h = ms @ fs" if "queues_of ?h = []" "a < length (hnAgents ?h)"
    proof -
      have e: "agent_queues x = []" if "x \<in> set (hnAgents ?h)" for x
        using \<open>queues_of ?h = []\<close> that by (auto simp: queues_of_def)
      then have "ms @ fs = []" using q(1) nth_mem [OF that(2)] by simp
      moreover have "x = ?ag \<or> x \<in> set (hnAgents ?h)" if "x \<in> set (hnAgents ?h')" for x
        using that set_update_subset_insert [of "hnAgents ?h" a ?ag] by (auto simp: put_agent_def ag)
      ultimately show ?thesis using e qa that(1) by (auto simp: queues_of_def)
    qed
    have fields: "hnPhase ?h' = hnPhase ?h" "hnRunDone ?h' = Some t" "hnNextDone ?h' = hnNextDone ?h"
      "hnNextTurn ?h' = hnNextTurn ?h" "hnAgent ?h' = hnAgent ?h" "hnActiveAgent ?h' = Some a"
      "length (hnAgents ?h') = length (hnAgents ?h)"
      using t a ag by (simp_all add: cancel_active_run_def split: option.split)
    have "stage_ok st ?h' \<and> queues_of ?h' = [] \<and> queues_of ?h = ms @ fs"
      using s(3) a run det fields(1,6,7)
      by (cases st) (auto simp: stage_ok_def waits_def, auto simp: runs_agent_def)
    then have "slot_inv (w\<lparr>hwHarness := ?h', hwRuns := fmupd t st (hwRuns w), hwIn := hwIn w, hwOut := hwOut w @ ms @ fs\<rparr>)"
      using fields slot_agent [OF assms]
      by (intro stage_step [OF assms st, of _ _ _ "[]"]) (simp_all add: ac_simps)
    moreover have "fmupd t st (hwRuns w) = hwRuns w" using s(2) by simp
    ultimately show ?thesis by (simp add: eq)
  qed
qed

subsection \<open>Summaries, and a new harness\<close>

lemma inv_begin_summary:
  assumes "slot_inv w" "p \<in> {PhaseCompaction, PhaseBranchSummary}"
    "begin_summary_operation env ins p (hwHarness w) = (r, h)"
  shows "slot_inv (w\<lparr>hwHarness := h, hwSummary := hwSummary w \<or> (\<exists>i. r = Inr i)\<rparr>)"
proof -
  let ?h = "hwHarness w"
  show ?thesis
  proof (cases "can_start_run ?h")
    case False
    then have "h = ?h" "\<not> (\<exists>i. r = Inr i)" using assms(3) by (auto simp: begin_summary_operation_def)
    then show ?thesis using assms(1) by simp
  next
    case True
    note i = slot_idle [OF assms(1) True]
    obtain err h1 where f: "rebuild_from_session env ins (?h\<lparr>hnPhase := p\<rparr>) = (err, h1)" by (metis surj_pair)
    have c: "calm (?h\<lparr>hnPhase := p\<rparr>) h1" using calm_from_session [of "?h\<lparr>hnPhase := p\<rparr>" env ins] f by simp
    have q: "queues_of h1 = []" using calm_queues [OF c] i(3) by (simp add: queues_of_def)
    have acc: "\<not> hnAcceptQueue ?h" "hnRunDone ?h = None" using assms(1) True
      by (auto simp: slot_inv_def slot_ok_def can_start_run_def split: option.splits)
    have "(\<exists>i. r = Inr i) \<and> h = h1 \<or> \<not> (\<exists>i. r = Inr i) \<and> h = h1\<lparr>hnPhase := PhaseIdle\<rparr>"
      using assms(3) True f by (cases err) (auto simp: begin_summary_operation_def Let_def)
    moreover have "slot_inv (w\<lparr>hwHarness := h1, hwSummary := True\<rparr>)"
      "slot_inv (w\<lparr>hwHarness := h1\<lparr>hnPhase := PhaseIdle\<rparr>, hwSummary := False\<rparr>)"
      using c q i acc assms(1,2)
      by (auto simp: slot_inv_def slot_ok_def conserved_def held_messages_def calm_def queues_of_def)
    ultimately show ?thesis using i(2) by auto
  qed
qed

lemma inv_finish_summary:
  assumes "slot_inv w" "hwSummary w"
  shows "slot_inv (w\<lparr>hwHarness := snd (finish_summary_operation env ins (hwHarness w)), hwSummary := False\<rparr>)"
proof -
  let ?h = "hwHarness w"
  obtain err h1 where f: "rebuild_from_session env ins ?h = (err, h1)" by (metis surj_pair)
  have c: "calm ?h h1" using calm_from_session [of ?h env ins] f by simp
  have d: "hnRunDone ?h = None" using assms by (auto simp: slot_inv_def slot_ok_def split: option.splits)
  have q: "queues_of h1 = queues_of ?h" by (rule calm_queues [OF c])
  show ?thesis
    using assms c d q
    by (auto simp: finish_summary_operation_def f slot_inv_def slot_ok_def conserved_def held_messages_def calm_def
        queues_of_def)
qed

lemma inv_created:
  assumes "new_harness env s fs opts handler w = Inr h"
  shows "slot_inv \<lparr>hwHarness = h, hwRuns = fmempty, hwSummary = False, hwIn = [], hwOut = []\<rparr>"
proof -
  let ?b = "bare_harness s fs opts handler w"
  let ?h = "apply_options (harness_context s) opts ?b"
  obtain e1 h1 where i: "index_harness_tools ?h = (e1, h1)" by (metis surj_pair)
  obtain e2 h2 where r: "rebuild_agent env h1 = (e2, h2)" by (metis surj_pair)
  have "calm ?b ?h" by (rule calm_fields) (simp_all add: apply_options_def)
  moreover have "calm ?h h1"
    using i by (intro calm_fields) (auto simp: index_harness_tools_def Let_def split: sum.splits prod.splits if_splits)
  moreover have "calm h1 h2" using calm_rebuild [of h1 env] r by simp
  moreover have "h = h2"
    using assms i r by (cases e1; cases e2) (auto simp: new_harness_def index_and_rebuild_def)
  ultimately have c: "calm ?b h" by (blast intro: calm_trans)
  have "agent_queues (new_agent ctx su m1 m2 w) = []" for ctx su m1 m2
    by (simp add: agent_queues_def new_agent_def new_message_queue_def)
  then have "queues_of ?b = []" by (simp add: queues_of_def bare_harness_def)
  with calm_queues [OF c] c show ?thesis
    by (auto simp: slot_inv_def slot_ok_def conserved_def held_messages_def calm_def bare_harness_def)
qed

lemma run_slot: "harness_run strict env w \<Longrightarrow> slot_inv w"
proof (induction rule: harness_run.induct)
  case (event w ins tok a ps ev)
  then show ?case by (intro inv_event)
next
  case (settles w tok)
  then show ?case by (intro inv_settle)
qed (simp_all add: inv_created inv_prompted inv_hook inv_start inv_works inv_take inv_event inv_finish_begin
    inv_finishes inv_detach inv_enqueue inv_next_turn inv_abort inv_begin_summary inv_finish_summary
    with_harness_def calm_inv calm_apply_setting calm_refresh calm_turn_end calm_prepare calm_from_session
    calm_append calm_navigate harness_steer_def harness_follow_up_def enqueue_adds)

end
