(* ===== verification/HarnessProperties.thy ===== *)
theory HarnessProperties
  imports HarnessJournal HarnessSlot
begin

text \<open>
  The properties of the agent harness under every interleaving of its callers, with a concrete
  harness, and what happens to a queued write that the session refuses.
\<close>

definition example_env :: "(unit, unit) harness_env" where
  "example_env = \<lparr>heCompile = (\<lambda>b. Inr (\<lambda>c. None)), heSched = (\<lambda>xs s. xs)\<rparr>"

definition example_config :: "(unit, unit) agent loop_config" where
  "example_config = \<lparr>cfModel = ''m'', cfProvider = ''p'', cfReasoning = '''', cfSessionID = '''',
     cfMaxTurns = 1, cfStream = None, cfRunner = None, cfTransformContext = None, cfConvertToLLM = None,
     cfPrepareNextTurn = None, cfShouldStop = None, cfSteering = None, cfFollowUp = None\<rparr>"

definition example_options :: "(unit, unit) harness_options" where
  "example_options = \<lparr>hoSystemPrompt = ''s'', hoTools = [], hoToolNames = None, hoActiveNames = None,
     hoModel = ''m'', hoProvider = ''p'', hoReasoning = '''', hoHasHook = False,
     hoSetup = \<lparr>suConfig = example_config, suListener = (\<lambda>l ev st a. (None, [])), suParent = (\<lambda>a. (None, [])),
       suErrorText = (\<lambda>e. ''e'')\<rparr>,
     hoBefore = None, hoAfter = None, hoSteeringMode = QueueModeAll, hoFollowUpMode = QueueModeAll\<rparr>"

definition example_store :: session where
  "example_store = new_session ''s'' ''s'' 0"

definition example_made :: "harness_error + (unit, unit) harness" where
  "example_made = new_harness example_env example_store (fmupd ''s'' [] fmempty) example_options () ()"

definition example_queued :: agent_message where
  "example_queued = UserMessage \<lparr>umRole = ''user'', umContent = [new_text_content ''hi''], umTimestamp = 1\<rparr>"

definition example_inputs :: "nat \<Rightarrow> append_input" where
  "example_inputs n = \<lparr>aiLoad = None, aiGen = (\<lambda>i. replicate (9 + n) (CHR ''x'')), aiNow = 1, aiOs = OsOk\<rparr>"

definition first_world :: "(unit, unit) harness \<Rightarrow> (unit, unit) harness_world" where
  "first_world h = \<lparr>hwHarness = h, hwRuns = fmempty, hwSummary = False, hwIn = [], hwOut = []\<rparr>"

text \<open>A message is queued, a prompt begins, and the reasoning level changes while it is under way.\<close>

definition prompted_world :: "(unit, unit) harness_world \<Rightarrow> (unit, unit) harness_world" where
  "prompted_world w0 =
     (let w1 = enqueued w0 [example_queued] (next_turn [example_queued] (hwHarness w0))
      in prompted w1 (prompt_begin example_env example_inputs None [] (hwHarness w1)))"

definition busy_world :: "(unit, unit) harness_world \<Rightarrow> (unit, unit) harness_world" where
  "busy_world w0 =
     (let w = prompted_world w0
      in with_harness w (apply_setting example_env example_inputs (SettingReasoning ''high'') (hwHarness w)))"

lemma example_evaluated:
  "(case example_made of Inl _ \<Rightarrow> False | Inr h \<Rightarrow>
     (let w = busy_world (first_world h); x = hwHarness w in
      ssOrder (hnSession (hwHarness (prompted_world (first_world h)))) = [] \<and>
      hnRunDone x = Some 0 \<and> hnNextTurn x = [] \<and> hwIn w = [example_queued] \<and>
      hwOut w = [] \<and> map enReasoning (hnPending x) = [''high'']))"
  by code_simp

lemma example_inputs_fresh: "session_inv s \<Longrightarrow> ssOrder s = [] \<Longrightarrow> inputs_fresh example_inputs s"
  by (auto simp: inputs_fresh_def fresh_ids_def example_inputs_def session_inv_def tree_inv_def
      dest!: arg_cong [where f = length])

lemma example_run:
  obtains h where "example_made = Inr h" "harness_run True example_env (busy_world (first_world h))"
    "ssOrder (hnSession (hwHarness (prompted_world (first_world h)))) = []"
    "hnRunDone (hwHarness (busy_world (first_world h))) = Some 0"
    "hnNextTurn (hwHarness (busy_world (first_world h))) = []"
    "hwIn (busy_world (first_world h)) = [example_queued]" "hwOut (busy_world (first_world h)) = []"
    "map enReasoning (hnPending (hwHarness (busy_world (first_world h)))) = [''high'']"
proof -
  from example_evaluated obtain h where h: "example_made = Inr h" by (auto simp del: not_None_eq split: sum.splits)
  note ev = example_evaluated [unfolded h sum.case Let_def]
  have inv: "session_inv example_store" by (simp add: example_store_def session_inv_new)
  have entries: "session_entries example_store = []" "ssID example_store = ''s''" "ssOrder example_store = []"
    by (simp_all add: example_store_def new_session_def empty_session_def session_entries_def)
  have made: "harness_run True example_env (first_world h)"
    unfolding first_world_def
    by (rule harness_run.created [OF _ h [unfolded example_made_def]]) (simp add: inv entries)
  have s: "hnSession h = example_store"
    using new_harness_journal [OF h [unfolded example_made_def]] by (simp add: same_journal_def bare_harness_def)
  let ?w1 = "enqueued (first_world h) [example_queued] (next_turn [example_queued] (hwHarness (first_world h)))"
  have r1: "harness_run True example_env ?w1" by (rule harness_run.queues [OF made])
  have s1: "hnSession (hwHarness ?w1) = example_store"
    by (simp add: enqueued_def next_turn_def first_world_def s split: option.split)
  have r2: "harness_run True example_env (prompted_world (first_world h))"
    unfolding prompted_world_def Let_def
    by (rule harness_run.prompts [OF r1]) (simp add: s1 example_inputs_fresh inv entries)
  have "session_inv (hnSession (hwHarness (prompted_world (first_world h))))"
    using run_recorded [OF r2] by (simp add: recorded_def stored_ok_def)
  then have "harness_run True example_env (busy_world (first_world h))"
    unfolding busy_world_def Let_def
    by (intro harness_run.sets [OF r2] example_inputs_fresh) (use ev in auto)
  with h ev show ?thesis by (intro that [of h]) simp_all
qed

subsection \<open>The run slot and the queues\<close>

text \<open>
  C7. Whatever callers prompt, queue, abort and set, and however their calls interleave with a run, at
  most one run is between its reservation and its end; when it is over and no summary is being made
  the harness can start the next; messages are queued only while the active agent runs; and every
  message accepted for later is in exactly one queue, held by the run that is starting, handed to
  an agent or given back, none twice and none lost.
\<close>

theorem harness_one_run:
  assumes "harness_run strict env w"
  shows "fmdom' (hwRuns w) = set_option (hnRunDone (hwHarness w)) \<and>
    (can_start_run (hwHarness w) \<longleftrightarrow> hwRuns w = fmempty \<and> \<not> hwSummary w) \<and>
    (hnAcceptQueue (hwHarness w) \<longrightarrow> (\<exists>t a ps. fmlookup (hwRuns w) t = Some (StageRunning a ps) \<and>
      hnActiveAgent (hwHarness w) = Some a)) \<and>
    mset (hwIn w) = mset (hwOut w) + mset (hnNextTurn (hwHarness w)) + mset (held_messages w) +
      mset (queues_of (hwHarness w)) \<and>
    (hnRunDone (hwHarness w) = None \<longrightarrow> held_messages w = [] \<and> queues_of (hwHarness w) = [])"
proof -
  have inv: "slot_inv w" by (rule run_slot [OF assms])
  show ?thesis
  proof (cases "hnRunDone (hwHarness w)")
    case None
    with inv show ?thesis
      by (auto simp: slot_inv_def slot_ok_def conserved_def can_start_run_def held_messages_def split: if_splits)
  next
    case (Some t)
    with inv obtain st where st: "hwRuns w = fmupd t st fmempty" "stage_ok st (hwHarness w)"
      by (auto simp: slot_inv_def slot_ok_def)
    have "fmlookup (hwRuns w) t \<noteq> None" by (simp add: st(1))
    then have ne: "hwRuns w \<noteq> fmempty" by auto
    have acc: "\<exists>a ps. st = StageRunning a ps \<and> hnActiveAgent (hwHarness w) = Some a" if "hnAcceptQueue (hwHarness w)"
      using st(2) that by (cases st) (auto simp: stage_ok_def waits_def runs_agent_def)
    have "\<exists>t a ps. fmlookup (hwRuns w) t = Some (StageRunning a ps) \<and> hnActiveAgent (hwHarness w) = Some a"
      if "hnAcceptQueue (hwHarness w)"
    proof -
      from acc [OF that] obtain a ps where a: "st = StageRunning a ps" "hnActiveAgent (hwHarness w) = Some a" by blast
      have "fmlookup (hwRuns w) t = Some (StageRunning a ps)" by (simp add: st(1) a(1))
      with a(2) show ?thesis by blast
    qed
    then show ?thesis using inv Some ne by (simp add: st(1) can_start_run_def slot_inv_def conserved_def)
  qed
qed

theorem harness_one_run_witness:
  "\<exists>h. example_made = Inr h \<and> fmdom' (hwRuns (busy_world (first_world h))) = {0} \<and>
     mset (held_messages (busy_world (first_world h))) + mset (queues_of (hwHarness (busy_world (first_world h)))) =
       mset [example_queued]"
proof -
  obtain h where h: "example_made = Inr h" and run: "harness_run True example_env (busy_world (first_world h))"
    and ev: "hnRunDone (hwHarness (busy_world (first_world h))) = Some 0"
      "hnNextTurn (hwHarness (busy_world (first_world h))) = []"
      "hwIn (busy_world (first_world h)) = [example_queued]" "hwOut (busy_world (first_world h)) = []"
    by (rule example_run) blast
  with harness_one_run [OF run] show ?thesis by (intro exI [of _ h]) simp
qed

lemma named_not_empty: "map f xs = [x] \<Longrightarrow> xs \<noteq> []"
  by auto

subsection \<open>The session's journal\<close>

text \<open>
  C40. Every change of the session accepted from a caller is written once, in the order of acceptance,
  or still pending in that order, however writes fail and runs put them off. In a run whose generated
  ids are new the session stays sound, its file holds exactly its entries, and its last entries are
  the journal: each write as it was asked for, with only its id, parent, version and time filled in.
\<close>

theorem harness_journal:
  assumes "harness_run strict env w"
  shows "hnAccepted (hwHarness w) = mutations_of (hnTrail (hwHarness w)) @ hnPending (hwHarness w) \<and>
    (strict \<longrightarrow> session_inv (hnSession (hwHarness w)) \<and>
      fmlookup (hnFiles (hwHarness w)) (ssID (hnSession (hwHarness w))) =
        Some (session_entries (hnSession (hwHarness w))) \<and>
      (\<exists>base. session_entries (hnSession (hwHarness w)) = base @ map (\<lambda>x. snd (snd x)) (hnTrail (hwHarness w))) \<and>
      list_all (\<lambda>x. same_request (fst (snd x)) (snd (snd x))) (hnTrail (hwHarness w)))"
proof (cases strict)
  case True
  then show ?thesis using run_accounted [OF assms] run_recorded [of env w] assms
    by (simp add: accounted_def recorded_def stored_ok_def)
qed (use run_accounted [OF assms] in \<open>simp add: accounted_def\<close>)

theorem harness_journal_witness:
  "\<exists>h. example_made = Inr h \<and> hnPending (hwHarness (busy_world (first_world h))) \<noteq> [] \<and>
     hnAccepted (hwHarness (busy_world (first_world h))) =
       mutations_of (hnTrail (hwHarness (busy_world (first_world h)))) @ hnPending (hwHarness (busy_world (first_world h))) \<and>
     session_inv (hnSession (hwHarness (busy_world (first_world h))))"
proof -
  obtain h where h: "example_made = Inr h" and run: "harness_run True example_env (busy_world (first_world h))"
    and ev: "map enReasoning (hnPending (hwHarness (busy_world (first_world h)))) = [''high'']"
    by (rule example_run) (rule that, assumption+)
  have ne: "hnPending (hwHarness (busy_world (first_world h))) \<noteq> []"
    by (rule named_not_empty [OF ev])
  note j = harness_journal [OF run]
  have acc: "hnAccepted (hwHarness (busy_world (first_world h))) =
      mutations_of (hnTrail (hwHarness (busy_world (first_world h)))) @ hnPending (hwHarness (busy_world (first_world h)))"
    by (rule conjunct1 [OF j])
  have inv: "session_inv (hnSession (hwHarness (busy_world (first_world h))))"
    by (rule conjunct1 [OF mp [OF conjunct2 [OF j] TrueI]])
  show ?thesis
    by (rule exI [of _ h], rule conjI, rule h, rule conjI, rule ne, rule conjI, rule acc, rule inv)
qed

subsection \<open>A write the session refuses\<close>

text \<open>
  A queued entry that the session can never accept stays at the head of the pending writes: every
  later prompt fails before its run.
\<close>

lemma refused_write_stays:
  assumes "hnPending h = e # es" "\<And>gen now. \<exists>err. append_candidate (hnSession h) gen now e = Inl err"
  shows "\<exists>err. flush_pending ins h = (Some err, h)"
proof -
  obtain err where "append_candidate (hnSession h) (aiGen (ins 0)) (aiNow (ins 0)) e = Inl err"
    using assms(2) by blast
  then show ?thesis using assms(1)
    by (cases "aiLoad (ins 0)") (simp_all add: flush_pending_def harness_append_def repo_append_def)
qed

lemma refused_write_blocks:
  assumes "hnPending h = e # es" "\<And>gen now. \<exists>err. append_candidate (hnSession h) gen now e = Inl err"
    and "can_start_run h" "validate_messages (hnNextTurn h @ ms) = None"
  shows "\<exists>errs h'. prompt_begin env ins parent ms h = (errs, Some StageDetach, h') \<and> errs \<noteq> [] \<and>
    hnPending h' = e # es \<and> hnSession h' = hnSession h"
proof -
  have "hnPending (reserve_run h) = e # es" "hnSession (reserve_run h) = hnSession h"
    using assms(1) by (simp_all add: reserve_run_def)
  then obtain err where "flush_pending ins (reserve_run h) = (Some err, reserve_run h)"
    using refused_write_stays [of "reserve_run h" e es ins] assms(2) by auto
  then show ?thesis using assms(1,3,4)
    by (simp add: prompt_begin_def Let_def preflight_def opt_list_def fail_start_def reserve_run_def)
qed

text \<open>
  \<open>SetTools\<close> with a write still pending: when that one is written and its own write fails, the queue
  is not longer than before, the entry is not taken back, and a later flush stores tool names the
  harness does not have.
\<close>

lemma failed_tools_stay_queued:
  assumes "hnPhase h = PhaseIdle" "hnPending h = [a]"
    and "effective_active_tool_names h = Inr previous" "index_tool_list tools = Inr (index, ns)"
    and "resolve_tool_names names index = Inr resolved"
    and "new_registry (heCompile env) (map Some (tools_by_name index resolved)) = Inr reg"
    and "e = zero_entry\<lparr>enType := EntryActiveToolsChange, enToolNames := resolved\<rparr>"
    and "harness_append WriteMutation (ins 0) a (h\<lparr>hnPending := [a, e], hnAccepted := hnAccepted h @ [e]\<rparr>) = (Inr x, h1)"
    and "harness_append WriteMutation (ins 1) e h1 = (Inl err, h2)"
  shows "set_tools env ins tools (Some names) h = (Some (HeRepo err), h2\<lparr>hnPending := [e]\<rparr>)"
  using assms
  by (simp add: set_tools_def persist_or_queue_def Let_def flush_pending_def take_back_def)

end
