(* ===== verification/ModelMessages.thy ===== *)
theory ModelMessages
  imports TransformMessages Events
begin

text \<open>
  The messages of the provider's chat model, \<open>internal/agent/ai/api/openai_completion.go\<close>: what is
  sent for a conversation and what is read back. The wire types belong to the eino package; the
  records hold the fields of them that the code reads or writes. A list of the deprecated multi
  content is only its length. A part with neither of its pointers is one with \<open>None\<close>.
\<close>

subsection \<open>The wire types\<close>

datatype part_type = PartText | PartImageURL | PartReasoning | PartOther string

record model_image =
  miURL :: "string option"
  miData :: "string option"
  miMIMEType :: string
  miDetail :: string

record input_part =
  ipType :: part_type
  ipText :: string
  ipImage :: "model_image option"

record output_part =
  opType :: part_type
  opText :: string
  opImage :: "model_image option"
  opReasoning :: "(string \<times> string) option"

record model_call =
  mcIndex :: "int option"
  mcID :: string
  mcType :: string
  mcName :: string
  mcArguments :: string

record token_usage =
  tkPrompt :: int
  tkCompletion :: int
  tkTotal :: int
  tkCached :: int
  tkReasoning :: int

record response_meta =
  reFinish :: string
  reUsage :: "token_usage option"

record model_message =
  mmRole :: string
  mmContent :: string
  mmInputParts :: "input_part list"
  mmOutputParts :: "output_part list"
  mmMultiCount :: nat
  mmCalls :: "model_call list"
  mmCallID :: string
  mmToolName :: string
  mmReasoning :: string
  mmMeta :: "response_meta option"

definition blank_model_message :: model_message where
  "blank_model_message = \<lparr>mmRole = '''', mmContent = '''', mmInputParts = [], mmOutputParts = [],
     mmMultiCount = 0, mmCalls = [], mmCallID = '''', mmToolName = '''', mmReasoning = '''', mmMeta = None\<rparr>"

datatype convert_error =
    CeMessageNil
  | CeSystemBoundary
  | CeModelRole string
  | CeInvalid validate_error
  | CeUserContent content
  | CeAssistantContent content
  | CeToolContent content
  | CeInputPart part_type
  | CeOutputPart part_type
  | CeImageMissing
  | CeReasoningMissing
  | CeArguments string

subsection \<open>Sending\<close>

definition ptr_if_not_empty :: "string \<Rightarrow> string option" where
  "ptr_if_not_empty v = (if v = '''' then None else Some v)"

definition to_model_input_image :: "image_content \<Rightarrow> model_image" where
  "to_model_input_image c = \<lparr>miURL = ptr_if_not_empty (icURL c), miData = ptr_if_not_empty (icData c),
     miMIMEType = icMIMEType c, miDetail = icDetail c\<rparr>"

definition to_model_output_image :: "image_content \<Rightarrow> model_image" where
  "to_model_output_image c = \<lparr>miURL = ptr_if_not_empty (icURL c), miData = ptr_if_not_empty (icData c),
     miMIMEType = icMIMEType c, miDetail = ''''\<rparr>"

definition text_input_part :: "text_content \<Rightarrow> input_part" where
  "text_input_part c = \<lparr>ipType = PartText, ipText = tcText c, ipImage = None\<rparr>"

definition image_input_part :: "image_content \<Rightarrow> input_part" where
  "image_input_part c = \<lparr>ipType = PartImageURL, ipText = '''', ipImage = Some (to_model_input_image c)\<rparr>"

fun to_input_parts :: "(content \<Rightarrow> convert_error) \<Rightarrow> content_list \<Rightarrow> convert_error + input_part list" where
  "to_input_parts fault [] = Inr []"
| "to_input_parts fault (TextContent c # cs) = map_sum id (Cons (text_input_part c)) (to_input_parts fault cs)"
| "to_input_parts fault (ImageContent c # cs) = map_sum id (Cons (image_input_part c)) (to_input_parts fault cs)"
| "to_input_parts fault (c # cs) = Inl (fault c)"

definition to_model_user_message :: "user_message \<Rightarrow> convert_error + model_message" where
  "to_model_user_message m =
     (case umContent m of
        [TextContent t] \<Rightarrow> Inr (blank_model_message\<lparr>mmRole := ''user'', mmContent := tcText t\<rparr>)
      | cs \<Rightarrow> map_sum id (\<lambda>ps. blank_model_message\<lparr>mmRole := ''user'', mmInputParts := ps\<rparr>)
                (to_input_parts CeUserContent cs))"

definition to_model_tool_call :: "tool_call_content \<Rightarrow> model_call" where
  "to_model_tool_call c = \<lparr>mcIndex = None, mcID = ccID c, mcType = ''function'', mcName = ccName c,
     mcArguments = ccArguments c\<rparr>"

text \<open>The loop over an answer's content: the texts, the output parts, whether one is an image, the message.\<close>

record assistant_parts =
  apTexts :: "string list"
  apParts :: "output_part list"
  apHasParts :: bool
  apReasoning :: string
  apCalls :: "model_call list"

fun assistant_step :: "assistant_parts \<Rightarrow> content \<Rightarrow> convert_error + assistant_parts" where
  "assistant_step p (TextContent c) = Inr (p\<lparr>apTexts := apTexts p @ [tcText c],
     apParts := apParts p @ [\<lparr>opType = PartText, opText = tcText c, opImage = None, opReasoning = None\<rparr>]\<rparr>)"
| "assistant_step p (ThinkingContent c) =
     Inr (if apReasoning p = '''' then p\<lparr>apReasoning := thThinking c\<rparr> else p)"
| "assistant_step p (ImageContent c) = Inr (p\<lparr>apHasParts := True,
     apParts := apParts p @ [\<lparr>opType = PartImageURL, opText = '''',
       opImage = Some (to_model_output_image c), opReasoning = None\<rparr>]\<rparr>)"
| "assistant_step p (ToolCallContent c) = Inr (p\<lparr>apCalls := apCalls p @ [to_model_tool_call c]\<rparr>)"
| "assistant_step p NilContent = Inl (CeAssistantContent NilContent)"

fun assistant_parts_of :: "assistant_parts \<Rightarrow> content_list \<Rightarrow> convert_error + assistant_parts" where
  "assistant_parts_of p [] = Inr p"
| "assistant_parts_of p (c # cs) =
     (case assistant_step p c of Inl e \<Rightarrow> Inl e | Inr p' \<Rightarrow> assistant_parts_of p' cs)"

definition int_value :: "int option \<Rightarrow> int" where
  "int_value v = (case v of None \<Rightarrow> 0 | Some n \<Rightarrow> n)"

definition to_model_finish_reason :: "stop_reason \<Rightarrow> string" where
  "to_model_finish_reason r =
     (case r of
        StopReasonStop \<Rightarrow> ''stop'' | StopReasonLength \<Rightarrow> ''length'' | StopReasonToolUse \<Rightarrow> ''tool_calls''
      | StopReasonError \<Rightarrow> ''error'' | StopReasonAborted \<Rightarrow> ''aborted'' | StopReasonOther _ \<Rightarrow> '''')"

definition to_model_response_meta :: "assistant_message \<Rightarrow> response_meta" where
  "to_model_response_meta m = \<lparr>reFinish = to_model_finish_reason (amStopReason m),
     reUsage = Some \<lparr>tkPrompt = usInput (amUsage m), tkCompletion = usOutput (amUsage m),
       tkTotal = usTotalTokens (amUsage m), tkCached = usCacheRead (amUsage m),
       tkReasoning = int_value (usReasoning (amUsage m))\<rparr>\<rparr>"

definition no_parts :: assistant_parts where
  "no_parts = \<lparr>apTexts = [], apParts = [], apHasParts = False, apReasoning = '''', apCalls = []\<rparr>"

definition to_model_assistant_message :: "assistant_message \<Rightarrow> convert_error + model_message" where
  "to_model_assistant_message m =
     (case assistant_parts_of no_parts (amContent m) of
        Inl e \<Rightarrow> Inl e
      | Inr p \<Rightarrow> Inr (blank_model_message\<lparr>mmRole := ''assistant'', mmContent := concat (apTexts p),
          mmOutputParts := (if apHasParts p then apParts p else []), mmCalls := apCalls p,
          mmReasoning := apReasoning p, mmMeta := Some (to_model_response_meta m)\<rparr>))"

definition to_model_tool_message :: "tool_result_message \<Rightarrow> convert_error + model_message" where
  "to_model_tool_message m =
     (case to_input_parts CeToolContent (rmContent m) of
        Inl e \<Rightarrow> Inl e
      | Inr ps \<Rightarrow>
          (let out = blank_model_message\<lparr>mmRole := ''tool'', mmContent := text_from_content (rmContent m),
                 mmCallID := rmToolCallID m, mmToolName := rmToolName m\<rparr> in
           Inr (if length ps > 1 \<or> (length ps = 1 \<and> ipType (hd ps) \<noteq> PartText)
                then out\<lparr>mmInputParts := ps\<rparr> else out)))"

definition to_model_message :: "agent_message \<Rightarrow> convert_error + model_message" where
  "to_model_message m =
     (if m = NilMessage then Inl CeMessageNil
      else (case validate_message m of
          Some e \<Rightarrow> Inl (CeInvalid e)
        | None \<Rightarrow>
            (case m of
               UserMessage u \<Rightarrow> to_model_user_message u
             | AssistantMessage a \<Rightarrow> to_model_assistant_message a
             | ToolResultMessage r \<Rightarrow> to_model_tool_message r
             | NilMessage \<Rightarrow> Inl CeMessageNil)))"

definition is_empty_assistant :: "model_message \<Rightarrow> bool" where
  "is_empty_assistant m \<longleftrightarrow> mmRole m = ''assistant'' \<and> mmContent m = '''' \<and> mmCalls m = [] \<and>
     mmOutputParts m = [] \<and> mmMultiCount m = 0"

fun convert_messages :: "message_list \<Rightarrow> convert_error + model_message list" where
  "convert_messages [] = Inr []"
| "convert_messages (m # ms) =
     (case to_model_message m of
        Inl e \<Rightarrow> Inl e
      | Inr c \<Rightarrow> map_sum id (\<lambda>cs. if is_empty_assistant c then cs else c # cs) (convert_messages ms))"

definition messages_from_context :: "llm_context \<Rightarrow> convert_error + model_message list" where
  "messages_from_context ctx =
     map_sum id (\<lambda>ms. (if lcSystemPrompt ctx \<noteq> ''''
          then [blank_model_message\<lparr>mmRole := ''system'', mmContent := lcSystemPrompt ctx\<rparr>] else []) @ ms)
       (convert_messages (lcMessages ctx))"

text \<open>What a request sends: the history replayed for the model, then converted.\<close>

definition request_messages ::
  "(nat \<Rightarrow> int) \<Rightarrow> string \<Rightarrow> string \<Rightarrow> llm_context \<Rightarrow> convert_error + model_message list" where
  "request_messages clock provider model ctx =
     messages_from_context (ctx\<lparr>lcMessages := transform_messages clock
       \<lparr>toProvider = provider, toModel = model, toSupportsImages = True, toNormalize = None\<rparr> (lcMessages ctx)\<rparr>)"

subsection \<open>Reading\<close>

definition new_thinking_content :: "string \<Rightarrow> content" where
  "new_thinking_content t = ThinkingContent \<lparr>thType = ''thinking'', thThinking = t,
     thThinkingSignature = '''', thRedacted = False\<rparr>"

definition new_tool_call_content :: "string \<Rightarrow> string \<Rightarrow> bytes \<Rightarrow> content" where
  "new_tool_call_content i n a = ToolCallContent \<lparr>ccType = ''toolCall'', ccID = i, ccName = n,
     ccArguments = a, ccThoughtSignature = ''''\<rparr>"

definition raw_tool_arguments :: "string \<Rightarrow> convert_error + bytes" where
  "raw_tool_arguments a0 =
     (let a = (if trim_space a0 = '''' then ''{}'' else a0) in
      if json_valid a then Inr a else Inl (CeArguments a))"

definition wire_string :: "string option \<Rightarrow> string" where
  "wire_string v = (case v of None \<Rightarrow> '''' | Some s \<Rightarrow> s)"

definition from_model_input_image :: "model_image \<Rightarrow> content" where
  "from_model_input_image i = ImageContent \<lparr>icType = ''image'', icData = wire_string (miData i),
     icMIMEType = miMIMEType i, icURL = wire_string (miURL i), icDetail = miDetail i\<rparr>"

definition from_model_output_image :: "model_image \<Rightarrow> content" where
  "from_model_output_image i = ImageContent \<lparr>icType = ''image'', icData = wire_string (miData i),
     icMIMEType = miMIMEType i, icURL = wire_string (miURL i), icDetail = ''''\<rparr>"

fun from_model_input_parts :: "input_part list \<Rightarrow> convert_error + content_list" where
  "from_model_input_parts [] = Inr []"
| "from_model_input_parts (p # ps) =
     (case ipType p of
        PartText \<Rightarrow> map_sum id (Cons (new_text_content (ipText p))) (from_model_input_parts ps)
      | PartImageURL \<Rightarrow>
          (case ipImage p of
             None \<Rightarrow> Inl CeImageMissing
           | Some i \<Rightarrow> map_sum id (Cons (from_model_input_image i)) (from_model_input_parts ps))
      | t \<Rightarrow> Inl (CeInputPart t))"

fun from_model_output_parts :: "output_part list \<Rightarrow> convert_error + content_list" where
  "from_model_output_parts [] = Inr []"
| "from_model_output_parts (p # ps) =
     (case opType p of
        PartText \<Rightarrow> map_sum id (Cons (new_text_content (opText p))) (from_model_output_parts ps)
      | PartImageURL \<Rightarrow>
          (case opImage p of
             None \<Rightarrow> Inl CeImageMissing
           | Some i \<Rightarrow> map_sum id (Cons (from_model_output_image i)) (from_model_output_parts ps))
      | PartReasoning \<Rightarrow>
          (case opReasoning p of
             None \<Rightarrow> Inl CeReasoningMissing
           | Some (t, s) \<Rightarrow> map_sum id (Cons (ThinkingContent \<lparr>thType = ''thinking'', thThinking = t,
               thThinkingSignature = s, thRedacted = False\<rparr>)) (from_model_output_parts ps))
      | t \<Rightarrow> Inl (CeOutputPart t))"

definition from_model_user_content :: "model_message \<Rightarrow> convert_error + content_list" where
  "from_model_user_content m =
     (if mmInputParts m \<noteq> [] then from_model_input_parts (mmInputParts m)
      else Inr [new_text_content (mmContent m)])"

definition is_thinking :: "content \<Rightarrow> bool" where
  "is_thinking c = (case c of ThinkingContent _ \<Rightarrow> True | _ \<Rightarrow> False)"

definition content_list_has_thinking :: "content_list \<Rightarrow> bool" where
  "content_list_has_thinking cs = list_ex is_thinking cs"

fun from_model_calls :: "model_call list \<Rightarrow> convert_error + content_list" where
  "from_model_calls [] = Inr []"
| "from_model_calls (c # cs) =
     (case raw_tool_arguments (mcArguments c) of
        Inl e \<Rightarrow> Inl e
      | Inr a \<Rightarrow> map_sum id (Cons (new_tool_call_content (mcID c) (mcName c) a)) (from_model_calls cs))"

definition from_model_assistant_content :: "model_message \<Rightarrow> convert_error + content_list" where
  "from_model_assistant_content m =
     (case (if mmOutputParts m \<noteq> [] then from_model_output_parts (mmOutputParts m)
            else Inr (if mmContent m \<noteq> '''' then [new_text_content (mmContent m)] else [])) of
        Inl e \<Rightarrow> Inl e
      | Inr content \<Rightarrow>
          (let has_thinking = (mmOutputParts m \<noteq> [] \<and> content_list_has_thinking content);
               content1 = (if mmReasoning m \<noteq> '''' \<and> \<not> has_thinking
                 then new_thinking_content (mmReasoning m) # content else content) in
           map_sum id (\<lambda>calls. content1 @ calls) (from_model_calls (mmCalls m))))"

definition from_model_usage :: "response_meta option \<Rightarrow> usage" where
  "from_model_usage meta =
     (case meta of
        None \<Rightarrow> zero_usage
      | Some r \<Rightarrow>
          (case reUsage r of
             None \<Rightarrow> zero_usage
           | Some u \<Rightarrow> zero_usage\<lparr>usInput := tkPrompt u, usOutput := tkCompletion u,
               usCacheRead := tkCached u, usTotalTokens := tkTotal u,
               usReasoning := (if tkReasoning u \<noteq> 0 then Some (tkReasoning u) else None)\<rparr>))"

definition from_model_stop_reason :: "response_meta option \<Rightarrow> bool \<Rightarrow> stop_reason" where
  "from_model_stop_reason meta has_calls =
     (let plain = (if has_calls then StopReasonToolUse else StopReasonStop) in
      case meta of
        None \<Rightarrow> plain
      | Some r \<Rightarrow>
          (let f = reFinish r in
           if f = '''' \<or> f = ''stop'' then plain
           else if f = ''length'' then StopReasonLength
           else if f = ''tool_calls'' \<or> f = ''tool_use'' \<or> f = ''toolUse'' then StopReasonToolUse
           else if f = ''error'' then StopReasonError
           else if f = ''aborted'' then StopReasonAborted
           else StopReasonError))"

definition known_finish_reasons :: "string list" where
  "known_finish_reasons = ['''', ''stop'', ''length'', ''tool_calls'', ''tool_use'', ''toolUse'', ''error'', ''aborted'']"

definition from_model_error_message :: "response_meta option \<Rightarrow> string" where
  "from_model_error_message meta =
     (case meta of
        None \<Rightarrow> ''''
      | Some r \<Rightarrow> if reFinish r \<in> set known_finish_reasons then '''' else ''finish_reason: '' @ reFinish r)"

definition model_assistant :: "model_message \<Rightarrow> content_list \<Rightarrow> assistant_message" where
  "model_assistant m content = \<lparr>amRole = '''', amContent = content, amProvider = '''', amModel = '''',
     amResponseModel = '''', amResponseID = '''', amUsage = from_model_usage (mmMeta m),
     amStopReason = from_model_stop_reason (mmMeta m) (mmCalls m \<noteq> []),
     amErrorMessage = from_model_error_message (mmMeta m), amTimestamp = 0\<rparr>"

definition from_model_message :: "model_message option \<Rightarrow> convert_error + agent_message" where
  "from_model_message message =
     (case message of
        None \<Rightarrow> Inl CeMessageNil
      | Some m \<Rightarrow>
          if mmRole m = ''system'' then Inl CeSystemBoundary
          else if mmRole m = ''user''
          then map_sum id (\<lambda>cs. UserMessage \<lparr>umRole = '''', umContent = cs, umTimestamp = 0\<rparr>) (from_model_user_content m)
          else if mmRole m = ''assistant''
          then map_sum id (\<lambda>cs. AssistantMessage (model_assistant m cs)) (from_model_assistant_content m)
          else if mmRole m = ''tool''
          then map_sum id (\<lambda>cs. ToolResultMessage \<lparr>rmRole = '''', rmToolCallID = mmCallID m,
              rmToolName = mmToolName m, rmContent = cs, rmDetails = None, rmIsError = False, rmTimestamp = 0\<rparr>)
            (from_model_user_content m)
          else Inl (CeModelRole (mmRole m)))"

end
