(* ===== verification/ProviderStream.thy ===== *)
theory ProviderStream
  imports ModelMessages AssistantStream JsonDecode Texts
begin

text \<open>
  Reading the answer of a provider, \<open>drainMessageStream\<close> of
  \<open>internal/agent/ai/api/openai_completion.go\<close>: the chunks a chat model streams become the events of
  the assistant stream, and the chunks put together become its final message. What \<open>Recv\<close> returns
  is a list of messages, nil among them, and how it ended; \<open>schema.ConcatMessages\<close> of the eino
  package and the texts of errors are parameters. The pump, which only takes events from the queue,
  is not run here.
\<close>

record provider_env =
  peConcat :: "model_message list \<Rightarrow> string + model_message"
  peConvertText :: "convert_error \<Rightarrow> string"
  peInvalidText :: "validate_error \<Rightarrow> string"
  peNotAssistantText :: string
  peNoResultText :: string

text \<open>
  How the reading ended: at the end of the stream with what the context's \<open>Err\<close> is then, or with an
  error, its text and whether it counts as a cancellation.
\<close>

datatype answer_end = EndOfStream "string option" | EndError string bool

subsection \<open>Error texts\<close>

definition pydantic_head :: string where
  "pydantic_head = newline # '' For further information visit http''"

definition url_char :: "char \<Rightarrow> bool" where
  "url_char c \<longleftrightarrow> c \<notin> set [byte 9, byte 10, byte 12, byte 13, byte 32]"

text \<open>
  \<open>providerPydanticTraceRE\<close>: what follows the longest match at the head of a text, if there is one.
\<close>

definition after_trace :: "string \<Rightarrow> string option" where
  "after_trace s =
     (case strip_prefix pydantic_head s of
        None \<Rightarrow> None
      | Some r \<Rightarrow>
          (case strip_prefix ''://'' (case r of c # t \<Rightarrow> if c = CHR ''s'' then t else r | [] \<Rightarrow> r) of
             None \<Rightarrow> None
           | Some u \<Rightarrow> if takeWhile url_char u = [] then None else Some (dropWhile url_char u)))"

lemma after_trace_shorter:
  assumes "after_trace s = Some r" shows "length r < length s"
proof -
  obtain x y where "strip_prefix pydantic_head s = Some x" and
    "strip_prefix ''://'' (case x of c # t \<Rightarrow> if c = CHR ''s'' then t else x | [] \<Rightarrow> x) = Some y"
    and r: "r = dropWhile url_char y"
    using assms by (auto simp: after_trace_def split: option.splits if_splits)
  then have s: "s = pydantic_head @ x" and "length y \<le> length x"
    by (auto simp: strip_prefix_Some_iff split: list.splits if_splits)
  with length_dropWhile_le [of url_char y] show ?thesis by (simp add: r pydantic_head_def)
qed

function remove_traces :: "string \<Rightarrow> string" where
  "remove_traces s =
     (case s of
        [] \<Rightarrow> []
      | c # t \<Rightarrow> (case after_trace s of Some r \<Rightarrow> remove_traces r | None \<Rightarrow> c # remove_traces t))"
  by pat_completeness auto
termination
  by (relation "measure length") (auto dest: after_trace_shorter)

declare remove_traces.simps [simp del]

text \<open>\<open>strings.ReplaceAll\<close> of three newlines by two.\<close>

fun thin_newlines :: "string \<Rightarrow> string" where
  "thin_newlines (a # b # c # r) =
     (if a = newline \<and> b = newline \<and> c = newline then newline # newline # thin_newlines r
      else a # thin_newlines (b # c # r))"
| "thin_newlines s = s"

definition clean_error :: "string \<Rightarrow> string" where
  "clean_error raw =
     (let cleaned = trim_space (thin_newlines (remove_traces raw)) in if cleaned = '''' then raw else cleaned)"

subsection \<open>Partial messages\<close>

definition streaming_partial :: "string \<Rightarrow> string \<Rightarrow> string \<Rightarrow> string \<Rightarrow> assistant_message" where
  "streaming_partial thinking text provider model =
     \<lparr>amRole = '''', amContent = (if thinking \<noteq> '''' then [new_thinking_content thinking] else []) @
        (if text \<noteq> '''' then [new_text_content text] else []),
      amProvider = provider, amModel = model, amResponseModel = '''', amResponseID = '''',
      amUsage = zero_usage, amStopReason = StopReasonStop, amErrorMessage = '''', amTimestamp = 0\<rparr>"

definition content_index :: "(content \<Rightarrow> bool) \<Rightarrow> assistant_message \<Rightarrow> int" where
  "content_index p m = (case first_index p (amContent m) of None \<Rightarrow> 0 | Some i \<Rightarrow> int i)"

definition is_text :: "content \<Rightarrow> bool" where
  "is_text c = (case c of TextContent _ \<Rightarrow> True | _ \<Rightarrow> False)"

definition is_call :: "string \<Rightarrow> content \<Rightarrow> bool" where
  "is_call i c = (case c of ToolCallContent t \<Rightarrow> ccID t = i | _ \<Rightarrow> False)"

definition thinking_content_index :: "assistant_message \<Rightarrow> int" where
  "thinking_content_index m = content_index is_thinking m"

definition text_content_index :: "assistant_message \<Rightarrow> int" where
  "text_content_index m = content_index is_text m"

definition tool_call_index :: "assistant_message \<Rightarrow> string \<Rightarrow> int" where
  "tool_call_index m i = content_index (is_call i) m"

text \<open>
  A number fits a \<open>float64\<close> unless it rounds to infinity, that is from the middle between the largest
  value and the next power of two on.
\<close>

definition digits_value :: "string \<Rightarrow> nat" where
  "digits_value ds = foldl (\<lambda>n c. 10 * n + (of_char c - 48)) 0 ds"

definition float_fits :: "string \<Rightarrow> bool" where
  "float_fits s =
     (let m = takeWhile (\<lambda>c. c \<notin> set ''eE'') (dropWhile (\<lambda>c. c = CHR ''-'') s);
          ip = takeWhile is_digit m; fp = drop (length ip + 1) m;
          x = drop 1 (dropWhile (\<lambda>c. c \<notin> set ''eE'') s);
          e = (case x of [] \<Rightarrow> 0 | c # t \<Rightarrow> if c = CHR ''-'' then - int (digits_value t)
                 else if c = CHR ''+'' then int (digits_value t) else int (digits_value x));
          k = e - int (length fp); d = digits_value (ip @ fp); limit = 2 ^ 1024 - 2 ^ 970 in
      if 0 \<le> k then d * 10 ^ nat k < limit else d < limit * 10 ^ nat (- k))"

fun json_fits :: "json \<Rightarrow> bool" where
  "json_fits (JNumber s) = float_fits s"
| "json_fits (JArray vs) = (\<forall>v \<in> set vs. json_fits v)"
| "json_fits (JObject ms) = (\<forall>m \<in> set ms. json_fits (snd (snd m)))"
| "json_fits _ = True"

text \<open>\<open>json.Unmarshal\<close> into a \<open>map[string]any\<close> that comes out non-nil and without an error.\<close>

definition partial_tool_arguments :: "string \<Rightarrow> bytes" where
  "partial_tool_arguments a =
     (case decode_json a of
        Some (JObject ms) \<Rightarrow> if json_fits (JObject ms) then a else ''{}''
      | _ \<Rightarrow> ''{}'')"

record streaming_call =
  stID :: string
  stName :: string
  stArguments :: string
  stStarted :: bool

definition named_call :: "streaming_call \<Rightarrow> bool" where
  "named_call c \<longleftrightarrow> stID c \<noteq> '''' \<and> stName c \<noteq> ''''"

definition call_contents :: "(int \<rightharpoonup> streaming_call) \<Rightarrow> int list \<Rightarrow> content_list" where
  "call_contents calls order =
     List.map_filter (\<lambda>k. case calls k of
        None \<Rightarrow> None
      | Some c \<Rightarrow> if named_call c
          then Some (new_tool_call_content (stID c) (stName c) (partial_tool_arguments (stArguments c))) else None) order"

definition streaming_partial_with_calls ::
  "string \<Rightarrow> string \<Rightarrow> string \<Rightarrow> string \<Rightarrow> (int \<rightharpoonup> streaming_call) \<Rightarrow> int list \<Rightarrow> assistant_message" where
  "streaming_partial_with_calls thinking text provider model calls order =
     (let p = streaming_partial thinking text provider model in
      p\<lparr>amContent := amContent p @ call_contents calls order\<rparr>)"

subsection \<open>Pushing\<close>

record drain_state =
  drStarted :: bool
  drChunks :: "model_message list"
  drText :: string
  drThinking :: string
  drCalls :: "int \<rightharpoonup> streaming_call"
  drOrder :: "int list"
  drOut :: event_stream

text \<open>A push whose error is ignored.\<close>

definition push_ignored :: "assistant_event \<Rightarrow> event_stream \<Rightarrow> event_stream" where
  "push_ignored e s = snd (push_event s e)"

definition push_assistant_error ::
  "event_stream \<Rightarrow> string \<Rightarrow> stop_reason \<Rightarrow> string \<Rightarrow> string \<Rightarrow> event_stream" where
  "push_assistant_error out err reason0 provider model =
     (let reason = (if reason0 \<noteq> StopReasonAborted then StopReasonError else reason0);
          t = clean_error err;
          m = (streaming_partial '''' '''' provider model)\<lparr>amContent := [new_text_content t],
                 amStopReason := reason, amErrorMessage := t\<rparr> in
      push_ignored (zero_assistant_event\<lparr>aeType := AssistantEventError, aeReason := reason, aeError := Some m\<rparr>) out)"

definition update_event ::
  "assistant_event_type \<Rightarrow> int \<Rightarrow> string \<Rightarrow> assistant_message \<Rightarrow> assistant_event" where
  "update_event t i delta p = zero_assistant_event\<lparr>aeType := t, aeContentIndex := Some i, aeDelta := delta,
     aePartial := Some p\<rparr>"

definition push_thinking_chunk :: "model_message \<Rightarrow> string \<Rightarrow> string \<Rightarrow> drain_state \<Rightarrow> drain_state" where
  "push_thinking_chunk m provider model st =
     (if mmReasoning m = '''' then st
      else (let p0 = streaming_partial (drThinking st) (drText st) provider model;
                p1 = p0\<lparr>amContent := new_thinking_content '''' # amContent p0\<rparr>;
                out1 = (if drThinking st = ''''
                  then push_ignored (update_event AssistantEventThinkingStart (thinking_content_index p1) '''' p1) (drOut st)
                  else drOut st);
                t = drThinking st @ mmReasoning m;
                p2 = streaming_partial t (drText st) provider model in
            st\<lparr>drThinking := t,
               drOut := push_ignored (update_event AssistantEventThinkingDelta (thinking_content_index p2) (mmReasoning m) p2) out1\<rparr>))"

definition push_content_chunk :: "model_message \<Rightarrow> string \<Rightarrow> string \<Rightarrow> drain_state \<Rightarrow> drain_state" where
  "push_content_chunk m provider model st =
     (if mmContent m = '''' then st
      else (let p0 = streaming_partial (drThinking st) (drText st) provider model;
                p1 = p0\<lparr>amContent := amContent p0 @ [new_text_content '''']\<rparr>;
                out1 = (if drText st = ''''
                  then push_ignored (update_event AssistantEventTextStart (text_content_index p1) '''' p1) (drOut st)
                  else drOut st);
                t = drText st @ mmContent m;
                p2 = streaming_partial (drThinking st) t provider model in
            st\<lparr>drText := t,
               drOut := push_ignored (update_event AssistantEventTextDelta (text_content_index p2) (mmContent m) p2) out1\<rparr>))"

definition push_text_chunk_updates :: "model_message \<Rightarrow> string \<Rightarrow> string \<Rightarrow> drain_state \<Rightarrow> drain_state" where
  "push_text_chunk_updates m provider model st =
     push_content_chunk m provider model (push_thinking_chunk m provider model st)"

definition merge_call :: "streaming_call \<Rightarrow> model_call \<Rightarrow> streaming_call" where
  "merge_call c chunk =
     c\<lparr>stID := (if mcID chunk \<noteq> '''' then mcID chunk else stID c),
       stName := (if mcName chunk \<noteq> '''' then mcName chunk else stName c),
       stArguments := stArguments c @ mcArguments chunk\<rparr>"

definition blank_call :: streaming_call where
  "blank_call = \<lparr>stID = '''', stName = '''', stArguments = '''', stStarted = False\<rparr>"

definition chunk_key :: "int \<Rightarrow> model_call \<Rightarrow> int" where
  "chunk_key position chunk = (case mcIndex chunk of None \<Rightarrow> position | Some i \<Rightarrow> i)"

definition push_call_chunk :: "int \<Rightarrow> model_call \<Rightarrow> string \<Rightarrow> string \<Rightarrow> drain_state \<Rightarrow> drain_state" where
  "push_call_chunk position chunk provider model st =
     (let key = chunk_key position chunk;
          order = (if drCalls st key = None then drOrder st @ [key] else drOrder st);
          call = merge_call (case drCalls st key of None \<Rightarrow> blank_call | Some c \<Rightarrow> c) chunk;
          calls = (drCalls st)(key \<mapsto> call) in
      if \<not> named_call call then st\<lparr>drCalls := calls, drOrder := order\<rparr>
      else (let p = streaming_partial_with_calls (drThinking st) (drText st) provider model calls order;
                i = tool_call_index p (stID call);
                out1 = (if \<not> stStarted call then push_ignored (update_event AssistantEventToolCallStart i '''' p) (drOut st)
                  else drOut st);
                out2 = (if mcArguments chunk \<noteq> ''''
                  then push_ignored (update_event AssistantEventToolCallDelta i (mcArguments chunk) p) out1 else out1) in
            st\<lparr>drCalls := calls(key \<mapsto> call\<lparr>stStarted := True\<rparr>), drOrder := order, drOut := out2\<rparr>))"

fun push_call_chunks :: "int \<Rightarrow> model_call list \<Rightarrow> string \<Rightarrow> string \<Rightarrow> drain_state \<Rightarrow> drain_state" where
  "push_call_chunks position [] provider model st = st"
| "push_call_chunks position (c # cs) provider model st =
     push_call_chunks (position + 1) cs provider model (push_call_chunk position c provider model st)"

text \<open>One message read: the state goes on, or the stream refused the start.\<close>

definition push_chunk :: "string \<Rightarrow> string \<Rightarrow> model_message \<Rightarrow> drain_state \<Rightarrow> drain_state" where
  "push_chunk provider model m st =
     push_call_chunks 0 (mmCalls m) provider model (push_text_chunk_updates m provider model st)"

definition drain_message ::
  "string \<Rightarrow> string \<Rightarrow> model_message option \<Rightarrow> drain_state \<Rightarrow> event_stream + drain_state" where
  "drain_message provider model message st =
     (case message of
        None \<Rightarrow> Inr st
      | Some m \<Rightarrow>
          (let st1 = st\<lparr>drChunks := drChunks st @ [m]\<rparr> in
           if drStarted st1 then Inr (push_chunk provider model m st1)
           else (case push_event (drOut st1) (zero_assistant_event\<lparr>aeType := AssistantEventStart,
                   aePartial := Some (streaming_partial (drThinking st1) (drText st1) provider model)\<rparr>) of
               (Some err, out) \<Rightarrow> Inl out
             | (None, out) \<Rightarrow> Inr (push_chunk provider model m (st1\<lparr>drOut := out, drStarted := True\<rparr>)))))"

fun drain_messages ::
  "string \<Rightarrow> string \<Rightarrow> model_message option list \<Rightarrow> drain_state \<Rightarrow> event_stream + drain_state" where
  "drain_messages provider model [] st = Inr st"
| "drain_messages provider model (m # ms) st =
     (case drain_message provider model m st of
        Inl out \<Rightarrow> Inl out | Inr st' \<Rightarrow> drain_messages provider model ms st')"

subsection \<open>The end\<close>

definition partial_assistant_message ::
  "provider_env \<Rightarrow> model_message list \<Rightarrow> string \<Rightarrow> string \<Rightarrow> string + assistant_message" where
  "partial_assistant_message env chunks provider model =
     (case peConcat env chunks of
        Inl err \<Rightarrow> Inl err
      | Inr merged0 \<Rightarrow>
          (let merged = (if mmRole merged0 = '''' then merged0\<lparr>mmRole := ''assistant''\<rparr> else merged0) in
           case from_model_message (Some merged) of
             Inl e \<Rightarrow> Inl (peConvertText env e)
           | Inr converted \<Rightarrow>
               (case as_assistant_message converted of
                  None \<Rightarrow> Inl (peNotAssistantText env)
                | Some a \<Rightarrow> Inr (a\<lparr>amProvider := provider, amModel := model\<rparr>))))"

fun push_final_calls ::
  "assistant_message \<Rightarrow> string set \<Rightarrow> tool_call_content list \<Rightarrow> event_stream \<Rightarrow> event_stream" where
  "push_final_calls final seen [] out = out"
| "push_final_calls final seen (c # cs) out =
     (if ccID c \<in> seen then push_final_calls final seen cs out
      else push_final_calls final (insert (ccID c) seen) cs
        (push_ignored (zero_assistant_event\<lparr>aeType := AssistantEventToolCallEnd,
           aeContentIndex := Some (tool_call_index final (ccID c)), aeToolCall := Some c,
           aePartial := Some final\<rparr>) out))"

definition end_event :: "assistant_event_type \<Rightarrow> int \<Rightarrow> string \<Rightarrow> assistant_message \<Rightarrow> assistant_event" where
  "end_event t i content p = zero_assistant_event\<lparr>aeType := t, aeContentIndex := Some i, aeContent := content,
     aePartial := Some p\<rparr>"

definition final_event :: "assistant_message \<Rightarrow> assistant_event" where
  "final_event final =
     (if amStopReason final = StopReasonError \<or> amStopReason final = StopReasonAborted
      then (let f = (if amErrorMessage final = ''''
              then final\<lparr>amErrorMessage := (if amStopReason final = StopReasonAborted then ''request was aborted''
                else ''provider returned an error stop reason'')\<rparr> else final) in
            zero_assistant_event\<lparr>aeType := AssistantEventError, aeReason := amStopReason f, aeError := Some f\<rparr>)
      else zero_assistant_event\<lparr>aeType := AssistantEventDone, aeReason := amStopReason final, aeMessage := Some final\<rparr>)"

definition push_final :: "assistant_message \<Rightarrow> drain_state \<Rightarrow> event_stream" where
  "push_final final st =
     (let out1 = (if drThinking st \<noteq> '''' then push_ignored
            (end_event AssistantEventThinkingEnd (thinking_content_index final) (drThinking st) final) (drOut st)
            else drOut st);
          out2 = (if drText st \<noteq> '''' then push_ignored
            (end_event AssistantEventTextEnd (text_content_index final) (drText st) final) out1 else out1) in
      push_ignored (final_event final) (push_final_calls final {} (tool_calls_from_assistant final) out2))"

definition finish_drain :: "provider_env \<Rightarrow> string \<Rightarrow> string \<Rightarrow> string option \<Rightarrow> drain_state \<Rightarrow> event_stream" where
  "finish_drain env provider model ctx_err st =
     (case ctx_err of
        Some err \<Rightarrow> push_assistant_error (drOut st) err StopReasonAborted provider model
      | None \<Rightarrow>
          if drChunks st = [] then push_assistant_error (drOut st) (peNoResultText env) StopReasonError provider model
          else (case partial_assistant_message env (drChunks st) provider model of
              Inl err \<Rightarrow> push_assistant_error (drOut st) err StopReasonError provider model
            | Inr final \<Rightarrow>
                (case validate_assistant final of
                   Some e \<Rightarrow> push_assistant_error (drOut st) (peInvalidText env e) StopReasonError provider model
                 | None \<Rightarrow>
                     if drStarted st then push_final final st
                     else (case push_event (drOut st) (zero_assistant_event\<lparr>aeType := AssistantEventStart,
                             aePartial := Some final\<rparr>) of
                         (Some err, out) \<Rightarrow> out
                       | (None, out) \<Rightarrow> push_final final (st\<lparr>drOut := out\<rparr>)))))"

definition new_drain :: "event_stream \<Rightarrow> drain_state" where
  "new_drain out = \<lparr>drStarted = False, drChunks = [], drText = '''', drThinking = '''',
     drCalls = Map.empty, drOrder = [], drOut = out\<rparr>"

definition drain_message_stream ::
  "provider_env \<Rightarrow> string \<Rightarrow> string \<Rightarrow> model_message option list \<Rightarrow> answer_end \<Rightarrow> event_stream \<Rightarrow> event_stream" where
  "drain_message_stream env provider model ms fin out =
     (case drain_messages provider model ms (new_drain out) of
        Inl out' \<Rightarrow> out'
      | Inr st \<Rightarrow>
          (case fin of
             EndError err cancelled \<Rightarrow>
               push_assistant_error (drOut st) err (if cancelled then StopReasonAborted else StopReasonError) provider model
           | EndOfStream ctx_err \<Rightarrow> finish_drain env provider model ctx_err st))"

end
