(* ===== verification/ProviderSafety.thy ===== *)
theory ProviderSafety
  imports ProviderStream
begin

text \<open>
  What the events of a provider's answer keep to, whatever the chunks: no push is refused, every
  update points at its block of the partial message, the deltas are the text and the thinking read,
  and the last event, and no other, ends the stream.
\<close>

definition deltas :: "assistant_event_type \<Rightarrow> assistant_event list \<Rightarrow> string" where
  "deltas t es = concat (map aeDelta (filter (\<lambda>e. aeType e = t) es))"

definition points_at :: "(content \<Rightarrow> bool) \<Rightarrow> assistant_event \<Rightarrow> bool" where
  "points_at p e =
     (case (aeContentIndex e, aePartial e) of
        (Some i, Some m) \<Rightarrow> 0 \<le> i \<and> nat i < length (amContent m) \<and> p (amContent m ! nat i)
      | _ \<Rightarrow> False)"

definition is_tool_call :: "content \<Rightarrow> bool" where
  "is_tool_call c = (case c of ToolCallContent _ \<Rightarrow> True | _ \<Rightarrow> False)"

definition well_placed :: "assistant_event \<Rightarrow> bool" where
  "well_placed e =
     (case aeType e of
        AssistantEventTextStart \<Rightarrow> points_at is_text e
      | AssistantEventTextDelta \<Rightarrow> points_at is_text e
      | AssistantEventThinkingStart \<Rightarrow> points_at is_thinking e
      | AssistantEventThinkingDelta \<Rightarrow> points_at is_thinking e
      | AssistantEventToolCallStart \<Rightarrow> points_at is_tool_call e
      | AssistantEventToolCallDelta \<Rightarrow> points_at is_tool_call e
      | _ \<Rightarrow> True)"

text \<open>An event that can be pushed before the end.\<close>

definition good_event :: "assistant_event \<Rightarrow> bool" where
  "good_event e \<longleftrightarrow> validate_assistant_event e = None \<and> \<not> terminal_event e \<and> well_placed e"

definition queued :: "assistant_event list \<Rightarrow> event_stream \<Rightarrow> event_stream" where
  "queued es s = s\<lparr>asQueue := asQueue s @ es\<rparr>"

lemma queued_simps [simp]:
  "queued [] s = s" "queued ys (queued xs s) = queued (xs @ ys) s" "asClosed (queued es s) = asClosed s"
  "asQueue (queued es s) = asQueue s @ es" "asSent (queued es s) = asSent s"
  "asResult (queued es s) = asResult s"
  by (simp_all add: queued_def)

lemma push_good:
  assumes "\<not> asClosed s" "good_event e"
  shows "push_event s e = (None, queued [e] s)" "push_ignored e s = queued [e] s"
  using assms by (simp_all add: push_ignored_def push_event_def good_event_def terminal_event_def queued_def Let_def)

lemma push_terminal:
  assumes "\<not> asClosed s" "validate_assistant_event e = None" "terminal_event e"
  shows "push_ignored e s = s\<lparr>asResult := final_message e, asClosed := True, asQueue := asQueue s @ [e]\<rparr>"
  using assms by (simp add: push_ignored_def push_event_def terminal_event_def Let_def)

lemma deltas_simps [simp]:
  "deltas t [] = []" "deltas t (e # es) = (if aeType e = t then aeDelta e else []) @ deltas t es"
  "deltas t (xs @ ys) = deltas t xs @ deltas t ys"
  by (simp_all add: deltas_def)

lemma update_event_simps [simp]:
  "aeType (update_event t i d p) = t" "aeContentIndex (update_event t i d p) = Some i"
  "aeDelta (update_event t i d p) = d" "aePartial (update_event t i d p) = Some p"
  by (simp_all add: update_event_def)

lemma content_index_points:
  assumes "\<exists>c \<in> set (amContent m). p c"
  shows "0 \<le> content_index p m \<and> nat (content_index p m) < length (amContent m) \<and> p (amContent m ! nat (content_index p m))"
proof -
  from assms obtain i where i: "first_index p (amContent m) = Some i"
    using first_index_None [of p "amContent m"] by (cases "first_index p (amContent m)") auto
  from first_index_Some [OF i] show ?thesis by (simp add: content_index_def i)
qed

subsection \<open>Partial messages are valid\<close>

lemma valid_blocks [simp]:
  "validate_content (new_thinking_content t) = None" "validate_content (new_text_content t) = None"
  by (simp_all add: new_thinking_content_def new_text_content_def)

lemma partial_simps [simp]:
  "amRole (streaming_partial th t pr m) = []" "amStopReason (streaming_partial th t pr m) = StopReasonStop"
  "amContent (streaming_partial th t pr m) =
     (if th \<noteq> [] then [new_thinking_content th] else []) @ (if t \<noteq> [] then [new_text_content t] else [])"
  by (simp_all add: streaming_partial_def)

lemma validate_partial_message:
  "amRole m = [] \<Longrightarrow> amStopReason m = StopReasonStop \<Longrightarrow> \<forall>c \<in> set (amContent m). validate_content c = None \<Longrightarrow>
   validate_assistant m = None"
  by (simp add: validate_assistant_def is_stop_reason_def validate_content_list_None)

lemma decoded_object_valid:
  assumes "decode_json a = Some (JObject ms)" shows "is_json_object a"
proof -
  from assms have valid: "json_valid a" by (simp add: decode_json_def split: if_splits)
  with assms obtain r where p: "parse_value (2 * length a) (skip_space a) = Some (JObject ms, r)"
    by (auto simp: decode_json_def)
  have "\<exists>t. skip_space a = CHR ''{'' # t"
    using p by (cases "2 * length a"; cases "skip_space a")
      (auto simp: literals_def read_number_def split: if_splits list.splits option.splits)
  with valid show ?thesis by (auto simp: is_json_object_def first_nonspace_def skip_space_def)
qed

lemma empty_object [simp]: "is_json_object ''{}''"
  by code_simp

lemma partial_arguments_object: "is_json_object (partial_tool_arguments a)"
  using decoded_object_valid [of a]
  by (cases "decode_json a") (auto simp: partial_tool_arguments_def split: json.split)

lemma valid_call_content: "i \<noteq> [] \<Longrightarrow> n \<noteq> [] \<Longrightarrow> validate_content (new_tool_call_content i n (partial_tool_arguments a)) = None"
  using partial_arguments_object [of a] is_json_object_nonempty [OF partial_arguments_object [of a]]
  by (simp add: new_tool_call_content_def is_json_object_def)

lemma call_contents_valid: "c \<in> set (call_contents calls order) \<Longrightarrow> validate_content c = None"
  by (auto simp: call_contents_def List.map_filter_def named_call_def split: option.splits if_splits
      intro!: valid_call_content simp del: validate_content.simps)

lemma call_contents_has:
  assumes "k \<in> set order" "calls k = Some c" "named_call c"
  shows "\<exists>x \<in> set (call_contents calls order). is_call (stID c) x"
  using assms by (force simp: call_contents_def List.map_filter_def is_call_def new_tool_call_content_def)

lemma is_call_tool_call: "is_call i c \<Longrightarrow> is_tool_call c"
  by (auto simp: is_call_def is_tool_call_def split: content.splits)


subsection \<open>One chunk\<close>

text \<open>
  A step pushed some events, all accepted: they carry the text and the thinking it added, and none
  of them is a start.
\<close>

definition pushed :: "string \<Rightarrow> string \<Rightarrow> drain_state \<Rightarrow> drain_state \<Rightarrow> bool" where
  "pushed text thinking st st' \<longleftrightarrow>
     (\<exists>es. drOut st' = queued es (drOut st) \<and> list_all good_event es \<and>
        deltas AssistantEventTextDelta es = text \<and> deltas AssistantEventThinkingDelta es = thinking \<and>
        list_all (\<lambda>e. aeType e \<noteq> AssistantEventStart) es) \<and>
     drText st' = drText st @ text \<and> drThinking st' = drThinking st @ thinking \<and>
     drStarted st' = drStarted st \<and> drChunks st' = drChunks st"

lemma pushed_refl: "pushed [] [] st st"
  unfolding pushed_def by (intro conjI exI [of _ "[]"]) simp_all

lemma pushed_trans:
  assumes "pushed t1 th1 a b" "pushed t2 th2 b c" shows "pushed (t1 @ t2) (th1 @ th2) a c"
proof -
  from assms obtain es fs where "drOut b = queued es (drOut a)" "list_all good_event es"
    "deltas AssistantEventTextDelta es = t1" "deltas AssistantEventThinkingDelta es = th1"
    "list_all (\<lambda>e. aeType e \<noteq> AssistantEventStart) es"
    "drOut c = queued fs (drOut b)" "list_all good_event fs"
    "deltas AssistantEventTextDelta fs = t2" "deltas AssistantEventThinkingDelta fs = th2"
    "list_all (\<lambda>e. aeType e \<noteq> AssistantEventStart) fs"
    unfolding pushed_def by blast
  with assms show ?thesis
    unfolding pushed_def by (intro conjI exI [of _ "es @ fs"]) simp_all
qed

lemma pushed_open: "pushed t th a b \<Longrightarrow> asClosed (drOut b) = asClosed (drOut a)"
  by (auto simp: pushed_def)

lemma good_update:
  assumes "validate_assistant p = None" "\<exists>c \<in> set (amContent p). q c" "\<And>c. q c \<Longrightarrow> r c"
  shows "r = is_text \<Longrightarrow> good_event (update_event AssistantEventTextStart (content_index q p) d p)"
    "r = is_text \<Longrightarrow> d \<noteq> [] \<Longrightarrow> good_event (update_event AssistantEventTextDelta (content_index q p) d p)"
    "r = is_thinking \<Longrightarrow> good_event (update_event AssistantEventThinkingStart (content_index q p) d p)"
    "r = is_thinking \<Longrightarrow> d \<noteq> [] \<Longrightarrow> good_event (update_event AssistantEventThinkingDelta (content_index q p) d p)"
    "r = is_tool_call \<Longrightarrow> good_event (update_event AssistantEventToolCallStart (content_index q p) d p)"
    "r = is_tool_call \<Longrightarrow> d \<noteq> [] \<Longrightarrow> good_event (update_event AssistantEventToolCallDelta (content_index q p) d p)"
  using content_index_points [of p q] assms
  by (auto simp: good_event_def well_placed_def points_at_def validate_assistant_event_def validate_partial_def
      terminal_event_def Let_def)

lemmas good_text = good_update(1,2) [where q = is_text and r = is_text, folded text_content_index_def]
lemmas good_thinking = good_update(3,4) [where q = is_thinking and r = is_thinking, folded thinking_content_index_def]
lemmas good_calls = good_update(5,6) [where r = is_tool_call and q = "is_call i" for i, folded tool_call_index_def]

lemma is_block [simp]:
  "is_thinking (new_thinking_content t)" "is_text (new_text_content t)" "\<not> is_text (new_thinking_content t)"
  by (simp_all add: new_thinking_content_def new_text_content_def is_thinking_def is_text_def)

lemma pushed_thinking:
  assumes "\<not> asClosed (drOut st)"
  shows "pushed [] (mmReasoning m) st (push_thinking_chunk m provider model st)"
proof (cases "mmReasoning m = []")
  case True
  then show ?thesis by (simp add: push_thinking_chunk_def pushed_refl)
next
  case False
  define p0 where "p0 = streaming_partial (drThinking st) (drText st) provider model"
  define p1 where "p1 = p0\<lparr>amContent := new_thinking_content '''' # amContent p0\<rparr>"
  define p2 where "p2 = streaming_partial (drThinking st @ mmReasoning m) (drText st) provider model"
  define e1 where "e1 = update_event AssistantEventThinkingStart (thinking_content_index p1) '''' p1"
  define e2 where "e2 = update_event AssistantEventThinkingDelta (thinking_content_index p2) (mmReasoning m) p2"
  have "validate_assistant p1 = None" "validate_assistant p2 = None"
    by (auto intro!: validate_partial_message simp: p1_def p2_def p0_def simp del: validate_content.simps)
  then have g: "good_event e1" "good_event e2" using False
    by (auto simp: e1_def e2_def p1_def p2_def intro!: good_thinking)
  have st': "push_thinking_chunk m provider model st = st\<lparr>drThinking := drThinking st @ mmReasoning m,
      drOut := queued ((if drThinking st = [] then [e1] else []) @ [e2]) (drOut st)\<rparr>"
    using False assms g
    by (simp add: push_thinking_chunk_def Let_def push_good flip: p0_def p1_def p2_def e1_def e2_def)
  show ?thesis unfolding pushed_def st'
    by (intro conjI exI [of _ "(if drThinking st = [] then [e1] else []) @ [e2]"])
      (use g in \<open>simp_all add: e1_def e2_def\<close>)
qed

lemma pushed_content:
  assumes "\<not> asClosed (drOut st)"
  shows "pushed (mmContent m) [] st (push_content_chunk m provider model st)"
proof (cases "mmContent m = []")
  case True
  then show ?thesis by (simp add: push_content_chunk_def pushed_refl)
next
  case False
  define p0 where "p0 = streaming_partial (drThinking st) (drText st) provider model"
  define p1 where "p1 = p0\<lparr>amContent := amContent p0 @ [new_text_content '''']\<rparr>"
  define p2 where "p2 = streaming_partial (drThinking st) (drText st @ mmContent m) provider model"
  define e1 where "e1 = update_event AssistantEventTextStart (text_content_index p1) '''' p1"
  define e2 where "e2 = update_event AssistantEventTextDelta (text_content_index p2) (mmContent m) p2"
  have "validate_assistant p1 = None" "validate_assistant p2 = None"
    by (auto intro!: validate_partial_message simp: p1_def p2_def p0_def simp del: validate_content.simps)
  then have g: "good_event e1" "good_event e2" using False
    by (auto simp: e1_def e2_def p1_def p2_def intro!: good_text)
  have st': "push_content_chunk m provider model st = st\<lparr>drText := drText st @ mmContent m,
      drOut := queued ((if drText st = [] then [e1] else []) @ [e2]) (drOut st)\<rparr>"
    using False assms g
    by (simp add: push_content_chunk_def Let_def push_good flip: p0_def p1_def p2_def e1_def e2_def)
  show ?thesis unfolding pushed_def st'
    by (intro conjI exI [of _ "(if drText st = [] then [e1] else []) @ [e2]"])
      (use g in \<open>simp_all add: e1_def e2_def\<close>)
qed

text \<open>Every call known has its place in the order.\<close>

definition calls_placed :: "drain_state \<Rightarrow> bool" where
  "calls_placed st \<longleftrightarrow> (\<forall>k. drCalls st k \<noteq> None \<longrightarrow> k \<in> set (drOrder st))"

lemma pushed_call:
  assumes "\<not> asClosed (drOut st)" "calls_placed st"
  shows "pushed [] [] st (push_call_chunk position chunk provider model st) \<and>
    calls_placed (push_call_chunk position chunk provider model st)"
proof -
  define key where "key = chunk_key position chunk"
  define order where "order = (if drCalls st key = None then drOrder st @ [key] else drOrder st)"
  define call where "call = merge_call (case drCalls st key of None \<Rightarrow> blank_call | Some c \<Rightarrow> c) chunk"
  define calls where "calls = (drCalls st)(key \<mapsto> call)"
  define p where "p = streaming_partial_with_calls (drThinking st) (drText st) provider model calls order"
  define e1 where "e1 = update_event AssistantEventToolCallStart (tool_call_index p (stID call)) '''' p"
  define e2 where "e2 = update_event AssistantEventToolCallDelta (tool_call_index p (stID call)) (mcArguments chunk) p"
  define es where "es = (if \<not> stStarted call then [e1] else []) @ (if mcArguments chunk \<noteq> [] then [e2] else [])"
  define st' where "st' = push_call_chunk position chunk provider model st"
  have key: "key \<in> set order" and placed: "k \<in> set order" if "calls k \<noteq> None" for k
    using assms(2) that by (auto simp: order_def calls_def calls_placed_def split: if_splits)
  have key: "key \<in> set order" using assms(2) by (auto simp: order_def calls_placed_def)
  show ?thesis
  proof (cases "named_call call")
    case False
    then have st': "st' = st\<lparr>drCalls := calls, drOrder := order\<rparr>"
      by (simp add: st'_def push_call_chunk_def Let_def flip: key_def order_def call_def calls_def)
    have "pushed [] [] st st'" unfolding pushed_def st' by (intro conjI exI [of _ "[]"]) simp_all
    moreover have "calls_placed st'" using placed by (auto simp: calls_placed_def st')
    ultimately show ?thesis by (simp add: st'_def)
  next
    case True
    have content: "amContent p = amContent (streaming_partial (drThinking st) (drText st) provider model) @ call_contents calls order"
      by (simp add: p_def streaming_partial_with_calls_def Let_def)
    have "\<exists>x \<in> set (call_contents calls order). is_call (stID call) x"
      by (rule call_contents_has [OF key _ True]) (simp add: calls_def)
    then have has: "\<exists>x \<in> set (amContent p). is_call (stID call) x" unfolding content by auto
    have valid: "validate_assistant p = None"
    proof (rule validate_partial_message)
      show "\<forall>c \<in> set (amContent p). validate_content c = None"
        using call_contents_valid [of _ calls order] by (auto simp: content simp del: validate_content.simps)
    qed (simp_all add: p_def streaming_partial_with_calls_def Let_def)
    have g: "good_event e1" "mcArguments chunk \<noteq> [] \<Longrightarrow> good_event e2"
      unfolding e1_def e2_def using good_calls [OF valid has] is_call_tool_call by blast+
    then have good: "list_all good_event es" by (simp add: es_def)
    have st': "st' = st\<lparr>drCalls := calls(key \<mapsto> call\<lparr>stStarted := True\<rparr>), drOrder := order, drOut := queued es (drOut st)\<rparr>"
      using True assms(1) g
      by (simp add: st'_def push_call_chunk_def Let_def push_good es_def
          flip: key_def order_def call_def calls_def p_def e1_def e2_def)
    have "pushed [] [] st st'" unfolding pushed_def st'
      by (intro conjI exI [of _ es]) (use good in \<open>simp_all add: es_def e1_def e2_def\<close>)
    moreover have "calls_placed st'" using placed key by (auto simp: calls_placed_def st' split: if_splits)
    ultimately show ?thesis by (simp add: st'_def)
  qed
qed

lemma pushed_calls:
  "\<not> asClosed (drOut st) \<Longrightarrow> calls_placed st \<Longrightarrow>
   pushed [] [] st (push_call_chunks position cs provider model st) \<and>
   calls_placed (push_call_chunks position cs provider model st)"
proof (induction cs arbitrary: position st)
  case Nil
  then show ?case by (simp add: pushed_refl)
next
  case (Cons c cs)
  let ?st = "push_call_chunk position c provider model st"
  have s: "pushed [] [] st ?st" "calls_placed ?st" using pushed_call [OF Cons.prems] by blast+
  have "\<not> asClosed (drOut ?st)" using pushed_open [OF s(1)] Cons.prems(1) by simp
  from Cons.IH [OF this s(2)] pushed_trans [OF s(1), of "[]" "[]"] show ?case by simp
qed

lemma calls_placed_text: "calls_placed (push_text_chunk_updates m provider model st) = calls_placed st"
  by (simp add: calls_placed_def push_text_chunk_updates_def push_content_chunk_def push_thinking_chunk_def Let_def)

lemma pushed_chunk:
  assumes "\<not> asClosed (drOut st)" "calls_placed st"
  shows "pushed (mmContent m) (mmReasoning m) st (push_chunk provider model m st) \<and>
    calls_placed (push_chunk provider model m st)"
proof -
  let ?a = "push_thinking_chunk m provider model st" and ?b = "push_text_chunk_updates m provider model st"
  have a: "pushed [] (mmReasoning m) st ?a" by (rule pushed_thinking [OF assms(1)])
  have "pushed (mmContent m) [] ?a ?b" unfolding push_text_chunk_updates_def
    by (rule pushed_content) (use pushed_open [OF a] assms(1) in simp)
  from pushed_trans [OF a this] have b: "pushed (mmContent m) (mmReasoning m) st ?b" by simp
  have "\<not> asClosed (drOut ?b)" "calls_placed ?b" using pushed_open [OF b] assms by (simp_all add: calls_placed_text)
  from pushed_calls [OF this] pushed_trans [OF b, of "[]" "[]"] show ?thesis by (simp add: push_chunk_def)
qed


subsection \<open>The whole answer\<close>

text \<open>After some of the messages: one start in front, and what was read is what was sent on.\<close>

definition answer_ok :: "model_message list \<Rightarrow> drain_state \<Rightarrow> bool" where
  "answer_ok read st \<longleftrightarrow>
     \<not> asClosed (drOut st) \<and> asSent (drOut st) = [] \<and> calls_placed st \<and>
     list_all good_event (asQueue (drOut st)) \<and> drChunks st = read \<and> (drStarted st \<longleftrightarrow> read \<noteq> []) \<and>
     map aeType (filter (\<lambda>e. aeType e = AssistantEventStart) (asQueue (drOut st))) =
       (if read = [] then [] else [AssistantEventStart]) \<and>
     (if read = [] then asQueue (drOut st) = [] else aeType (hd (asQueue (drOut st))) = AssistantEventStart \<and>
       asQueue (drOut st) \<noteq> []) \<and>
     drText st = concat (map mmContent read) \<and> drThinking st = concat (map mmReasoning read) \<and>
     deltas AssistantEventTextDelta (asQueue (drOut st)) = drText st \<and>
     deltas AssistantEventThinkingDelta (asQueue (drOut st)) = drThinking st"

lemma reading_start: "answer_ok [] (new_drain new_event_stream)"
  by (simp add: answer_ok_def new_drain_def new_event_stream_def calls_placed_def)

lemma no_start: "list_all (\<lambda>e. aeType e \<noteq> t) es \<Longrightarrow> filter (\<lambda>e. aeType e = t) es = []"
  by (induction es) auto

lemma reading_chunk:
  assumes "\<not> asClosed (drOut st)" "asSent (drOut st) = []" "calls_placed st" "list_all good_event (asQueue (drOut st))"
    "drChunks st = read @ [m]" "drStarted st"
    "map aeType (filter (\<lambda>e. aeType e = AssistantEventStart) (asQueue (drOut st))) = [AssistantEventStart]"
    "aeType (hd (asQueue (drOut st))) = AssistantEventStart" "asQueue (drOut st) \<noteq> []"
    "drText st = concat (map mmContent read)" "drThinking st = concat (map mmReasoning read)"
    "deltas AssistantEventTextDelta (asQueue (drOut st)) = drText st"
    "deltas AssistantEventThinkingDelta (asQueue (drOut st)) = drThinking st"
  shows "answer_ok (read @ [m]) (push_chunk provider model m st)"
proof -
  from pushed_chunk [OF assms(1,3), of m provider model]
  obtain es where es: "drOut (push_chunk provider model m st) = queued es (drOut st)" "list_all good_event es"
    "deltas AssistantEventTextDelta es = mmContent m" "deltas AssistantEventThinkingDelta es = mmReasoning m"
    "list_all (\<lambda>e. aeType e \<noteq> AssistantEventStart) es"
    "drText (push_chunk provider model m st) = drText st @ mmContent m"
    "drThinking (push_chunk provider model m st) = drThinking st @ mmReasoning m"
    "drStarted (push_chunk provider model m st) = drStarted st"
    "drChunks (push_chunk provider model m st) = drChunks st" "calls_placed (push_chunk provider model m st)"
    unfolding pushed_def by blast
  with assms no_start [OF es(5)] show ?thesis by (simp add: answer_ok_def)
qed

lemma reading_message:
  assumes ok: "answer_ok read st"
  shows "\<exists>st'. drain_message provider model message st = Inr st' \<and>
    answer_ok (read @ (case message of None \<Rightarrow> [] | Some m \<Rightarrow> [m])) st'"
proof (cases message)
  case None
  with ok show ?thesis by (simp add: drain_message_def)
next
  case (Some m)
  show ?thesis
  proof (cases "drStarted st")
    case True
    have "answer_ok (read @ [m]) (push_chunk provider model m (st\<lparr>drChunks := drChunks st @ [m]\<rparr>))"
      by (rule reading_chunk) (use ok True in \<open>simp_all add: answer_ok_def calls_placed_def\<close>)
    with True Some show ?thesis by (simp add: drain_message_def)
  next
    case False
    with ok have empty: "read = []" "drText st = []" "drThinking st = []" "asQueue (drOut st) = []" "\<not> asClosed (drOut st)"
      by (simp_all add: answer_ok_def)
    define e where "e = zero_assistant_event\<lparr>aeType := AssistantEventStart,
      aePartial := Some (streaming_partial (drThinking st) (drText st) provider model)\<rparr>"
    have g: "good_event e"
      by (simp add: good_event_def e_def validate_assistant_event_def validate_partial_def terminal_event_def
          well_placed_def empty validate_partial_message)
    have "answer_ok ([] @ [m]) (push_chunk provider model m
        (st\<lparr>drChunks := drChunks st @ [m], drOut := queued [e] (drOut st), drStarted := True\<rparr>))"
      by (rule reading_chunk) (use ok g False empty in \<open>simp_all add: answer_ok_def calls_placed_def e_def\<close>)
    with False Some push_good(1) [OF empty(5) g] show ?thesis by (simp add: drain_message_def empty(1) flip: e_def)
  qed
qed

definition messages_read :: "model_message option list \<Rightarrow> model_message list" where
  "messages_read ms = List.map_filter (\<lambda>m. m) ms"

lemma messages_read_simps [simp]:
  "messages_read [] = []"
  "messages_read (m # ms) = (case m of None \<Rightarrow> [] | Some x \<Rightarrow> [x]) @ messages_read ms"
  by (simp_all add: messages_read_def List.map_filter_def split: option.split)

lemma reading_messages:
  "answer_ok read st \<Longrightarrow> \<exists>st'. drain_messages provider model ms st = Inr st' \<and> answer_ok (read @ messages_read ms) st'"
proof (induction ms arbitrary: read st)
  case Nil
  then show ?case by simp
next
  case (Cons m ms)
  from reading_message [OF Cons.prems, of provider model m] obtain st1 where
    "drain_message provider model m st = Inr st1" "answer_ok (read @ (case m of None \<Rightarrow> [] | Some x \<Rightarrow> [x])) st1" by blast
  with Cons.IH [OF this(2)] show ?case by simp
qed

text \<open>How a stream ends: what was queued before, some more events and the one that closes it.\<close>

definition ended_with :: "event_stream \<Rightarrow> assistant_event list \<Rightarrow> assistant_event \<Rightarrow> event_stream \<Rightarrow> bool" where
  "ended_with s es e s' \<longleftrightarrow>
     asClosed s' \<and> asSent s' = asSent s \<and> asQueue s' = asQueue s @ es @ [e] \<and> asResult s' = final_message e \<and>
     terminal_event e \<and> validate_assistant_event e = None \<and> list_all good_event es \<and>
     list_all (\<lambda>x. aeType x \<notin> {AssistantEventStart, AssistantEventTextDelta, AssistantEventThinkingDelta}) es"

lemma ended_good:
  assumes "\<not> asClosed s" "validate_assistant_event e = None" "terminal_event e" "list_all good_event es"
    "list_all (\<lambda>x. aeType x \<notin> {AssistantEventStart, AssistantEventTextDelta, AssistantEventThinkingDelta}) es"
  shows "ended_with s es e (push_ignored e (queued es s))"
  using assms by (simp add: ended_with_def push_terminal)

lemma ended_error:
  assumes "\<not> asClosed s"
  shows "\<exists>e. ended_with s [] e (push_assistant_error s err reason provider model) \<and> aeType e = AssistantEventError"
proof -
  define r where "r = (if reason \<noteq> StopReasonAborted then StopReasonError else reason)"
  define f where "f = (streaming_partial '''' '''' provider model)\<lparr>amContent := [new_text_content (clean_error err)],
    amStopReason := r, amErrorMessage := clean_error err\<rparr>"
  define e where "e = zero_assistant_event\<lparr>aeType := AssistantEventError, aeReason := r, aeError := Some f\<rparr>"
  have "validate_assistant_event e = None" "terminal_event e" "aeType e = AssistantEventError"
    by (auto simp: e_def f_def r_def validate_assistant_event_def terminal_event_def validate_assistant_def is_stop_reason_def
        simp del: validate_content.simps)
  moreover have "push_assistant_error s err reason provider model = push_ignored e (queued [] s)"
    by (simp add: push_assistant_error_def Let_def e_def f_def r_def)
  ultimately show ?thesis using ended_good [OF assms, of e "[]"] by auto
qed

lemma final_event_valid:
  assumes "validate_assistant final = None"
  shows "validate_assistant_event (final_event final) = None" "terminal_event (final_event final)"
proof -
  have "is_stop_reason (amStopReason final)" using assms by (auto simp: validate_assistant_def split: if_splits)
  then have "amStopReason final = StopReasonError \<or> amStopReason final = StopReasonAborted \<or>
      is_successful_terminal_reason (amStopReason final)"
    by (auto simp: is_stop_reason_def is_successful_terminal_reason_def split: stop_reason.splits)
  then show "validate_assistant_event (final_event final) = None"
    using assms by (auto simp: final_event_def validate_assistant_event_def validate_assistant_def Let_def
        is_successful_terminal_reason_def)
  show "terminal_event (final_event final)" by (simp add: final_event_def terminal_event_def Let_def)
qed

lemma push_final_calls_queued:
  assumes "\<not> asClosed s" "validate_assistant final = None" "\<forall>c \<in> set cs. validate_tool_call c = None"
  shows "\<exists>es. push_final_calls final seen cs s = queued es s \<and> list_all good_event es \<and>
    list_all (\<lambda>x. aeType x = AssistantEventToolCallEnd) es"
  using assms
proof (induction cs arbitrary: seen s)
  case Nil
  then show ?case by (intro exI [of _ "[]"]) simp
next
  case (Cons c cs)
  show ?case
  proof (cases "ccID c \<in> seen")
    case True
    with Cons show ?thesis by auto
  next
    case False
    define e where "e = zero_assistant_event\<lparr>aeType := AssistantEventToolCallEnd,
      aeContentIndex := Some (tool_call_index final (ccID c)), aeToolCall := Some c, aePartial := Some final\<rparr>"
    have g: "good_event e" using Cons.prems
      by (simp add: good_event_def e_def validate_assistant_event_def validate_partial_def terminal_event_def
          well_placed_def Let_def)
    have "\<not> asClosed (queued [e] s)" using Cons.prems(1) by simp
    from Cons.IH [OF this Cons.prems(2), of "insert (ccID c) seen"] Cons.prems(3) obtain es where
      "push_final_calls final (insert (ccID c) seen) cs (queued [e] s) = queued es (queued [e] s)"
      "list_all good_event es" "list_all (\<lambda>x. aeType x = AssistantEventToolCallEnd) es" by auto
    with False g push_good(2) [OF Cons.prems(1) g] show ?thesis
      by (intro exI [of _ "e # es"]) (simp flip: e_def, simp add: e_def)
  qed
qed

lemma good_end:
  "validate_assistant p = None \<Longrightarrow> c \<noteq> [] \<Longrightarrow> t \<in> {AssistantEventTextEnd, AssistantEventThinkingEnd} \<Longrightarrow>
   good_event (end_event t i c p)"
  by (auto simp: good_event_def end_event_def validate_assistant_event_def validate_partial_def terminal_event_def
      well_placed_def Let_def)

lemma ended_final:
  assumes "\<not> asClosed (drOut st)" "validate_assistant final = None"
  shows "\<exists>es. ended_with (drOut st) es (final_event final) (push_final final st)"
proof -
  define xs where "xs = (if drThinking st \<noteq> [] then [end_event AssistantEventThinkingEnd (thinking_content_index final) (drThinking st) final] else [])
    @ (if drText st \<noteq> [] then [end_event AssistantEventTextEnd (text_content_index final) (drText st) final] else [])"
  have xs: "list_all good_event xs"
    "list_all (\<lambda>x. aeType x \<notin> {AssistantEventStart, AssistantEventTextDelta, AssistantEventThinkingDelta}) xs"
    using good_end [OF assms(2)] by (simp_all add: xs_def) (simp_all add: end_event_def)
  have "\<forall>c \<in> set (tool_calls_from_assistant final). validate_tool_call c = None"
    using assms(2) by (auto simp: validate_assistant_def validate_content_list_None tool_calls_from_assistant_def
        set_tool_calls_of_content simp del: validate_tool_call.simps split: if_splits)
  from push_final_calls_queued [OF _ assms(2) this, of "queued xs (drOut st)" "{}"] assms(1) obtain ys where
    ys: "push_final_calls final {} (tool_calls_from_assistant final) (queued xs (drOut st)) = queued ys (queued xs (drOut st))"
      "list_all good_event ys" "list_all (\<lambda>x. aeType x = AssistantEventToolCallEnd) ys" by auto
  have ys2: "list_all (\<lambda>x. aeType x \<notin> {AssistantEventStart, AssistantEventTextDelta, AssistantEventThinkingDelta}) ys"
    using ys(3) by (simp add: list_all_iff)
  define o1 where "o1 = (if drThinking st \<noteq> [] then push_ignored
    (end_event AssistantEventThinkingEnd (thinking_content_index final) (drThinking st) final) (drOut st) else drOut st)"
  define o2 where "o2 = (if drText st \<noteq> [] then push_ignored
    (end_event AssistantEventTextEnd (text_content_index final) (drText st) final) o1 else o1)"
  have o2: "o2 = queued xs (drOut st)" using assms(1) good_end [OF assms(2)] by (simp add: xs_def o1_def o2_def push_good)
  have "push_final final st = push_ignored (final_event final) (push_final_calls final {} (tool_calls_from_assistant final) o2)"
    by (simp only: push_final_def Let_def o1_def o2_def)
  also have "\<dots> = push_ignored (final_event final) (queued (xs @ ys) (drOut st))" by (simp add: o2 ys(1))
  finally have "push_final final st = push_ignored (final_event final) (queued (xs @ ys) (drOut st))" .
  then show ?thesis
    using ended_good [OF assms(1) final_event_valid [OF assms(2)], of "xs @ ys"] xs ys(2) ys2
    by (intro exI [of _ "xs @ ys"]) (simp add: list_all_append)
qed

lemma drain_ends:
  assumes "answer_ok read st"
  shows "\<exists>es e. ended_with (drOut st) es e (finish_drain env provider model ctx_err st) \<and>
    (aeType e = AssistantEventError \<or> ctx_err = None \<and> read \<noteq> [] \<and>
      (\<exists>final. partial_assistant_message env read provider model = Inr final \<and> aeMessage e = Some final))"
proof -
  have open_out: "\<not> asClosed (drOut st)" "drChunks st = read" "drStarted st = (read \<noteq> [])"
    using assms by (simp_all add: answer_ok_def)
  have err: "\<exists>es e. ended_with (drOut st) es e (push_assistant_error (drOut st) x r provider model) \<and>
    (aeType e = AssistantEventError \<or> P e)" for x r P
    using ended_error [OF open_out(1), of x r provider model] by blast
  show ?thesis
  proof (cases "ctx_err = None \<and> read \<noteq> []")
    case False
    then obtain x r where "finish_drain env provider model ctx_err st = push_assistant_error (drOut st) x r provider model"
      by (cases ctx_err) (auto simp: finish_drain_def open_out)
    then show ?thesis by (simp only: err)
  next
    case ok: True
    show ?thesis
    proof (cases "partial_assistant_message env read provider model")
      case (Inl e)
      with ok have "finish_drain env provider model ctx_err st = push_assistant_error (drOut st) e StopReasonError provider model"
        by (simp add: finish_drain_def open_out)
      then show ?thesis by (simp only: err)
    next
      case (Inr final)
      show ?thesis
      proof (cases "validate_assistant final")
        case None
        from ended_final [OF open_out(1) None] obtain es where
          es: "ended_with (drOut st) es (final_event final) (push_final final st)" by blast
        have "finish_drain env provider model ctx_err st = push_final final st"
          using ok Inr None by (simp add: finish_drain_def open_out)
        moreover have "aeType (final_event final) = AssistantEventError \<or> aeMessage (final_event final) = Some final"
          by (simp add: final_event_def Let_def)
        ultimately show ?thesis using es ok Inr by (intro exI [of _ es] exI [of _ "final_event final"]) auto
      next
        case (Some e)
        with ok Inr have "finish_drain env provider model ctx_err st =
            push_assistant_error (drOut st) (peInvalidText env e) StopReasonError provider model"
          by (simp add: finish_drain_def open_out)
        then show ?thesis by (simp only: err)
      qed
    qed
  qed
qed

end
