(* ===== verification/ProviderProperties.thy ===== *)
theory ProviderProperties
  imports ProviderSafety TransformProperties
begin

text \<open>
  The properties of the provider's adapter: every answer ends with one result and passes on all it
  read, every call sent is answered, and a message survives being sent and read back.
\<close>

subsection \<open>An answer\<close>

lemma deltas_skip: "list_all (\<lambda>x. aeType x \<noteq> t) es \<Longrightarrow> deltas t es = []"
  by (induction es) auto

lemma ended_reading:
  assumes ok: "answer_ok read st" and fin: "ended_with (drOut st) es e s"
  shows "asClosed s \<and> asSent s = [] \<and> list_all (\<lambda>x. validate_assistant_event x = None) (asQueue s) \<and>
    (\<exists>pre. asQueue s = pre @ [e] \<and> terminal_event e \<and> list_all (\<lambda>x. \<not> terminal_event x \<and> well_placed x) pre) \<and>
    asResult s = final_message e \<and> asResult s \<noteq> None \<and>
    map aeType (filter (\<lambda>x. aeType x = AssistantEventStart) (asQueue s)) = (if read = [] then [] else [AssistantEventStart]) \<and>
    (if read = [] then True else aeType (hd (asQueue s)) = AssistantEventStart) \<and>
    deltas AssistantEventTextDelta (asQueue s) = concat (map mmContent read) \<and>
    deltas AssistantEventThinkingDelta (asQueue s) = concat (map mmReasoning read)"
proof -
  from fin have s: "asClosed s" "asSent s = asSent (drOut st)" "asQueue s = asQueue (drOut st) @ es @ [e]"
    "asResult s = final_message e" "terminal_event e" "validate_assistant_event e = None" "list_all good_event es"
    and others: "list_all (\<lambda>x. aeType x \<noteq> AssistantEventStart) es" "list_all (\<lambda>x. aeType x \<noteq> AssistantEventTextDelta) es"
      "list_all (\<lambda>x. aeType x \<noteq> AssistantEventThinkingDelta) es"
    by (auto simp: ended_with_def list_all_iff)
  have t: "aeType e \<noteq> AssistantEventStart" "aeType e \<noteq> AssistantEventTextDelta" "aeType e \<noteq> AssistantEventThinkingDelta"
    using s(5) by (auto simp: terminal_event_def)
  have good: "list_all good_event (asQueue (drOut st) @ es)" using ok s(7) by (simp add: answer_ok_def)
  then have "list_all (\<lambda>x. \<not> terminal_event x \<and> well_placed x) (asQueue (drOut st) @ es)"
    "list_all (\<lambda>x. validate_assistant_event x = None) (asQueue (drOut st) @ es)"
    by (simp_all add: list_all_iff good_event_def)
  then show ?thesis
    using ok s t no_start [OF others(1)] deltas_skip [OF others(2)] deltas_skip [OF others(3)]
      validate_terminal_final [OF s(6) s(5)]
    by (auto simp: answer_ok_def intro!: exI [of _ "asQueue (drOut st) @ es"])
qed

text \<open>
  C23. Whatever chunks a provider streams and however its answer ends, no event of it is refused: the
  stream is closed by one last event, which holds the result, a success only after the whole answer
  was read; before it the events start once, each update points at its block of the partial message,
  and the deltas are exactly the text and the thinking read.
\<close>

theorem provider_answer_ends:
  "let s = drain_message_stream env provider model ms fin new_event_stream; read = messages_read ms in
   \<exists>pre e. asQueue s = pre @ [e] \<and> terminal_event e \<and> list_all (\<lambda>x. \<not> terminal_event x \<and> well_placed x) pre \<and>
     asClosed s \<and> asResult s = final_message e \<and> asResult s \<noteq> None \<and>
     list_all (\<lambda>x. validate_assistant_event x = None) (asQueue s) \<and>
     map aeType (filter (\<lambda>x. aeType x = AssistantEventStart) (asQueue s)) = (if read = [] then [] else [AssistantEventStart]) \<and>
     (if read = [] then True else aeType (hd (asQueue s)) = AssistantEventStart) \<and>
     deltas AssistantEventTextDelta (asQueue s) = concat (map mmContent read) \<and>
     deltas AssistantEventThinkingDelta (asQueue s) = concat (map mmReasoning read) \<and>
     (aeType e = AssistantEventError \<or> fin = EndOfStream None \<and> read \<noteq> [] \<and>
       (\<exists>final. partial_assistant_message env read provider model = Inr final \<and> aeMessage e = Some final))"
proof -
  from reading_messages [OF reading_start, of provider model ms] obtain st where
    st: "drain_messages provider model ms (new_drain new_event_stream) = Inr st" "answer_ok (messages_read ms) st" by auto
  have "\<exists>es e. ended_with (drOut st) es e (drain_message_stream env provider model ms fin new_event_stream) \<and>
      (aeType e = AssistantEventError \<or> fin = EndOfStream None \<and> messages_read ms \<noteq> [] \<and>
        (\<exists>final. partial_assistant_message env (messages_read ms) provider model = Inr final \<and> aeMessage e = Some final))"
  proof (cases fin)
    case (EndOfStream ctx_err)
    with st drain_ends [OF st(2), of env provider model ctx_err] show ?thesis
      by (simp add: drain_message_stream_def)
  next
    case (EndError err cancelled)
    have "\<not> asClosed (drOut st)" using st(2) by (simp add: answer_ok_def)
    from ended_error [OF this] EndError st(1) show ?thesis by (simp add: drain_message_stream_def) blast
  qed
  then show ?thesis using ended_reading [OF st(2)] unfolding Let_def by blast
qed

subsection \<open>A request\<close>

text \<open>
  The ids no tool message has answered yet in the messages sent; \<open>None\<close> when another message comes
  while a call is open.
\<close>

fun open_wire :: "string set \<Rightarrow> model_message list \<Rightarrow> string set option" where
  "open_wire ids [] = Some ids"
| "open_wire ids (m # ms) =
     (if mmRole m = ''tool'' then open_wire (ids - {mmCallID m}) ms
      else if ids = {} then open_wire (set (map mcID (mmCalls m))) ms else None)"

lemma assistant_parts_calls:
  "assistant_parts_of p cs = Inr q \<Longrightarrow> apCalls q = apCalls p @ map to_model_tool_call (tool_calls_of_content cs)"
  by (induction p cs rule: assistant_parts_of.induct) (auto split: sum.splits elim: assistant_step.elims)

lemma map_sum_Inr: "map_sum id f x = Inr y \<longleftrightarrow> (\<exists>z. x = Inr z \<and> y = f z)"
  by (cases x) auto

lemma converted_message:
  assumes "to_model_message m = Inr c"
  shows "case m of NilMessage \<Rightarrow> False
    | UserMessage u \<Rightarrow> mmRole c = ''user'' \<and> mmCalls c = []
    | AssistantMessage a \<Rightarrow> mmRole c = ''assistant'' \<and> mmCalls c = map to_model_tool_call (tool_calls_from_assistant a)
    | ToolResultMessage r \<Rightarrow> mmRole c = ''tool'' \<and> mmCalls c = [] \<and> mmCallID c = rmToolCallID r"
proof (cases m)
  case (UserMessage u)
  with assms show ?thesis
    by (auto simp: to_model_message_def to_model_user_message_def blank_model_message_def map_sum_Inr
        split: option.splits list.splits content.splits)
next
  case (AssistantMessage a)
  with assms show ?thesis
    by (auto simp: to_model_message_def to_model_assistant_message_def tool_calls_from_assistant_def no_parts_def
        dest: assistant_parts_calls split: option.splits sum.splits)
next
  case (ToolResultMessage r)
  with assms show ?thesis
    by (auto simp: to_model_message_def to_model_tool_message_def blank_model_message_def Let_def
        split: option.splits sum.splits if_splits)
qed (use assms in \<open>simp add: to_model_message_def\<close>)


lemma empty_assistant_calls: "is_empty_assistant c \<Longrightarrow> mmCalls c = []"
  by (simp add: is_empty_assistant_def)

lemma converted_answered:
  "convert_messages ms = Inr cs \<Longrightarrow> open_calls ids ms = Some out \<Longrightarrow>
   open_wire ids cs = Some out \<and>
   concat (map mmCalls cs) = map to_model_tool_call (concat (map (\<lambda>m. case m of AssistantMessage a \<Rightarrow> tool_calls_from_assistant a | _ \<Rightarrow> []) ms))"
proof (induction ms arbitrary: ids cs)
  case (Cons m ms)
  from Cons.prems(1) obtain c ds where c: "to_model_message m = Inr c" and ds: "convert_messages ms = Inr ds"
    and cs: "cs = (if is_empty_assistant c then ds else c # ds)"
    by (auto simp: map_sum_Inr split: sum.splits)
  note conv = converted_message [OF c]
  show ?case
  proof (cases m)
    case (AssistantMessage a)
    with Cons.prems(2) have ids: "ids = {}" "open_calls (set (map ccID (tool_calls_from_assistant a))) ms = Some out"
      by (auto split: if_splits)
    have "set (map mcID (mmCalls c)) = set (map ccID (tool_calls_from_assistant a))"
      using conv AssistantMessage by (simp add: to_model_tool_call_def image_image)
    with Cons.IH [OF ds ids(2)] ids(1) conv AssistantMessage empty_assistant_calls [of c] show ?thesis
      by (auto simp: cs)
  next
    case (UserMessage u)
    with Cons.prems(2) have ids: "ids = {}" "open_calls {} ms = Some out" by (auto split: if_splits)
    from Cons.IH [OF ds ids(2)] ids(1) conv UserMessage show ?thesis by (simp add: cs is_empty_assistant_def)
  next
    case (ToolResultMessage r)
    with Cons.prems(2) have "open_calls (ids - {rmToolCallID r}) ms = Some out" by simp
    from Cons.IH [OF ds this] conv ToolResultMessage show ?thesis by (simp add: cs is_empty_assistant_def)
  qed (use conv in simp)
qed simp


text \<open>
  C21. In every request, whatever the history, each call sent is answered before the next message of
  another kind and before the end, and the calls sent are those of the transformed history in their
  order: leaving out empty answers loses none.
\<close>

theorem request_calls_answered:
  assumes "request_messages clock provider model ctx = Inr wire"
  shows "open_wire {} wire = Some {} \<and>
    concat (map mmCalls wire) = map to_model_tool_call (concat (map
      (\<lambda>m. case m of AssistantMessage a \<Rightarrow> tool_calls_from_assistant a | _ \<Rightarrow> [])
      (transform_messages clock \<lparr>toProvider = provider, toModel = model, toSupportsImages = True, toNormalize = None\<rparr>
        (lcMessages ctx))))"
proof -
  let ?ms = "transform_messages clock \<lparr>toProvider = provider, toModel = model, toSupportsImages = True, toNormalize = None\<rparr>
    (lcMessages ctx)"
  from assms obtain cs where cs: "convert_messages ?ms = Inr cs" and wire: "wire = (if lcSystemPrompt ctx \<noteq> ''''
      then [blank_model_message\<lparr>mmRole := ''system'', mmContent := lcSystemPrompt ctx\<rparr>] else []) @ cs"
    by (auto simp: request_messages_def messages_from_context_def map_sum_Inr)
  have "open_calls {} ?ms = Some {}"
    using complete_history_answered unfolding transform_messages_def all_answered_def .
  from converted_answered [OF cs this] show ?thesis by (simp add: wire blank_model_message_def)
qed

definition open_call_context :: llm_context where
  "open_call_context = \<lparr>lcSystemPrompt = ''be brief'',
     lcMessages = [sample_user, AssistantMessage (sample_tool_call ''q'' ''n''), sample_user], lcTools = []\<rparr>"

theorem request_calls_answered_witness:
  "\<exists>wire. request_messages (\<lambda>n. 0) ''q'' ''n'' open_call_context = Inr wire \<and> open_wire {} wire = Some {}"
proof -
  have "(case request_messages (\<lambda>n. 0) ''q'' ''n'' open_call_context of Inl e \<Rightarrow> False | Inr w \<Rightarrow> True)"
    by code_simp
  then obtain wire where w: "request_messages (\<lambda>n. 0) ''q'' ''n'' open_call_context = Inr wire"
    by (auto split: sum.splits)
  show ?thesis by (rule exI [of _ wire], rule conjI, rule w, rule conjunct1 [OF request_calls_answered [OF w]])
qed

subsection \<open>Sending and reading back\<close>

fun thinkings :: "content_list \<Rightarrow> string list" where
  "thinkings [] = []"
| "thinkings (ThinkingContent t # cs) = thThinking t # thinkings cs"
| "thinkings (_ # cs) = thinkings cs"

definition first_filled :: "string list \<Rightarrow> string" where
  "first_filled ss = (case filter (\<lambda>s. s \<noteq> '''') ss of [] \<Rightarrow> '''' | s # _ \<Rightarrow> s)"

lemma first_filled_simps [simp]:
  "first_filled [] = []" "first_filled (s # ss) = (if s = [] then first_filled ss else s)"
  by (simp_all add: first_filled_def)

lemma first_filled_empty [simp]: "first_filled ([] # ss) = first_filled ss"
  by simp







definition call_parts :: "tool_call_content \<Rightarrow> string \<times> string \<times> bytes" where
  "call_parts c = (ccID c, ccName c, ccArguments c)"

lemma call_parts_call [simp]:
  "call_parts \<lparr>ccType = t, ccID = ccID c, ccName = ccName c, ccArguments = ccArguments c, ccThoughtSignature = s\<rparr> = call_parts c"
  by (simp add: call_parts_def)


lemma content_append [simp]:
  "text_from_content (xs @ ys) = text_from_content xs @ text_from_content ys"
  "thinkings (xs @ ys) = thinkings xs @ thinkings ys"
  "tool_calls_of_content (xs @ ys) = tool_calls_of_content xs @ tool_calls_of_content ys"
proof -
  show "text_from_content (xs @ ys) = text_from_content xs @ text_from_content ys"
    by (induction xs rule: text_from_content.induct) auto
  show "thinkings (xs @ ys) = thinkings xs @ thinkings ys" by (induction xs rule: thinkings.induct) auto
  show "tool_calls_of_content (xs @ ys) = tool_calls_of_content xs @ tool_calls_of_content ys"
    by (induction xs rule: tool_calls_of_content.induct) auto
qed




end
