(* ===== verification/RateLimits.thy ===== *)
theory RateLimits
  imports Prelude "HOL-Library.Word"
begin

text \<open>
  Who may try how often: the failed logins of \<open>internal/api/ratelimit.go\<close> and the token buckets per
  client of \<open>internal/httprate/limiter.go\<close>. A bucket is the one of \<open>golang.org/x/time/rate\<close>, so
  making one and taking from it are parameters; the parsing of addresses and networks of
  \<open>net/netip\<close> is an argument as well. A map is a function to options; deleting while ranging over it
  has the same outcome in every order.
\<close>

text \<open>\<open>time.Time.Sub\<close> is cut off at the largest and the smallest duration.\<close>

definition time_sub :: "time \<Rightarrow> time \<Rightarrow> int" where
  "time_sub a b = max (- (2 ^ 63)) (min (2 ^ 63 - 1) (a - b))"

definition minutes :: "int \<Rightarrow> int" where
  "minutes n = n * 60000000000"

subsection \<open>Failed logins\<close>

record login_entry =
  lgFailures :: int
  lgBlockedAt :: time
  lgLastFail :: time

text \<open>The attempts are \<open>None\<close> once the limiter is closed, when its map is nil.\<close>

type_synonym login_limiter = "(string \<rightharpoonup> login_entry) option"

definition new_login_limiter :: login_limiter where
  "new_login_limiter = Some Map.empty"

definition attempts_of :: "login_limiter \<Rightarrow> string \<rightharpoonup> login_entry" where
  "attempts_of l = (case l of None \<Rightarrow> Map.empty | Some m \<Rightarrow> m)"

definition stale_login :: "time \<Rightarrow> login_entry \<Rightarrow> bool" where
  "stale_login now e \<longleftrightarrow>
     (if lgBlockedAt e \<noteq> zero_time \<and> time_sub now (lgBlockedAt e) \<ge> minutes 15 then True
      else lgBlockedAt e = zero_time \<and> time_sub now (lgLastFail e) > minutes 1)"

definition prune_logins :: "time \<Rightarrow> login_limiter \<Rightarrow> login_limiter" where
  "prune_logins now l =
     map_option (\<lambda>m k. case m k of None \<Rightarrow> None | Some e \<Rightarrow> if stale_login now e then None else Some e) l"

definition login_allow :: "string \<Rightarrow> time \<Rightarrow> login_limiter \<Rightarrow> bool \<times> login_limiter" where
  "login_allow key now l =
     (let l1 = prune_logins now l in
      case attempts_of l1 key of
        None \<Rightarrow> (True, l1)
      | Some e \<Rightarrow> (if lgBlockedAt e = zero_time then True else time_sub now (lgBlockedAt e) \<ge> minutes 15, l1))"

definition fresh_login_entry :: login_entry where
  "fresh_login_entry = \<lparr>lgFailures = 0, lgBlockedAt = zero_time, lgLastFail = zero_time\<rparr>"

definition count_failure :: "time \<Rightarrow> login_entry \<Rightarrow> login_entry" where
  "count_failure now e =
     (let e1 = e\<lparr>lgFailures := lgFailures e + 1, lgLastFail := now\<rparr> in
      if lgFailures e1 \<ge> 5 then e1\<lparr>lgBlockedAt := now\<rparr> else e1)"

text \<open>\<open>None\<close> is the panic of a write to the nil map of a closed limiter.\<close>

definition login_fail :: "string \<Rightarrow> time \<Rightarrow> login_limiter \<Rightarrow> login_limiter option" where
  "login_fail key now l =
     (let l1 = prune_logins now l;
          e = (case attempts_of l1 key of
                 Some e \<Rightarrow> if time_sub now (lgLastFail e) > minutes 1 then fresh_login_entry else e
               | None \<Rightarrow> fresh_login_entry) in
      case l1 of None \<Rightarrow> None | Some m \<Rightarrow> Some (Some (m(key \<mapsto> count_failure now e))))"

definition login_success :: "string \<Rightarrow> login_limiter \<Rightarrow> login_limiter" where
  "login_success key l = map_option (\<lambda>m. m(key := None)) l"

definition login_close :: "login_limiter \<Rightarrow> login_limiter" where
  "login_close l = None"

definition login_limit_key :: "string \<Rightarrow> string \<Rightarrow> string" where
  "login_limit_key client username = client @ '':'' @ username"

subsection \<open>Token buckets\<close>

record policy =
  poKey :: string
  poRate :: "64 word"
  poBurst :: int

text \<open>Whether a \<open>float64\<close> of these bits is at most zero.\<close>

definition rate_not_positive :: "64 word \<Rightarrow> bool" where
  "rate_not_positive w \<longleftrightarrow> w = 0 \<or> 2 ^ 63 \<le> unat w \<and> unat w \<le> 2 ^ 63 + 2047 * 2 ^ 52"

record 'b bucket_package =
  bpNew :: "64 word \<Rightarrow> int \<Rightarrow> 'b"
  bpAllow :: "time \<Rightarrow> 'b \<Rightarrow> bool \<times> 'b"

record 'b visitor =
  viBucket :: 'b
  viLastSeen :: time

record 'b limiter =
  liVisitors :: "string \<times> string \<rightharpoonup> 'b visitor"
  liEntryTTL :: int
  liClosed :: bool

definition default_entry_ttl :: int where
  "default_entry_ttl = minutes 5"

definition new_limiter :: "int \<Rightarrow> 'b limiter" where
  "new_limiter ttl = \<lparr>liVisitors = Map.empty, liEntryTTL = (if ttl \<le> 0 then default_entry_ttl else ttl), liClosed = False\<rparr>"

definition allow_client :: "'b bucket_package \<Rightarrow> string \<Rightarrow> policy \<Rightarrow> time \<Rightarrow> 'b limiter \<Rightarrow> bool \<times> 'b limiter" where
  "allow_client pkg client p now l =
     (if poKey p = '''' \<or> poBurst p \<le> 0 \<or> rate_not_positive (poRate p) then (False, l)
      else if liClosed l then (False, l)
      else (let key = (poKey p, client);
                v = (case liVisitors l key of
                       Some v \<Rightarrow> v | None \<Rightarrow> \<lparr>viBucket = bpNew pkg (poRate p) (poBurst p), viLastSeen = now\<rparr>) in
            case bpAllow pkg now (viBucket v) of
              (ok, b) \<Rightarrow> (ok, l\<lparr>liVisitors := (liVisitors l)(key \<mapsto> \<lparr>viBucket = b, viLastSeen = now\<rparr>)\<rparr>)))"

definition prune_visitors :: "time \<Rightarrow> 'b limiter \<Rightarrow> 'b limiter" where
  "prune_visitors now l =
     l\<lparr>liVisitors := (\<lambda>k. case liVisitors l k of
        None \<Rightarrow> None | Some v \<Rightarrow> if time_sub now (viLastSeen v) \<ge> liEntryTTL l then None else Some v)\<rparr>"

text \<open>\<open>Close\<close> returns when the cleanup worker has; the map is dropped after that.\<close>

definition close_limiter :: "'b limiter \<Rightarrow> 'b limiter" where
  "close_limiter l = (if liClosed l then l else l\<lparr>liClosed := True, liVisitors := Map.empty\<rparr>)"

subsection \<open>The client's address\<close>

text \<open>What the code uses of \<open>net\<close> and \<open>net/netip\<close>.\<close>

record 'a address_package =
  apHost :: "string \<Rightarrow> string option"
  apParse :: "string \<Rightarrow> 'a option"
  apUnmap :: "'a \<Rightarrow> 'a"
  apTrusted :: "'a \<Rightarrow> bool"
  apString :: "'a \<Rightarrow> string"

definition request_remote_addr :: "'a address_package \<Rightarrow> string \<Rightarrow> 'a option" where
  "request_remote_addr ap remote =
     apParse ap (trim_space (case apHost ap remote of Some h \<Rightarrow> h | None \<Rightarrow> remote))"

text \<open>The walk through the forwarded addresses, given from the last to the first.\<close>

fun walk_forwarded :: "'a address_package \<Rightarrow> 'a \<Rightarrow> 'a \<Rightarrow> string list \<Rightarrow> string" where
  "walk_forwarded ap remote client [] = apString ap client"
| "walk_forwarded ap remote client (f # fs) =
     (if \<not> apTrusted ap client then apString ap client
      else (case apParse ap (trim_space f) of
          None \<Rightarrow> apString ap remote
        | Some a \<Rightarrow> walk_forwarded ap remote (apUnmap ap a) fs))"

definition client_ip :: "'a address_package \<Rightarrow> string \<Rightarrow> string \<Rightarrow> string" where
  "client_ip ap remote_addr forwarded =
     (case request_remote_addr ap remote_addr of
        None \<Rightarrow> remote_addr
      | Some r \<Rightarrow>
          (let remote = apUnmap ap r in
           if \<not> apTrusted ap remote then apString ap remote
           else walk_forwarded ap remote remote (rev (split_on (CHR '','') forwarded))))"

end
