(* ===== verification/RateProperties.thy ===== *)
theory RateProperties
  imports RateLimits
begin

text \<open>
  What the limiters promise: the login limiter decides from the failures of the key alone, whatever
  it forgot in between, and a client's address is the last one a trusted proxy vouches for.
\<close>

subsection \<open>A history of logins\<close>

datatype login_kind = LoginAllow | LoginFail | LoginSuccess

record login_op =
  loKey :: string
  loTime :: time
  loKind :: login_kind

definition login_step :: "login_op \<Rightarrow> login_limiter \<Rightarrow> login_limiter option" where
  "login_step op l =
     (case loKind op of
        LoginAllow \<Rightarrow> Some (snd (login_allow (loKey op) (loTime op) l))
      | LoginFail \<Rightarrow> login_fail (loKey op) (loTime op) l
      | LoginSuccess \<Rightarrow> Some (login_success (loKey op) l))"

fun login_run :: "login_op list \<Rightarrow> login_limiter \<Rightarrow> login_limiter option" where
  "login_run [] l = Some l"
| "login_run (op # ops) l = (case login_step op l of None \<Rightarrow> None | Some l' \<Rightarrow> login_run ops l')"

lemma login_run_append:
  "login_run (xs @ ys) l = (case login_run xs l of None \<Rightarrow> None | Some l' \<Rightarrow> login_run ys l')"
  by (induction xs arbitrary: l) (auto split: option.split)

text \<open>The outcomes of a key, the latest first, and how many failures in a row they end with.\<close>

definition key_history :: "string \<Rightarrow> login_op list \<Rightarrow> (time \<times> bool) list" where
  "key_history key ops =
     map (\<lambda>op. (loTime op, loKind op = LoginFail)) (filter (\<lambda>op. loKey op = key \<and> loKind op \<noteq> LoginAllow) (rev ops))"

fun streak :: "(time \<times> bool) list \<Rightarrow> int" where
  "streak [] = 0"
| "streak ((t, False) # h) = 0"
| "streak ((t, True) # h) =
     (case h of (t', True) # _ \<Rightarrow> if t - t' \<le> minutes 1 then streak h + 1 else 1 | _ \<Rightarrow> 1)"

definition login_blocked :: "time \<Rightarrow> (time \<times> bool) list \<Rightarrow> bool" where
  "login_blocked now h \<longleftrightarrow>
     (case h of [] \<Rightarrow> False | (t, failed) # _ \<Rightarrow> failed \<and> streak h \<ge> 5 \<and> now - t < minutes 15)"

subsection \<open>What the limiter keeps\<close>

lemma time_sub_compare [simp]:
  "time_sub a b \<ge> minutes 15 \<longleftrightarrow> a - b \<ge> minutes 15" "time_sub a b > minutes 1 \<longleftrightarrow> a - b > minutes 1"
  by (auto simp: time_sub_def minutes_def)

lemmas time_sub_numbers = time_sub_compare [unfolded minutes_def, simplified]

definition entry_of :: "(time \<times> bool) list \<Rightarrow> login_entry option" where
  "entry_of h =
     (case h of
        (t, True) # _ \<Rightarrow> Some \<lparr>lgFailures = streak h, lgBlockedAt = (if streak h \<ge> 5 then t else zero_time), lgLastFail = t\<rparr>
      | _ \<Rightarrow> None)"

text \<open>The entry of a key is the one its history gives, or was forgotten when it no longer mattered.\<close>

definition entry_kept :: "time \<Rightarrow> login_entry option \<Rightarrow> login_entry option \<Rightarrow> bool" where
  "entry_kept now wanted kept \<longleftrightarrow>
     (case wanted of None \<Rightarrow> kept = None | Some e \<Rightarrow> kept = Some e \<or> kept = None \<and> stale_login now e)"

lemma stale_later: "stale_login t e \<Longrightarrow> t \<le> t' \<Longrightarrow> stale_login t' e"
  by (auto simp: stale_login_def split: if_splits)

lemma entry_kept_same: "entry_kept t e e"
  by (simp add: entry_kept_def split: option.split)

lemma entry_kept_later: "entry_kept t w k \<Longrightarrow> t \<le> t' \<Longrightarrow> entry_kept t' w k"
  by (auto simp: entry_kept_def stale_later split: option.splits)

lemma prune_kept:
  "entry_kept now w (m key) \<Longrightarrow> \<exists>m'. prune_logins now (Some m) = Some m' \<and> entry_kept now w (m' key)"
  by (auto simp: prune_logins_def entry_kept_def split: option.splits)

lemma blocked_entry:
  assumes "\<forall>x \<in> set h. 0 < fst x"
  shows "login_blocked now h \<longleftrightarrow> (\<exists>e. entry_of h = Some e \<and> lgBlockedAt e \<noteq> zero_time \<and> now - lgBlockedAt e < minutes 15)"
  using assms by (cases h rule: streak.cases)
    (auto simp: login_blocked_def entry_of_def zero_time_def simp del: streak.simps(3))

lemma kept_allow:
  assumes "entry_kept now (entry_of h) (m key)" "\<forall>x \<in> set h. 0 < fst x"
  shows "fst (login_allow key now (Some m)) = (\<not> login_blocked now h)"
proof -
  from prune_kept [where m = m and key = key, OF assms(1)] obtain m' where m': "prune_logins now (Some m) = Some m'" "entry_kept now (entry_of h) (m' key)"
    by blast
  show ?thesis
  proof (cases "m' key")
    case None
    with m' show ?thesis
      by (auto simp: login_allow_def attempts_of_def Let_def blocked_entry [OF assms(2)] entry_kept_def stale_login_def
          split: option.splits if_splits)
  next
    case (Some e)
    with m' have "entry_of h = Some e" by (auto simp: entry_kept_def split: option.splits)
    with m' Some show ?thesis
      by (auto simp: login_allow_def attempts_of_def Let_def blocked_entry [OF assms(2)])
  qed
qed

lemma streak_pos: "0 \<le> streak h"
  by (induction h rule: streak.induct) (auto split: list.splits prod.splits bool.splits)

lemma kept_fail:
  assumes "entry_kept now (entry_of h) (m key)" "\<forall>x \<in> set h. 0 < fst x"
  shows "\<exists>m'. login_fail key now (Some m) = Some (Some m') \<and> m' key = entry_of ((now, True) # h)"
proof -
  from prune_kept [where m = m and key = key, OF assms(1)] obtain m' where m': "prune_logins now (Some m) = Some m'" "entry_kept now (entry_of h) (m' key)"
    by blast
  define e where "e = (case m' key of
    Some e \<Rightarrow> if now - lgLastFail e > minutes 1 then fresh_login_entry else e | None \<Rightarrow> fresh_login_entry)"
  have "login_fail key now (Some m) = Some (Some (m'(key \<mapsto> count_failure now e)))"
    by (simp add: login_fail_def m'(1) attempts_of_def e_def cong: option.case_cong)
  moreover have "Some (count_failure now e) = entry_of ((now, True) # h)"
    using m'(2) by (cases h rule: streak.cases)
      (auto simp: e_def entry_of_def entry_kept_def count_failure_def fresh_login_entry_def stale_login_def Let_def
        zero_time_def minutes_def time_sub_numbers split: option.splits if_splits)
  ultimately show ?thesis by auto
qed


lemma kept_prune: "entry_kept now w (m key) \<Longrightarrow> entry_kept now w (attempts_of (prune_logins now (Some m)) key)"
  using prune_kept [where m = m and key = key, of now w] by (auto simp: attempts_of_def)

lemma key_history_snoc:
  "key_history key (ops @ [op]) = (if loKey op = key \<and> loKind op \<noteq> LoginAllow
     then (loTime op, loKind op = LoginFail) # key_history key ops else key_history key ops)"
  by (simp add: key_history_def)

lemma history_positive: "\<forall>op \<in> set ops. 0 < loTime op \<Longrightarrow> \<forall>x \<in> set (key_history key ops). 0 < fst x"
  by (auto simp: key_history_def)

lemma step_kept:
  assumes kept: "\<And>key. entry_kept t (entry_of (key_history key ops)) (m key)" and t: "t \<le> loTime op"
    and pos: "\<forall>x \<in> set ops. 0 < loTime x"
  shows "\<exists>m'. login_step op (Some m) = Some (Some m') \<and>
    (\<forall>key. entry_kept (loTime op) (entry_of (key_history key (ops @ [op]))) (m' key))"
proof -
  let ?now = "loTime op"
  have now: "entry_kept ?now (entry_of (key_history key ops)) (m key)" for key
    by (rule entry_kept_later [OF kept t])
  have pruned: "entry_kept ?now (entry_of (key_history key ops)) (attempts_of (prune_logins ?now (Some m)) key)" for key
    by (rule kept_prune [OF now])
  have some: "prune_logins ?now (Some m) = Some (attempts_of (prune_logins ?now (Some m)))"
    by (simp add: prune_logins_def attempts_of_def)
  show ?thesis
  proof (cases "loKind op")
    case LoginAllow
    then have "login_step op (Some m) = Some (prune_logins ?now (Some m))"
      by (simp add: login_step_def login_allow_def Let_def split: option.split)
    with some pruned LoginAllow show ?thesis by (auto simp: key_history_snoc)
  next
    case LoginSuccess
    then have "login_step op (Some m) = Some (Some (m(loKey op := None)))"
      by (simp add: login_step_def login_success_def)
    moreover have "entry_kept ?now (entry_of (key_history key (ops @ [op]))) ((m(loKey op := None)) key)" for key
      using now [of key] LoginSuccess
      by (cases "key = loKey op") (simp_all add: key_history_snoc entry_of_def [of "(_, False) # _"] entry_kept_def [of _ None])
    ultimately show ?thesis by blast
  next
    case LoginFail
    from kept_fail [where m = m and key = "loKey op", OF now history_positive [OF pos]] obtain m' where
      m': "login_fail (loKey op) ?now (Some m) = Some (Some m')"
        "m' (loKey op) = entry_of ((?now, True) # key_history (loKey op) ops)" by blast
    have "m' key = attempts_of (prune_logins ?now (Some m)) key" if "key \<noteq> loKey op" for key
      using m'(1) that by (subst (asm) login_fail_def) (auto simp: Let_def attempts_of_def prune_logins_def)
    then have "entry_kept ?now (entry_of (key_history key (ops @ [op]))) (m' key)" for key
      using pruned [of key] m'(2) LoginFail
      by (cases "key = loKey op") (simp_all add: key_history_snoc entry_kept_same)
    moreover have "login_step op (Some m) = Some (Some m')" using m'(1) LoginFail by (simp add: login_step_def)
    ultimately show ?thesis by blast
  qed
qed

lemma run_kept:
  "sorted (map loTime ops) \<Longrightarrow> \<forall>op \<in> set ops. 0 < loTime op \<Longrightarrow>
   \<exists>m. login_run ops new_login_limiter = Some (Some m) \<and>
     (\<forall>t key. (\<forall>op \<in> set ops. loTime op \<le> t) \<longrightarrow> entry_kept t (entry_of (key_history key ops)) (m key))"
proof (induction ops rule: rev_induct)
  case Nil
  show ?case by (auto simp: new_login_limiter_def key_history_def entry_of_def entry_kept_def)
next
  case (snoc op ops)
  then have "sorted (map loTime ops)" "\<forall>x \<in> set ops. loTime x \<le> loTime op" and pos: "\<forall>x \<in> set ops. 0 < loTime x"
    by (auto simp: sorted_append)
  with snoc.IH obtain m where m: "login_run ops new_login_limiter = Some (Some m)"
    "\<And>key. entry_kept (loTime op) (entry_of (key_history key ops)) (m key)" by auto
  from step_kept [OF m(2) order_refl pos] obtain m' where m': "login_step op (Some m) = Some (Some m')"
    "\<And>key. entry_kept (loTime op) (entry_of (key_history key (ops @ [op]))) (m' key)" by blast
  then show ?case by (auto simp: login_run_append m(1) intro: entry_kept_later)
qed

subsection \<open>Logins\<close>

text \<open>
  C26. With a clock that does not go back, a login is refused exactly when the key's latest outcomes are
  five failures or more, each at most a minute after the one before, and the last of them is less
  than fifteen minutes old: other keys, and what the limiter forgets, make no difference, and an
  open limiter never fails.
\<close>

theorem login_limit_exact:
  assumes "sorted (map loTime ops @ [now])" "\<forall>op \<in> set ops. 0 < loTime op"
  shows "\<exists>m. login_run ops new_login_limiter = Some (Some m) \<and>
    fst (login_allow key now (Some m)) = (\<not> login_blocked now (key_history key ops))"
proof -
  from assms(1) have s: "sorted (map loTime ops)" "\<forall>op \<in> set ops. loTime op \<le> now" by (auto simp: sorted_append)
  from run_kept [OF s(1) assms(2)] s(2) obtain m where m: "login_run ops new_login_limiter = Some (Some m)"
    "entry_kept now (entry_of (key_history key ops)) (m key)" by auto
  from m(1) kept_allow [where m = m and key = key, OF m(2) history_positive [OF assms(2)]] show ?thesis by auto
qed

definition five_failures :: "login_op list" where
  "five_failures = map (\<lambda>n. \<lparr>loKey = ''a'', loTime = n * 1000, loKind = LoginFail\<rparr>) [1, 2, 3, 4, 5]"

theorem login_limit_exact_witness:
  "\<exists>m. login_run five_failures new_login_limiter = Some (Some m) \<and> \<not> fst (login_allow ''a'' 6000 (Some m)) \<and>
     login_blocked 6000 (key_history ''a'' five_failures)"
proof -
  have ops: "sorted (map loTime five_failures @ [6000])" "\<forall>op \<in> set five_failures. 0 < loTime op"
    by (simp_all add: five_failures_def)
  have blocked: "login_blocked 6000 (key_history ''a'' five_failures)"
    by (simp add: five_failures_def key_history_def login_blocked_def minutes_def)
  from login_limit_exact [OF ops, of "''a''"] blocked show ?thesis by blast
qed

text \<open>
  A failure that arrives more than a minute after the last one, from an attempt let in before the
  block, lifts the block at once.
\<close>

lemma late_failure_unblocks:
  assumes "t' - t > minutes 1"
  shows "\<not> login_blocked t' ((t', True) # (t, True) # h)"
  using assms by (simp add: login_blocked_def)

text \<open>Two clients share a key when the address of one is a prefix of the other's.\<close>

lemma login_keys_collide:
  "login_limit_key ''2001:db8::1'' ''2:admin'' = login_limit_key ''2001:db8::1:2'' ''admin''"
  by (simp add: login_limit_key_def)

subsection \<open>Addresses\<close>

lemma walk_stops:
  "\<forall>f \<in> set xs. \<exists>a. apParse ap (trim_space f) = Some a \<and> apTrusted ap (apUnmap ap a) \<Longrightarrow>
   apTrusted ap client \<Longrightarrow> apParse ap (trim_space y) = Some b \<Longrightarrow> \<not> apTrusted ap (apUnmap ap b) \<Longrightarrow>
   walk_forwarded ap remote client (xs @ y # ys) = apString ap (apUnmap ap b)"
  by (induction xs arbitrary: client) (cases ys, auto)

lemma untrusted_remote_kept:
  assumes "request_remote_addr ap r = Some a" "\<not> apTrusted ap (apUnmap ap a)"
  shows "client_ip ap r f = apString ap (apUnmap ap a)"
  using assms by (simp add: client_ip_def)

text \<open>A closed limiter admits nobody, and a bucket is only forgotten after its time.\<close>

lemma closed_limiter_refuses: "allow_client pkg client p now (close_limiter l) = (False, close_limiter l)"
  by (simp add: allow_client_def close_limiter_def)

lemma pruned_visitor_old:
  "liVisitors l k = Some v \<Longrightarrow> liVisitors (prune_visitors now l) k = None \<longleftrightarrow> time_sub now (viLastSeen v) \<ge> liEntryTTL l"
  by (simp add: prune_visitors_def)

end
