(* ===== verification/WorkspacePaths.thy ===== *)
theory WorkspacePaths
  imports Prelude
begin

text \<open>
  The paths of the workspace tools, \<open>internal/agent/runtime/tools/workspace/path.go\<close>, with what they
  use of \<open>path/filepath\<close> on Unix. A clean absolute path is the list of its elements. The file system
  is what \<open>Lstat\<close> answers for such a list; it does not change during a call.
\<close>

subsection \<open>Paths\<close>

definition path_elements :: "string \<Rightarrow> string list" where
  "path_elements s = filter (\<lambda>e. e \<noteq> '''') (split_on (CHR ''/'') s)"

definition is_abs :: "string \<Rightarrow> bool" where
  "is_abs s = (case s of [] \<Rightarrow> False | c # _ \<Rightarrow> c = CHR ''/'')"

text \<open>\<open>Clean\<close> of an absolute path: the elements after \<open>done\<close>, which is clean.\<close>

fun clean_from :: "string list \<Rightarrow> string list \<Rightarrow> string list" where
  "clean_from done [] = done"
| "clean_from done (e # es) =
     (if e = ''.'' then clean_from done es
      else if e = ''..'' then clean_from (butlast done) es
      else clean_from (done @ [e]) es)"

definition clean_absolute :: "string \<Rightarrow> string list" where
  "clean_absolute s = clean_from [] (path_elements s)"

text \<open>\<open>Join\<close> below a clean absolute path.\<close>

definition join_below :: "string list \<Rightarrow> string \<Rightarrow> string list" where
  "join_below base s = clean_from base (path_elements s)"

fun common_prefix :: "string list \<Rightarrow> string list \<Rightarrow> nat" where
  "common_prefix (x # xs) (y # ys) = (if x = y then Suc (common_prefix xs ys) else 0)"
| "common_prefix _ _ = 0"

text \<open>\<open>Rel\<close> of two clean absolute paths; no element stands for the path itself.\<close>

definition relative_elements :: "string list \<Rightarrow> string list \<Rightarrow> string list" where
  "relative_elements base target =
     (let k = common_prefix base target in replicate (length base - k) ''..'' @ drop k target)"

definition relative_path :: "string list \<Rightarrow> string list \<Rightarrow> string" where
  "relative_path base target =
     (case relative_elements base target of [] \<Rightarrow> ''.'' | es \<Rightarrow> join ''/'' es)"

subsection \<open>Symbolic links\<close>

datatype file_stat = StatMissing | StatFails string | StatDir | StatFile | StatLink string

type_synonym file_system = "string list \<Rightarrow> file_stat"

datatype path_error = PathMissing | PathFails string | PathNotDir | PathTooManyLinks | PathEscapes string

text \<open>A target that ends with a slash asks for a directory, as a last element \<open>.\<close> does.\<close>

definition link_elements :: "string \<Rightarrow> string list" where
  "link_elements t = path_elements t @ (if t \<noteq> '''' \<and> last t = CHR ''/'' then [''.''] else [])"

text \<open>
  \<open>EvalSymlinks\<close>: the elements still to walk after \<open>done\<close>, which was found to be free of links, and
  the links that may still be followed. Go follows at most 255.
\<close>

function walk_links :: "file_system \<Rightarrow> nat \<Rightarrow> string list \<Rightarrow> string list \<Rightarrow> path_error + string list" where
  "walk_links fs links done [] = Inr done"
| "walk_links fs links done (e # es) =
     (if e = ''.'' then walk_links fs links done es
      else if e = ''..'' then walk_links fs links (butlast done) es
      else (case fs (done @ [e]) of
          StatMissing \<Rightarrow> Inl PathMissing
        | StatFails err \<Rightarrow> Inl (PathFails err)
        | StatDir \<Rightarrow> walk_links fs links (done @ [e]) es
        | StatFile \<Rightarrow> if es \<noteq> [] then Inl PathNotDir else Inr (done @ [e])
        | StatLink t \<Rightarrow>
            (case links of
               0 \<Rightarrow> Inl PathTooManyLinks
             | Suc n \<Rightarrow> walk_links fs n (if is_abs t then [] else done) (link_elements t @ es))))"
  by pat_completeness auto
termination
  by (relation "measures [\<lambda>(fs, links, done, es). links, \<lambda>(fs, links, done, es). length es]") auto

definition eval_symlinks :: "file_system \<Rightarrow> string list \<Rightarrow> path_error + string list" where
  "eval_symlinks fs p = walk_links fs 255 [] p"

subsection \<open>Inside the workspace\<close>

record resolved_path =
  rvAbs :: "string list"
  rvRel :: string

text \<open>
  The search for the nearest parent that exists, from the longest: \<open>n\<close> elements of the path are the
  parent looked at, and at the root itself the first error is returned.
\<close>

fun resolve_parent :: "file_system \<Rightarrow> string list \<Rightarrow> nat \<Rightarrow> path_error + string list" where
  "resolve_parent fs p n =
     (case eval_symlinks fs (take n p) of
        Inr parent \<Rightarrow> Inr (parent @ drop n p)
      | Inl err \<Rightarrow>
          if err \<noteq> PathMissing then Inl err
          else (case n of 0 \<Rightarrow> Inl PathMissing | Suc m \<Rightarrow> resolve_parent fs p m))"

definition resolve_canonical :: "file_system \<Rightarrow> string list \<Rightarrow> path_error + string list" where
  "resolve_canonical fs p =
     (case eval_symlinks fs p of
        Inr c \<Rightarrow> Inr c
      | Inl err \<Rightarrow> if err \<noteq> PathMissing then Inl err else resolve_parent fs p (length p - 1))"

definition escapes :: "string list \<Rightarrow> bool" where
  "escapes rel \<longleftrightarrow> (case rel of e # _ \<Rightarrow> e = ''..'' | [] \<Rightarrow> False)"

definition resolve_inside :: "file_system \<Rightarrow> string list \<Rightarrow> string \<Rightarrow> path_error + resolved_path" where
  "resolve_inside fs root input0 =
     (let input = (if input0 = '''' then ''.'' else input0);
          abs = (if is_abs input then clean_absolute input else join_below root input) in
      case resolve_canonical fs abs of
        Inl err \<Rightarrow> Inl err
      | Inr canonical \<Rightarrow>
          (let rel = relative_elements root canonical in
           if escapes rel then Inl (PathEscapes input)
           else Inr \<lparr>rvAbs = canonical, rvRel = join ''/'' rel\<rparr>))"

definition ensure_inside_existing :: "file_system \<Rightarrow> string list \<Rightarrow> string list \<Rightarrow> path_error option" where
  "ensure_inside_existing fs root path =
     (case eval_symlinks fs path of
        Inl err \<Rightarrow> Some err
      | Inr canonical \<Rightarrow>
          if escapes (relative_elements root canonical) then Some (PathEscapes (''/'' @ join ''/'' path)) else None)"

definition relative_or_dot :: "resolved_path \<Rightarrow> string" where
  "relative_or_dot p = (if rvRel p = '''' then ''.'' else rvRel p)"

end
