(* ===== verification/WorkspaceFiles.thy ===== *)
theory WorkspaceFiles
  imports WorkspacePaths Truncate
begin

text \<open>
  The contents the workspace tools read and write, \<open>read.go\<close>, \<open>edit.go\<close> and \<open>options.go\<close> of
  \<open>internal/agent/runtime/tools/workspace\<close>: the window of lines read, with its truncation, and the
  text an edit makes. A file is the bytes read from it; the calls that open, read and write it, and
  their errors, are left out.
\<close>

definition first_positive :: "int \<Rightarrow> int \<Rightarrow> int" where
  "first_positive v fallback = (if v > 0 then v else fallback)"

definition default_max_lines :: int where "default_max_lines = 2000"
definition default_max_bytes :: int where "default_max_bytes = 50 * 1024"

text \<open>The sum of two Go \<open>int\<close>s.\<close>

definition add_int :: "int \<Rightarrow> int \<Rightarrow> int" where
  "add_int a b = (a + b + 2 ^ 63) mod 2 ^ 64 - 2 ^ 63"

subsection \<open>Reading lines\<close>

text \<open>\<open>ReadString\<close>: a line with its newline, and what follows; without it at the end of the file.\<close>

definition read_line :: "string \<Rightarrow> string \<times> string option" where
  "read_line s =
     (case dropWhile (\<lambda>c. c \<noteq> newline) s of
        [] \<Rightarrow> (s, None) | c # r \<Rightarrow> (takeWhile (\<lambda>c. c \<noteq> newline) s @ [newline], Some r))"

lemma read_line_shorter: "read_line s = (l, Some r) \<Longrightarrow> length r < length s"
  using length_dropWhile_le [of "\<lambda>c. c \<noteq> newline" s] by (auto simp: read_line_def split: list.splits)

definition trim_suffix :: "char \<Rightarrow> string \<Rightarrow> string" where
  "trim_suffix c s = (if s \<noteq> '''' \<and> last s = c then butlast s else s)"

text \<open>\<open>strings.ToValidUTF8\<close> with U+FFFD for each run of bytes that are no encoding.\<close>

function valid_utf8_from :: "bool \<Rightarrow> string \<Rightarrow> string" where
  "valid_utf8_from in_run s =
     (if s = [] then []
      else if encoding_length s = 0
      then (if in_run then [] else rune_error) @ valid_utf8_from True (tl s)
      else take (encoding_length s) s @ valid_utf8_from False (drop (encoding_length s) s))"
  by pat_completeness auto
termination
  by (relation "measure (\<lambda>(r, s). length s)") (auto simp: diff_less)

declare valid_utf8_from.simps [simp del]

definition clean_line :: "string \<Rightarrow> string" where
  "clean_line l = valid_utf8_from False (trim_suffix carriage (trim_suffix newline l))"

record head_collector =
  hcLines :: "string list"
  hcTotalLines :: int
  hcTotalBytes :: int
  hcOutputBytes :: int
  hcByteLimit :: bool

definition new_collector :: head_collector where
  "new_collector = \<lparr>hcLines = [], hcTotalLines = 0, hcTotalBytes = 0, hcOutputBytes = 0, hcByteLimit = False\<rparr>"

definition collector_add :: "int \<Rightarrow> int \<Rightarrow> string \<Rightarrow> head_collector \<Rightarrow> head_collector" where
  "collector_add max_lines max_bytes line c =
     (let n = int (length line);
          c1 = c\<lparr>hcTotalLines := hcTotalLines c + 1,
            hcTotalBytes := (if hcTotalLines c > 0 then hcTotalBytes c + 1 else hcTotalBytes c) + n\<rparr> in
      if int (length (hcLines c1)) \<ge> max_lines \<or> hcByteLimit c1 then c1
      else (let m = (if hcLines c1 \<noteq> [] then n + 1 else n) in
            if hcOutputBytes c1 + m > max_bytes then c1\<lparr>hcByteLimit := True\<rparr>
            else c1\<lparr>hcLines := hcLines c1 @ [line], hcOutputBytes := hcOutputBytes c1 + m\<rparr>))"

definition collector_result :: "int \<Rightarrow> int \<Rightarrow> head_collector \<Rightarrow> truncation_result" where
  "collector_result max_lines max_bytes c0 =
     (let c = (if hcTotalLines c0 = 0 then collector_add max_lines max_bytes '''' c0 else c0);
          content = join [newline] (hcLines c);
          d = \<lparr>tdTruncated = False, tdTruncatedBy = '''', tdTotalLines = hcTotalLines c,
            tdTotalBytes = hcTotalBytes c, tdOutputLines = int (length (hcLines c)),
            tdOutputBytes = int (length content), tdLastLinePartial = False, tdFirstLineExceedsLimit = False,
            tdMaxLines = max_lines, tdMaxBytes = max_bytes\<rparr> in
      \<lparr>tnContent = content, tnDetails =
        (if hcTotalLines c > max_lines \<or> hcTotalBytes c > max_bytes
         then if hcByteLimit c
           then d\<lparr>tdTruncated := True, tdTruncatedBy := ''bytes'', tdFirstLineExceedsLimit := hcLines c = []\<rparr>
           else d\<lparr>tdTruncated := True, tdTruncatedBy := ''lines''\<rparr>
         else d)\<rparr>)"

record text_window =
  twTotalLines :: int
  twTruncation :: truncation_result

function window_loop ::
  "int \<Rightarrow> int \<Rightarrow> int \<Rightarrow> int \<Rightarrow> int \<Rightarrow> head_collector \<Rightarrow> string \<Rightarrow> int \<times> head_collector" where
  "window_loop start limit max_lines max_bytes seen c data =
     (case read_line data of (line, rest) \<Rightarrow>
        if line = '''' \<and> rest = None
        then (if seen = 0 then (1, if start = 0 then collector_add max_lines max_bytes '''' c else c) else (seen, c))
        else (let c1 = (if seen \<ge> start \<and> (limit = 0 \<or> seen < add_int start limit)
                 then collector_add max_lines max_bytes (clean_line line) c else c) in
              case rest of
                None \<Rightarrow> (seen + 1, c1)
              | Some r \<Rightarrow> window_loop start limit max_lines max_bytes (seen + 1) c1 r))"
  by pat_completeness auto
termination
  by (relation "measure (\<lambda>(start, limit, l, b, seen, c, data). length data)") (auto dest: read_line_shorter [OF sym])

declare window_loop.simps [simp del]

definition window_start :: "int \<Rightarrow> int" where
  "window_start offset = (if offset > 0 then offset - 1 else 0)"

definition read_text_window :: "string \<Rightarrow> int \<Rightarrow> int \<Rightarrow> int \<Rightarrow> int \<Rightarrow> text_window" where
  "read_text_window data offset limit max_lines max_bytes =
     (case window_loop (window_start offset) limit max_lines max_bytes 0 new_collector data of
        (seen, c) \<Rightarrow> \<lparr>twTotalLines = seen, twTruncation = collector_result max_lines max_bytes c\<rparr>)"

text \<open>The first and the last line \<open>Execute\<close> reports.\<close>

definition read_range :: "int \<Rightarrow> int \<Rightarrow> int \<Rightarrow> int \<times> int" where
  "read_range offset limit seen =
     (let start = min (window_start offset) seen in
      (start + 1, if limit > 0 \<and> add_int start limit < seen then add_int start limit else seen))"

subsection \<open>Editing\<close>

text \<open>
  \<open>strings.Count\<close> and \<open>strings.Replace\<close> for a text that is not empty: occurrences from the left, none
  overlapping.
\<close>

function count_text :: "string \<Rightarrow> string \<Rightarrow> nat" where
  "count_text old s =
     (if old = [] \<or> s = [] then 0
      else (case strip_prefix old s of Some r \<Rightarrow> Suc (count_text old r) | None \<Rightarrow> count_text old (tl s)))"
  by pat_completeness auto
termination
  by (relation "measure (\<lambda>(old, s). length s)") (auto simp: strip_prefix_Some_iff)

function replace_text :: "string \<Rightarrow> string \<Rightarrow> nat option \<Rightarrow> string \<Rightarrow> string" where
  "replace_text old new n s =
     (if old = [] \<or> s = [] \<or> n = Some 0 then s
      else (case strip_prefix old s of
          Some r \<Rightarrow> new @ replace_text old new (map_option (\<lambda>k. k - 1) n) r
        | None \<Rightarrow> hd s # replace_text old new n (tl s)))"
  by pat_completeness auto
termination
  by (relation "measure (\<lambda>(old, new, n, s). length s)") (auto simp: strip_prefix_Some_iff)

declare count_text.simps [simp del] replace_text.simps [simp del]

datatype edit_error = EditOldRequired | EditNotFound | EditAmbiguous nat

text \<open>The new content and the replacements reported.\<close>

definition edit_content :: "string \<Rightarrow> string \<Rightarrow> bool \<Rightarrow> string \<Rightarrow> edit_error + string \<times> nat" where
  "edit_content old new replace_all content =
     (if old = '''' then Inl EditOldRequired
      else (let count = count_text old content in
        if count = 0 then Inl EditNotFound
        else if \<not> replace_all \<and> count \<noteq> 1 then Inl (EditAmbiguous count)
        else Inr (replace_text old new (if replace_all then None else Some 1) content,
                  if replace_all then count else 1)))"

text \<open>What a write leaves in a file that held the old content.\<close>

definition write_content :: "string option \<Rightarrow> string \<Rightarrow> bool \<Rightarrow> string" where
  "write_content old content appending =
     (if appending then (case old of None \<Rightarrow> '''' | Some before \<Rightarrow> before) @ content else content)"

end
