(* ===== verification/ReadWindow.thy ===== *)
theory ReadWindow
  imports WorkspaceFiles
begin

text \<open>
  The lines of a file and the window of them the read tool shows: reading line by line with the
  running totals gives what cutting the whole text would give.
\<close>

subsection \<open>Lines\<close>

definition line_of :: "string \<Rightarrow> string" where
  "line_of piece = valid_utf8_from False (trim_suffix carriage piece)"

text \<open>The lines of a file, and the window asked for.\<close>

definition file_lines :: "string \<Rightarrow> string list" where
  "file_lines data = map line_of (split_lines_for_counting data)"

definition line_window :: "int \<Rightarrow> int \<Rightarrow> string list \<Rightarrow> string list" where
  "line_window start limit ls =
     (let w = drop (nat start) ls in if limit = 0 then w else take (nat limit) w)"

function raw_lines :: "string \<Rightarrow> string list" where
  "raw_lines s =
     (case read_line s of (l, None) \<Rightarrow> if l = [] then [] else [l] | (l, Some r) \<Rightarrow> butlast l # raw_lines r)"
  by pat_completeness auto
termination
  by (relation "measure length") (auto dest: read_line_shorter [OF sym])

declare raw_lines.simps [simp del]

lemma to_newline:
  "newline \<notin> set l \<Longrightarrow> dropWhile (\<lambda>c. c \<noteq> newline) (l @ newline # r) = newline # r"
  "newline \<notin> set l \<Longrightarrow> takeWhile (\<lambda>c. c \<noteq> newline) (l @ newline # r) = l"
  "newline \<notin> set l \<Longrightarrow> dropWhile (\<lambda>c. c \<noteq> newline) l = []"
  by (induction l) auto

lemma read_line_None: "newline \<notin> set s \<Longrightarrow> read_line s = (s, None)"
  by (simp add: read_line_def to_newline)

lemma read_line_Some: "newline \<notin> set l \<Longrightarrow> read_line (l @ newline # r) = (l @ [newline], Some r)"
  by (simp add: read_line_def to_newline)

lemma split_on_piece: "newline \<notin> set l \<Longrightarrow> split_on newline (l @ newline # r) = l # split_on newline r"
  by (induction l) auto

lemma split_on_no_piece: "newline \<notin> set l \<Longrightarrow> split_on newline l = [l]"
  by (induction l) auto

lemma first_piece:
  obtains (whole) "newline \<notin> set s" | (piece) l r where "s = l @ newline # r" "newline \<notin> set l" "length r < length s"
proof (cases "newline \<in> set s")
  case True
  then obtain l r where s: "s = l @ newline # r" "newline \<notin> set l" using split_list_first by metis
  then have "length r < length s" by simp
  with s show ?thesis by (rule piece)
qed (rule whole)

lemma counted_lines: "split_lines_for_counting s = (if s = [] then [[]] else raw_lines s)"
proof (induction s rule: length_induct)
  case (1 s)
  show ?case
  proof (cases rule: first_piece [of s])
    case whole
    then show ?thesis
      by (simp add: split_lines_for_counting_def split_on_no_piece raw_lines.simps [of s] read_line_None)
  next
    case (piece l r)
    have "split_lines_for_counting s = l # (if r = [] then [] else split_lines_for_counting r)"
      using split_on_nonempty [of newline r]
      by (cases r) (auto simp: split_lines_for_counting_def piece split_on_piece Let_def split: list.splits)
    also have "\<dots> = l # raw_lines r"
      using 1 piece(3) by (simp add: raw_lines.simps [of "[]"] read_line_None)
    also have "\<dots> = raw_lines s"
      unfolding piece(1) by (simp add: raw_lines.simps [of "l @ newline # r"] read_line_Some [OF piece(2)])
    finally show ?thesis using piece by simp
  qed
qed

subsection \<open>The window\<close>

fun picked :: "(int \<Rightarrow> bool) \<Rightarrow> int \<Rightarrow> 'a list \<Rightarrow> 'a list" where
  "picked p i [] = []"
| "picked p i (x # xs) = (if p i then [x] else []) @ picked p (i + 1) xs"

lemma picked_all: "\<forall>j \<ge> i. p j \<Longrightarrow> picked p i xs = xs"
  by (induction xs arbitrary: i) auto

lemma picked_window:
  assumes "0 \<le> m"
  shows "picked (\<lambda>j. s \<le> j \<and> (m = 0 \<or> j < s + m)) i xs =
    (let w = drop (nat (s - i)) xs in if m = 0 then w else take (nat (s + m - max i s)) w)"
proof (induction xs arbitrary: i)
  case (Cons x xs)
  consider "i < s" | "s \<le> i" "m = 0" | "s \<le> i" "m \<noteq> 0" "i < s + m" | "s \<le> i" "m \<noteq> 0" "s + m \<le> i" by linarith
  then show ?case
  proof cases
    case 1
    then have "nat (s - i) = Suc (nat (s - (i + 1)))" by simp
    with 1 Cons show ?thesis by (simp add: Let_def max_def)
  next
    case 3
    then have "nat (s + m - max i s) = Suc (nat (s + m - max (i + 1) s))" by simp
    with 3 Cons show ?thesis by simp
  qed (use Cons in simp_all)
qed simp

lemma window_loop_lines:
  assumes "0 < seen \<or> data \<noteq> []" "0 \<le> seen"
  shows "window_loop start limit L B seen c data =
    (seen + int (length (raw_lines data)),
     foldl (\<lambda>c l. collector_add L B l c) c
       (picked (\<lambda>j. start \<le> j \<and> (limit = 0 \<or> j < add_int start limit)) seen (map line_of (raw_lines data))))"
  using assms
proof (induction data arbitrary: seen c rule: length_induct)
  case (1 data)
  show ?case
  proof (cases rule: first_piece [of data])
    case whole
    then have "clean_line data = line_of data"
      by (auto simp: clean_line_def line_of_def trim_suffix_def [of newline] dest: last_in_set)
    with whole 1(2) show ?thesis
      by (cases "data = []")
        (simp add: window_loop.simps [of _ _ _ _ _ _ "[]"] raw_lines.simps [of "[]"] read_line_None,
         auto simp: window_loop.simps [of _ _ _ _ _ _ data] raw_lines.simps [of data] read_line_None Let_def)
  next
    case (piece l r)
    have line: "clean_line (l @ [newline]) = line_of l" by (simp add: clean_line_def line_of_def trim_suffix_def [of newline])
    have "0 < seen + 1 \<or> r \<noteq> []" "0 \<le> seen + 1" using 1(3) by simp_all
    note rest = 1(1) [rule_format, OF piece(3) this]
    show ?thesis
      unfolding piece(1)
      by (auto simp: window_loop.simps [of _ _ _ _ _ _ "l @ newline # r"] raw_lines.simps [of "l @ newline # r"]
          read_line_Some [OF piece(2)] Let_def line rest)
  qed
qed

subsection \<open>The collector\<close>

abbreviation collect :: "int \<Rightarrow> int \<Rightarrow> head_collector \<Rightarrow> string list \<Rightarrow> head_collector" where
  "collect L B c ls \<equiv> foldl (\<lambda>c l. collector_add L B l c) c ls"

lemma collect_stopped:
  "int (length (hcLines c)) \<ge> L \<or> hcByteLimit c \<Longrightarrow>
   hcLines (collect L B c ls) = hcLines c \<and> hcByteLimit (collect L B c ls) = hcByteLimit c"
  by (induction ls arbitrary: c) (auto simp: collector_add_def Let_def)

lemma collect_lines:
  "take_lines L B (int (length (hcLines c))) ls (hcLines c) (hcOutputBytes c) = (r, by) \<Longrightarrow> \<not> hcByteLimit c \<Longrightarrow>
   hcLines (collect L B c ls) = r \<and> hcByteLimit (collect L B c ls) = (by = ''bytes'')"
proof (induction ls arbitrary: c)
  case (Cons l ls)
  let ?c = "collector_add L B l c"
  consider (full) "int (length (hcLines c)) \<ge> L"
    | (over) "int (length (hcLines c)) < L" "hcOutputBytes c + (int (length l) + (if hcLines c \<noteq> [] then 1 else 0)) > B"
    | (room) "int (length (hcLines c)) < L" "\<not> hcOutputBytes c + (int (length l) + (if hcLines c \<noteq> [] then 1 else 0)) > B"
    by linarith
  then show ?case
  proof cases
    case full
    with collect_stopped [of L c B "l # ls"] Cons.prems show ?thesis by auto
  next
    case over
    then have c: "hcLines ?c = hcLines c" "hcByteLimit ?c" using Cons.prems(2) by (auto simp: collector_add_def Let_def)
    with collect_stopped [of L ?c B ls] Cons.prems over show ?thesis by (auto simp: Let_def split: if_splits)
  next
    case room
    then have c: "hcLines ?c = hcLines c @ [l]" "\<not> hcByteLimit ?c"
      "hcOutputBytes ?c = hcOutputBytes c + (int (length l) + (if hcLines c \<noteq> [] then 1 else 0))"
      using Cons.prems(2) by (auto simp: collector_add_def Let_def)
    have "take_lines L B (int (length (hcLines ?c))) ls (hcLines ?c) (hcOutputBytes ?c) = (r, by)"
      using Cons.prems(1) room c by (auto simp: Let_def add.commute split: if_splits)
    from Cons.IH [OF this c(2)] show ?thesis by simp
  qed
qed auto

lemma collector_totals [simp]:
  "hcTotalLines (collector_add L B l c) = hcTotalLines c + 1"
  "hcTotalBytes (collector_add L B l c) = (if hcTotalLines c > 0 then hcTotalBytes c + 1 else hcTotalBytes c) + int (length l)"
  by (simp_all add: collector_add_def Let_def)

lemma collect_totals:
  "hcTotalLines (collect L B new_collector ls) = int (length ls) \<and>
   hcTotalBytes (collect L B new_collector ls) = int (length (join [newline] ls))"
  by (induction ls rule: rev_induct) (simp_all add: new_collector_def length_join_snoc)

lemma split_join_lines:
  "ls \<noteq> [] \<Longrightarrow> \<forall>l \<in> set ls. newline \<notin> set l \<Longrightarrow> split_on newline (join [newline] ls) = ls"
proof (induction ls)
  case (Cons l ls)
  then show ?case by (cases ls) (simp_all add: split_on_no_piece split_on_piece)
qed simp

lemma join_take_le: "length (join [c] (take n ls)) \<le> length (join [c] ls)"
proof (cases "take n ls = [] \<or> drop n ls = []")
  case False
  then have "join [c] (take n ls @ drop n ls) = join [c] (take n ls) @ [c] @ join [c] (drop n ls)"
    by (intro join_append) auto
  then show ?thesis by simp
qed auto

lemma collector_result_cut:
  assumes "ls \<noteq> []" "\<forall>l \<in> set ls. newline \<notin> set l" "0 < L" "0 \<le> B"
  shows "collector_result L B (collect L B new_collector ls) = truncate_head (join [newline] ls) L B"
proof -
  let ?c = "collect L B new_collector ls" and ?content = "join [newline] ls"
  obtain r why where taken: "take_lines L B 0 ls [] 0 = (r, why)" by fastforce
  then have c: "hcLines ?c = r" "hcByteLimit ?c = (why = ''bytes'')"
    using collect_lines [of L B new_collector ls r why] by (simp_all add: new_collector_def)
  have totals: "hcTotalLines ?c = int (length ls)" "hcTotalBytes ?c = int (length ?content)" using collect_totals by simp_all
  have some: "hcTotalLines ?c \<noteq> 0" using assms(1) totals by simp
  note split = split_join_lines [OF assms(1,2)]
  have why: "why = ''bytes'' \<or> why = ''lines''"
  proof -
    have "snd (take_lines L B i ls out used) \<in> {''bytes'', ''lines''}" for i out used
      by (induction L B i ls out used rule: take_lines.induct) (auto simp: Let_def)
    from this [of 0 "[]" 0] taken show ?thesis by auto
  qed
  from taken obtain n where n: "r = take n ls" "n \<le> length ls" "n < length ls \<longrightarrow> \<not> within_limits L B (take (Suc n) ls)"
    using take_lines_longest [of L B "[]" ls r why] assms(3,4) by (auto simp: join_single_empty)
  show ?thesis
  proof (cases "int (length ls) \<le> L \<and> int (length ?content) \<le> B")
    case True
    have "r = ls"
    proof (rule ccontr)
      assume "r \<noteq> ls"
      then have "n < length ls" using n(1,2) by (cases "n = length ls") simp_all
      with n(3) have "\<not> within_limits L B (take (Suc n) ls)" by simp
      moreover have "length (join [newline] (take (Suc n) ls)) \<le> length ?content" by (rule join_take_le)
      ultimately show False using True by (auto simp: within_limits_def min_def split: if_splits)
    qed
    with True assms(1) show ?thesis
      by (simp add: collector_result_def some totals c truncate_head_def split whole_details_def Let_def)
  next
    case False
    show ?thesis
    proof (cases "int (length (hd ls)) > B")
      case True
      with taken assms(1,3) have "r = []" "why = ''bytes''" by (cases ls; auto simp: Let_def split: if_splits)+
      with True False assms(1) show ?thesis
        by (auto simp: collector_result_def some totals c truncate_head_def split whole_details_def Let_def)
    next
      case fits: False
      have "r \<noteq> []"
      proof
        assume "r = []"
        with n(1) assms(1) have "n = 0" by simp
        with n(3) assms fits show False by (cases ls) (auto simp: within_limits_def)
      qed
      with fits False taken why show ?thesis
        by (auto simp: collector_result_def some totals c truncate_head_def split whole_details_def Let_def)
    qed
  qed
qed

lemma collector_result_empty: "collector_result L B new_collector = collector_result L B (collect L B new_collector [[]])"
  by (simp add: collector_result_def new_collector_def Let_def)

end
