(* ===== verification/WorkspaceProperties.thy ===== *)
theory WorkspaceProperties
  imports WorkspacePaths ReadWindow
begin

text \<open>
  What the workspace tools promise: a path they accept is a path below the workspace, free of
  symbolic links as far as it exists; a window of lines is read as if the whole text had been cut;
  and an edit replaces the one place meant.
\<close>

subsection \<open>Real paths\<close>

definition plain_name :: "string \<Rightarrow> bool" where
  "plain_name e \<longleftrightarrow> e \<noteq> ''.'' \<and> e \<noteq> ''..''"

text \<open>A directory reached without a link, and a directory or a file reached so.\<close>

definition dir_path :: "file_system \<Rightarrow> string list \<Rightarrow> bool" where
  "dir_path fs p \<longleftrightarrow> (\<forall>k < length p. plain_name (p ! k) \<and> fs (take (Suc k) p) = StatDir)"

definition real_path :: "file_system \<Rightarrow> string list \<Rightarrow> bool" where
  "real_path fs p \<longleftrightarrow> dir_path fs p \<or> (p \<noteq> [] \<and> dir_path fs (butlast p) \<and> plain_name (last p) \<and> fs p = StatFile)"

lemma dir_path_Nil [simp]: "dir_path fs []"
  by (simp add: dir_path_def)

lemma dir_path_snoc [simp]: "dir_path fs (p @ [e]) \<longleftrightarrow> dir_path fs p \<and> plain_name e \<and> fs (p @ [e]) = StatDir"
  by (auto simp: dir_path_def nth_append less_Suc_eq)


lemma dir_path_append: "dir_path fs (p @ q) \<Longrightarrow> dir_path fs p"
  by (induction q rule: rev_induct) (simp_all flip: append_assoc)



lemma dir_path_walk: "dir_path fs (d @ es) \<Longrightarrow> walk_links fs n d (es @ ys) = walk_links fs n (d @ es) ys"
proof (induction es arbitrary: d)
  case (Cons e es)
  then have "dir_path fs ((d @ [e]) @ es)" by simp
  moreover from dir_path_append [OF this] have "plain_name e" "fs (d @ [e]) = StatDir" by simp_all
  ultimately show ?case using Cons.IH [of "d @ [e]"] by (simp add: plain_name_def)
qed simp

lemma real_path_walk: "real_path fs p \<Longrightarrow> eval_symlinks fs p = Inr p"
proof (cases p rule: rev_cases)
  case (snoc q e)
  assume r: "real_path fs p"
  show ?thesis
  proof (cases "dir_path fs p")
    case True
    then show ?thesis using dir_path_walk [of fs "[]" p _ "[]"] by (simp add: eval_symlinks_def)
  next
    case False
    with r snoc have d: "dir_path fs q" "plain_name e" "fs (q @ [e]) = StatFile" by (auto simp: real_path_def)
    then show ?thesis using dir_path_walk [of fs "[]" q 255 "[e]"] by (simp add: eval_symlinks_def snoc plain_name_def)
  qed
qed (simp add: eval_symlinks_def)



subsection \<open>What is accepted\<close>










text \<open>A workspace with a link out of it whose target does not exist.\<close>

definition example_fs :: file_system where
  "example_fs p =
     (if p = [] \<or> p = [''etc''] \<or> p = [''w''] \<or> p = [''w'', ''d''] then StatDir
      else if p = [''w'', ''l''] then StatLink ''/etc/new'' else StatMissing)"



text \<open>
  Where a file is created that is opened by a path, the kernel following the links: the last name may
  be missing.
\<close>

definition created_at :: "file_system \<Rightarrow> string list \<Rightarrow> string list option" where
  "created_at fs p =
     (case fs p of
        StatLink t \<Rightarrow> if is_abs t then Some (path_elements t) else Some (butlast p @ path_elements t)
      | _ \<Rightarrow> Some p)"

text \<open>The link's target is outside, but does not exist, so the link's own path is accepted.\<close>

lemma dangling_link_accepted:
  "resolve_inside example_fs [''w''] ''l'' = Inr \<lparr>rvAbs = [''w'', ''l''], rvRel = ''l''\<rparr>"
  "created_at example_fs [''w'', ''l''] = Some [''etc'', ''new'']"
  by code_simp+


subsection \<open>Reading\<close>

lemma valid_utf8_newline: "newline \<notin> set s \<Longrightarrow> newline \<notin> set (valid_utf8_from r s)"
proof (induction r s rule: valid_utf8_from.induct)
  case (1 r s)
  have "newline \<notin> set rune_error" by code_simp
  with 1 show ?case
    by (subst valid_utf8_from.simps) (auto dest: in_set_takeD in_set_dropD list.set_sel(2))
qed

lemma split_on_plain: "x \<in> set (split_on c s) \<Longrightarrow> c \<notin> set x"
  by (induction s arbitrary: x) (auto split: if_splits list.splits)

lemma file_lines_plain: "l \<in> set (file_lines data) \<Longrightarrow> newline \<notin> set l"
proof -
  assume "l \<in> set (file_lines data)"
  then obtain x where x: "x \<in> set (split_lines_for_counting data)" "l = line_of x" by (auto simp: file_lines_def)
  then have "x \<in> set (split_on newline data)"
    by (auto simp: split_lines_for_counting_def Let_def split: if_splits dest: in_set_butlastD)
  then have "newline \<notin> set x" by (rule split_on_plain)
  then have "newline \<notin> set (trim_suffix carriage x)" by (auto simp: trim_suffix_def dest: in_set_butlastD)
  then show ?thesis by (simp add: x(2) line_of_def valid_utf8_newline)
qed

lemma window_in: "x \<in> set (line_window s m ls) \<Longrightarrow> x \<in> set ls"
  by (auto simp: line_window_def Let_def split: if_splits dest: in_set_takeD in_set_dropD)

text \<open>
  C22. Whatever the file, the read tool counts all its lines, and what it shows of the lines asked for
  is exactly what cutting their text to both limits gives, so the report of the truncation is that
  of the cut too. Offset and limit are not negative and their sum is an \<open>int\<close>.
\<close>

theorem read_window_exact:
  assumes "0 < L" "0 \<le> B" "0 \<le> limit" "window_start offset + limit < 2 ^ 63"
  shows "read_text_window data offset limit L B =
    \<lparr>twTotalLines = int (length (file_lines data)),
     twTruncation = truncate_head (join [newline] (line_window (window_start offset) limit (file_lines data))) L B\<rparr>"
proof -
  let ?s = "window_start offset"
  have s: "0 \<le> ?s" by (simp add: window_start_def)
  with assms(3,4) have sum: "add_int ?s limit = ?s + limit" by (simp add: add_int_def)
  let ?w = "line_window ?s limit (file_lines data)"
  have lines: "file_lines data = (if data = [] then [line_of []] else map line_of (raw_lines data))"
    by (simp add: file_lines_def counted_lines)
  have pick: "picked (\<lambda>j. ?s \<le> j \<and> (limit = 0 \<or> j < add_int ?s limit)) 0 (file_lines data) = ?w"
    unfolding sum picked_window [OF assms(3)] line_window_def using s by (simp add: Let_def max_def)
  have loop: "window_loop ?s limit L B 0 new_collector data = (int (length (file_lines data)), collect L B new_collector ?w)"
  proof (cases "data = []")
    case True
    have one: "file_lines [] = [[]]" by code_simp
    with True s assms(3) show ?thesis
      by (cases "?s = 0"; cases "limit = 0")
        (auto simp: window_loop.simps [of _ _ _ _ _ _ "[]"] read_line_None line_window_def Let_def take_Cons' drop_Cons')
  next
    case False
    with pick window_loop_lines [of 0 data ?s limit L B new_collector] show ?thesis by (simp add: lines)
  qed
  have plain: "\<forall>l \<in> set ?w. newline \<notin> set l" using file_lines_plain window_in by blast
  have "collector_result L B (collect L B new_collector ?w) = truncate_head (join [newline] ?w) L B"
  proof (cases "?w = []")
    case True
    then show ?thesis using collector_result_empty [of L B] collector_result_cut [of "[[]]" L B] assms(1,2) by simp
  next
    case False
    then show ?thesis using plain assms(1,2) by (rule collector_result_cut)
  qed
  with loop show ?thesis by (simp add: read_text_window_def)
qed

theorem read_window_exact_witness:
  "read_text_window ''a0b0c'' 1 0 2000 3 =
     \<lparr>twTotalLines = 1, twTruncation = truncate_head ''a0b0c'' 2000 3\<rparr>"
proof -
  have lines: "file_lines ''a0b0c'' = [''a0b0c'']" by code_simp
  have start: "window_start 1 = 0" by (simp add: window_start_def)
  show ?thesis using read_window_exact [of 2000 3 0 1 "''a0b0c''"] by (simp add: lines start line_window_def)
qed

text \<open>A limit so large that the sum wraps shows nothing.\<close>

lemma huge_limit_reads_nothing: "add_int (window_start 2) (2 ^ 63 - 1) < 0"
  by (simp add: add_int_def window_start_def)

subsection \<open>Editing\<close>

lemma count_text_split:
  "old \<noteq> [] \<Longrightarrow> count_text old s \<noteq> 0 \<Longrightarrow>
   \<exists>a b. s = a @ old @ b \<and> count_text old s = Suc (count_text old b) \<and> replace_text old new (Some 1) s = a @ new @ b"
proof (induction old s rule: count_text.induct)
  case (1 old s)
  show ?case
  proof (cases "strip_prefix old s")
    case None
    with 1 have s: "s \<noteq> []" "count_text old (tl s) = count_text old s"
      by (auto simp: count_text.simps [of old s] split: if_splits)
    with 1 None obtain a b where "tl s = a @ old @ b" "count_text old (tl s) = Suc (count_text old b)"
      "replace_text old new (Some 1) (tl s) = a @ new @ b" by (metis not_Some_eq)
    with s have "s = (hd s # a) @ old @ b" "count_text old s = Suc (count_text old b)" by (cases s; simp)+
    moreover have "replace_text old new (Some 1) s = (hd s # a) @ new @ b"
      using s None 1(3) \<open>replace_text old new (Some 1) (tl s) = a @ new @ b\<close> by (simp add: replace_text.simps [of _ _ _ s])
    ultimately show ?thesis by blast
  next
    case (Some r)
    with 1(3) have "s = old @ r" "s \<noteq> []" by (auto simp: strip_prefix_Some_iff)
    moreover have "replace_text old new (Some 0) r = r" by (simp add: replace_text.simps)
    ultimately have "s = [] @ old @ r" "count_text old s = Suc (count_text old r)" "replace_text old new (Some 1) s = [] @ new @ r"
      using Some 1(3) by (simp_all add: count_text.simps [of old "old @ r"] replace_text.simps [of _ _ _ "old @ r"])
    then show ?thesis by blast
  qed
qed

text \<open>
  An edit of one place replaces it and nothing else, and no place that does not overlap it holds the
  old text.
\<close>

lemma edit_one_place:
  assumes "edit_content old new False content = Inr (out, n)"
  shows "n = 1 \<and> (\<exists>a b. content = a @ old @ b \<and> out = a @ new @ b \<and> count_text old b = 0)"
proof -
  from assms have "old \<noteq> []" "count_text old content = 1" "out = replace_text old new (Some 1) content" "n = 1"
    by (auto simp: edit_content_def Let_def split: if_splits)
  with count_text_split [of old content new] show ?thesis by auto
qed

text \<open>Two places that overlap count as one.\<close>

lemma overlapping_edit_accepted: "edit_content ''aa'' ''b'' False ''aaa'' = Inr (''ba'', 1)"
  by code_simp

end
