(* ===== verification/Spec2Isabelle.thy ===== *)
theory Spec2Isabelle
  imports CoreProperties TransformProperties ServiceProperties ToolProperties CompactionProperties RepositoryRuns
    HarnessProperties ProviderProperties RateProperties WorkspaceProperties
begin

text \<open>
  A verification library for the Ops Plane server (Go, under \<open>src/internal\<close>): the agent that works for a
  user, the sessions it is stored in, and the services that show it and guard it.

  \<^bold>\<open>The program.\<close> A browser posts a prompt to the HTTP API. The API reserves a run
  (\<open>api/run_manager.go\<close>) and asks the session's harness (\<open>agent/runtime/agent_harness.go\<close>) to prompt its
  agent (\<open>agent/core/agent.go\<close>). The agent runs the loop of \<open>agent/core/agent_loop.go\<close>: it streams an answer
  of a provider (\<open>agent/ai/api/openai_completion.go\<close>, through the event stream of \<open>agent/ai/stream.go\<close>),
  runs the tools the answer calls (\<open>agent/core/tool_runner.go\<close>), and goes on while there are calls or
  queued messages. The events it publishes are frames for the browser, and the harness writes the
  messages they end to the session (\<open>agent/runtime/session\<close>), a tree of entries in one file, which
  compaction (\<open>agent/runtime/compaction\<close>) shortens when it outgrows the model. Beside this stand the
  tools that touch the workspace, the logs of child processes, and the rate limits.

  \<^bold>\<open>How Go is modelled.\<close> A \<open>struct\<close> is a record, a type switch a datatype, a byte string a list of
  characters, a \<open>time.Time\<close> its nanoseconds since the zero time; an error is a value of a sum or an
  option, and where the code can panic the operation is an option too. An object shared through
  pointers is a position in a heap. A part of an operation that runs under its lock is one step, an
  operation that releases the lock is several, and the properties quantify over every sequence of
  steps. Integers are \<open>int\<close>, with the wrap-around written out where a bound of the code does not keep
  them small (\<open>add_int\<close>, \<open>time_sub\<close>, the bits of a float in \<open>json_fits\<close>).

  \<^bold>\<open>Foundations.\<close> \<open>Prelude\<close> (lists, \<open>strings\<close>), \<open>Texts\<close> and \<open>Utf8\<close> (\<open>unicode/utf8\<close>), \<open>JsonScan\<close>, \<open>Json\<close>,
  \<open>JsonDecode\<close> and \<open>JsonWrite\<close> (\<open>encoding/json\<close>: the scanner, the parser, strings as they are written),
  \<open>Channels\<close> (buffered channels), \<open>Forest\<close> (a locale for stores whose nodes name their parents).

  \<^bold>\<open>Protocol.\<close> \<open>Protocol\<close> has the contents and messages of \<open>agent/ai/content.go\<close> and \<open>message.go\<close> with their
  validation and token estimates, \<open>Events\<close> the events of \<open>event.go\<close> and \<open>types.go\<close>, \<open>MessageSequence\<close> the
  analysis of \<open>session/message_sequence.go\<close>: which histories answer every tool call.

  \<^bold>\<open>Sessions.\<close> \<open>SessionTypes\<close>, \<open>SessionTree\<close>: entries, append, load, fork, labels, paths and contexts of
  \<open>session/session.go\<close>. \<open>SessionInvariant\<close>, \<open>SessionContext\<close>, \<open>SessionFork\<close>, \<open>SessionReload\<close>: the tree is sound after
  every operation, what a context holds, what a fork keeps, and that a stored history loads back.
  \<open>Repository\<close>, \<open>RepositoryRuns\<close>: \<open>repository.go\<close> and \<open>jsonl_storage.go\<close> with their operations interleaved.
  Properties in \<open>SessionProperties\<close> and \<open>RepositoryRuns\<close>.

  \<^bold>\<open>Agent core.\<close> \<open>CoreTypes\<close> (calls with effects, \<open>io\<close>), \<open>AgentLoop\<close>, \<open>ToolRunner\<close>, \<open>MessageQueue\<close>, \<open>AgentState\<close>,
  \<open>Agent\<close>, \<open>AssistantStream\<close>. \<open>LoopTrace\<close> states the protocol of events as an automaton and \<open>LoopSafety\<close>
  proves it of every run, inside the locales \<open>logged_run\<close>, \<open>lossy_run\<close> and \<open>cancellable_run\<close> that say what
  the loop asks of its event sink; \<open>ToolRunnerResults\<close>, \<open>ToolRunnerSafety\<close> and \<open>ToolRunnerErrors\<close> prove the
  runner's part, and \<open>AgentSafety\<close> and \<open>AgentRuns\<close> interpret the locales with the agent itself. Properties
  in \<open>CoreProperties\<close>.

  \<^bold>\<open>Models.\<close> \<open>TransformMessages\<close> (\<open>ai/api/transform_messages.go\<close>) replays a history to another model;
  \<open>ModelMessages\<close> translates messages to the provider's and back, \<open>ProviderStream\<close> reads its answer, and
  \<open>ProviderSafety\<close> follows the events pushed. Properties in \<open>TransformProperties\<close>, \<open>ProviderProperties\<close>.

  \<^bold>\<open>Compaction.\<close> \<open>CutPoint\<close>, \<open>FileOperations\<close>, \<open>FileDetails\<close>, \<open>Conversation\<close>, \<open>SummaryPrompts\<close>, \<open>Compaction\<close>,
  \<open>CompactionContext\<close>; properties in \<open>CompactionProperties\<close>.

  \<^bold>\<open>Harness.\<close> \<open>HarnessTypes\<close>, \<open>Harness\<close>, \<open>HarnessSettings\<close> have the operations of \<open>agent_harness.go\<close> and
  \<open>agent_harness_compaction.go\<close>, \<open>HarnessRuns\<close> interleaves them, \<open>HarnessSlot\<close> and \<open>HarnessJournal\<close> prove the
  run slot and the pending writes. Properties in \<open>HarnessProperties\<close>.

  \<^bold>\<open>Services.\<close> \<open>LogHub\<close> (\<open>loghub/hub.go\<close>, with the locale \<open>retained_log\<close>), \<open>ConnectionLogs\<close> (\<open>mcp/logs.go\<close>),
  \<open>ConsoleHub\<close> (\<open>console/hub.go\<close>), \<open>RunFrames\<close>, \<open>RunState\<close>, \<open>RunStreams\<close>, \<open>RunManager\<close>, \<open>RunService\<close>
  (\<open>api/run_manager.go\<close>, limits of \<open>config/config.go\<close>); properties in \<open>ServiceProperties\<close>. \<open>RateLimits\<close>
  (\<open>api/ratelimit.go\<close>, \<open>httprate/limiter.go\<close>); properties in \<open>RateProperties\<close>. \<open>Truncate\<close>, \<open>WorkspacePaths\<close>,
  \<open>WorkspaceFiles\<close>, \<open>ReadWindow\<close> (\<open>tools/workspace\<close>); properties in \<open>ToolProperties\<close> and
  \<open>WorkspaceProperties\<close>.

  \<^bold>\<open>Bounds and fuel.\<close> The loop of a run counts its turns down from the configured bound, as the code does.
  A session tries a hundred generated ids before it gives up, as the code does. The climb to a safe
  boundary may not end in general, so it is a partial function, and it is proved to end on every sound
  tree. The JSON parser gets twice the length of the document as fuel, which \<open>JsonDecode\<close> proves to be
  enough for every document the scanner accepts. Following links stops after 255 as in Go.

  \<^bold>\<open>Parameters.\<close> The outcome of each file operation, clocks, generated ids, schedules of goroutines, the
  JSON schema package, the model package with its merging of chunks, the model that writes summaries,
  token buckets, the address package, and the file system as a function from paths.

  \<^bold>\<open>Not modelled.\<close> The MCP connection manager (child processes, retries and their state machine; its logs
  are modelled), the skill store and prompt templates (directories of files), the runtime database (SQL
  and code generated from it), the HTTP handlers and the start of the program (decoding, one call,
  encoding), the nodelet and Docker clients, authentication (hashing and tokens of other packages), and
  the tools that run commands or search. These are I/O around the parts above.
\<close>

end
